(* ===== verification/Kernel_Prelude.thy ===== *)
theory Kernel_Prelude
  imports Main "HOL-Library.Word"
begin

text \<open>
  Shared vocabulary of the development: the machine integer types, kernel panics as values,
  C strings, the byte-addressed view of physical memory, and the alignment arithmetic that
  \<^verbatim>\<open>kernel/memory.c\<close>, \<^verbatim>\<open>kernel/scheduler.c\<close> and \<^verbatim>\<open>kernel/user.c\<close> each define for themselves.
\<close>

unbundle bit_operations_syntax

named_theorems align_simps \<open>alignment arithmetic on 64-bit addresses\<close>
named_theorems cstr_simps \<open>C string helpers as list operations\<close>
named_theorems mem_simps \<open>reads over writes of physical memory\<close>

type_synonym u8 = "8 word"
type_synonym u16 = "16 word"
type_synonym u32 = "32 word"
type_synonym u64 = "64 word"

abbreviation PAGE_SIZE :: u64 where "PAGE_SIZE \<equiv> 4096"

text \<open>The value \<^verbatim>\<open>(uint64_t)-1\<close> that the kernel's calls return on failure.\<close>

abbreviation U64_FAIL :: u64 where "U64_FAIL \<equiv> - 1"

subsection \<open>Kernel panics as values\<close>

text \<open>
  \<^verbatim>\<open>kernel_panic\<close> never returns. A call that may panic returns \<open>Inl message\<close> where the source
  panics with that message and \<open>Inr result\<close> otherwise.
\<close>

type_synonym 'a kres = "string + 'a"

definition kbind :: "'a kres \<Rightarrow> ('a \<Rightarrow> 'b kres) \<Rightarrow> 'b kres" where
  "kbind r f = (case r of Inl msg \<Rightarrow> Inl msg | Inr x \<Rightarrow> f x)"

lemma kbind_simps [simp]:
  "kbind (Inl msg) f = Inl msg"
  "kbind (Inr x) f = f x"
  by (simp_all add: kbind_def)

lemma kbind_eq_Inr [simp]: "kbind r f = Inr y \<longleftrightarrow> (\<exists>x. r = Inr x \<and> f x = Inr y)"
  by (cases r) auto

lemma kbind_eq_Inl: "kbind r f = Inl msg \<longleftrightarrow> r = Inl msg \<or> (\<exists>x. r = Inr x \<and> f x = Inl msg)"
  by (cases r) auto

lemma kbind_cong [fundef_cong]:
  "r = r' \<Longrightarrow> (\<And>x. r' = Inr x \<Longrightarrow> f x = f' x) \<Longrightarrow> kbind r f = kbind r' f'"
  by (cases r') auto

text \<open>
  Code that may also run forever (a search over a list whose links form a cycle): \<^const>\<open>None\<close> is not returning.
\<close>

type_synonym 'a krun = "'a kres option"

definition rbind :: "'a krun \<Rightarrow> ('a \<Rightarrow> 'b krun) \<Rightarrow> 'b krun" where
  "rbind m f = (case m of None \<Rightarrow> None | Some (Inl msg) \<Rightarrow> Some (Inl msg) | Some (Inr x) \<Rightarrow> f x)"

lemma rbind_simps [simp]:
  "rbind None f = None" "rbind (Some (Inl msg)) f = Some (Inl msg)" "rbind (Some (Inr x)) f = f x"
  by (simp_all add: rbind_def)

lemma rbind_eq_Some_Inr:
  "rbind m f = Some (Inr y) \<longleftrightarrow> (\<exists>x. m = Some (Inr x) \<and> f x = Some (Inr y))"
  by (auto simp: rbind_def split: option.splits sum.splits)

subsection \<open>Alignment\<close>

definition align_down :: "u64 \<Rightarrow> u64 \<Rightarrow> u64" where
  "align_down value align = value AND NOT (align - 1)"

definition align_up :: "u64 \<Rightarrow> u64 \<Rightarrow> u64" where
  "align_up value align = (value + align - 1) AND NOT (align - 1)"

lemma and_not_mask_eq:
  fixes v :: u64
  shows "v AND NOT (mask n) = push_bit n (drop_bit n v)"
  by (rule bit_word_eqI) (auto simp: bit_simps)

lemma align_down_eq: "align_down v (2 ^ n) = push_bit n (drop_bit n v)"
proof -
  have "align_down v (2 ^ n) = v AND NOT (mask n)"
    by (simp add: align_down_def mask_eq_exp_minus_1)
  then show ?thesis by (simp only: and_not_mask_eq)
qed

lemma unat_push_drop:
  fixes v :: u64
  shows "unat (push_bit n (drop_bit n v)) = unat v div 2 ^ n * 2 ^ n"
proof -
  have "unat v div 2 ^ n * 2 ^ n \<le> unat v" by simp
  also have "unat v < 2 ^ 64" using unsigned_less [of v, where ?'a = nat] by simp
  finally have "unat v div 2 ^ n * 2 ^ n < 2 ^ 64" .
  then show ?thesis
    by (simp only: unsigned_push_bit_eq unat_drop_bit_eq)
      (simp add: push_bit_eq_mult drop_bit_eq_div take_bit_eq_mod)
qed

lemma unat_align_down_exp: "unat (align_down v (2 ^ n)) = unat v div 2 ^ n * 2 ^ n"
  by (simp add: align_down_eq unat_push_drop)

lemma align_up_down: "align_up v a = align_down (v + a - 1) a"
  by (simp add: align_up_def align_down_def)

lemma unat_u64_less [simp]: "unat (v :: u64) < 18446744073709551616"
  using unsigned_less [of v, where ?'a = nat] by simp

text \<open>Loop counters: below a bound, the increment does not wrap.\<close>

lemma unat_inc: "i < (n :: u64) \<Longrightarrow> unat (i + 1) = Suc (unat i)"
proof -
  assume "i < n"
  then have "Suc (unat i) < 18446744073709551616"
    using unat_u64_less [of n] unfolding word_less_nat_alt by linarith
  then show ?thesis by (simp add: unat_word_ariths)
qed

lemma inc_le_u64: "i < (n :: u64) \<Longrightarrow> i + 1 \<le> n"
  using unat_inc [of i n] by (simp add: word_less_nat_alt word_le_nat_alt)

lemma le_inc_u64: "i < (n :: u64) \<Longrightarrow> i \<le> i + 1"
  using unat_inc [of i n] by (simp add: word_le_nat_alt)

lemma loop_measure_u64: "i < (n :: u64) \<Longrightarrow> unat n - unat (i + 1) < unat n - unat i"
  by (simp add: unat_inc word_less_nat_alt)

lemma unat_numeral_page: "unat PAGE_SIZE = 4096"
  by simp

lemma unat_align_down_page [align_simps]:
  "unat (align_down v PAGE_SIZE) = unat v div 4096 * 4096"
  using unat_align_down_exp [of v 12] by simp

lemma unat_align_down_16 [align_simps]:
  "unat (align_down v 16) = unat v div 16 * 16"
  using unat_align_down_exp [of v 4] by simp

lemma unat_align_up_page [align_simps]:
  assumes "unat v \<le> 18446744073709547520"
  shows "unat (align_up v PAGE_SIZE) = (unat v + 4095) div 4096 * 4096"
proof -
  have "unat (v + PAGE_SIZE - 1) = unat v + 4095"
    using assms by (simp add: unat_word_ariths add_diff_eq [symmetric])
  then show ?thesis by (simp add: align_up_down unat_align_down_page)
qed

lemma unat_align_up_16 [align_simps]:
  assumes "unat v \<le> 18446744073709551600"
  shows "unat (align_up v 16) = (unat v + 15) div 16 * 16"
proof -
  have "unat (v + 16 - 1) = unat v + 15"
    using assms by (simp add: unat_word_ariths add_diff_eq [symmetric])
  then show ?thesis by (simp add: align_up_down unat_align_down_16)
qed

lemma align_down_idem [simp]: "align_down (align_down v a) a = align_down v a"
  by (simp add: align_down_def and.assoc)

lemma align_down_page_le: "unat (align_down v PAGE_SIZE) \<le> unat v"
  by (simp add: unat_align_down_page)

text \<open>The page that an address lies in, and the offset there.\<close>

abbreviation page_of :: "u64 \<Rightarrow> u64" where
  "page_of a \<equiv> align_down a PAGE_SIZE"

definition page_aligned :: "u64 \<Rightarrow> bool" where
  "page_aligned a \<longleftrightarrow> a mod PAGE_SIZE = 0"

lemma page_aligned_unat: "page_aligned a \<longleftrightarrow> unat a mod 4096 = 0"
  by (simp add: page_aligned_def word_unat_eq_iff unat_mod_distrib)

lemma page_aligned_iff_page_of: "page_aligned a \<longleftrightarrow> page_of a = a"
proof -
  have "unat a mod 4096 = 0 \<longleftrightarrow> unat a div 4096 * 4096 = unat a"
    by (metis div_mult_mod_eq add.right_neutral mod_mult_self2_is_0)
  then show ?thesis by (simp add: page_aligned_unat word_unat_eq_iff unat_align_down_page)
qed

lemma page_aligned_page_of [simp]: "page_aligned (page_of a)"
  by (simp add: page_aligned_iff_page_of)

lemma page_of_add:
  assumes "page_aligned p" "unat d < 4096"
  shows "page_of (p + d) = p"
proof -
  obtain k where k: "unat p = 4096 * k"
    using assms(1) by (auto simp: page_aligned_unat)
  have "k < 4503599627370496" using unat_u64_less [of p] k by simp
  then have "4096 * k + 4096 \<le> 18446744073709551616" by simp
  then have "unat p + unat d < 18446744073709551616" using assms(2) k by linarith
  then have "unat (p + d) = 4096 * k + unat d"
    using k by (simp add: unat_word_ariths)
  then show ?thesis
    using k assms(2) by (simp add: word_unat_eq_iff unat_align_down_page)
qed

text \<open>
  The loop \<^verbatim>\<open>for (page = start; page < end; page += PAGE_SIZE)\<close> that the memory manager, the ELF
  loader and \<^verbatim>\<open>brk\<close> share: the pages it visits, in order. The recursion stops at the last page
  instead of adding \<^verbatim>\<open>PAGE_SIZE\<close> once more, so it is total even where that addition would wrap.
\<close>

function page_range :: "u64 \<Rightarrow> u64 \<Rightarrow> u64 list" where
  "page_range page end =
     (if page < end
      then page # (if end - page \<le> PAGE_SIZE then [] else page_range (page + PAGE_SIZE) end)
      else [])"
  by pat_completeness auto
termination
proof (relation "measure (\<lambda>(page, end). unat (end - page))", goal_cases)
  case (2 page "end")
  then have less: "PAGE_SIZE < end - page" by simp
  have "unat (end - (page + PAGE_SIZE)) = unat ((end - page) - PAGE_SIZE)"
    by (simp add: algebra_simps)
  also have "\<dots> = unat (end - page) - 4096"
    using less by (subst unat_sub) (simp_all add: order_less_imp_le)
  finally show ?case using less by (simp add: word_less_nat_alt)
qed simp

declare page_range.simps [simp del]

lemma page_range_empty [simp]: "\<not> start < end \<Longrightarrow> page_range start end = []"
  by (simp add: page_range.simps)

lemma page_range_step:
  assumes "start < end" "unat start + 4096 < 18446744073709551616"
  shows "page_range start end = start # page_range (start + PAGE_SIZE) end"
proof (cases "end - start \<le> PAGE_SIZE")
  case True
  have "unat (start + PAGE_SIZE) = unat start + 4096"
    using assms(2) by (simp add: unat_word_ariths)
  moreover have "unat end - unat start \<le> 4096"
    using True assms(1) by (simp add: word_le_nat_alt word_less_nat_alt unat_sub)
  ultimately have "\<not> start + PAGE_SIZE < end" by (simp add: word_less_nat_alt)
  then show ?thesis using assms(1) True by (simp add: page_range.simps [of start])
next
  case False
  then show ?thesis using assms(1) by (simp add: page_range.simps [of start])
qed

lemma page_range_aligned:
  "page_aligned start \<Longrightarrow> p \<in> set (page_range start end) \<Longrightarrow> page_aligned p"
proof (induction start "end" rule: page_range.induct)
  case (1 start "end")
  have "page_aligned (start + PAGE_SIZE)"
    using "1.prems"(1) by (simp add: page_aligned_unat unat_word_ariths mod_mod_cancel mod_add_left_eq)
  then show ?case
    using 1 by (auto simp: page_range.simps [of start "end"] split: if_splits)
qed

lemma page_range_bounds:
  "p \<in> set (page_range start end) \<Longrightarrow> start \<le> p \<and> p < end"
proof (induction start "end" rule: page_range.induct)
  case (1 start "end")
  show ?case
  proof (cases "start < end \<and> \<not> end - start \<le> PAGE_SIZE")
    case True
    then have "4096 < unat end - unat start"
      by (metis not_le unat_sub order_less_imp_le word_less_nat_alt unat_numeral_page)
    then have "unat start + 4096 < 18446744073709551616"
      using unat_u64_less [of "end"] by linarith
    then have "start \<le> start + PAGE_SIZE"
      by (simp add: word_le_nat_alt unat_word_ariths)
    then show ?thesis
      using 1 True by (auto simp: page_range.simps [of start "end"] intro: order_trans)
  next
    case False
    then show ?thesis
      using 1 by (auto simp: page_range.simps [of start "end"] split: if_splits)
  qed
qed

end
