(* ===== verification/C_Strings.thy ===== *)
theory C_Strings
  imports Kernel_Prelude
begin

text \<open>
  NUL-terminated strings and byte buffers. A C string is the list of the characters in front of
  its terminator; reading past the end of the list reads the terminator, so the loops below
  follow the source's \<^verbatim>\<open>while (s[i] != '\0')\<close> literally. Every file of the kernel has its own
  static copy of these helpers; the component theories name theirs in terms of these.
\<close>

abbreviation NUL :: char where "NUL \<equiv> CHR 0x00"

text \<open>The character a \<^verbatim>\<open>const char *\<close> points at.\<close>

definition deref :: "string \<Rightarrow> char" where
  "deref s = (case s of [] \<Rightarrow> NUL | c # _ \<Rightarrow> c)"

lemma deref_simps [simp]: "deref [] = NUL" "deref (c # s) = c"
  by (simp_all add: deref_def)

text \<open>What a C program sees of a character array: the characters before the first NUL.\<close>

definition cstr :: "string \<Rightarrow> string" where
  "cstr s = takeWhile (\<lambda>c. c \<noteq> NUL) s"

definition nul_free :: "string \<Rightarrow> bool" where
  "nul_free s \<longleftrightarrow> NUL \<notin> set s"

lemma cstr_simps_list [simp]:
  "cstr [] = []"
  "cstr (c # s) = (if c = NUL then [] else c # cstr s)"
  by (simp_all add: cstr_def)

lemma nul_free_simps [simp]:
  "nul_free []"
  "nul_free (c # s) \<longleftrightarrow> c \<noteq> NUL \<and> nul_free s"
  "nul_free (s @ t) \<longleftrightarrow> nul_free s \<and> nul_free t"
  by (auto simp: nul_free_def)

lemma nul_free_cstr [simp]: "nul_free (cstr s)"
  by (induction s) auto

lemma cstr_nul_free [simp]: "nul_free s \<Longrightarrow> cstr s = s"
  by (induction s) auto

lemma cstr_cstr: "cstr (cstr s) = cstr s"
  by simp

lemma nul_free_take [simp]: "nul_free s \<Longrightarrow> nul_free (take n s)"
  by (auto simp: nul_free_def dest: in_set_takeD)

lemma nul_free_drop [simp]: "nul_free s \<Longrightarrow> nul_free (drop n s)"
  by (auto simp: nul_free_def dest: in_set_dropD)

subsection \<open>Comparison and length\<close>

function chars_equal :: "string \<Rightarrow> string \<Rightarrow> bool" where
  "chars_equal a b =
     (if deref a \<noteq> NUL \<and> deref b \<noteq> NUL
      then (if deref a \<noteq> deref b then False else chars_equal (tl a) (tl b))
      else deref a = NUL \<and> deref b = NUL)"
  by pat_completeness auto
termination
  by (relation "measure (\<lambda>(a, b). length a)") (auto simp: deref_def split: list.splits)

declare chars_equal.simps [simp del]

lemma chars_equal_iff [cstr_simps]: "chars_equal a b \<longleftrightarrow> cstr a = cstr b"
proof (induction a b rule: chars_equal.induct)
  case (1 a b)
  then show ?case
    by (subst chars_equal.simps) (cases a; cases b; auto)
qed

text \<open>The comparison with a NULL argument is false.\<close>

definition strings_equal :: "string option \<Rightarrow> string option \<Rightarrow> bool" where
  "strings_equal a b =
     (case (a, b) of (Some x, Some y) \<Rightarrow> chars_equal x y | _ \<Rightarrow> False)"

lemma strings_equal_Some [simp]: "strings_equal (Some x) (Some y) \<longleftrightarrow> cstr x = cstr y"
  by (simp add: strings_equal_def chars_equal_iff)

fun string_length :: "string \<Rightarrow> nat" where
  "string_length [] = 0"
| "string_length (c # s) = (if c = NUL then 0 else Suc (string_length s))"

lemma string_length_eq [cstr_simps]: "string_length s = length (cstr s)"
  by (induction s) auto

text \<open>Indexing \<^verbatim>\<open>s[i]\<close>: the terminator follows the last character.\<close>

definition char_at :: "string \<Rightarrow> nat \<Rightarrow> char" where
  "char_at s i = (if i < length s then s ! i else NUL)"

lemma char_at_0 [simp]: "char_at s 0 = deref s"
  by (cases s) (simp_all add: char_at_def)

lemma char_at_Suc [simp]: "char_at (c # s) (Suc i) = char_at s i"
  by (simp add: char_at_def)

lemma char_at_Nil [simp]: "char_at [] i = NUL"
  by (simp add: char_at_def)

lemma char_at_nul_iff: "nul_free s \<Longrightarrow> char_at s i = NUL \<longleftrightarrow> length s \<le> i"
  by (auto simp: char_at_def nul_free_def dest: nth_mem)

text \<open>\<^verbatim>\<open>chars_equal_n\<close>: the first \<open>n\<close> characters agree.\<close>

definition chars_equal_n :: "string \<Rightarrow> string \<Rightarrow> nat \<Rightarrow> bool" where
  "chars_equal_n a b n = (\<forall>i \<in> set [0..<n]. char_at a i = char_at b i)"

lemma chars_equal_n_take:
  assumes "nul_free a" "n \<le> length b" "nul_free b"
  shows "chars_equal_n a b n \<longleftrightarrow> take n a = take n b"
proof
  assume eq: "chars_equal_n a b n"
  have len: "n \<le> length a"
  proof (rule ccontr)
    assume "\<not> n \<le> length a"
    then have i: "length a < n" "length a < length b" using assms(2) by auto
    then have "char_at a (length a) = char_at b (length a)"
      using eq by (auto simp: chars_equal_n_def)
    then show False using assms i by (simp add: char_at_def nul_free_def)
  qed
  show "take n a = take n b"
    using eq len assms(2) by (auto intro!: nth_equalityI simp: chars_equal_n_def char_at_def)
next
  assume eq: "take n a = take n b"
  have len: "n \<le> length a" using eq assms(2) by (metis length_take min.absorb2 min.cobounded1)
  show "chars_equal_n a b n"
    unfolding chars_equal_n_def
  proof (intro ballI)
    fix i assume "i \<in> set [0..<n]"
    then have "i < n" by simp
    then have "a ! i = b ! i" using eq by (metis nth_take)
    then show "char_at a i = char_at b i" using \<open>i < n\<close> len assms(2) by (simp add: char_at_def)
  qed
qed

subsection \<open>Bounded copies\<close>

text \<open>
  \<^verbatim>\<open>while (i + 1 < dst_len && src[i] != '\0') dst[i] = src[i]\<close> followed by the terminator: the
  loop, and the string it leaves in \<^verbatim>\<open>dst\<close>.
\<close>

fun copy_chars :: "nat \<Rightarrow> string \<Rightarrow> string" where
  "copy_chars 0 src = []"
| "copy_chars (Suc n) src = (if deref src \<noteq> NUL then deref src # copy_chars n (tl src) else [])"

definition copy_limited :: "nat \<Rightarrow> string \<Rightarrow> string" where
  "copy_limited dst_len src = copy_chars (dst_len - 1) src"

lemma copy_chars_eq: "copy_chars n src = take n (cstr src)"
  by (induction n src rule: copy_chars.induct) (auto simp: deref_def split: list.splits)

lemma copy_limited_eq [cstr_simps]: "copy_limited n src = take (n - 1) (cstr src)"
  by (simp add: copy_limited_def copy_chars_eq)

lemma copy_limited_length: "0 < n \<Longrightarrow> length (copy_limited n src) < n"
  by (simp add: copy_limited_eq)

lemma copy_limited_nul_free [simp]: "nul_free (copy_limited n src)"
  by (simp add: copy_limited_eq)

lemma copy_limited_id: "nul_free s \<Longrightarrow> length s < n \<Longrightarrow> copy_limited n s = s"
  by (simp add: copy_limited_eq)

subsection \<open>Byte buffers\<close>

text \<open>
  \<^verbatim>\<open>for (i = 0; i < n; i++) dst[off + i] = src[i]\<close>. A write outside the buffer is not a
  behaviour of the program; the client's lemmas show the indices are in range.
\<close>

primrec copy_bytes :: "'a list \<Rightarrow> nat \<Rightarrow> 'a list \<Rightarrow> nat \<Rightarrow> 'a list" where
  "copy_bytes dst off src 0 = dst"
| "copy_bytes dst off src (Suc n) = (copy_bytes dst off src n)[off + n := src ! n]"

primrec fill_bytes :: "'a \<Rightarrow> 'a list \<Rightarrow> nat \<Rightarrow> nat \<Rightarrow> 'a list" where
  "fill_bytes v dst off 0 = dst"
| "fill_bytes v dst off (Suc n) = (fill_bytes v dst off n)[off + n := v]"

abbreviation zero_bytes :: "u8 list \<Rightarrow> nat \<Rightarrow> nat \<Rightarrow> u8 list" where
  "zero_bytes \<equiv> fill_bytes 0"

lemma length_copy_bytes [simp]: "length (copy_bytes dst off src n) = length dst"
  by (induction n) auto

lemma length_fill_bytes [simp]: "length (fill_bytes v dst off n) = length dst"
  by (induction n) auto

lemma nth_copy_bytes:
  "i < length dst \<Longrightarrow>
   copy_bytes dst off src n ! i = (if off \<le> i \<and> i < off + n then src ! (i - off) else dst ! i)"
  by (induction n) (auto simp: nth_list_update less_Suc_eq)

lemma nth_fill_bytes:
  "i < length dst \<Longrightarrow>
   fill_bytes v dst off n ! i = (if off \<le> i \<and> i < off + n then v else dst ! i)"
  by (induction n) (auto simp: nth_list_update less_Suc_eq)

lemma copy_bytes_eq:
  assumes "off + n \<le> length dst" "n \<le> length src"
  shows "copy_bytes dst off src n = take off dst @ take n src @ drop (off + n) dst"
  using assms by (intro nth_equalityI) (auto simp: nth_copy_bytes nth_append min_def)

lemma fill_bytes_eq:
  assumes "off + n \<le> length dst"
  shows "fill_bytes v dst off n = take off dst @ replicate n v @ drop (off + n) dst"
  using assms by (intro nth_equalityI) (auto simp: nth_fill_bytes nth_append min_def)

end
