(* ===== verification/Physical_Memory.thy ===== *)
theory Physical_Memory
  imports Kernel_Prelude
begin

text \<open>
  Physical memory and the physical page allocator of \<^verbatim>\<open>kernel/memory.c\<close> (the \<^verbatim>\<open>pmm_*\<close>
  functions). Physical memory is a map from 8-byte-aligned addresses to 64-bit words, as the page
  tables use it; bytes are read and written through it in little-endian order. The kernel reaches
  physical address \<open>p\<close> at the virtual address \<^verbatim>\<open>phys_to_virt(p)\<close> of the boot loader's direct map,
  so an access through \<^verbatim>\<open>phys_to_virt(p)\<close> is modelled as an access to \<open>p\<close>.
\<close>

subsection \<open>Bytes of physical memory\<close>

definition byte_shift :: "u64 \<Rightarrow> nat" where
  "byte_shift a = 8 * unat (a AND 7)"

definition mem_read8 :: "(u64 \<Rightarrow> u64) \<Rightarrow> u64 \<Rightarrow> u8" where
  "mem_read8 m a = ucast (drop_bit (byte_shift a) (m (align_down a 8)))"

definition mem_write8 :: "(u64 \<Rightarrow> u64) \<Rightarrow> u64 \<Rightarrow> u8 \<Rightarrow> (u64 \<Rightarrow> u64)" where
  "mem_write8 m a v =
     m(align_down a 8 :=
         (m (align_down a 8) AND NOT (push_bit (byte_shift a) (mask 8))) OR push_bit (byte_shift a) (ucast v))"

lemma byte_shift_less: "byte_shift a \<le> 56"
proof -
  have "unat (a AND 7) \<le> unat (7 :: u64)"
    by (rule word_and_le1 [THEN word_le_nat_alt [THEN iffD1]])
  then show ?thesis by (simp add: byte_shift_def)
qed

lemma align_down_8_inj:
  assumes "align_down a 8 = align_down b 8" "a AND 7 = b AND 7"
  shows "a = b"
proof -
  have "x = (x AND NOT 7) OR (x AND 7)" for x :: u64
    by (rule bit_word_eqI) (auto simp: bit_simps)
  then show ?thesis using assms by (simp add: align_down_def) metis
qed

lemma drop_merge_same:
  assumes "s \<le> 56"
  shows "ucast (drop_bit s ((w AND NOT (push_bit s (mask 8))) OR push_bit s (ucast (v :: u8) :: u64))) = v"
  using assms
  by (intro bit_word_eqI) (auto simp: bit_simps)

lemma drop_merge_other:
  assumes "s \<le> 56" "t \<le> 56" "s + 8 \<le> t \<or> t + 8 \<le> s"
  shows "(ucast (drop_bit t ((w AND NOT (push_bit s (mask 8))) OR push_bit s (ucast (v :: u8) :: u64))) :: u8)
       = ucast (drop_bit t w)"
  using assms
  by (intro bit_word_eqI) (auto simp: bit_simps dest: bit_imp_le_length)

lemma mem_read8_write8 [mem_simps]:
  "mem_read8 (mem_write8 m a v) b = (if a = b then v else mem_read8 m b)"
proof (cases "align_down a 8 = align_down b 8")
  case True
  show ?thesis
  proof (cases "a = b")
    case True
    then show ?thesis
      by (simp add: mem_read8_def mem_write8_def drop_merge_same byte_shift_less
          del: drop_bit_or drop_bit_and)
  next
    case False
    then have "unat (a AND 7) \<noteq> unat (b AND 7)"
      using True align_down_8_inj by (metis word_unat_eq_iff)
    then have "byte_shift a + 8 \<le> byte_shift b \<or> byte_shift b + 8 \<le> byte_shift a"
      by (auto simp: byte_shift_def)
    then show ?thesis
      using True False
      by (simp add: mem_read8_def mem_write8_def drop_merge_other byte_shift_less
          del: drop_bit_or drop_bit_and)
  qed
next
  case False
  then show ?thesis by (auto simp: mem_read8_def mem_write8_def)
qed

text \<open>\<^verbatim>\<open>memset_local(phys_to_virt(phys), 0, PAGE_SIZE)\<close> for a page-aligned \<^verbatim>\<open>phys\<close>.\<close>

definition zero_page :: "u64 \<Rightarrow> (u64 \<Rightarrow> u64) \<Rightarrow> (u64 \<Rightarrow> u64)" where
  "zero_page phys m = (\<lambda>a. if page_of a = phys then 0 else m a)"

subsection \<open>The page allocator\<close>

abbreviation PMM_MAX_PAGES :: u64 where "PMM_MAX_PAGES \<equiv> 4194304"
abbreviation BITMAP_WORD_BITS :: u64 where "BITMAP_WORD_BITS \<equiv> 64"
abbreviation BITMAP_WORDS :: u64 where "BITMAP_WORDS \<equiv> 65536"

record pmm_state =
  pmm_bitmap :: "u64 \<Rightarrow> u64"
  pmm_max_page_index :: u64
  pmm_managed_page_count :: u64
  pmm_free_page_count :: u64
  pmm_next_hint :: u64
  phys_mem :: "u64 \<Rightarrow> u64"

definition page_bit :: "u64 \<Rightarrow> u64" where
  "page_bit page = push_bit (unat (page mod BITMAP_WORD_BITS)) 1"

definition pmm_test_bit :: "'a pmm_state_scheme \<Rightarrow> u64 \<Rightarrow> bool" where
  "pmm_test_bit s page = (pmm_bitmap s (page div BITMAP_WORD_BITS) AND page_bit page \<noteq> 0)"

definition pmm_set_used :: "'a pmm_state_scheme \<Rightarrow> u64 \<Rightarrow> 'a pmm_state_scheme" where
  "pmm_set_used s page =
     (let s = (if \<not> pmm_test_bit s page
               then s\<lparr>pmm_free_page_count := pmm_free_page_count s - 1\<rparr> else s);
          w = page div BITMAP_WORD_BITS
      in s\<lparr>pmm_bitmap := (pmm_bitmap s)(w := pmm_bitmap s w OR page_bit page)\<rparr>)"

definition pmm_set_free :: "'a pmm_state_scheme \<Rightarrow> u64 \<Rightarrow> 'a pmm_state_scheme" where
  "pmm_set_free s page =
     (let s = (if pmm_test_bit s page
               then s\<lparr>pmm_free_page_count := pmm_free_page_count s + 1\<rparr> else s);
          w = page div BITMAP_WORD_BITS
      in s\<lparr>pmm_bitmap := (pmm_bitmap s)(w := pmm_bitmap s w AND NOT (page_bit page))\<rparr>)"

definition pmm_mark_range_free :: "'a pmm_state_scheme \<Rightarrow> u64 \<Rightarrow> u64 \<Rightarrow> 'a pmm_state_scheme" where
  "pmm_mark_range_free s base len =
     (let start = align_up base PAGE_SIZE;
          end = align_down (base + len) PAGE_SIZE
      in fold (\<lambda>addr s. let page = addr div PAGE_SIZE
                        in if page < PMM_MAX_PAGES then pmm_set_free s page else s)
           (page_range start end) s)"

text \<open>The inner loop of \<^verbatim>\<open>pmm_alloc_page\<close>: the first free page in \<open>[page, end)\<close>.\<close>

function pmm_find_free :: "'a pmm_state_scheme \<Rightarrow> u64 \<Rightarrow> u64 \<Rightarrow> u64 option" where
  "pmm_find_free s page end =
     (if page < end
      then (if \<not> pmm_test_bit s page then Some page else pmm_find_free s (page + 1) end)
      else None)"
  by pat_completeness auto
termination
  by (relation "measure (\<lambda>(s, page, end). unat end - unat page)")
    (auto simp: loop_measure_u64)

declare pmm_find_free.simps [simp del]

definition pmm_take_page :: "'a pmm_state_scheme \<Rightarrow> u64 \<Rightarrow> u64 \<times> 'a pmm_state_scheme" where
  "pmm_take_page s page =
     (let s = pmm_set_used s page;
          s = s\<lparr>pmm_next_hint := page + 1\<rparr>;
          phys = page * PAGE_SIZE
      in (phys, s\<lparr>phys_mem := zero_page phys (phys_mem s)\<rparr>))"

definition pmm_alloc_page :: "'a pmm_state_scheme \<Rightarrow> (u64 \<times> 'a pmm_state_scheme) kres" where
  "pmm_alloc_page s =
     (case pmm_find_free s (pmm_next_hint s) (pmm_max_page_index s) of
        Some page \<Rightarrow> Inr (pmm_take_page s page)
      | None \<Rightarrow>
          (case pmm_find_free s 0 (pmm_next_hint s) of
             Some page \<Rightarrow> Inr (pmm_take_page s page)
           | None \<Rightarrow> Inl ''out of physical pages''))"

text \<open>
  \<^verbatim>\<open>pmm_alloc_contiguous_pages\<close>: the innermost loop (the first used page of a candidate run), the
  loop over candidate starts, and the loop that takes the run. A candidate whose page \<open>i\<close> is used
  moves the start behind that page. The search gives up where the start would wrap around.
\<close>

function pmm_first_used :: "'a pmm_state_scheme \<Rightarrow> u64 \<Rightarrow> u64 \<Rightarrow> u64 \<Rightarrow> u64 option" where
  "pmm_first_used s start i count =
     (if i < count
      then (if pmm_test_bit s (start + i) then Some i else pmm_first_used s start (i + 1) count)
      else None)"
  by pat_completeness auto
termination
  by (relation "measure (\<lambda>(s, start, i, count). unat count - unat i)")
    (auto simp: loop_measure_u64)

declare pmm_first_used.simps [simp del]

function pmm_find_run :: "'a pmm_state_scheme \<Rightarrow> u64 \<Rightarrow> u64 \<Rightarrow> u64 \<Rightarrow> u64 option" where
  "pmm_find_run s start count end =
     (if start + count \<le> end
      then (case pmm_first_used s start 0 count of
              None \<Rightarrow> Some start
            | Some i \<Rightarrow> if start < start + i + 1 then pmm_find_run s (start + i + 1) count end
                        else None)
      else None)"
  by pat_completeness auto
termination
  by (relation "measure (\<lambda>(s, start, count, end). 2 ^ 64 - unat start)")
    (auto simp: word_less_nat_alt intro: diff_less_mono2)

declare pmm_find_run.simps [simp del]

function pmm_take_run :: "'a pmm_state_scheme \<Rightarrow> u64 \<Rightarrow> u64 \<Rightarrow> u64 \<Rightarrow> 'a pmm_state_scheme" where
  "pmm_take_run s start i count =
     (if i < count
      then let s = pmm_set_used s (start + i);
               s = s\<lparr>phys_mem := zero_page ((start + i) * PAGE_SIZE) (phys_mem s)\<rparr>
           in pmm_take_run s start (i + 1) count
      else s)"
  by pat_completeness auto
termination
  by (relation "measure (\<lambda>(s, start, i, count). unat count - unat i)")
    (auto simp: loop_measure_u64)

declare pmm_take_run.simps [simp del]

definition pmm_alloc_contiguous_pages ::
  "'a pmm_state_scheme \<Rightarrow> u64 \<Rightarrow> (u64 \<times> 'a pmm_state_scheme) kres" where
  "pmm_alloc_contiguous_pages s count =
     (if count = 0 then Inr (0, s)
      else case pmm_find_run s (pmm_next_hint s) count (pmm_max_page_index s) of
        Some start \<Rightarrow> Inr (start * PAGE_SIZE,
                           (pmm_take_run s start 0 count)\<lparr>pmm_next_hint := start + count\<rparr>)
      | None \<Rightarrow>
          (case pmm_find_run s 0 count (pmm_next_hint s) of
             Some start \<Rightarrow> Inr (start * PAGE_SIZE,
                                (pmm_take_run s start 0 count)\<lparr>pmm_next_hint := start + count\<rparr>)
           | None \<Rightarrow> Inl ''out of contiguous physical pages''))"

definition pmm_free_page :: "'a pmm_state_scheme \<Rightarrow> u64 \<Rightarrow> 'a pmm_state_scheme kres" where
  "pmm_free_page s phys_addr =
     (if phys_addr mod PAGE_SIZE \<noteq> 0 then Inl ''attempted to free unaligned physical page''
      else let page = phys_addr div PAGE_SIZE in
        if page \<ge> pmm_max_page_index s then Inl ''attempted to free out-of-range physical page''
        else let s = pmm_set_free s page in
          Inr (if page < pmm_next_hint s then s\<lparr>pmm_next_hint := page\<rparr> else s))"

definition pmm_total_pages :: "'a pmm_state_scheme \<Rightarrow> u64" where
  "pmm_total_pages s = pmm_managed_page_count s"

definition pmm_free_pages :: "'a pmm_state_scheme \<Rightarrow> u64" where
  "pmm_free_pages s = pmm_free_page_count s"

subsection \<open>The bitmap as a set of used pages\<close>

lemma pmm_test_bit_iff:
  "pmm_test_bit s p \<longleftrightarrow> bit (pmm_bitmap s (p div BITMAP_WORD_BITS)) (unat (p mod BITMAP_WORD_BITS))"
  by (simp add: pmm_test_bit_def page_bit_def bit_iff_and_push_bit_not_eq_0)

lemma page_index_eqI:
  fixes p q :: u64
  assumes "q div 64 = p div 64" "unat (q mod 64) = unat (p mod 64)"
  shows "q = p"
  using assms by (metis div_mult_mod_eq word_unat_eq_iff)

lemma unat_mod_64_less: "unat ((p :: u64) mod 64) < 64"
  by (simp add: unat_mod_distrib)

lemma bit_page_bit: "bit (page_bit p) n \<longleftrightarrow> n = unat (p mod BITMAP_WORD_BITS)"
  using unat_mod_64_less [of p] by (auto simp: page_bit_def bit_simps)

lemma pmm_test_bit_set_used [simp]:
  "pmm_test_bit (pmm_set_used s p) q \<longleftrightarrow> q = p \<or> pmm_test_bit s q"
  using page_index_eqI [of q p]
  by (auto simp: pmm_test_bit_iff pmm_set_used_def Let_def bit_simps bit_page_bit)

lemma pmm_test_bit_set_free [simp]:
  "pmm_test_bit (pmm_set_free s p) q \<longleftrightarrow> q \<noteq> p \<and> pmm_test_bit s q"
  using page_index_eqI [of q p] unat_mod_64_less [of q]
  by (auto simp: pmm_test_bit_iff pmm_set_free_def Let_def bit_simps bit_page_bit)

lemma pmm_set_used_sel [simp]:
  "pmm_max_page_index (pmm_set_used s p) = pmm_max_page_index s"
  "pmm_managed_page_count (pmm_set_used s p) = pmm_managed_page_count s"
  "pmm_next_hint (pmm_set_used s p) = pmm_next_hint s"
  "phys_mem (pmm_set_used s p) = phys_mem s"
  "pmm_state.more (pmm_set_used s p) = pmm_state.more s"
  "pmm_free_page_count (pmm_set_used s p)
     = (if pmm_test_bit s p then pmm_free_page_count s else pmm_free_page_count s - 1)"
  by (simp_all add: pmm_set_used_def Let_def)

lemma pmm_set_free_sel [simp]:
  "pmm_max_page_index (pmm_set_free s p) = pmm_max_page_index s"
  "pmm_managed_page_count (pmm_set_free s p) = pmm_managed_page_count s"
  "pmm_next_hint (pmm_set_free s p) = pmm_next_hint s"
  "phys_mem (pmm_set_free s p) = phys_mem s"
  "pmm_state.more (pmm_set_free s p) = pmm_state.more s"
  "pmm_free_page_count (pmm_set_free s p)
     = (if pmm_test_bit s p then pmm_free_page_count s + 1 else pmm_free_page_count s)"
  by (simp_all add: pmm_set_free_def Let_def)

text \<open>The bits do not depend on the other fields.\<close>

lemma pmm_test_bit_upd [simp]:
  "pmm_test_bit (s\<lparr>pmm_next_hint := h\<rparr>) q = pmm_test_bit s q"
  "pmm_test_bit (s\<lparr>phys_mem := m\<rparr>) q = pmm_test_bit s q"
  "pmm_test_bit (s\<lparr>pmm_free_page_count := c\<rparr>) q = pmm_test_bit s q"
  "pmm_test_bit (s\<lparr>pmm_max_page_index := x\<rparr>) q = pmm_test_bit s q"
  "pmm_test_bit (s\<lparr>pmm_managed_page_count := c\<rparr>) q = pmm_test_bit s q"
  by (simp_all add: pmm_test_bit_def)

definition free_page_set :: "'a pmm_state_scheme \<Rightarrow> u64 set" where
  "free_page_set s = {p. p < pmm_max_page_index s \<and> \<not> pmm_test_bit s p}"

text \<open>
  The allocator's invariant: the indices stay inside the bitmap, the hint is a page index of the
  managed range, and the counter is the number of clear bits of that range.
\<close>

definition pmm_inv :: "'a pmm_state_scheme \<Rightarrow> bool" where
  "pmm_inv s \<longleftrightarrow>
     pmm_max_page_index s \<le> PMM_MAX_PAGES \<and>
     pmm_next_hint s \<le> pmm_max_page_index s \<and>
     unat (pmm_free_page_count s) = card (free_page_set s)"

lemma pmm_find_free_Some:
  "pmm_find_free s page end = Some p \<Longrightarrow> page \<le> p \<and> p < end \<and> \<not> pmm_test_bit s p"
proof (induction s page "end" rule: pmm_find_free.induct)
  case (1 s page "end")
  have "page < end \<Longrightarrow> page \<le> page + 1"
    by (rule le_inc_u64)
  then show ?case
    using 1 by (subst (asm) (2) pmm_find_free.simps) (auto split: if_splits intro: order_trans)
qed

lemma pmm_find_free_None:
  "pmm_find_free s page end = None \<Longrightarrow> page \<le> p \<Longrightarrow> p < end \<Longrightarrow> pmm_test_bit s p"
proof (induction s page "end" rule: pmm_find_free.induct)
  case (1 s page "end")
  have lt: "page < end" using "1.prems" by (meson le_less_trans)
  then have used: "pmm_test_bit s page" and rest: "pmm_find_free s (page + 1) end = None"
    using "1.prems"(1) by (auto simp: pmm_find_free.simps [of s page "end"] split: if_splits)
  show ?case
  proof (cases "p = page")
    case False
    then have "page < p" using "1.prems"(2) by simp
    then have "page + 1 \<le> p" by (rule inc_le_u64)
    then show ?thesis using "1.IH" lt used rest "1.prems"(3) by blast
  qed (use used in simp)
qed

lemma free_page_set_upd [simp]:
  "free_page_set (s\<lparr>pmm_next_hint := h\<rparr>) = free_page_set s"
  "free_page_set (s\<lparr>phys_mem := m\<rparr>) = free_page_set s"
  by (simp_all add: free_page_set_def)

lemma free_page_set_set_used [simp]:
  "free_page_set (pmm_set_used s p) = free_page_set s - {p}"
  by (auto simp: free_page_set_def)

lemma free_page_set_set_free [simp]:
  "p < pmm_max_page_index s \<Longrightarrow> free_page_set (pmm_set_free s p) = insert p (free_page_set s)"
  by (auto simp: free_page_set_def)

lemma card_free_page_set_le: "card (free_page_set s) \<le> unat (pmm_max_page_index s)"
proof -
  have "card (free_page_set s) \<le> card {..<unat (pmm_max_page_index s)}"
    by (rule card_inj_on_le [where f = unat])
      (auto simp: inj_on_def free_page_set_def word_less_nat_alt word_unat_eq_iff)
  then show ?thesis by simp
qed

lemma pmm_inv_upd [simp]:
  "pmm_inv (s\<lparr>phys_mem := m\<rparr>) \<longleftrightarrow> pmm_inv s"
  by (simp add: pmm_inv_def)

lemma pmm_inv_hint:
  "pmm_inv s \<Longrightarrow> h \<le> pmm_max_page_index s \<Longrightarrow> pmm_inv (s\<lparr>pmm_next_hint := h\<rparr>)"
  by (simp add: pmm_inv_def)

lemma pmm_inv_set_used:
  assumes "pmm_inv s" "p < pmm_max_page_index s"
  shows "pmm_inv (pmm_set_used s p)"
proof (cases "pmm_test_bit s p")
  case True
  then have "free_page_set s - {p} = free_page_set s" by (auto simp: free_page_set_def)
  then show ?thesis using assms True by (simp add: pmm_inv_def)
next
  case False
  then have p: "p \<in> free_page_set s" using assms(2) by (simp add: free_page_set_def)
  then have "card (free_page_set s) \<noteq> 0" by auto
  then have "pmm_free_page_count s \<noteq> 0" using assms(1) by (auto simp: pmm_inv_def)
  then have "unat (pmm_free_page_count s - 1) = unat (pmm_free_page_count s) - 1"
    by (rule unat_minus_one)
  then show ?thesis using assms False p by (simp add: pmm_inv_def)
qed

lemma pmm_inv_set_free:
  assumes "pmm_inv s" "p < pmm_max_page_index s"
  shows "pmm_inv (pmm_set_free s p)"
proof (cases "pmm_test_bit s p")
  case False
  then have "insert p (free_page_set s) = free_page_set s"
    using assms(2) by (auto simp: free_page_set_def)
  then show ?thesis using assms False by (simp add: pmm_inv_def)
next
  case True
  then have p: "p \<notin> free_page_set s" by (simp add: free_page_set_def)
  have "unat (pmm_free_page_count s) \<le> 4194304"
    using assms(1) card_free_page_set_le [of s] by (simp add: pmm_inv_def word_le_nat_alt)
  then have "unat (pmm_free_page_count s + 1) = Suc (unat (pmm_free_page_count s))"
    by (simp add: unat_word_ariths)
  then show ?thesis using assms True p by (simp add: pmm_inv_def)
qed

text \<open>What taking a page does to every component of the state.\<close>

lemma pmm_take_page_sel:
  assumes "pmm_take_page s page = (phys, s')"
  shows "phys = page * PAGE_SIZE"
    and "pmm_test_bit s' q \<longleftrightarrow> q = page \<or> pmm_test_bit s q"
    and "phys_mem s' = zero_page phys (phys_mem s)"
    and "pmm_next_hint s' = page + 1"
    and "pmm_max_page_index s' = pmm_max_page_index s"
    and "pmm_state.more s' = pmm_state.more s"
    and "free_page_set s' = free_page_set s - {page}"
  using assms by (auto simp: pmm_take_page_def Let_def)

lemma pmm_take_page_inv:
  assumes "pmm_inv s" "page < pmm_max_page_index s" "pmm_take_page s page = (phys, s')"
  shows "pmm_inv s'"
proof -
  have "page + 1 \<le> pmm_max_page_index s" using assms(2) by (rule inc_le_u64)
  then show ?thesis
    using assms pmm_inv_set_used [OF assms(1,2)]
    by (auto simp: pmm_take_page_def Let_def intro!: pmm_inv_hint)
qed

text \<open>A successful allocation takes one free page of the managed range, wherever the search found it.\<close>

lemma pmm_alloc_page_takes:
  assumes "pmm_inv s" "pmm_alloc_page s = Inr (phys, s')"
  obtains page where "page \<in> free_page_set s" "pmm_take_page s page = (phys, s')"
proof -
  have hint: "pmm_next_hint s \<le> pmm_max_page_index s" using assms(1) by (simp add: pmm_inv_def)
  from assms(2) consider
      page where "pmm_find_free s (pmm_next_hint s) (pmm_max_page_index s) = Some page"
        "pmm_take_page s page = (phys, s')"
    | page where "pmm_find_free s 0 (pmm_next_hint s) = Some page"
        "pmm_take_page s page = (phys, s')"
    by (auto simp: pmm_alloc_page_def split: option.splits)
  then show thesis
  proof cases
    case (1 page)
    then show thesis using that [of page] pmm_find_free_Some [OF 1(1)] by (simp add: free_page_set_def)
  next
    case (2 page)
    then show thesis
      using that [of page] pmm_find_free_Some [OF 2(1)] hint by (auto simp: free_page_set_def)
  qed
qed

lemma pmm_alloc_page_inv:
  assumes "pmm_inv s" "pmm_alloc_page s = Inr (phys, s')"
  shows "pmm_inv s'"
proof -
  obtain page where "page \<in> free_page_set s" "pmm_take_page s page = (phys, s')"
    using pmm_alloc_page_takes [OF assms] .
  then show ?thesis
    using pmm_take_page_inv [OF assms(1)] by (auto simp: free_page_set_def)
qed

lemma pmm_alloc_page_panics_iff:
  assumes "pmm_inv s"
  shows "(\<exists>msg. pmm_alloc_page s = Inl msg) \<longleftrightarrow> free_page_set s = {}"
proof
  assume "\<exists>msg. pmm_alloc_page s = Inl msg"
  then have none: "pmm_find_free s (pmm_next_hint s) (pmm_max_page_index s) = None"
      "pmm_find_free s 0 (pmm_next_hint s) = None"
    by (auto simp: pmm_alloc_page_def split: option.splits)
  have "pmm_test_bit s p" if "p < pmm_max_page_index s" for p
    using pmm_find_free_None [OF none(1), of p] pmm_find_free_None [OF none(2), of p] that
    by (cases "pmm_next_hint s \<le> p") auto
  then show "free_page_set s = {}" by (auto simp: free_page_set_def)
next
  assume empty: "free_page_set s = {}"
  show "\<exists>msg. pmm_alloc_page s = Inl msg"
  proof (cases "pmm_alloc_page s")
    case (Inr r)
    then obtain phys s' where "pmm_alloc_page s = Inr (phys, s')" by (cases r) auto
    from pmm_alloc_page_takes [OF assms this] show ?thesis using empty by blast
  qed simp
qed

lemma pmm_free_page_inv:
  assumes "pmm_inv s" "pmm_free_page s phys = Inr s'"
  shows "pmm_inv s'"
proof -
  let ?p = "phys div PAGE_SIZE"
  have p: "?p < pmm_max_page_index s"
    and s': "s' = (if ?p < pmm_next_hint s then (pmm_set_free s ?p)\<lparr>pmm_next_hint := ?p\<rparr>
                   else pmm_set_free s ?p)"
    using assms(2) by (auto simp: pmm_free_page_def Let_def split: if_splits)
  have "pmm_inv (pmm_set_free s ?p)" using assms(1) p by (rule pmm_inv_set_free)
  then show ?thesis using s' p by (auto intro!: pmm_inv_hint)
qed

subsection \<open>Runs of pages\<close>

lemma pmm_first_used_None:
  "pmm_first_used s start i count = None \<Longrightarrow> i \<le> j \<Longrightarrow> j < count \<Longrightarrow> \<not> pmm_test_bit s (start + j)"
proof (induction s start i count rule: pmm_first_used.induct)
  case (1 s start i count)
  have lt: "i < count" using "1.prems" by (meson le_less_trans)
  then have free: "\<not> pmm_test_bit s (start + i)" and rest: "pmm_first_used s start (i + 1) count = None"
    using "1.prems"(1) by (auto simp: pmm_first_used.simps [of s start i] split: if_splits)
  show ?case
  proof (cases "j = i")
    case False
    then have "i + 1 \<le> j" using "1.prems"(2) by (intro inc_le_u64) simp
    then show ?thesis using "1.IH" lt free rest "1.prems"(3) by blast
  qed (use free in simp)
qed

lemma pmm_find_run_Some:
  "pmm_find_run s start count end = Some p \<Longrightarrow>
   start \<le> p \<and> p + count \<le> end \<and> (\<forall>j<count. \<not> pmm_test_bit s (p + j))"
proof (induction s start count "end" rule: pmm_find_run.induct)
  case (1 s start count "end")
  show ?case
  proof (cases "pmm_first_used s start 0 count")
    case None
    then show ?thesis
      using "1.prems" pmm_first_used_None [OF None]
      by (auto simp: pmm_find_run.simps [of s start] split: if_splits)
  next
    case (Some i)
    then show ?thesis
      using 1 by (auto simp: pmm_find_run.simps [of s start] split: if_splits intro: order_trans)
  qed
qed

lemma pmm_take_run_sel:
  "pmm_max_page_index (pmm_take_run s start i count) = pmm_max_page_index s \<and>
   pmm_next_hint (pmm_take_run s start i count) = pmm_next_hint s \<and>
   pmm_state.more (pmm_take_run s start i count) = pmm_state.more s"
proof (induction s start i count rule: pmm_take_run.induct)
  case (1 s start i count)
  show ?case
    using 1 by (cases "i < count") (simp_all add: pmm_take_run.simps [of s start i] Let_def)
qed

lemma pmm_take_run_bits:
  "pmm_test_bit (pmm_take_run s start i count) q
     \<longleftrightarrow> pmm_test_bit s q \<or> (\<exists>j. i \<le> j \<and> j < count \<and> q = start + j)"
proof (induction s start i count rule: pmm_take_run.induct)
  case (1 s start i count)
  show ?case
  proof (cases "i < count")
    case True
    have "i + 1 \<le> j \<longleftrightarrow> i \<le> j \<and> j \<noteq> i" if "j < count" for j
    proof -
      have "unat (i + 1) = Suc (unat i)" using True by (rule unat_inc)
      then show ?thesis by (auto simp: word_le_nat_alt word_unat_eq_iff)
    qed
    then show ?thesis
      using 1 True by (auto simp: pmm_take_run.simps [of s start i] Let_def)
  next
    case False
    then show ?thesis by (auto simp: pmm_take_run.simps [of s start i])
  qed
qed

lemma pmm_take_run_step:
  "i < count \<Longrightarrow>
   pmm_take_run s start i count =
   pmm_take_run ((pmm_set_used s (start + i))
       \<lparr>phys_mem := zero_page ((start + i) * PAGE_SIZE) (phys_mem (pmm_set_used s (start + i)))\<rparr>)
     start (i + 1) count"
  by (simp only: pmm_take_run.simps [of s start i count] Let_def if_True)

lemma pmm_take_run_zeroes:
  "phys_mem (pmm_take_run s start i count) a =
     (if \<exists>j. i \<le> j \<and> j < count \<and> page_of a = (start + j) * PAGE_SIZE then 0 else phys_mem s a)"
proof (induction s start i count rule: pmm_take_run.induct)
  case (1 s start i count)
  show ?case
  proof (cases "i < count")
    case True
    have split: "(\<exists>j. i \<le> j \<and> j < count \<and> P j) \<longleftrightarrow> P i \<or> (\<exists>j. i + 1 \<le> j \<and> j < count \<and> P j)" for P
    proof -
      have "i + 1 \<le> j \<longleftrightarrow> i \<le> j \<and> j \<noteq> i" for j
        using unat_inc [OF True] by (auto simp: word_le_nat_alt word_unat_eq_iff)
      then show ?thesis using True by (metis order_refl)
    qed
    show ?thesis
      unfolding pmm_take_run_step [OF True] "1.IH" [OF True refl refl]
      by (auto simp: zero_page_def split)
  next
    case False
    then have "\<not> (i \<le> j \<and> j < count)" for j by (meson le_less_trans not_less)
    then show ?thesis using False by (auto simp: pmm_take_run.simps [of s start i])
  qed
qed

lemma pmm_take_run_inv:
  "pmm_inv s \<Longrightarrow> (\<And>j. i \<le> j \<Longrightarrow> j < count \<Longrightarrow> start + j < pmm_max_page_index s) \<Longrightarrow>
   pmm_inv (pmm_take_run s start i count)"
proof (induction s start i count rule: pmm_take_run.induct)
  case (1 s start i count)
  show ?case
  proof (cases "i < count")
    case True
    have "start + i < pmm_max_page_index s" using "1.prems"(2) True by simp
    then have "pmm_inv (pmm_set_used s (start + i))" using "1.prems"(1) by (intro pmm_inv_set_used)
    moreover have "start + j < pmm_max_page_index s" if "i + 1 \<le> j" "j < count" for j
      using "1.prems"(2) that le_inc_u64 [OF True] by (meson order_trans)
    ultimately show ?thesis
      using 1 True by (simp add: pmm_take_run.simps [of s start i] Let_def)
  qed (use 1 in \<open>simp add: pmm_take_run.simps [of s start i]\<close>)
qed

subsection \<open>Properties of the allocator\<close>

lemma free_page_set_code:
  "free_page_set s
     = set (filter (\<lambda>p. \<not> pmm_test_bit s p) (map word_of_nat [0..<unat (pmm_max_page_index s)]))"
proof -
  have "p < pmm_max_page_index s \<longleftrightarrow> p \<in> word_of_nat ` {0..<unat (pmm_max_page_index s)}" for p :: u64
  proof
    assume "p < pmm_max_page_index s"
    then have "unat p \<in> {0..<unat (pmm_max_page_index s)}" by (simp add: word_less_nat_alt)
    then show "p \<in> word_of_nat ` {0..<unat (pmm_max_page_index s)}"
      by (intro image_eqI [where x = "unat p"]) simp_all
  next
    assume "p \<in> word_of_nat ` {0..<unat (pmm_max_page_index s)}"
    then obtain n where n: "n < unat (pmm_max_page_index s)" "p = word_of_nat n" by auto
    then have "n < 18446744073709551616"
      using unat_u64_less [of "pmm_max_page_index s"] by linarith
    then show "p < pmm_max_page_index s" using n by (simp add: word_less_nat_alt unat_of_nat)
  qed
  then show ?thesis by (auto simp: free_page_set_def)
qed

text \<open>Four managed pages, of which pages 1 and 2 are free; the hint is between them.\<close>

definition pmm_example :: pmm_state where
  "pmm_example = \<lparr>pmm_bitmap = (\<lambda>_. 0xFFFFFFFFFFFFFFF9), pmm_max_page_index = 4,
     pmm_managed_page_count = 4, pmm_free_page_count = 2, pmm_next_hint = 2, phys_mem = (\<lambda>_. 7)\<rparr>"

lemma upt_4: "[0..<4] = [0, 1, 2, 3::nat]"
  by (simp add: upt_rec)

lemma pmm_example_free: "free_page_set pmm_example = {1, 2}"
  by (simp add: free_page_set_code pmm_example_def pmm_test_bit_def page_bit_def upt_4)

lemma pmm_example_inv: "pmm_inv pmm_example"
  by (simp add: pmm_inv_def pmm_example_free) (simp add: pmm_example_def)

lemma unat_page_phys:
  assumes "pmm_inv s" "page \<in> free_page_set s"
  shows "unat (page * PAGE_SIZE) = unat page * 4096"
proof -
  have "unat page < 4194304"
    using assms by (auto simp: pmm_inv_def free_page_set_def word_less_nat_alt word_le_nat_alt)
  then show ?thesis by (simp add: unat_word_ariths)
qed

text \<open>
  C1: a successful \<^verbatim>\<open>pmm_alloc_page\<close> returns the address of one page that was free and inside the
  managed range, marks exactly that page used, zeroes exactly that page, and keeps the allocator's
  invariant, the free counter included.
\<close>

theorem pmm_alloc_page_fresh:
  assumes "pmm_inv s" "pmm_alloc_page s = Inr (phys, s')"
  shows "\<exists>page \<in> free_page_set s.
      unat phys = unat page * 4096 \<and>
      (\<forall>q. pmm_test_bit s' q \<longleftrightarrow> q = page \<or> pmm_test_bit s q) \<and>
      (\<forall>a. phys_mem s' a = (if page_of a = phys then 0 else phys_mem s a)) \<and>
      unat (pmm_free_pages s') + 1 = unat (pmm_free_pages s) \<and>
      pmm_inv s'"
proof -
  obtain page where page: "page \<in> free_page_set s" and take: "pmm_take_page s page = (phys, s')"
    using pmm_alloc_page_takes [OF assms] .
  note sel = pmm_take_page_sel [OF take]
  have inv': "pmm_inv s'" using assms by (rule pmm_alloc_page_inv)
  have "card (free_page_set s') + 1 = card (free_page_set s)"
    using page sel(7) by (metis Suc_eq_plus1 card_Suc_Diff1 finite)
  then have "unat (pmm_free_pages s') + 1 = unat (pmm_free_pages s)"
    using assms(1) inv' by (simp add: pmm_inv_def pmm_free_pages_def)
  then show ?thesis
    using page inv' sel(1,2,3) unat_page_phys [OF assms(1) page]
    by (intro bexI [OF _ page]) (simp add: zero_page_def)
qed

theorem pmm_alloc_page_fresh_witness:
  "\<exists>page \<in> free_page_set pmm_example. unat page * 4096 = 8192 \<and>
     (\<exists>s'. pmm_alloc_page pmm_example = Inr (8192, s') \<and> pmm_inv s')"
proof -
  obtain s' where s': "pmm_alloc_page pmm_example = Inr (8192, s')"
    by (simp add: pmm_alloc_page_def pmm_example_def pmm_find_free.simps pmm_test_bit_def page_bit_def
        pmm_take_page_def)
  show ?thesis using pmm_alloc_page_fresh [OF pmm_example_inv s'] s' by auto
qed

text \<open>
  C2: \<^verbatim>\<open>pmm_alloc_page\<close> succeeds exactly when the free-page counter is not zero; it panics only when
  no page of the managed range is free.
\<close>

theorem pmm_alloc_page_succeeds_iff:
  assumes "pmm_inv s"
  shows "(\<exists>phys s'. pmm_alloc_page s = Inr (phys, s')) \<longleftrightarrow> pmm_free_pages s \<noteq> 0"
proof -
  have "(\<exists>phys s'. pmm_alloc_page s = Inr (phys, s')) \<longleftrightarrow> \<not> (\<exists>msg. pmm_alloc_page s = Inl msg)"
    by (cases "pmm_alloc_page s") auto
  also have "\<dots> \<longleftrightarrow> free_page_set s \<noteq> {}"
    using pmm_alloc_page_panics_iff [OF assms] by simp
  also have "\<dots> \<longleftrightarrow> unat (pmm_free_page_count s) \<noteq> 0"
    using assms by (simp add: pmm_inv_def)
  finally show ?thesis by (simp add: pmm_free_pages_def unat_0_iff)
qed

theorem pmm_alloc_page_succeeds_iff_witness:
  "\<exists>phys s'. pmm_alloc_page pmm_example = Inr (phys, s')"
  using pmm_alloc_page_succeeds_iff [OF pmm_example_inv]
  by (simp add: pmm_free_pages_def pmm_example_def)

lemma pmm_free_page_ok:
  assumes "phys mod PAGE_SIZE = 0" "phys div PAGE_SIZE < pmm_max_page_index s"
  obtains s' where "pmm_free_page s phys = Inr s'"
    and "free_page_set s' = insert (phys div PAGE_SIZE) (free_page_set s)"
  using assms by (auto simp: pmm_free_page_def Let_def not_le split: if_splits)

lemma pmm_free_page_sel:
  assumes "pmm_free_page s phys = Inr s'"
  shows "phys mod PAGE_SIZE = 0"
    and "phys div PAGE_SIZE < pmm_max_page_index s"
    and "pmm_test_bit s' q \<longleftrightarrow> q \<noteq> phys div PAGE_SIZE \<and> pmm_test_bit s q"
    and "phys_mem s' = phys_mem s"
    and "pmm_max_page_index s' = pmm_max_page_index s"
    and "pmm_state.more s' = pmm_state.more s"
  using assms by (auto simp: pmm_free_page_def Let_def not_le split: if_splits)

text \<open>
  C3: freeing a page that was just allocated succeeds and gives back the same set of free pages and
  the same free-page count.
\<close>

theorem pmm_alloc_free_roundtrip:
  assumes "pmm_inv s" "pmm_alloc_page s = Inr (phys, s')"
  shows "\<exists>s''. pmm_free_page s' phys = Inr s'' \<and> free_page_set s'' = free_page_set s \<and>
           pmm_free_pages s'' = pmm_free_pages s \<and> pmm_inv s''"
proof -
  obtain page where page: "page \<in> free_page_set s" and take: "pmm_take_page s page = (phys, s')"
    using pmm_alloc_page_takes [OF assms] .
  note sel = pmm_take_page_sel [OF take]
  have unat: "unat phys = unat page * 4096" using unat_page_phys [OF assms(1) page] sel(1) by simp
  have aligned: "phys mod PAGE_SIZE = 0" and idx: "phys div PAGE_SIZE = page"
    using unat by (simp_all add: word_unat_eq_iff unat_mod_distrib unat_div_distrib)
  have range: "page < pmm_max_page_index s'" using page sel(5) by (simp add: free_page_set_def)
  then obtain s'' where free: "pmm_free_page s' phys = Inr s''"
      and set: "free_page_set s'' = insert page (free_page_set s')"
    using pmm_free_page_ok [OF aligned, of s'] unfolding idx by blast
  have "free_page_set s'' = free_page_set s" using set sel(7) page by auto
  moreover have "pmm_inv s''"
    using pmm_alloc_page_inv [OF assms] free by (rule pmm_free_page_inv)
  ultimately show ?thesis
    using free assms(1) by (auto simp: pmm_free_pages_def pmm_inv_def word_unat_eq_iff)
qed

theorem pmm_alloc_free_roundtrip_witness:
  "\<exists>phys s' s''. pmm_alloc_page pmm_example = Inr (phys, s') \<and> pmm_free_page s' phys = Inr s'' \<and>
     free_page_set s'' = {1, 2}"
proof -
  obtain phys s' where s': "pmm_alloc_page pmm_example = Inr (phys, s')"
    by (simp add: pmm_alloc_page_def pmm_example_def pmm_find_free.simps pmm_test_bit_def page_bit_def
        pmm_take_page_def)
  show ?thesis using pmm_alloc_free_roundtrip [OF pmm_example_inv s'] s' pmm_example_free by auto
qed

lemma pmm_first_used_Some:
  "pmm_first_used s start i count = Some r \<Longrightarrow> i \<le> r \<and> r < count \<and> pmm_test_bit s (start + r)"
proof (induction s start i count rule: pmm_first_used.induct)
  case (1 s start i count)
  have "i < count \<Longrightarrow> i \<le> i + 1" by (rule le_inc_u64)
  then show ?case
    using 1 by (auto simp: pmm_first_used.simps [of s start i] split: if_splits intro: order_trans)
qed

text \<open>A free run of \<open>count\<close> pages that starts at \<open>p\<close> and ends at or before page \<open>end\<close>.\<close>

definition free_run :: "'a pmm_state_scheme \<Rightarrow> u64 \<Rightarrow> u64 \<Rightarrow> u64 \<Rightarrow> bool" where
  "free_run s p count end \<longleftrightarrow>
     unat p + unat count \<le> unat end \<and> (\<forall>j<count. \<not> pmm_test_bit s (p + j))"

lemma pmm_find_run_next:
  fixes start :: u64
  assumes "start \<le> end" "start + count \<le> end" "i < count"
    and "unat end \<le> 4194304" "unat count \<le> 4194304"
  shows "unat (start + i + 1) = unat start + unat i + 1"
    and "start + i + 1 \<le> end" and "start < start + i + 1"
    and "unat start + unat count \<le> unat end"
proof -
  have s: "unat start + unat count < 18446744073709551616"
    using assms(1,4,5) by (simp add: word_le_nat_alt)
  then show sum: "unat start + unat count \<le> unat end"
    using assms(2) by (simp add: word_le_nat_alt unat_word_ariths)
  have "unat i < unat count" using assms(3) by (simp add: word_less_nat_alt)
  then show eq: "unat (start + i + 1) = unat start + unat i + 1"
    using s by (simp add: unat_word_ariths)
  show "start + i + 1 \<le> end" "start < start + i + 1"
    using eq sum \<open>unat i < unat count\<close> by (simp_all add: word_le_nat_alt word_less_nat_alt)
qed

lemma pmm_find_run_sound:
  "pmm_find_run s start count end = Some p \<Longrightarrow> start \<le> end \<Longrightarrow>
   unat end \<le> 4194304 \<Longrightarrow> unat count \<le> 4194304 \<Longrightarrow> start \<le> p \<and> free_run s p count end"
proof (induction s start count "end" rule: pmm_find_run.induct)
  case (1 s start count "end")
  have le: "start + count \<le> end"
    using "1.prems"(1) by (simp add: pmm_find_run.simps [of s start] split: if_splits)
  show ?case
  proof (cases "pmm_first_used s start 0 count")
    case None
    then have "p = start" using "1.prems"(1) le by (simp add: pmm_find_run.simps [of s start])
    moreover have "unat start + unat count \<le> unat end"
      using "1.prems"(2-4) le by (simp add: word_le_nat_alt unat_word_ariths)
    ultimately show ?thesis
      using pmm_first_used_None [OF None] by (simp add: free_run_def)
  next
    case (Some i)
    have i: "i < count" using pmm_first_used_Some [OF Some] by simp
    note nxt = pmm_find_run_next [OF "1.prems"(2) le i "1.prems"(3,4)]
    have "pmm_find_run s (start + i + 1) count end = Some p"
      using "1.prems"(1) le Some nxt(3) by (simp add: pmm_find_run.simps [of s start])
    then have "start + i + 1 \<le> p \<and> free_run s p count end"
      using "1.IH" [OF le Some nxt(3)] nxt(2) "1.prems"(3,4) by simp
    then show ?thesis using nxt(3) by auto
  qed
qed

lemma pmm_find_run_complete:
  "free_run s p count end \<Longrightarrow> start \<le> p \<Longrightarrow> start \<le> end \<Longrightarrow>
   unat end \<le> 4194304 \<Longrightarrow> unat count \<le> 4194304 \<Longrightarrow> pmm_find_run s start count end \<noteq> None"
proof (induction s start count "end" rule: pmm_find_run.induct)
  case (1 s start count "end")
  have "unat start + unat count \<le> unat end"
    using "1.prems"(1,2) by (simp add: free_run_def word_le_nat_alt)
  then have le: "start + count \<le> end"
    using "1.prems"(4) by (simp add: word_le_nat_alt unat_word_ariths)
  show ?case
  proof (cases "pmm_first_used s start 0 count")
    case None
    then show ?thesis using le by (simp add: pmm_find_run.simps [of s start])
  next
    case (Some i)
    have i: "i < count" and used: "pmm_test_bit s (start + i)"
      using pmm_first_used_Some [OF Some] by simp_all
    note nxt = pmm_find_run_next [OF "1.prems"(3) le i "1.prems"(4,5)]
    have "start + i + 1 \<le> p"
    proof (rule ccontr)
      assume "\<not> start + i + 1 \<le> p"
      then have lt: "unat p < unat start + unat i + 1" using nxt(1) by (simp add: word_le_nat_alt)
      have "unat (start + i) = unat start + unat i"
        using nxt(4) i "1.prems"(4) by (simp add: unat_word_ariths word_less_nat_alt)
      then have "p \<le> start + i" using lt by (simp add: word_le_nat_alt)
      then have "unat (start + i - p) = unat start + unat i - unat p"
        using \<open>unat (start + i) = unat start + unat i\<close> by (simp add: unat_sub)
      then have "start + i - p < count"
        using "1.prems"(2) i lt by (simp add: word_less_nat_alt word_le_nat_alt)
      then have "\<not> pmm_test_bit s (p + (start + i - p))"
        using "1.prems"(1) unfolding free_run_def by blast
      then show False using used by simp
    qed
    then have "pmm_find_run s (start + i + 1) count end \<noteq> None"
      using "1.IH" [OF le Some nxt(3)] "1.prems" nxt(2) by blast
    then show ?thesis using le Some nxt(3) by (simp add: pmm_find_run.simps [of s start])
  qed
qed

text \<open>
  C4: a successful \<^verbatim>\<open>pmm_alloc_contiguous_pages\<close> of a non-zero number of pages returns a run of that
  many consecutive pages, all of them free before and inside the managed range; it marks exactly
  that run used, zeroes exactly that run, and keeps the allocator's invariant.
\<close>

theorem pmm_alloc_contiguous_fresh:
  assumes "pmm_inv s" "count \<noteq> 0" "count \<le> PMM_MAX_PAGES"
    and "pmm_alloc_contiguous_pages s count = Inr (phys, s')"
  shows "\<exists>start. phys = start * PAGE_SIZE \<and> free_run s start count (pmm_max_page_index s) \<and>
      (\<forall>q. pmm_test_bit s' q \<longleftrightarrow> pmm_test_bit s q \<or> (\<exists>j<count. q = start + j)) \<and>
      (\<forall>a. phys_mem s' a = (if \<exists>j<count. page_of a = (start + j) * PAGE_SIZE then 0 else phys_mem s a)) \<and>
      pmm_inv s'"
proof -
  let ?max = "pmm_max_page_index s" and ?hint = "pmm_next_hint s"
  have bounds: "unat ?max \<le> 4194304" "unat ?hint \<le> unat ?max" "unat count \<le> 4194304"
    using assms(1,3) by (simp_all add: pmm_inv_def word_le_nat_alt)
  obtain start where s': "s' = (pmm_take_run s start 0 count)\<lparr>pmm_next_hint := start + count\<rparr>"
      and phys: "phys = start * PAGE_SIZE" and run: "free_run s start count ?max"
  proof -
    from assms(2,4) consider
        start where "pmm_find_run s ?hint count ?max = Some start"
          "phys = start * PAGE_SIZE" "s' = (pmm_take_run s start 0 count)\<lparr>pmm_next_hint := start + count\<rparr>"
      | start where "pmm_find_run s 0 count ?hint = Some start"
          "phys = start * PAGE_SIZE" "s' = (pmm_take_run s start 0 count)\<lparr>pmm_next_hint := start + count\<rparr>"
      by (auto simp: pmm_alloc_contiguous_pages_def split: option.splits)
    then show thesis
    proof cases
      case (1 start)
      then show thesis
        using that pmm_find_run_sound [OF 1(1)] bounds by (simp add: word_le_nat_alt)
    next
      case (2 start)
      have "free_run s start count ?hint"
        using pmm_find_run_sound [OF 2(1)] bounds by simp
      then have "free_run s start count ?max"
        using bounds(2) by (auto simp: free_run_def)
      then show thesis using that 2 by simp
    qed
  qed
  have in_range: "start + j < ?max" if "j < count" for j
  proof -
    have "unat start + unat j < unat ?max"
      using that run by (simp add: free_run_def word_less_nat_alt)
    then show ?thesis by (simp add: word_less_nat_alt unat_word_ariths)
  qed
  have "pmm_inv (pmm_take_run s start 0 count)"
    using assms(1) in_range by (intro pmm_take_run_inv) auto
  moreover have "start + count \<le> ?max"
    using run
    by (auto simp: free_run_def word_le_nat_alt unat_word_ariths
        intro: order_trans [OF mod_less_eq_dividend])
  ultimately have "pmm_inv s'"
    using s' pmm_take_run_sel [of s start 0 count] by (auto intro: pmm_inv_hint)
  then show ?thesis
    using s' phys run by (intro exI [of _ start]) (simp add: pmm_take_run_bits pmm_take_run_zeroes)
qed

theorem pmm_alloc_contiguous_fresh_witness:
  "\<exists>s'. pmm_alloc_contiguous_pages pmm_example 1 = Inr (8192, s') \<and> pmm_inv s'"
proof -
  obtain s' where s': "pmm_alloc_contiguous_pages pmm_example 1 = Inr (8192, s')"
    by (simp add: pmm_alloc_contiguous_pages_def pmm_example_def pmm_find_run.simps
        pmm_first_used.simps pmm_test_bit_def page_bit_def)
  then show ?thesis using pmm_alloc_contiguous_fresh [OF pmm_example_inv _ _ s'] by auto
qed

text \<open>
  C5: \<^verbatim>\<open>pmm_alloc_contiguous_pages\<close> succeeds exactly when a free run of the requested length lies
  wholly behind the search hint or wholly in front of it.
\<close>

theorem pmm_alloc_contiguous_succeeds_iff:
  assumes "pmm_inv s" "count \<noteq> 0" "count \<le> PMM_MAX_PAGES"
  shows "(\<exists>r. pmm_alloc_contiguous_pages s count = Inr r) \<longleftrightarrow>
     (\<exists>p \<ge> pmm_next_hint s. free_run s p count (pmm_max_page_index s)) \<or>
     (\<exists>p. free_run s p count (pmm_next_hint s))"
proof -
  let ?max = "pmm_max_page_index s" and ?hint = "pmm_next_hint s"
  have bounds: "?hint \<le> ?max" "unat ?max \<le> 4194304" "unat ?hint \<le> 4194304" "unat count \<le> 4194304"
    using assms(1,3) by (auto simp: pmm_inv_def word_le_nat_alt)
  have high: "pmm_find_run s ?hint count ?max \<noteq> None \<longleftrightarrow> (\<exists>p \<ge> ?hint. free_run s p count ?max)"
    using pmm_find_run_sound [of s ?hint count ?max] pmm_find_run_complete [of s _ count ?max ?hint]
      bounds by blast
  have low: "pmm_find_run s 0 count ?hint \<noteq> None \<longleftrightarrow> (\<exists>p. free_run s p count ?hint)"
    using pmm_find_run_sound [of s 0 count ?hint] pmm_find_run_complete [of s _ count ?hint 0]
      bounds by auto
  have "(\<exists>r. pmm_alloc_contiguous_pages s count = Inr r) \<longleftrightarrow>
      pmm_find_run s ?hint count ?max \<noteq> None \<or> pmm_find_run s 0 count ?hint \<noteq> None"
    using assms(2) by (auto simp: pmm_alloc_contiguous_pages_def split: option.splits)
  then show ?thesis using high low by simp
qed

lemma pmm_example_run: "free_run pmm_example 1 2 4"
proof -
  have "\<not> pmm_test_bit pmm_example (1 + j)" if "j < 2" for j :: u64
  proof -
    have "j = 0 \<or> j = 1"
      using that by (simp add: word_less_nat_alt word_unat_eq_iff) linarith
    then show ?thesis by (auto simp: pmm_example_def pmm_test_bit_def page_bit_def)
  qed
  then show ?thesis by (auto simp: free_run_def)
qed

theorem pmm_alloc_contiguous_succeeds_iff_witness:
  "\<exists>r. pmm_alloc_contiguous_pages pmm_example 1 = Inr r"
proof -
  have "free_run pmm_example 2 1 (pmm_max_page_index pmm_example)"
    by (auto simp: free_run_def pmm_example_def pmm_test_bit_def page_bit_def word_less_nat_alt
        unat_0_iff)
  moreover have "pmm_next_hint pmm_example \<le> 2" by (simp add: pmm_example_def)
  ultimately show ?thesis
    using pmm_alloc_contiguous_succeeds_iff [OF pmm_example_inv, of 1] by auto
qed


end
