(* ===== verification/Paging.thy ===== *)
theory Paging
  imports Physical_Memory
begin

text \<open>
  The virtual memory manager of \<^verbatim>\<open>kernel/memory.c\<close> (the \<^verbatim>\<open>vmm_*\<close> functions, \<^verbatim>\<open>mmio_map_region\<close> and
  \<^verbatim>\<open>memory_init\<close>): four-level x86-64 page tables held in physical memory. A page-table pointer
  \<^verbatim>\<open>phys_to_virt(table)\<close> is represented by the physical address of the table; the out-parameter of
  a translation is its result, \<open>None\<close> where the function returns \<open>-1\<close>. The translation
  look-aside buffer is not part of the model, so \<^verbatim>\<open>invlpg\<close> has no counterpart.
\<close>

abbreviation PTE_PRESENT :: u64 where "PTE_PRESENT \<equiv> 1"
abbreviation PTE_WRITABLE :: u64 where "PTE_WRITABLE \<equiv> 2"
abbreviation PTE_USER :: u64 where "PTE_USER \<equiv> 4"
abbreviation PTE_PWT :: u64 where "PTE_PWT \<equiv> 8"
abbreviation PTE_PCD :: u64 where "PTE_PCD \<equiv> 16"
abbreviation PTE_HUGE :: u64 where "PTE_HUGE \<equiv> 128"
abbreviation PTE_NO_EXEC :: u64 where "PTE_NO_EXEC \<equiv> 0x8000000000000000"
abbreviation PTE_ADDR_MASK :: u64 where "PTE_ADDR_MASK \<equiv> 0x000ffffffffff000"
abbreviation USER_VIRT_MAX :: u64 where "USER_VIRT_MAX \<equiv> 0x0000800000000000"
abbreviation MMIO_BASE :: u64 where "MMIO_BASE \<equiv> 0xffffffffa0000000"
abbreviation MMIO_SIZE :: u64 where "MMIO_SIZE \<equiv> 0x1000000"

abbreviation VMM_FLAG_WRITABLE :: u64 where "VMM_FLAG_WRITABLE \<equiv> 2"
abbreviation VMM_FLAG_USER :: u64 where "VMM_FLAG_USER \<equiv> 4"
abbreviation VMM_FLAG_WRITE_COMBINING :: u64 where "VMM_FLAG_WRITE_COMBINING \<equiv> 8"
abbreviation VMM_FLAG_UNCACHED :: u64 where "VMM_FLAG_UNCACHED \<equiv> 16"
abbreviation VMM_FLAG_NO_EXEC :: u64 where "VMM_FLAG_NO_EXEC \<equiv> 0x8000000000000000"

text \<open>
  The rest of the static state of \<^verbatim>\<open>memory.c\<close> that the virtual memory manager uses, and the two
  machine registers it writes: CR3 and the page attribute table MSR.
\<close>

record vmm_state = pmm_state +
  hhdm_base :: u64
  kernel_cr3 :: u64
  mmio_next :: u64
  cr3_reg :: u64
  ia32_pat :: u64

definition phys_to_virt :: "'a vmm_state_scheme \<Rightarrow> u64 \<Rightarrow> u64" where
  "phys_to_virt s phys_addr = hhdm_base s + phys_addr"

definition table_entry :: "'a pmm_state_scheme \<Rightarrow> u64 \<Rightarrow> u64 \<Rightarrow> u64" where
  "table_entry s table index = phys_mem s (table + 8 * index)"

definition set_table_entry :: "'a pmm_state_scheme \<Rightarrow> u64 \<Rightarrow> u64 \<Rightarrow> u64 \<Rightarrow> 'a pmm_state_scheme" where
  "set_table_entry s table index v = s\<lparr>phys_mem := (phys_mem s)(table + 8 * index := v)\<rparr>"

definition pat_enable_write_combining :: "'a vmm_state_scheme \<Rightarrow> 'a vmm_state_scheme" where
  "pat_enable_write_combining s =
     s\<lparr>ia32_pat := (ia32_pat s AND NOT (push_bit 8 0xff)) OR push_bit 8 1\<rparr>"

definition vmm_next_level ::
  "'a pmm_state_scheme \<Rightarrow> u64 \<Rightarrow> u64 \<Rightarrow> bool \<Rightarrow> u64 \<Rightarrow> (u64 option \<times> 'a pmm_state_scheme) kres" where
  "vmm_next_level s table index create flags =
     (if table_entry s table index AND PTE_PRESENT = 0 then
        (if \<not> create then Inr (None, s)
         else kbind (pmm_alloc_page s) (\<lambda>(phys, s).
           let s = set_table_entry s table index
                     (phys OR PTE_PRESENT OR PTE_WRITABLE OR (flags AND PTE_USER))
           in Inr (Some (table_entry s table index AND PTE_ADDR_MASK), s)))
      else
        let s = (if flags AND PTE_USER \<noteq> 0
                 then set_table_entry s table index (table_entry s table index OR PTE_USER) else s)
        in Inr (Some (table_entry s table index AND PTE_ADDR_MASK), s))"

definition pml4_index :: "u64 \<Rightarrow> u64" where "pml4_index virt = drop_bit 39 virt AND 0x1ff"
definition pdpt_index :: "u64 \<Rightarrow> u64" where "pdpt_index virt = drop_bit 30 virt AND 0x1ff"
definition pd_index :: "u64 \<Rightarrow> u64" where "pd_index virt = drop_bit 21 virt AND 0x1ff"
definition pt_index :: "u64 \<Rightarrow> u64" where "pt_index virt = drop_bit 12 virt AND 0x1ff"

text \<open>The cache-attribute part of \<^verbatim>\<open>vmm_map_page_in\<close>.\<close>

definition vmm_pte_flags :: "u64 \<Rightarrow> u64" where
  "vmm_pte_flags flags =
     (let f = flags;
          f = (if f AND VMM_FLAG_WRITE_COMBINING \<noteq> 0
               then ((f AND NOT VMM_FLAG_WRITE_COMBINING) AND NOT PTE_PCD) OR PTE_PWT else f);
          f = (if f AND VMM_FLAG_UNCACHED \<noteq> 0
               then ((f AND NOT VMM_FLAG_UNCACHED) OR PTE_PCD) AND NOT PTE_PWT else f)
      in f)"

definition vmm_map_page_in ::
  "'a pmm_state_scheme \<Rightarrow> u64 \<Rightarrow> u64 \<Rightarrow> u64 \<Rightarrow> u64 \<Rightarrow> (int \<times> 'a pmm_state_scheme) kres" where
  "vmm_map_page_in s cr3_phys virt_addr phys_addr flags =
     (if virt_addr mod PAGE_SIZE \<noteq> 0 \<or> phys_addr mod PAGE_SIZE \<noteq> 0 then Inr (-1, s)
      else kbind (vmm_next_level s (cr3_phys AND PTE_ADDR_MASK) (pml4_index virt_addr) True flags)
        (\<lambda>(pdpt, s). kbind (vmm_next_level s (the pdpt) (pdpt_index virt_addr) True flags)
        (\<lambda>(pd, s). kbind (vmm_next_level s (the pd) (pd_index virt_addr) True flags)
        (\<lambda>(pt, s). Inr (0, set_table_entry s (the pt) (pt_index virt_addr)
                     ((phys_addr AND PTE_ADDR_MASK) OR vmm_pte_flags flags OR PTE_PRESENT))))))"

definition vmm_map_page ::
  "'a vmm_state_scheme \<Rightarrow> u64 \<Rightarrow> u64 \<Rightarrow> u64 \<Rightarrow> (int \<times> 'a vmm_state_scheme) kres" where
  "vmm_map_page s virt_addr phys_addr flags = vmm_map_page_in s (cr3_reg s) virt_addr phys_addr flags"

definition vmm_translate_kernel_addr :: "'a vmm_state_scheme \<Rightarrow> u64 \<Rightarrow> u64 option" where
  "vmm_translate_kernel_addr s virt_addr =
     (let pml4e = table_entry s (cr3_reg s AND PTE_ADDR_MASK) (pml4_index virt_addr) in
      if pml4e AND PTE_PRESENT = 0 then None else
      let pdpte = table_entry s (pml4e AND PTE_ADDR_MASK) (pdpt_index virt_addr) in
      if pdpte AND PTE_PRESENT = 0 then None else
      if pdpte AND PTE_HUGE \<noteq> 0
      then Some ((pdpte AND 0x000fffffc0000000) OR (virt_addr AND 0x3fffffff)) else
      let pde = table_entry s (pdpte AND PTE_ADDR_MASK) (pd_index virt_addr) in
      if pde AND PTE_PRESENT = 0 then None else
      if pde AND PTE_HUGE \<noteq> 0
      then Some ((pde AND 0x000fffffffe00000) OR (virt_addr AND 0x1fffff)) else
      let pte = table_entry s (pde AND PTE_ADDR_MASK) (pt_index virt_addr) in
      if pte AND PTE_PRESENT = 0 then None else
      Some ((pte AND PTE_ADDR_MASK) OR (virt_addr AND (PAGE_SIZE - 1))))"

text \<open>\<^verbatim>\<open>mmio_map_region\<close>: its mapping loop, then the call; a NULL result is \<open>0\<close>.\<close>

function mmio_map_pages ::
  "'a vmm_state_scheme \<Rightarrow> u64 \<Rightarrow> u64 \<Rightarrow> u64 \<Rightarrow> u64 \<Rightarrow> (bool \<times> 'a vmm_state_scheme) kres" where
  "mmio_map_pages s virt_start phys_start i pages =
     (if i < pages then
        kbind (vmm_map_page s (virt_start + i * PAGE_SIZE) (phys_start + i * PAGE_SIZE)
                 (VMM_FLAG_WRITABLE OR VMM_FLAG_NO_EXEC OR VMM_FLAG_UNCACHED))
          (\<lambda>(r, s). if r \<noteq> 0 then Inr (False, s)
                    else mmio_map_pages s virt_start phys_start (i + 1) pages)
      else Inr (True, s))"
  by pat_completeness auto
termination
  by (relation "measure (\<lambda>(s, v, p, i, pages). unat pages - unat i)") (auto simp: loop_measure_u64)

declare mmio_map_pages.simps [simp del]

definition mmio_map_region :: "'a vmm_state_scheme \<Rightarrow> u64 \<Rightarrow> u64 \<Rightarrow> (u64 \<times> 'a vmm_state_scheme) kres" where
  "mmio_map_region s phys_addr len =
     (if len = 0 then Inr (0, s) else
      let offset = phys_addr AND (PAGE_SIZE - 1);
          phys_start = phys_addr AND NOT (PAGE_SIZE - 1);
          map_len = len + offset;
          pages = (map_len + PAGE_SIZE - 1) div PAGE_SIZE;
          virt_start = mmio_next s
      in if virt_start + pages * PAGE_SIZE > MMIO_BASE + MMIO_SIZE then Inr (0, s)
         else kbind (mmio_map_pages s virt_start phys_start 0 pages)
           (\<lambda>(ok, s). if \<not> ok then Inr (0, s)
              else Inr (virt_start + offset, s\<lparr>mmio_next := mmio_next s + pages * PAGE_SIZE\<rparr>)))"

text \<open>
  \<^verbatim>\<open>vmm_translate_user_addr\<close>: the loop over the four levels is a recursion on the indices that are
  left; the last one is level 3.
\<close>

fun user_walk :: "'a pmm_state_scheme \<Rightarrow> bool \<Rightarrow> u64 \<Rightarrow> u64 \<Rightarrow> u64 list \<Rightarrow> u64 option" where
  "user_walk s write virt_addr table [] = None"
| "user_walk s write virt_addr table (index # indices) =
     (let entry = table_entry s table index in
      if entry AND PTE_PRESENT = 0 \<or> entry AND PTE_USER = 0 then None
      else if write \<and> entry AND PTE_WRITABLE = 0 then None
      else if indices = [] then Some ((entry AND PTE_ADDR_MASK) OR (virt_addr AND (PAGE_SIZE - 1)))
      else if entry AND PTE_HUGE \<noteq> 0 then None
      else user_walk s write virt_addr (entry AND PTE_ADDR_MASK) indices)"

definition vmm_indices :: "u64 \<Rightarrow> u64 list" where
  "vmm_indices virt = [pml4_index virt, pdpt_index virt, pd_index virt, pt_index virt]"

definition vmm_translate_user_addr :: "'a pmm_state_scheme \<Rightarrow> u64 \<Rightarrow> u64 \<Rightarrow> bool \<Rightarrow> u64 option" where
  "vmm_translate_user_addr s cr3_phys virt_addr write =
     (if virt_addr \<ge> USER_VIRT_MAX then None
      else user_walk s write virt_addr (cr3_phys AND PTE_ADDR_MASK) (vmm_indices virt_addr))"

text \<open>
  Tearing an address space down. The loops over a table's entries are recursions over the list of
  indices that are left; they return the number of pages freed.
\<close>

definition table_indices :: "nat \<Rightarrow> u64 list" where
  "table_indices n = map word_of_nat [0..<n]"

fun vmm_free_pt_entries ::
  "'a pmm_state_scheme \<Rightarrow> u64 \<Rightarrow> u64 list \<Rightarrow> u64 \<Rightarrow> (u64 \<times> 'a pmm_state_scheme) kres" where
  "vmm_free_pt_entries s pt [] freed = Inr (freed, s)"
| "vmm_free_pt_entries s pt (i # is) freed =
     (let entry = table_entry s pt i in
      if entry AND PTE_PRESENT = 0 then vmm_free_pt_entries s pt is freed
      else kbind (pmm_free_page s (entry AND PTE_ADDR_MASK))
        (\<lambda>s. vmm_free_pt_entries (set_table_entry s pt i 0) pt is (freed + 1)))"

definition vmm_free_pt :: "'a pmm_state_scheme \<Rightarrow> u64 \<Rightarrow> (u64 \<times> 'a pmm_state_scheme) kres" where
  "vmm_free_pt s pt_phys =
     kbind (vmm_free_pt_entries s (pt_phys AND PTE_ADDR_MASK) (table_indices 512) 0)
       (\<lambda>(freed, s). kbind (pmm_free_page s (pt_phys AND PTE_ADDR_MASK)) (\<lambda>s. Inr (freed + 1, s)))"

fun vmm_free_pd_entries ::
  "'a pmm_state_scheme \<Rightarrow> u64 \<Rightarrow> u64 list \<Rightarrow> u64 \<Rightarrow> (u64 \<times> 'a pmm_state_scheme) kres" where
  "vmm_free_pd_entries s pd [] freed = Inr (freed, s)"
| "vmm_free_pd_entries s pd (i # is) freed =
     (let entry = table_entry s pd i in
      if entry AND PTE_PRESENT = 0 then vmm_free_pd_entries s pd is freed
      else if entry AND PTE_HUGE \<noteq> 0 then Inl ''cannot free huge user PD mapping''
      else kbind (vmm_free_pt s (entry AND PTE_ADDR_MASK))
        (\<lambda>(n, s). vmm_free_pd_entries (set_table_entry s pd i 0) pd is (freed + n)))"

definition vmm_free_pd :: "'a pmm_state_scheme \<Rightarrow> u64 \<Rightarrow> (u64 \<times> 'a pmm_state_scheme) kres" where
  "vmm_free_pd s pd_phys =
     kbind (vmm_free_pd_entries s (pd_phys AND PTE_ADDR_MASK) (table_indices 512) 0)
       (\<lambda>(freed, s). kbind (pmm_free_page s (pd_phys AND PTE_ADDR_MASK)) (\<lambda>s. Inr (freed + 1, s)))"

fun vmm_free_pdpt_entries ::
  "'a pmm_state_scheme \<Rightarrow> u64 \<Rightarrow> u64 list \<Rightarrow> u64 \<Rightarrow> (u64 \<times> 'a pmm_state_scheme) kres" where
  "vmm_free_pdpt_entries s pdpt [] freed = Inr (freed, s)"
| "vmm_free_pdpt_entries s pdpt (i # is) freed =
     (let entry = table_entry s pdpt i in
      if entry AND PTE_PRESENT = 0 then vmm_free_pdpt_entries s pdpt is freed
      else if entry AND PTE_HUGE \<noteq> 0 then Inl ''cannot free huge user PDPT mapping''
      else kbind (vmm_free_pd s (entry AND PTE_ADDR_MASK))
        (\<lambda>(n, s). vmm_free_pdpt_entries (set_table_entry s pdpt i 0) pdpt is (freed + n)))"

definition vmm_free_pdpt :: "'a pmm_state_scheme \<Rightarrow> u64 \<Rightarrow> (u64 \<times> 'a pmm_state_scheme) kres" where
  "vmm_free_pdpt s pdpt_phys =
     kbind (vmm_free_pdpt_entries s (pdpt_phys AND PTE_ADDR_MASK) (table_indices 512) 0)
       (\<lambda>(freed, s). kbind (pmm_free_page s (pdpt_phys AND PTE_ADDR_MASK)) (\<lambda>s. Inr (freed + 1, s)))"

fun vmm_free_pml4_entries ::
  "'a pmm_state_scheme \<Rightarrow> u64 \<Rightarrow> u64 list \<Rightarrow> u64 \<Rightarrow> (u64 \<times> 'a pmm_state_scheme) kres" where
  "vmm_free_pml4_entries s pml4 [] freed = Inr (freed, s)"
| "vmm_free_pml4_entries s pml4 (i # is) freed =
     (let entry = table_entry s pml4 i in
      if entry AND PTE_PRESENT = 0 then vmm_free_pml4_entries s pml4 is freed
      else kbind (vmm_free_pdpt s (entry AND PTE_ADDR_MASK))
        (\<lambda>(n, s). vmm_free_pml4_entries (set_table_entry s pml4 i 0) pml4 is (freed + n)))"

definition vmm_destroy_user_address_space ::
  "'a vmm_state_scheme \<Rightarrow> u64 \<Rightarrow> (u64 \<times> 'a vmm_state_scheme) kres" where
  "vmm_destroy_user_address_space s cr3_phys =
     (let cr3_phys = cr3_phys AND PTE_ADDR_MASK in
      if cr3_phys = 0 \<or> cr3_phys = kernel_cr3 s \<or> cr3_phys = (cr3_reg s AND PTE_ADDR_MASK)
      then Inr (0, s)
      else kbind (vmm_free_pml4_entries s cr3_phys (table_indices 256) 0)
        (\<lambda>(freed, s). kbind (pmm_free_page s cr3_phys) (\<lambda>s. Inr (freed + 1, s))))"

definition vmm_create_address_space :: "'a vmm_state_scheme \<Rightarrow> (u64 \<times> 'a vmm_state_scheme) kres" where
  "vmm_create_address_space s =
     kbind (pmm_alloc_page s) (\<lambda>(cr3_phys, s).
       let s = fold (\<lambda>i s. set_table_entry s cr3_phys i 0) (table_indices 256) s;
           s = fold (\<lambda>i s. set_table_entry s cr3_phys i (table_entry s (kernel_cr3 s) i))
                 (map word_of_nat [256..<512]) s
       in Inr (cr3_phys, s))"

definition vmm_current_address_space :: "'a vmm_state_scheme \<Rightarrow> u64" where
  "vmm_current_address_space s = cr3_reg s AND PTE_ADDR_MASK"

definition vmm_kernel_address_space :: "'a vmm_state_scheme \<Rightarrow> u64" where
  "vmm_kernel_address_space s = kernel_cr3 s"

definition vmm_switch_address_space :: "'a vmm_state_scheme \<Rightarrow> u64 \<Rightarrow> 'a vmm_state_scheme" where
  "vmm_switch_address_space s cr3_phys =
     (let cr3_phys = cr3_phys AND PTE_ADDR_MASK in
      if cr3_reg s AND PTE_ADDR_MASK = cr3_phys then s else s\<lparr>cr3_reg := cr3_phys\<rparr>)"

subsection \<open>Start-up\<close>

record limine_memmap_entry =
  mm_base :: u64
  mm_length :: u64
  mm_type :: u64

abbreviation LIMINE_MEMMAP_USABLE :: u64 where "LIMINE_MEMMAP_USABLE \<equiv> 0"

text \<open>The body of the loop of \<^verbatim>\<open>memory_init\<close> over the boot loader's memory map.\<close>

definition memory_init_entry ::
  "limine_memmap_entry \<Rightarrow> 'a pmm_state_scheme \<Rightarrow> 'a pmm_state_scheme" where
  "memory_init_entry entry s =
     (let end = mm_base entry + mm_length entry;
          page_end = align_up end PAGE_SIZE div PAGE_SIZE;
          s = (if page_end > pmm_max_page_index s
               then let s = s\<lparr>pmm_max_page_index := page_end\<rparr>
                    in if pmm_max_page_index s > PMM_MAX_PAGES
                       then s\<lparr>pmm_max_page_index := PMM_MAX_PAGES\<rparr> else s
               else s);
          managed_start = align_down (mm_base entry) PAGE_SIZE div PAGE_SIZE;
          managed_end = page_end;
          s = (if managed_start < PMM_MAX_PAGES
               then let managed_end = (if managed_end > PMM_MAX_PAGES then PMM_MAX_PAGES else managed_end)
                    in if managed_end > managed_start
                       then s\<lparr>pmm_managed_page_count :=
                                pmm_managed_page_count s + (managed_end - managed_start)\<rparr>
                       else s
               else s)
      in if mm_type entry = LIMINE_MEMMAP_USABLE
         then pmm_mark_range_free s (mm_base entry) (mm_length entry) else s)"

definition memory_init ::
  "limine_memmap_entry list \<Rightarrow> u64 \<Rightarrow> 'a vmm_state_scheme \<Rightarrow> 'a vmm_state_scheme" where
  "memory_init memmap hhdm_offset s =
     (let s = s\<lparr>hhdm_base := hhdm_offset\<rparr>;
          s = s\<lparr>kernel_cr3 := cr3_reg s AND PTE_ADDR_MASK\<rparr>;
          s = pat_enable_write_combining s;
          s = s\<lparr>pmm_free_page_count := 0, pmm_managed_page_count := 0,
                pmm_max_page_index := 0, pmm_next_hint := 0\<rparr>;
          s = s\<lparr>pmm_bitmap := (\<lambda>i. if i < BITMAP_WORDS then -1 else pmm_bitmap s i)\<rparr>
      in fold memory_init_entry memmap s)"

end
