(* ===== verification/Page_Tables.thy ===== *)
theory Page_Tables imports Paging begin

text \<open>
  The user halves of the page tables that \<^verbatim>\<open>memory.c\<close> builds: an invariant over all of them (tables
  and leaf frames are allocated and owned by exactly one entry), what \<^verbatim>\<open>vmm_next_level\<close> and
  \<^verbatim>\<open>vmm_map_page_in\<close> do to it, and the resulting theorems on address translation.
\<close>

subsection \<open>Entries and frames\<close>

lemma and_flag_iff_bit:
  "(e AND 1 = 0) = (\<not> bit e 0)" "(e AND 2 = 0) = (\<not> bit e 1)" "(e AND 4 = 0) = (\<not> bit e 2)"
  "(e AND 8 = 0) = (\<not> bit e 3)" "(e AND 16 = 0) = (\<not> bit e 4)" "(e AND 128 = 0) = (\<not> bit e 7)"
  for e :: u64
  using and_exp_eq_0_iff_not_bit [of e 0] and_exp_eq_0_iff_not_bit [of e 1]
    and_exp_eq_0_iff_not_bit [of e 2] and_exp_eq_0_iff_not_bit [of e 3]
    and_exp_eq_0_iff_not_bit [of e 4] and_exp_eq_0_iff_not_bit [of e 7]
  by simp_all

lemma addr_mask_eq: "PTE_ADDR_MASK = push_bit 12 (mask 40)"
  by (simp add: mask_eq_exp_minus_1)

lemma bit_addr_mask: "bit PTE_ADDR_MASK n \<longleftrightarrow> 12 \<le> n \<and> n < 52"
  unfolding addr_mask_eq by (auto simp: bit_simps)

text \<open>A frame address: what the address mask leaves of a page-table entry.\<close>

definition is_frame :: "u64 \<Rightarrow> bool" where
  "is_frame f \<longleftrightarrow> f AND PTE_ADDR_MASK = f"

lemma is_frame_bit: "is_frame f \<Longrightarrow> bit f n \<Longrightarrow> 12 \<le> n \<and> n < 52"
  unfolding is_frame_def by (metis bit_and_iff bit_addr_mask)

lemma is_frame_mask [simp]: "is_frame (e AND PTE_ADDR_MASK)"
  by (simp add: is_frame_def and.assoc)

lemma frame_aligned: "is_frame f \<Longrightarrow> page_aligned f"
proof -
  assume f: "is_frame f"
  have "f AND NOT (mask 12) = f"
    by (rule bit_word_eqI) (use is_frame_bit [OF f] in \<open>fastforce simp: bit_simps\<close>)
  then have "align_down f (2 ^ 12) = f" by (simp add: align_down_def mask_eq_exp_minus_1)
  then show ?thesis by (simp add: page_aligned_iff_page_of)
qed

lemma is_frameI:
  assumes "page_aligned f" "unat f < 2 ^ 52"
  shows "is_frame f"
proof -
  have "\<not> bit f n" if "n < 12" for n
  proof -
    have "f = push_bit 12 (drop_bit 12 f)"
      using assms(1) align_down_eq [of f 12] by (simp add: page_aligned_iff_page_of)
    then show ?thesis using that by (metis bit_push_bit_iff not_le)
  qed
  moreover have "\<not> bit f n" if "52 \<le> n" for n
  proof -
    have "take_bit 52 f = f" using assms(2)
      by (simp add: word_unat_eq_iff unsigned_take_bit_eq take_bit_nat_eq_self)
    then show ?thesis using that by (metis bit_take_bit_iff not_le)
  qed
  ultimately show ?thesis
    unfolding is_frame_def
    by (intro bit_word_eqI) (metis bit_and_iff bit_addr_mask not_le)
qed

text \<open>Entries of distinct slots of distinct tables do not overlap.\<close>

lemma unat_slot: "i < (512 :: u64) \<Longrightarrow> unat (8 * i) = 8 * unat i"
  by (simp add: unat_word_ariths word_less_nat_alt)

lemma page_of_slot: "is_frame t \<Longrightarrow> i < 512 \<Longrightarrow> page_of (t + 8 * i) = t"
  by (rule page_of_add) (simp_all add: frame_aligned unat_slot word_less_nat_alt)

lemma slot_eq_iff:
  assumes "is_frame t" "is_frame t'" "i < 512" "i' < 512"
  shows "t + 8 * i = t' + 8 * i' \<longleftrightarrow> t = t' \<and> i = i'"
proof
  assume eq: "t + 8 * i = t' + 8 * i'"
  then have "t = t'" using page_of_slot [OF assms(1,3)] page_of_slot [OF assms(2,4)] by metis
  moreover from this eq have "unat (8 * i) = unat (8 * i')" by simp
  ultimately show "t = t' \<and> i = i'"
    using assms(3,4) by (simp add: unat_slot word_unat_eq_iff)
qed simp

lemma table_entry_set:
  assumes "is_frame t" "is_frame t'" "i < 512" "i' < 512"
  shows "table_entry (set_table_entry s t i v) t' i' = (if t' = t \<and> i' = i then v else table_entry s t' i')"
  using slot_eq_iff [OF assms] by (auto simp: table_entry_def set_table_entry_def)

lemma set_table_entry_sel [simp]:
  "pmm_inv (set_table_entry s t i v) = pmm_inv s"
  "pmm_test_bit (set_table_entry s t i v) q = pmm_test_bit s q"
  "pmm_max_page_index (set_table_entry s t i v) = pmm_max_page_index s"
  "free_page_set (set_table_entry s t i v) = free_page_set s"
  "pmm_state.more (set_table_entry s t i v) = pmm_state.more s"
  by (simp_all add: set_table_entry_def)

lemma set_table_entry_same [simp]: "set_table_entry s t i (table_entry s t i) = s"
  by (simp add: set_table_entry_def table_entry_def)

text \<open>A frame the allocator has handed out.\<close>

definition frame_used :: "'a pmm_state_scheme \<Rightarrow> u64 \<Rightarrow> bool" where
  "frame_used s f \<longleftrightarrow> is_frame f \<and> f div PAGE_SIZE < pmm_max_page_index s \<and> pmm_test_bit s (f div PAGE_SIZE)"

lemma frame_used_set [simp]: "frame_used (set_table_entry s t i v) f = frame_used s f"
  by (simp add: frame_used_def)

lemma frame_div_inj:
  assumes "is_frame f" "is_frame g" "f div PAGE_SIZE = g div PAGE_SIZE"
  shows "f = g"
proof -
  have "unat f mod 4096 = 0" "unat g mod 4096 = 0"
    using assms(1,2) by (simp_all add: frame_aligned page_aligned_unat [symmetric])
  moreover have "unat f div 4096 = unat g div 4096"
    using arg_cong [OF assms(3), of unat] by (simp add: unat_div_distrib)
  ultimately show ?thesis by (metis div_mult_mod_eq word_unat_eq_iff)
qed

lemma pmm_alloc_frame:
  assumes "pmm_inv s" "pmm_alloc_page s = Inr (f, s')"
  shows "is_frame f" and "\<not> frame_used s f" and "frame_used s' f" and "pmm_inv s'"
    and "frame_used s g \<Longrightarrow> frame_used s' g"
    and "is_frame t \<Longrightarrow> t \<noteq> f \<Longrightarrow> i < 512 \<Longrightarrow> table_entry s' t i = table_entry s t i"
    and "i < 512 \<Longrightarrow> table_entry s' f i = 0"
    and "pmm_max_page_index s' = pmm_max_page_index s"
    and "pmm_state.more s' = pmm_state.more s"
    and "f div PAGE_SIZE \<in> free_page_set s"
    and "free_page_set s' = free_page_set s - {f div PAGE_SIZE}"
    and "page_of a \<noteq> f \<Longrightarrow> phys_mem s' a = phys_mem s a"
    and "page_of a = f \<Longrightarrow> phys_mem s' a = 0"
proof -
  obtain page where page: "page \<in> free_page_set s" and take: "pmm_take_page s page = (f, s')"
    using pmm_alloc_page_takes [OF assms] .
  note sel = pmm_take_page_sel [OF take]
  have unat: "unat f = unat page * 4096" using unat_page_phys [OF assms(1) page] sel(1) by simp
  have "unat page < 4194304"
    using assms(1) page by (auto simp: pmm_inv_def free_page_set_def word_less_nat_alt word_le_nat_alt)
  then show frame: "is_frame f"
    using unat by (intro is_frameI) (simp_all add: page_aligned_unat)
  have idx: "f div PAGE_SIZE = page"
    using unat by (simp add: word_unat_eq_iff unat_div_distrib)
  show "\<not> frame_used s f" "frame_used s' f"
    using page sel(2,5) frame unfolding frame_used_def idx by (auto simp: free_page_set_def)
  show "frame_used s g \<Longrightarrow> frame_used s' g"
    using sel by (simp add: frame_used_def)
  show "is_frame t \<Longrightarrow> t \<noteq> f \<Longrightarrow> i < 512 \<Longrightarrow> table_entry s' t i = table_entry s t i"
    using sel(3) by (simp add: table_entry_def zero_page_def page_of_slot)
  show "i < 512 \<Longrightarrow> table_entry s' f i = 0"
    using sel(3) frame by (simp add: table_entry_def zero_page_def page_of_slot)
  show "pmm_inv s'" using assms by (rule pmm_alloc_page_inv)
  show "pmm_max_page_index s' = pmm_max_page_index s" "pmm_state.more s' = pmm_state.more s"
    using sel by simp_all
  show "f div PAGE_SIZE \<in> free_page_set s" "free_page_set s' = free_page_set s - {f div PAGE_SIZE}"
    using sel(7) page by (simp_all only: idx)
  show "page_of a \<noteq> f \<Longrightarrow> phys_mem s' a = phys_mem s a" "page_of a = f \<Longrightarrow> phys_mem s' a = 0"
    using sel(3) by (simp_all add: zero_page_def)
qed

subsection \<open>User page-table trees\<close>

text \<open>
  The ghost map \<open>lv\<close> gives the level of every frame that holds a table of some user half: 4 for a
  PML4, 3 for a PDPT, 2 for a page directory, 1 for a page table. Only the first 256 slots of a
  PML4 belong to user space.
\<close>

type_synonym level_map = "u64 \<rightharpoonup> nat"

definition user_slot :: "nat \<Rightarrow> u64 \<Rightarrow> bool" where
  "user_slot k i \<longleftrightarrow> i < (if k = 4 then 256 else 512)"

lemma user_slot_512: "user_slot k i \<Longrightarrow> i < 512"
  by (auto simp: user_slot_def split: if_splits intro: order_less_trans)

text \<open>Slot \<open>i\<close> of table \<open>t\<close> is present and points at frame \<open>c\<close>.\<close>

definition pt_child :: "'a pmm_state_scheme \<Rightarrow> level_map \<Rightarrow> u64 \<Rightarrow> nat \<Rightarrow> u64 \<Rightarrow> u64 \<Rightarrow> bool" where
  "pt_child s lv t k i c \<longleftrightarrow>
     lv t = Some k \<and> user_slot k i \<and> bit (table_entry s t i) 0 \<and> c = table_entry s t i AND PTE_ADDR_MASK"

text \<open>
  The invariant of the user halves of all address spaces: tables are allocated frames; an inner
  entry is writable, user-accessible, not huge, and points at a table one level down; a leaf entry
  points at an allocated frame that is not a table; and no two entries share a frame.
\<close>

definition upt_inv :: "'a pmm_state_scheme \<Rightarrow> level_map \<Rightarrow> bool" where
  "upt_inv s lv \<longleftrightarrow>
     (\<forall>t k. lv t = Some k \<longrightarrow> 1 \<le> k \<and> k \<le> 4 \<and> frame_used s t) \<and>
     (\<forall>t k i c. pt_child s lv t k i c \<longrightarrow>
        frame_used s c \<and>
        (if k = 1 then lv c = None
         else lv c = Some (k - 1) \<and> bit (table_entry s t i) 1 \<and> bit (table_entry s t i) 2 \<and>
              \<not> bit (table_entry s t i) 7)) \<and>
     (\<forall>t k i t' k' i' c. pt_child s lv t k i c \<and> pt_child s lv t' k' i' c \<longrightarrow> t = t' \<and> i = i')"

lemma upt_invI:
  assumes "\<And>t k. lv t = Some k \<Longrightarrow> 1 \<le> k \<and> k \<le> 4 \<and> frame_used s t"
    and "\<And>t k i c. pt_child s lv t k i c \<Longrightarrow> frame_used s c"
    and "\<And>t i c. pt_child s lv t 1 i c \<Longrightarrow> lv c = None"
    and "\<And>t k i c. pt_child s lv t k i c \<Longrightarrow> k \<noteq> 1 \<Longrightarrow>
           lv c = Some (k - 1) \<and> bit (table_entry s t i) 1 \<and> bit (table_entry s t i) 2 \<and>
           \<not> bit (table_entry s t i) 7"
    and "\<And>t k i t' k' i' c. pt_child s lv t k i c \<Longrightarrow> pt_child s lv t' k' i' c \<Longrightarrow> t = t' \<and> i = i'"
  shows "upt_inv s lv"
  unfolding upt_inv_def using assms by (auto split: if_splits)

lemma upt_inv_table: "upt_inv s lv \<Longrightarrow> lv t = Some k \<Longrightarrow> 1 \<le> k \<and> k \<le> 4 \<and> frame_used s t"
  by (auto simp: upt_inv_def)

lemma upt_inv_frame: "upt_inv s lv \<Longrightarrow> lv t = Some k \<Longrightarrow> is_frame t"
  by (auto simp: upt_inv_def frame_used_def)

lemma upt_inv_child: "upt_inv s lv \<Longrightarrow> pt_child s lv t k i c \<Longrightarrow> frame_used s c"
  by (auto simp: upt_inv_def)

lemma upt_inv_leaf: "upt_inv s lv \<Longrightarrow> pt_child s lv t 1 i c \<Longrightarrow> lv c = None"
  by (auto simp: upt_inv_def)

lemma upt_inv_inner:
  assumes "upt_inv s lv" "pt_child s lv t k i c" "k \<noteq> 1"
  shows "lv c = Some (k - 1)" "bit (table_entry s t i) 1" "bit (table_entry s t i) 2"
    "\<not> bit (table_entry s t i) 7"
  using assms unfolding upt_inv_def by (metis (no_types, lifting))+

lemma upt_inv_unique:
  "upt_inv s lv \<Longrightarrow> pt_child s lv t k i c \<Longrightarrow> pt_child s lv t' k' i' c \<Longrightarrow> t = t' \<and> i = i'"
  unfolding upt_inv_def by blast

text \<open>The entry \<^verbatim>\<open>vmm_next_level\<close> writes for a new table.\<close>

lemma new_table_entry:
  assumes "is_frame f" "bit flags 2"
  shows "bit (f OR 1 OR 2 OR (flags AND 4)) 0" "bit (f OR 1 OR 2 OR (flags AND 4)) 1"
    "bit (f OR 1 OR 2 OR (flags AND 4)) 2" "\<not> bit (f OR 1 OR 2 OR (flags AND 4)) 7"
    "(f OR 1 OR 2 OR (flags AND 4)) AND PTE_ADDR_MASK = f"
proof -
  have low: "\<not> bit f n" if "n < 12" for n using is_frame_bit [OF assms(1), of n] that by auto
  have bits: "bit (1::u64) n \<longleftrightarrow> n = 0" "bit (2::u64) n \<longleftrightarrow> n = 1" "bit (4::u64) n \<longleftrightarrow> n = 2" for n
    using bit_exp_iff [of 0 n, where ?'a = u64] bit_exp_iff [of 1 n, where ?'a = u64]
      bit_exp_iff [of 2 n, where ?'a = u64] by (auto simp: bit_1_iff)
  show "bit (f OR 1 OR 2 OR (flags AND 4)) 0" "bit (f OR 1 OR 2 OR (flags AND 4)) 1"
    "bit (f OR 1 OR 2 OR (flags AND 4)) 2" "\<not> bit (f OR 1 OR 2 OR (flags AND 4)) 7"
    using low assms(2) by (simp_all add: bit_or_iff bit_and_iff bits)
  show "(f OR 1 OR 2 OR (flags AND 4)) AND PTE_ADDR_MASK = f"
  proof (rule bit_word_eqI)
    fix n
    show "bit ((f OR 1 OR 2 OR (flags AND 4)) AND PTE_ADDR_MASK) n = bit f n"
      using is_frame_bit [OF assms(1), of n] unfolding bit_and_iff bit_or_iff bits bit_addr_mask
      by auto
  qed
qed


lemma frame_used_not_free: "frame_used s f \<Longrightarrow> f div PAGE_SIZE \<notin> free_page_set s"
  by (simp add: frame_used_def free_page_set_def)

text \<open>
  What adding tables may change: only frames that were free become tables, every mapping present
  before is still there, nothing new points at a frame that was in use, and all memory that is
  neither free nor a user table keeps its contents.
\<close>

definition pt_grow ::
  "'a pmm_state_scheme \<Rightarrow> level_map \<Rightarrow> 'a pmm_state_scheme \<Rightarrow> level_map \<Rightarrow> bool" where
  "pt_grow s lv s' lv' \<longleftrightarrow>
     lv \<subseteq>\<^sub>m lv' \<and>
     (\<forall>f. f div PAGE_SIZE \<notin> free_page_set s \<longrightarrow> lv' f = lv f) \<and>
     (\<forall>f. frame_used s f \<longrightarrow> frame_used s' f) \<and>
     free_page_set s' \<subseteq> free_page_set s \<and>
     (\<forall>t k i c. pt_child s lv t k i c \<longrightarrow>
        pt_child s' lv' t k i c \<and> table_entry s' t i = table_entry s t i) \<and>
     (\<forall>t k i c. pt_child s' lv' t k i c \<and> (frame_used s c \<or> k = 1) \<longrightarrow> pt_child s lv t k i c) \<and>
     (\<forall>a. page_of a div PAGE_SIZE \<notin> free_page_set s \<and> lv (page_of a) = None \<longrightarrow> phys_mem s' a = phys_mem s a) \<and>
     (\<forall>t i. lv t = Some 4 \<and> 256 \<le> i \<and> i < 512 \<longrightarrow> table_entry s' t i = table_entry s t i) \<and>
     pmm_max_page_index s' = pmm_max_page_index s \<and>
     pmm_state.more s' = pmm_state.more s"

lemma pt_grow_refl [simp]: "pt_grow s lv s lv"
  by (simp add: pt_grow_def)

lemma pt_grow_trans:
  assumes a: "pt_grow s lv s' lv'" and b: "pt_grow s' lv' s'' lv''"
  shows "pt_grow s lv s'' lv''"
proof -
  have sub: "lv \<subseteq>\<^sub>m lv''" using a b by (auto simp: pt_grow_def intro: map_le_trans)
  have free: "f \<notin> free_page_set s'" if "f \<notin> free_page_set s" for f
    using a that by (auto simp: pt_grow_def)
  have lv4: "lv' t = Some 4" if "lv t = Some 4" for t
    using a that unfolding pt_grow_def map_le_def by (metis domI)
  note a' = a [unfolded pt_grow_def] and b' = b [unfolded pt_grow_def]
  show ?thesis
    unfolding pt_grow_def
  proof (intro conjI allI impI)
    show "lv'' f = lv f" if "f div PAGE_SIZE \<notin> free_page_set s" for f
      using that a' b' free by metis
    show "phys_mem s'' a = phys_mem s a"
      if "page_of a div PAGE_SIZE \<notin> free_page_set s \<and> lv (page_of a) = None" for a
      using that a' b' free by metis
    show "table_entry s'' t i = table_entry s t i" if "lv t = Some 4 \<and> 256 \<le> i \<and> i < 512" for t i
      using that a' b' lv4 by metis
  qed (rule sub | meson a' b' order_trans | metis a' b')+
qed

lemma pt_grow_fresh:
  assumes inv: "upt_inv s lv" "pmm_inv s" and t: "lv t = Some k" "2 \<le> k" "user_slot k i"
    and np: "\<not> bit (table_entry s t i) 0"
    and alloc: "pmm_alloc_page s = Inr (c, s1)" and fl: "bit flags 2"
    and s': "s' = set_table_entry s1 t i (c OR 1 OR 2 OR (flags AND 4))"
  shows "upt_inv s' (lv(c \<mapsto> k - 1))" "pt_grow s lv s' (lv(c \<mapsto> k - 1))"
    "pt_child s' (lv(c \<mapsto> k - 1)) t k i c" "pmm_inv s'"
proof -
  note al = pmm_alloc_frame [OF inv(2) alloc]
  let ?lv = "lv(c \<mapsto> k - 1)"
  let ?e = "c OR 1 OR 2 OR (flags AND 4)"
  note new = new_table_entry [OF al(1) fl]
  have used: "lv x = Some m \<Longrightarrow> 1 \<le> m \<and> m \<le> 4 \<and> frame_used s x" for x m
    using inv(1) by (rule upt_inv_table)
  have lvc: "lv c = None" using used [of c] al(2) by (cases "lv c") auto
  have tc: "t \<noteq> c" using t(1) lvc by auto
  have k4: "k \<le> 4" and tf: "is_frame t" using used [OF t(1)] by (auto simp: frame_used_def)
  have i512: "i < 512" using t(3) by (rule user_slot_512)
  have ent: "table_entry s' x j = (if x = t \<and> j = i then ?e else if x = c then 0 else table_entry s x j)"
    if "is_frame x" "j < 512" for x j
    using that tf i512 tc al(6) [of x j] al(7) [of j] by (auto simp: s' table_entry_set)
  have child: "pt_child s' ?lv x m j d \<longleftrightarrow> x = t \<and> m = k \<and> j = i \<and> d = c \<or> pt_child s lv x m j d" for x m j d
  proof (cases "?lv x = Some m \<and> user_slot m j")
    case True
    then have "is_frame x" "j < 512"
      using used [of x m] al(1) user_slot_512 by (auto simp: frame_used_def split: if_splits)
    then show ?thesis using True ent [of x j] new t np tc lvc by (auto simp: pt_child_def)
  next
    case False
    then show ?thesis using t lvc tc by (auto simp: pt_child_def)
  qed
  have old_used: "pt_child s lv x m j d \<Longrightarrow> frame_used s d" for x m j d
    using inv(1) by (rule upt_inv_child)
  have mono: "frame_used s x \<Longrightarrow> frame_used s' x" for x using al(5) by (simp add: s')
  have same: "table_entry s' x j = table_entry s x j" if "pt_child s lv x m j d" for x m j d
    using that used [of x m] ent [of x j] np lvc user_slot_512 by (auto simp: pt_child_def frame_used_def)
  show "upt_inv s' ?lv"
  proof (rule upt_invI)
    show "1 \<le> m \<and> m \<le> 4 \<and> frame_used s' x" if "?lv x = Some m" for x m
      using that used [of x m] mono [of x] k4 t(2) al(3) by (auto simp: s' split: if_splits)
    show "frame_used s' d" if "pt_child s' ?lv x m j d" for x m j d
      using that child old_used mono al(3) by (auto simp: s')
    show "?lv d = None" if "pt_child s' ?lv x 1 j d" for x j d
      using that child t(2) upt_inv_leaf [OF inv(1)] old_used al(2) by auto
    show "?lv d = Some (m - 1) \<and> bit (table_entry s' x j) 1 \<and> bit (table_entry s' x j) 2 \<and>
          \<not> bit (table_entry s' x j) 7"
      if c: "pt_child s' ?lv x m j d" and "m \<noteq> 1" for x m j d
    proof (cases "pt_child s lv x m j d")
      case True
      then show ?thesis
        using upt_inv_inner [OF inv(1) True \<open>m \<noteq> 1\<close>] same [OF True] old_used [OF True] al(2) by auto
    next
      case False
      then show ?thesis using c child ent [OF tf i512] new by auto
    qed
    show "x = x' \<and> j = j'" if "pt_child s' ?lv x m j d" "pt_child s' ?lv x' m' j' d" for x m j x' m' j' d
      using that unfolding child using upt_inv_unique [OF inv(1)] old_used al(2) by blast
  qed
  show "pt_child s' ?lv t k i c" using child by blast
  show "pmm_inv s'" using al(4) by (simp add: s')
  have mem: "phys_mem s' a = phys_mem s a" if "page_of a \<noteq> c" "page_of a \<noteq> t" for a
    using that al(12) [of a] page_of_slot [OF tf i512] by (auto simp: s' set_table_entry_def)
  show "pt_grow s lv s' ?lv"
    unfolding pt_grow_def
  proof (intro conjI allI impI)
    show "lv \<subseteq>\<^sub>m ?lv" using lvc by (auto simp: map_le_def)
    show "?lv f = lv f" if "f div PAGE_SIZE \<notin> free_page_set s" for f using that al(10) by auto
    show "free_page_set s' \<subseteq> free_page_set s" using al(11) by (auto simp: s')
    show "pt_child s lv x m j d" if "pt_child s' ?lv x m j d \<and> (frame_used s d \<or> m = 1)" for x m j d
      using that al(2) t(2) child [of x m j d] by auto
    show "pt_child s' ?lv x m j d" "table_entry s' x j = table_entry s x j"
      if "pt_child s lv x m j d" for x m j d
      using that child same by blast+
    show "phys_mem s' a = phys_mem s a"
      if "page_of a div PAGE_SIZE \<notin> free_page_set s \<and> lv (page_of a) = None" for a
      using that mem [of a] al(10) t(1) by (metis option.distinct(1))
    show "table_entry s' x j = table_entry s x j" if "lv x = Some 4 \<and> 256 \<le> j \<and> j < 512" for x j
      using that used [of x 4] ent [of x j] lvc t(1,3)
      by (auto simp: frame_used_def user_slot_def split: if_splits)
  qed (use child mono al in \<open>auto simp: s'\<close>)
qed

text \<open>\<^verbatim>\<open>vmm_next_level\<close> on a user table either follows the entry, changing nothing, or adds a table.\<close>

lemma or_user_idem:
  assumes "bit e 2"
  shows "e OR 4 = (e :: u64)"
proof (rule bit_word_eqI)
  fix n
  show "bit (e OR 4) n = bit e n"
    using assms bit_exp_iff [of 2 n, where ?'a = u64] by (auto simp: bit_or_iff)
qed

lemma vmm_next_level_user:
  assumes inv: "upt_inv s lv" "pmm_inv s" and t: "lv t = Some k" "2 \<le> k" "user_slot k i"
    and fl: "bit flags 2" and run: "vmm_next_level s t i True flags = Inr (r, s')"
  obtains c lv' where "r = Some c" "upt_inv s' lv'" "pmm_inv s'" "pt_grow s lv s' lv'"
    "pt_child s' lv' t k i c" "lv' c = Some (k - 1)"
proof (cases "bit (table_entry s t i) 0")
  case True
  let ?c = "table_entry s t i AND PTE_ADDR_MASK"
  have c: "pt_child s lv t k i ?c" using t True by (simp add: pt_child_def)
  note inner = upt_inv_inner [OF inv(1) c]
  have "s' = s \<and> r = Some ?c"
    using run True inner t(2) fl
    by (auto simp: vmm_next_level_def Let_def and_flag_iff_bit or_user_idem)
  then show ?thesis using that [of ?c lv] inv c inner t(2) by auto
next
  case False
  then obtain c s1 where alloc: "pmm_alloc_page s = Inr (c, s1)"
    and s': "s' = set_table_entry s1 t i (c OR 1 OR 2 OR (flags AND 4))"
    and r: "r = Some (table_entry s' t i AND PTE_ADDR_MASK)"
    using run by (auto simp: vmm_next_level_def Let_def and_flag_iff_bit split: prod.splits)
  note g = pt_grow_fresh [OF inv t False alloc fl s']
  have "r = Some c" using r g(3) by (simp add: pt_child_def)
  then show ?thesis using that [of c] g by auto
qed


subsection \<open>Walks\<close>

text \<open>The chain of entries that leads from table \<open>t\<close> along a list of indices to frame \<open>c\<close>.\<close>

fun pt_path :: "'a pmm_state_scheme \<Rightarrow> level_map \<Rightarrow> u64 \<Rightarrow> u64 list \<Rightarrow> u64 \<Rightarrow> bool" where
  "pt_path s lv t [] c \<longleftrightarrow> c = t"
| "pt_path s lv t (i # is) c \<longleftrightarrow> (\<exists>k d. pt_child s lv t k i d \<and> pt_path s lv d is c)"

fun user_path :: "nat \<Rightarrow> u64 list \<Rightarrow> bool" where
  "user_path k [] \<longleftrightarrow> True"
| "user_path k (i # is) \<longleftrightarrow> user_slot k i \<and> user_path (k - 1) is"

lemma user_path_last: "user_path k (is @ [i]) \<Longrightarrow> user_slot 1 i"
  by (induction "is" arbitrary: k) (auto simp: user_slot_def [of "Suc 0"] dest: user_slot_512)

lemma pt_path_snoc:
  "pt_path s lv t (is @ [i]) c \<longleftrightarrow> (\<exists>d k. pt_path s lv t is d \<and> pt_child s lv d k i c)"
  by (induction "is" arbitrary: t) auto

lemma pt_path_inj:
  assumes "upt_inv s lv" "pt_path s lv t is c" "pt_path s lv t' is' c" "length is = length is'"
  shows "t = t' \<and> is = is'"
  using assms(2-)
proof (induction "is" arbitrary: is' c rule: rev_induct)
  case (snoc i "is")
  then obtain js j where js: "is' = js @ [j]" by (metis length_greater_0_conv rev_exhaust length_0_conv snoc_eq_iff_butlast)
  then obtain d k d' k' where d: "pt_path s lv t is d" "pt_child s lv d k i c"
    and d': "pt_path s lv t' js d'" "pt_child s lv d' k' j c"
    using snoc.prems by (auto simp: pt_path_snoc)
  then have "d = d' \<and> i = j" using upt_inv_unique [OF assms(1)] by blast
  then show ?case using snoc.IH [OF d(1)] d' js snoc.prems(3) by auto
qed auto

lemma pt_path_level:
  "upt_inv s lv \<Longrightarrow> pt_path s lv t is c \<Longrightarrow> lv t = Some (length is + n) \<Longrightarrow> 1 \<le> n \<Longrightarrow> lv c = Some n"
proof (induction "is" arbitrary: t)
  case (Cons i "is")
  then obtain k d where d: "pt_child s lv t k i d" "pt_path s lv d is c" by auto
  then have "k = Suc (length is + n)" using Cons.prems(3) by (simp add: pt_child_def)
  then have "lv d = Some (length is + n)"
    using upt_inv_inner(1) [OF Cons.prems(1) d(1)] Cons.prems(4) by simp
  then show ?case using Cons d by blast
qed auto

text \<open>A user walk is the path to the page table followed by the check of the leaf entry.\<close>

lemma user_walk_path:
  assumes "upt_inv s lv" "pt_path s lv t is x" "lv t = Some (length is + 1)"
  shows "user_walk s w v t (is @ [i]) = user_walk s w v x [i]"
  using assms(2,3)
proof (induction "is" arbitrary: t)
  case (Cons j "is")
  then obtain k d where d: "pt_child s lv t k j d" "pt_path s lv d is x" by auto
  then have k: "k = Suc (length is + 1)" using Cons.prems(2) by (simp add: pt_child_def)
  note inner = upt_inv_inner [OF assms(1) d(1)]
  have "d = table_entry s t j AND PTE_ADDR_MASK" "bit (table_entry s t j) 0"
    using d(1) by (auto simp: pt_child_def)
  then have "user_walk s w v t ((j # is) @ [i]) = user_walk s w v d (is @ [i])"
    using inner k by (simp add: Let_def and_flag_iff_bit)
  then show ?case using Cons.IH [OF d(2)] inner(1) k by simp
qed simp

lemma user_walk_has_path:
  assumes "upt_inv s lv" "user_walk s w v t (is @ [i]) = Some p" "lv t = Some (length is + 1)"
    "user_path (length is + 1) (is @ [i])"
  obtains x where "pt_path s lv t is x" "user_walk s w v x [i] = Some p"
proof -
  have "\<exists>x. pt_path s lv t is x" using assms(2-)
  proof (induction "is" arbitrary: t)
    case (Cons j "is")
    let ?d = "table_entry s t j AND PTE_ADDR_MASK"
    have d: "pt_child s lv t (Suc (length is + 1)) j ?d" and w: "user_walk s w v ?d (is @ [i]) = Some p"
      using Cons.prems by (auto simp: pt_child_def Let_def and_flag_iff_bit split: if_splits)
    then show ?case using Cons.IH [OF w] upt_inv_inner(1) [OF assms(1) d] Cons.prems(3) by auto
  next
    case Nil
    show ?case by (rule exI [of _ t]) simp
  qed
  then obtain x where "pt_path s lv t is x" ..
  then show ?thesis using that user_walk_path [OF assms(1)] assms(2,3) by metis
qed

lemma pt_grow_path:
  assumes "pt_grow s lv s' lv'" "pt_path s lv t is c"
  shows "pt_path s' lv' t is c"
  using assms(2) by (induction "is" arbitrary: t) (use assms(1) in \<open>auto simp: pt_grow_def, blast\<close>)

lemma pt_grow_path_back:
  assumes "upt_inv s lv" "pt_grow s lv s' lv'" "pt_path s' lv' t is c" "frame_used s c"
  shows "pt_path s lv t is c"
  using assms(3,4)
proof (induction "is" arbitrary: c rule: rev_induct)
  case (snoc i "is")
  then obtain d k where d: "pt_path s' lv' t is d" "pt_child s' lv' d k i c" by (auto simp: pt_path_snoc)
  then have "pt_child s lv d k i c" using assms(2) snoc.prems(2) unfolding pt_grow_def by blast
  moreover then have "frame_used s d" using upt_inv_table [OF assms(1)] by (auto simp: pt_child_def)
  ultimately show ?case using snoc.IH [OF d(1)] by (auto simp: pt_path_snoc)
qed simp

lemma user_walk_leaf:
  "user_walk s w v x [i] =
     (let e = table_entry s x i in
      if bit e 0 \<and> bit e 2 \<and> (w \<longrightarrow> bit e 1) then Some ((e AND PTE_ADDR_MASK) OR (v AND 4095)) else None)"
  by (auto simp: Let_def and_flag_iff_bit)

text \<open>Adding tables changes no translation.\<close>

lemma pt_grow_walk:
  assumes inv: "upt_inv s lv" "upt_inv s' lv'" and grow: "pt_grow s lv s' lv'"
    and t: "lv t = Some (length is + 1)" and path: "user_path (length is + 1) (is @ [i])"
  shows "user_walk s' w v t (is @ [i]) = user_walk s w v t (is @ [i])"
proof -
  have t': "lv' t = Some (length is + 1)" using grow t unfolding pt_grow_def map_le_def by (metis domI)
  have i: "user_slot 1 i" using path by (rule user_path_last)
  have fwd: "user_walk s' w v t (is @ [i]) = Some p" if w: "user_walk s w v t (is @ [i]) = Some p" for p
  proof -
    obtain x where x: "pt_path s lv t is x" "user_walk s w v x [i] = Some p"
      using user_walk_has_path [OF inv(1) w t path] .
    have "lv x = Some 1" using pt_path_level [OF inv(1) x(1) t] by simp
    then have "pt_child s lv x 1 i (table_entry s x i AND PTE_ADDR_MASK)"
      using x(2) i by (auto simp: user_walk_leaf pt_child_def Let_def simp del: user_walk.simps split: if_splits)
    then have "table_entry s' x i = table_entry s x i" using grow unfolding pt_grow_def by blast
    then show ?thesis
      using x user_walk_path [OF inv(2) pt_grow_path [OF grow x(1)] t'] by (simp add: user_walk_leaf del: user_walk.simps)
  qed
  have bwd: "user_walk s w v t (is @ [i]) \<noteq> None" if w: "user_walk s' w v t (is @ [i]) = Some p" for p
  proof -
    obtain x where x: "pt_path s' lv' t is x" "user_walk s' w v x [i] = Some p"
      using user_walk_has_path [OF inv(2) w t' path] .
    have "lv' x = Some 1" using pt_path_level [OF inv(2) x(1) t'] by simp
    then have "pt_child s' lv' x 1 i (table_entry s' x i AND PTE_ADDR_MASK)"
      using x(2) i by (auto simp: user_walk_leaf pt_child_def Let_def simp del: user_walk.simps split: if_splits)
    then have c: "pt_child s lv x 1 i (table_entry s' x i AND PTE_ADDR_MASK)"
      using grow unfolding pt_grow_def by blast
    then have ent: "table_entry s' x i = table_entry s x i" using grow unfolding pt_grow_def by blast
    have "frame_used s x" using c upt_inv_table [OF inv(1)] by (auto simp: pt_child_def)
    then show ?thesis
      using user_walk_path [OF inv(1) pt_grow_path_back [OF inv(1) grow x(1)] t] x(2) ent
      by (simp add: user_walk_leaf del: user_walk.simps)
  qed
  show ?thesis using fwd bwd by (metis not_None_eq)
qed

subsection \<open>Indices\<close>

lemma bit_low9: "bit (x AND 0x1ff) n \<longleftrightarrow> bit x n \<and> n < 9" for x :: u64
proof -
  have m: "(0x1ff :: u64) = mask 9" by (simp add: mask_eq_exp_minus_1)
  show ?thesis unfolding m by (auto simp: bit_and_iff bit_mask_iff dest: bit_imp_le_length)
qed

lemma bit_low12: "bit (x AND 0xfff) n \<longleftrightarrow> bit x n \<and> n < 12" for x :: u64
proof -
  have m: "(0xfff :: u64) = mask 12" by (simp add: mask_eq_exp_minus_1)
  show ?thesis unfolding m by (auto simp: bit_and_iff bit_mask_iff dest: bit_imp_le_length)
qed

lemma bit_page_of: "bit (page_of v) n \<longleftrightarrow> bit v n \<and> 12 \<le> n"
proof -
  have "page_of v = push_bit 12 (drop_bit 12 v)" using align_down_eq [of v 12] by simp
  then show ?thesis by (auto simp: bit_simps dest: bit_imp_le_length)
qed

lemma bit_user_addr: "v < USER_VIRT_MAX \<Longrightarrow> bit v n \<Longrightarrow> n < 47"
proof (rule ccontr)
  assume v: "v < USER_VIRT_MAX" "bit v n" "\<not> n < 47"
  have "take_bit 47 v = v"
    using v(1) by (simp add: word_unat_eq_iff unsigned_take_bit_eq take_bit_nat_eq_self word_less_nat_alt)
  then show False using v(2,3) by (metis bit_take_bit_iff)
qed

lemma low9_less: "x AND 0x1ff < (512 :: u64)"
  using word_and_le1 [of x "0x1ff"] by (rule le_less_trans) simp

lemma page_indices_bit:
  assumes "vmm_indices v = vmm_indices v'" "12 \<le> n" "n < 48"
  shows "bit v n = bit v' n"
proof -
  have eq: "bit (drop_bit a v AND 0x1ff) m = bit (drop_bit a v' AND 0x1ff) m"
    if "a = 39 \<or> a = 30 \<or> a = 21 \<or> a = 12" for a m
    using that assms(1) by (auto simp: vmm_indices_def pml4_index_def pdpt_index_def pd_index_def pt_index_def)
  consider "12 \<le> n" "n < 21" | "21 \<le> n" "n < 30" | "30 \<le> n" "n < 39" | "39 \<le> n" "n < 48"
    using assms(2,3) by linarith
  then show ?thesis
    using eq [of 12 "n - 12"] eq [of 21 "n - 21"] eq [of 30 "n - 30"] eq [of 39 "n - 39"]
    by cases (auto simp: bit_low9 bit_drop_bit_eq)
qed

text \<open>Below \<^verbatim>\<open>USER_VIRT_MAX\<close> the four indices identify the page.\<close>

lemma vmm_indices_eq_iff:
  assumes "v < USER_VIRT_MAX" "v' < USER_VIRT_MAX"
  shows "vmm_indices v = vmm_indices v' \<longleftrightarrow> page_of v = page_of v'"
proof
  assume eq: "vmm_indices v = vmm_indices v'"
  show "page_of v = page_of v'"
  proof (rule bit_word_eqI)
    fix n
    show "bit (page_of v) n = bit (page_of v') n"
      using page_indices_bit [OF eq, of n] bit_user_addr [OF assms(1), of n] bit_user_addr [OF assms(2), of n]
      unfolding bit_page_of by (cases "12 \<le> n"; cases "n < 48") auto
  qed
next
  assume eq: "page_of v = page_of v'"
  have "bit v n = bit v' n" if "12 \<le> n" for n
    using arg_cong [OF eq, of "\<lambda>x. bit x n"] that by (simp add: bit_page_of)
  then have "drop_bit a v = drop_bit a v'" if "12 \<le> a" for a
    using that by (intro bit_word_eqI) (auto simp: bit_drop_bit_eq)
  then show "vmm_indices v = vmm_indices v'"
    by (simp add: vmm_indices_def pml4_index_def pdpt_index_def pd_index_def pt_index_def)
qed

lemma user_pml4_index: "v < USER_VIRT_MAX \<Longrightarrow> pml4_index v < 256"
proof -
  assume v: "v < USER_VIRT_MAX"
  have "unat v < 2 ^ 47" using v by (simp add: word_less_nat_alt)
  then have "unat (drop_bit 39 v) < 256"
    unfolding unat_drop_bit_eq unfolding drop_bit_eq_div by (intro less_mult_imp_div_less) simp
  then have "drop_bit 39 v < 256" by (simp add: word_less_nat_alt)
  then show ?thesis unfolding pml4_index_def using word_and_le2 le_less_trans by blast
qed

subsection \<open>Mapping a page\<close>

lemma pt_path_fun: "pt_path s lv t is c \<Longrightarrow> pt_path s lv t is d \<Longrightarrow> c = d"
  by (induction "is" arbitrary: t) (auto simp: pt_child_def)

text \<open>Writing a leaf entry for a frame nothing else points at.\<close>

lemma pt_child_set_leaf:
  assumes inv: "upt_inv s lv" and pt: "lv pt = Some 1" "i < 512"
    and e: "bit e 0" "e AND PTE_ADDR_MASK = phys"
  shows "pt_child (set_table_entry s pt i e) lv t k j c \<longleftrightarrow>
    (if t = pt \<and> j = i then k = 1 \<and> c = phys else pt_child s lv t k j c)"
proof (cases "lv t = Some k \<and> user_slot k j")
  case True
  then have "is_frame t" "is_frame pt" "j < 512"
    using upt_inv_frame [OF inv] pt(1) user_slot_512 by auto
  then show ?thesis using True pt e by (auto simp: pt_child_def table_entry_set)
next
  case False
  then show ?thesis using pt by (auto simp: pt_child_def user_slot_def)
qed

lemma pt_set_leaf_inv:
  assumes inv: "upt_inv s lv" and pt: "lv pt = Some 1" "i < 512"
    and e: "bit e 0" "e AND PTE_ADDR_MASK = phys"
    and phys: "frame_used s phys" "lv phys = None" "\<nexists>t k j. pt_child s lv t k j phys"
  shows "upt_inv (set_table_entry s pt i e) lv"
proof (rule upt_invI)
  let ?s = "set_table_entry s pt i e"
  note child = pt_child_set_leaf [OF inv pt e]
  have ent: "table_entry ?s t j = table_entry s t j" if "pt_child s lv t k j c" "k \<noteq> 1" for t k j c
  proof -
    have t: "lv t = Some k" "j < 512" using that user_slot_512 by (auto simp: pt_child_def)
    then have "t \<noteq> pt" using that(2) pt(1) by auto
    then show ?thesis
      using table_entry_set [OF upt_inv_frame [OF inv pt(1)] upt_inv_frame [OF inv t(1)] pt(2) t(2)] by simp
  qed
  have cases: "t = pt \<and> j = i \<and> k = 1 \<and> c = phys \<or> pt_child s lv t k j c \<and> \<not> (t = pt \<and> j = i)"
    if "pt_child ?s lv t k j c" for t k j c using that unfolding child by (simp split: if_splits)
  show "1 \<le> k \<and> k \<le> 4 \<and> frame_used ?s t" if "lv t = Some k" for t k
    using upt_inv_table [OF inv that] by simp
  show "frame_used ?s c" if "pt_child ?s lv t k j c" for t k j c
    using cases [OF that] phys(1) upt_inv_child [OF inv] unfolding frame_used_set by blast
  show "lv c = None" if "pt_child ?s lv t 1 j c" for t j c
    using cases [OF that] phys(2) upt_inv_leaf [OF inv] by blast
  show "lv c = Some (k - 1) \<and> bit (table_entry ?s t j) 1 \<and> bit (table_entry ?s t j) 2 \<and> \<not> bit (table_entry ?s t j) 7"
    if "pt_child ?s lv t k j c" "k \<noteq> 1" for t k j c
  proof -
    have c: "pt_child s lv t k j c" using cases [OF that(1)] that(2) by blast
    show ?thesis using upt_inv_inner [OF inv c that(2)] unfolding ent [OF c that(2)] by blast
  qed
  show "t = t' \<and> j = j'" if "pt_child ?s lv t k j c" "pt_child ?s lv t' k' j' c" for t k j t' k' j' c
    using cases [OF that(1)] cases [OF that(2)] phys(3) upt_inv_unique [OF inv] by blast
qed

lemma pt_set_leaf_path:
  assumes inv: "upt_inv s lv" and pt: "lv pt = Some 1" "i < 512"
    and e: "bit e 0" "e AND PTE_ADDR_MASK = phys"
  shows "lv t = Some (length is + 1) \<Longrightarrow>
    pt_path (set_table_entry s pt i e) lv t is c \<longleftrightarrow> pt_path s lv t is c"
proof (induction "is" arbitrary: t)
  case (Cons j "is")
  then have "t \<noteq> pt" using pt by auto
  then have child: "pt_child (set_table_entry s pt i e) lv t k j d \<longleftrightarrow> pt_child s lv t k j d" for k d
    using pt_child_set_leaf [OF inv pt e] by simp
  have "lv d = Some (length is + 1)" if "pt_child s lv t k j d" for k d
  proof -
    have "k = Suc (length is + 1)" using that Cons.prems by (simp add: pt_child_def)
    then show ?thesis using upt_inv_inner(1) [OF inv that] by simp
  qed
  then show ?case using Cons.IH by (simp add: child cong: conj_cong)
qed simp

lemma pt_set_leaf_walk:
  assumes inv: "upt_inv s lv" and pt: "lv pt = Some 1" "i < 512"
    and e: "bit e 0" "e AND PTE_ADDR_MASK = phys" and inv': "upt_inv (set_table_entry s pt i e) lv"
    and root: "pt_path s lv t is pt" "lv t = Some (length is + 1)"
    and t': "lv t' = Some (length is' + 1)" "length is' = length is" "user_path (length is' + 1) (is' @ [i'])"
  shows "user_walk (set_table_entry s pt i e) w v t' (is' @ [i']) =
    (if t' = t \<and> is' @ [i'] = is @ [i]
     then if bit e 2 \<and> (w \<longrightarrow> bit e 1) then Some (phys OR (v AND 4095)) else None
     else user_walk s w v t' (is' @ [i']))"
proof -
  let ?s = "set_table_entry s pt i e"
  have ent: "table_entry ?s x i' = (if x = pt \<and> i' = i then e else table_entry s x i')" if "lv x = Some 1" for x
    using table_entry_set [OF upt_inv_frame [OF inv pt(1)] upt_inv_frame [OF inv that] pt(2)
        user_slot_512 [OF user_path_last [OF t'(3)]]] .
  show ?thesis
  proof (cases "\<exists>x. pt_path s lv t' is' x")
    case True
    then obtain x where x: "pt_path s lv t' is' x" ..
    have x1: "lv x = Some 1" using pt_path_level [OF inv x t'(1)] by simp
    have iff: "x = pt \<longleftrightarrow> t' = t \<and> is' = is"
      using pt_path_inj [OF inv x _ t'(2)] root(1) pt_path_fun [OF x] by blast
    have new: "user_walk ?s w v t' (is' @ [i']) = user_walk ?s w v x [i']"
      using user_walk_path [OF inv' pt_set_leaf_path [OF inv pt e t'(1), THEN iffD2, OF x] t'(1)] .
    note leaf = user_walk_leaf [where v = v and w = w]
    show ?thesis
    proof (cases "x = pt \<and> i' = i")
      case True
      then have "user_walk ?s w v x [i'] = (if bit e 2 \<and> (w \<longrightarrow> bit e 1) then Some (phys OR (v AND 4095)) else None)"
        unfolding leaf ent [OF x1] using e by (simp add: Let_def)
      moreover have "t' = t \<and> is' @ [i'] = is @ [i]" using True iff by simp
      ultimately show ?thesis using new by (simp only: if_True simp_thms)
    next
      case False
      then have "table_entry ?s x i' = table_entry s x i'" unfolding ent [OF x1] by (rule if_not_P)
      then have "user_walk ?s w v x [i'] = user_walk s w v x [i']" unfolding leaf by (rule arg_cong)
      moreover have "\<not> (t' = t \<and> is' @ [i'] = is @ [i])" using False iff by simp
      ultimately show ?thesis
        using new user_walk_path [OF inv x t'(1), of w v i'] by (simp only: if_False)
    qed
  next
    case False
    then have "\<not> (t' = t \<and> is' @ [i'] = is @ [i])" using root(1) by auto
    moreover have "user_walk s w v t' (is' @ [i']) = None"
    proof (rule ccontr)
      assume "user_walk s w v t' (is' @ [i']) \<noteq> None"
      then obtain p where "user_walk s w v t' (is' @ [i']) = Some p" by auto
      from user_walk_has_path [OF inv this t'(1,3)] show False using False by blast
    qed
    moreover have "user_walk ?s w v t' (is' @ [i']) = None"
    proof (rule ccontr)
      assume "user_walk ?s w v t' (is' @ [i']) \<noteq> None"
      then obtain p where "user_walk ?s w v t' (is' @ [i']) = Some p" by auto
      from user_walk_has_path [OF inv' this t'(1,3)] obtain x where "pt_path ?s lv t' is' x" by blast
      then show False using False pt_set_leaf_path [OF inv pt e t'(1)] by blast
    qed
    ultimately show ?thesis by simp
  qed
qed


text \<open>The flags a leaf entry gets, and the entry itself.\<close>

lemma bit_vmm_pte_flags: "n \<noteq> 3 \<Longrightarrow> n \<noteq> 4 \<Longrightarrow> bit (vmm_pte_flags flags) n = bit flags n"
proof -
  assume n: "n \<noteq> 3" "n \<noteq> 4"
  have bits: "bit (8::u64) n \<longleftrightarrow> n = 3" "bit (16::u64) n \<longleftrightarrow> n = 4"
    using bit_exp_iff [of 3 n, where ?'a = u64] bit_exp_iff [of 4 n, where ?'a = u64] by auto
  show ?thesis
    unfolding vmm_pte_flags_def Let_def if_distrib [of "\<lambda>x. bit x n"] bit_and_iff bit_or_iff bit_not_iff bits
    using n by (auto dest: bit_imp_possible_bit)
qed

lemma leaf_entry:
  assumes "is_frame phys" "flags AND PTE_ADDR_MASK = 0"
  defines "e \<equiv> (phys AND PTE_ADDR_MASK) OR vmm_pte_flags flags OR PTE_PRESENT"
  shows "bit e 0" "bit e 1 = bit flags 1" "bit e 2 = bit flags 2" "e AND PTE_ADDR_MASK = phys"
proof -
  have low: "\<not> bit phys n" if "n < 12" for n using is_frame_bit [OF assms(1), of n] that by auto
  have mask: "phys AND PTE_ADDR_MASK = phys" using assms(1) by (simp add: is_frame_def)
  have flag: "bit flags n \<Longrightarrow> n < 12 \<or> 52 \<le> n" for n
    using arg_cong [OF assms(2), of "\<lambda>x. bit x n"] unfolding bit_and_iff bit_addr_mask by auto
  show "bit e 0" "bit e 1 = bit flags 1" "bit e 2 = bit flags 2"
    unfolding e_def mask bit_or_iff using low bit_vmm_pte_flags [of 1 flags] bit_vmm_pte_flags [of 2 flags]
    by (simp_all add: bit_1_iff)
  show "e AND PTE_ADDR_MASK = phys"
  proof (rule bit_word_eqI)
    fix n
    show "bit (e AND PTE_ADDR_MASK) n = bit phys n"
      unfolding e_def mask bit_and_iff bit_or_iff bit_addr_mask bit_1_iff
      using is_frame_bit [OF assms(1), of n] flag [of n] bit_vmm_pte_flags [of n flags] by auto
  qed
qed

text \<open>A frame that may be mapped: allocated, not a table, and not mapped anywhere yet.\<close>

definition mappable_frame :: "'a pmm_state_scheme \<Rightarrow> level_map \<Rightarrow> u64 \<Rightarrow> bool" where
  "mappable_frame s lv phys \<longleftrightarrow> frame_used s phys \<and> lv phys = None \<and> (\<nexists>t k i. pt_child s lv t k i phys)"

lemma mappable_frame_grow:
  assumes "pt_grow s lv s' lv'" "mappable_frame s lv phys"
  shows "mappable_frame s' lv' phys"
proof -
  have u: "frame_used s phys" using assms(2) by (simp add: mappable_frame_def)
  then have "phys div PAGE_SIZE \<notin> free_page_set s" by (rule frame_used_not_free)
  then show ?thesis using assms u unfolding mappable_frame_def pt_grow_def by metis
qed

lemma low9_slots: "pdpt_index v < 512" "pd_index v < 512" "pt_index v < 512"
  by (simp_all add: pdpt_index_def pd_index_def pt_index_def low9_less)

lemma pt_grow_child: "pt_grow s lv s' lv' \<Longrightarrow> pt_child s lv t k i c \<Longrightarrow> pt_child s' lv' t k i c"
  unfolding pt_grow_def by blast

text \<open>
  What \<^verbatim>\<open>vmm_map_page_in\<close> does to the user half of an address space: it adds the tables on the way to
  the page (\<open>s1\<close>, \<open>lv'\<close>) and writes one leaf entry of the page table the path ends at.
\<close>

lemma vmm_map_page_in_user:
  assumes inv: "upt_inv s lv" "pmm_inv s" and cr3: "lv (cr3 AND PTE_ADDR_MASK) = Some 4"
    and virt: "virt < USER_VIRT_MAX" "virt mod PAGE_SIZE = 0"
    and phys: "mappable_frame s lv phys"
    and fl: "bit flags 2" "flags AND PTE_ADDR_MASK = 0"
    and run: "vmm_map_page_in s cr3 virt phys flags = Inr (r, s')"
  obtains s1 lv' pt e where "r = 0" "pt_grow s lv s1 lv'" "upt_inv s1 lv'" "pmm_inv s1"
    "pt_path s1 lv' (cr3 AND PTE_ADDR_MASK) [pml4_index virt, pdpt_index virt, pd_index virt] pt"
    "lv' pt = Some 1" "lv' (cr3 AND PTE_ADDR_MASK) = Some 4" "s' = set_table_entry s1 pt (pt_index virt) e"
    "bit e 0" "bit e 1 = bit flags 1" "bit e 2" "e AND PTE_ADDR_MASK = phys" "upt_inv s' lv'"
proof -
  let ?t = "cr3 AND PTE_ADDR_MASK"
  have pf: "is_frame phys" using phys by (simp add: mappable_frame_def frame_used_def)
  then have pa: "phys mod PAGE_SIZE = 0" using frame_aligned by (simp add: page_aligned_def)
  obtain r1 s1 r2 s2 r3 s3 where n1: "vmm_next_level s ?t (pml4_index virt) True flags = Inr (r1, s1)"
    and n2: "vmm_next_level s1 (the r1) (pdpt_index virt) True flags = Inr (r2, s2)"
    and n3: "vmm_next_level s2 (the r2) (pd_index virt) True flags = Inr (r3, s3)"
    and r: "r = 0" and s': "s' = set_table_entry s3 (the r3) (pt_index virt)
      ((phys AND PTE_ADDR_MASK) OR vmm_pte_flags flags OR PTE_PRESENT)"
    using run virt(2) pa by (auto simp: vmm_map_page_in_def)
  obtain c1 lv1 where c1: "r1 = Some c1" "upt_inv s1 lv1" "pmm_inv s1" "pt_grow s lv s1 lv1"
      "pt_child s1 lv1 ?t 4 (pml4_index virt) c1" "lv1 c1 = Some 3"
    using vmm_next_level_user [OF inv cr3 _ _ fl(1) n1] user_pml4_index [OF virt(1)]
    by (auto simp: user_slot_def)
  have n2: "vmm_next_level s1 c1 (pdpt_index virt) True flags = Inr (r2, s2)" using n2 c1(1) by simp
  obtain c2 lv2 where c2: "r2 = Some c2" "upt_inv s2 lv2" "pmm_inv s2" "pt_grow s1 lv1 s2 lv2"
      "pt_child s2 lv2 c1 3 (pdpt_index virt) c2" "lv2 c2 = Some 2"
    using vmm_next_level_user [OF c1(2,3,6) _ _ fl(1) n2] low9_slots by (auto simp: user_slot_def)
  have n3: "vmm_next_level s2 c2 (pd_index virt) True flags = Inr (r3, s3)" using n3 c2(1) by simp
  obtain c3 lv3 where c3: "r3 = Some c3" "upt_inv s3 lv3" "pmm_inv s3" "pt_grow s2 lv2 s3 lv3"
      "pt_child s3 lv3 c2 2 (pd_index virt) c3" "lv3 c3 = Some 1"
    using vmm_next_level_user [OF c2(2,3,6) _ _ fl(1) n3] low9_slots by (auto simp: user_slot_def)
  have grow13: "pt_grow s1 lv1 s3 lv3" using pt_grow_trans [OF c2(4) c3(4)] .
  have grow: "pt_grow s lv s3 lv3" using pt_grow_trans [OF c1(4) grow13] .
  have path: "pt_path s3 lv3 ?t [pml4_index virt, pdpt_index virt, pd_index virt] c3"
    using pt_grow_child [OF grow13 c1(5)] pt_grow_child [OF c3(4) c2(5)] c3(5)
    unfolding pt_path.simps by blast
  note e = leaf_entry [OF pf fl(2)]
  have lv3: "lv3 ?t = Some 4" using grow cr3 unfolding pt_grow_def map_le_def by (metis domI)
  have "upt_inv s' lv3"
    using pt_set_leaf_inv [OF c3(2,6) low9_slots(3) e(1,4)] mappable_frame_grow [OF grow phys] s' c3(1)
    by (simp add: mappable_frame_def)
  then show ?thesis using that [OF r grow c3(2,3) path c3(6) lv3 _ e(1,2) _ e(4)] s' c3(1) e(3) fl(1) by simp
qed

subsection \<open>Success and translation\<close>

lemma vmm_next_level_total:
  assumes inv: "pmm_inv s" and n: "n < card (free_page_set s)"
  shows "\<exists>r s'. vmm_next_level s t i True flags = Inr (r, s') \<and> pmm_inv s' \<and> n \<le> card (free_page_set s')"
proof (cases "bit (table_entry s t i) 0")
  case True
  then show ?thesis
    using assms by (auto simp: vmm_next_level_def and_flag_iff_bit Let_def)
next
  case False
  have "free_page_set s \<noteq> {}" using n by auto
  then obtain f s1 where al: "pmm_alloc_page s = Inr (f, s1)"
    using pmm_alloc_page_panics_iff [OF inv] by (metis surj_pair sum.exhaust)
  note fr = pmm_alloc_frame [OF inv al]
  have "card (free_page_set s) = Suc (card (free_page_set s1))"
    using fr(10,11) card_Suc_Diff1 [of "free_page_set s" "f div PAGE_SIZE"] by (simp add: finite)
  then show ?thesis
    using False al fr(4) n by (auto simp: vmm_next_level_def and_flag_iff_bit Let_def)
qed

lemma vmm_map_page_in_total:
  assumes inv: "pmm_inv s" and n: "3 \<le> card (free_page_set s)"
    and al: "virt mod PAGE_SIZE = 0" "phys mod PAGE_SIZE = 0"
  shows "\<exists>s'. vmm_map_page_in s cr3 virt phys flags = Inr (0, s')"
proof -
  obtain r1 s1 where 1: "vmm_next_level s (cr3 AND PTE_ADDR_MASK) (pml4_index virt) True flags = Inr (r1, s1)"
      "pmm_inv s1" "2 \<le> card (free_page_set s1)"
    using vmm_next_level_total [OF inv, of 2] n by fastforce
  obtain r2 s2 where 2: "vmm_next_level s1 (the r1) (pdpt_index virt) True flags = Inr (r2, s2)"
      "pmm_inv s2" "1 \<le> card (free_page_set s2)"
    using vmm_next_level_total [OF 1(2), of 1] 1(3) by fastforce
  obtain r3 s3 where 3: "vmm_next_level s2 (the r2) (pd_index virt) True flags = Inr (r3, s3)"
    using vmm_next_level_total [OF 2(2), of 0] 2(3) by fastforce
  show ?thesis using al 1 2 3 by (simp add: vmm_map_page_in_def)
qed

lemma vmm_indices_user_path: "v < USER_VIRT_MAX \<Longrightarrow> user_path 4 (vmm_indices v)"
  using low9_slots [of v] by (simp add: vmm_indices_def user_slot_def user_pml4_index)

lemma frame_or_offset:
  assumes "is_frame phys" "off < 4096"
  shows "phys OR (off AND 4095) = phys + off"
proof -
  have eq: "take_bit 12 off = off"
    using assms(2) by (simp add: word_unat_eq_iff unsigned_take_bit_eq take_bit_nat_eq_self word_less_nat_alt)
  then have off: "bit off n \<Longrightarrow> n < 12" for n by (metis bit_take_bit_iff)
  have m: "(4095 :: u64) = mask 12" by (simp add: mask_eq_exp_minus_1)
  have "off AND 4095 = off" unfolding m using eq by (simp add: take_bit_eq_mask)
  moreover have "\<not> bit phys n \<or> \<not> bit off n" for n
    using off [of n] is_frame_bit [OF assms(1), of n] by linarith
  then have "phys + off = phys OR off" by (rule disjunctive_add)
  ultimately show ?thesis by simp
qed

lemma and_offset:
  assumes "page_aligned p" "off < 4096"
  shows "(p + off) AND 4095 = off AND 4095"
proof -
  have p: "bit p n \<Longrightarrow> 12 \<le> n" for n
    using assms(1) bit_page_of [of p n] by (simp add: page_aligned_iff_page_of)
  have "take_bit 12 off = off"
    using assms(2) by (simp add: word_unat_eq_iff unsigned_take_bit_eq take_bit_nat_eq_self word_less_nat_alt)
  then have off: "bit off n \<Longrightarrow> n < 12" for n by (metis bit_take_bit_iff)
  have "\<not> bit p n \<or> \<not> bit off n" for n using p [of n] off [of n] by linarith
  then have "p + off = p OR off" by (rule disjunctive_add)
  then show ?thesis
    by (intro bit_word_eqI) (use p in \<open>force simp: bit_low12 bit_or_iff\<close>)
qed

lemma page_of_user_iff: "page_of v < USER_VIRT_MAX \<longleftrightarrow> v < USER_VIRT_MAX"
proof -
  have "unat v div 4096 * 4096 < 140737488355328 \<longleftrightarrow> unat v < 140737488355328"
    using div_less_iff_less_mult [of 4096 "unat v" 34359738368] by simp
  then show ?thesis by (simp add: word_less_nat_alt unat_align_down_page)
qed

text \<open>The translations after \<^verbatim>\<open>vmm_map_page_in\<close>, for every address space and every user address.\<close>

lemma vmm_map_page_in_translate:
  assumes inv: "upt_inv s lv" "pmm_inv s" and cr3: "lv (cr3 AND PTE_ADDR_MASK) = Some 4"
    and virt: "virt < USER_VIRT_MAX" "virt mod PAGE_SIZE = 0"
    and phys: "mappable_frame s lv phys" and fl: "bit flags 2" "flags AND PTE_ADDR_MASK = 0"
    and run: "vmm_map_page_in s cr3 virt phys flags = Inr (r, s')"
    and t: "lv (t AND PTE_ADDR_MASK) = Some 4"
  shows "vmm_translate_user_addr s' t v w =
    (if t AND PTE_ADDR_MASK = cr3 AND PTE_ADDR_MASK \<and> page_of v = virt
     then if w \<and> \<not> bit flags 1 then None else Some (phys OR (v AND 4095))
     else vmm_translate_user_addr s t v w)"
proof (cases "v < USER_VIRT_MAX")
  case True
  obtain s1 lv' pt e where m: "r = 0" "pt_grow s lv s1 lv'" "upt_inv s1 lv'" "pmm_inv s1"
    "pt_path s1 lv' (cr3 AND PTE_ADDR_MASK) [pml4_index virt, pdpt_index virt, pd_index virt] pt"
    "lv' pt = Some 1" "lv' (cr3 AND PTE_ADDR_MASK) = Some 4" "s' = set_table_entry s1 pt (pt_index virt) e"
    "bit e 0" "bit e 1 = bit flags 1" "bit e 2" "e AND PTE_ADDR_MASK = phys" "upt_inv s' lv'"
    using vmm_map_page_in_user [OF inv cr3 virt phys fl run] .
  have t': "lv' (t AND PTE_ADDR_MASK) = Some 4"
    using m(2) t unfolding pt_grow_def map_le_def by (metis domI)
  let ?is = "[pml4_index v, pdpt_index v, pd_index v]"
  have ind: "vmm_indices v = ?is @ [pt_index v]" by (simp add: vmm_indices_def)
  have path: "user_path (length ?is + 1) (?is @ [pt_index v])"
    using vmm_indices_user_path [OF True] unfolding ind by (simp add: numeral_eq_Suc)
  have grow: "user_walk s1 w v (t AND PTE_ADDR_MASK) (vmm_indices v) = user_walk s w v (t AND PTE_ADDR_MASK) (vmm_indices v)"
    unfolding ind by (rule pt_grow_walk [OF inv(1) m(3,2) _ path]) (simp add: t)
  have page: "vmm_indices v = vmm_indices virt \<longleftrightarrow> page_of v = virt"
    using vmm_indices_eq_iff [OF True virt(1)] virt(2) page_aligned_iff_page_of [of virt]
    by (simp add: page_aligned_def)
  have "user_walk s' w v (t AND PTE_ADDR_MASK) (vmm_indices v) =
    (if t AND PTE_ADDR_MASK = cr3 AND PTE_ADDR_MASK \<and> vmm_indices v = vmm_indices virt
     then if bit e 2 \<and> (w \<longrightarrow> bit e 1) then Some (phys OR (v AND 4095)) else None
     else user_walk s1 w v (t AND PTE_ADDR_MASK) (vmm_indices v))"
    unfolding m(8) ind
    using pt_set_leaf_walk [OF m(3,6) low9_slots(3) m(9,12) m(13) [unfolded m(8)] m(5) _ _ _ path, of "t AND PTE_ADDR_MASK" w v]
    using m(7) t' by (simp add: vmm_indices_def del: user_walk.simps)
  then show ?thesis
    using True m(10,11) page grow by (auto simp: vmm_translate_user_addr_def simp del: user_walk.simps)
next
  case False
  have "page_of v \<noteq> virt" using False virt(1) page_of_user_iff by auto
  then show ?thesis using False by (simp add: vmm_translate_user_addr_def not_less)
qed

subsection \<open>New address spaces\<close>

lemma table_indices_range: "i \<in> set (map word_of_nat [m..<n]) \<longleftrightarrow> m \<le> unat i \<and> unat i < n"
  if "n \<le> 512" for i :: u64
proof -
  have "unat (word_of_nat k :: u64) = k" if "k < n" for k
    using that \<open>n \<le> 512\<close> by (simp add: unat_of_nat)
  then show ?thesis by (auto simp: image_iff) (metis atLeastLessThan_iff word_unat_eq_iff)
qed

lemma table_indices_mem: "n \<le> 512 \<Longrightarrow> i \<in> set (table_indices n) \<longleftrightarrow> unat i < n"
  unfolding table_indices_def using table_indices_range [of n i 0] by simp

lemma fold_clear_table:
  "\<forall>i \<in> set is. table_entry s t i = 0 \<Longrightarrow> fold (\<lambda>i s. set_table_entry s t i 0) is s = s"
proof (induction "is")
  case (Cons i "is")
  then show ?case using set_table_entry_same [of s t i] by simp
qed simp

lemma set_table_entry_vmm [simp]:
  "kernel_cr3 (set_table_entry s t i v) = kernel_cr3 s"
  by (simp add: set_table_entry_def)

lemma fold_copy_table:
  fixes s :: "'a vmm_state_scheme"
  assumes "is_frame t" "is_frame (kernel_cr3 s)" "t \<noteq> kernel_cr3 s"
  shows "\<forall>i \<in> set is. i < 512 \<Longrightarrow>
    (let s' = fold (\<lambda>i s. set_table_entry s t i (table_entry s (kernel_cr3 s) i)) is s
     in (\<forall>x j. is_frame x \<longrightarrow> j < 512 \<longrightarrow> table_entry s' x j =
           (if x = t \<and> j \<in> set is then table_entry s (kernel_cr3 s) j else table_entry s x j)) \<and>
        (\<forall>a. page_of a \<noteq> t \<longrightarrow> phys_mem s' a = phys_mem s a) \<and>
        pmm_inv s' = pmm_inv s \<and> (\<forall>f. frame_used s' f = frame_used s f) \<and>
        free_page_set s' = free_page_set s \<and> pmm_max_page_index s' = pmm_max_page_index s \<and>
        pmm_state.more s' = pmm_state.more s)"
proof (induction "is" rule: rev_induct)
  case (snoc i "is")
  let ?f = "\<lambda>i s :: 'a vmm_state_scheme. set_table_entry s t i (table_entry s (kernel_cr3 s) i)"
  let ?s = "fold ?f is s"
  have k: "kernel_cr3 ?s = kernel_cr3 s" by (induction "is" arbitrary: s) simp_all
  have i: "i < 512" and IH: "\<And>x j. is_frame x \<Longrightarrow> j < 512 \<Longrightarrow> table_entry ?s x j =
           (if x = t \<and> j \<in> set is then table_entry s (kernel_cr3 s) j else table_entry s x j)"
    "\<And>a. page_of a \<noteq> t \<Longrightarrow> phys_mem ?s a = phys_mem s a" "pmm_inv ?s = pmm_inv s"
    "\<And>f. frame_used ?s f = frame_used s f" "free_page_set ?s = free_page_set s"
    "pmm_max_page_index ?s = pmm_max_page_index s" "pmm_state.more ?s = pmm_state.more s"
    using snoc by (auto simp: Let_def)
  have "phys_mem (?f i ?s) a = phys_mem s a" if "page_of a \<noteq> t" for a
    using IH(2) [OF that] that page_of_slot [OF assms(1) i] by (auto simp: set_table_entry_def)
  then show ?case
    using IH i assms by (auto simp: Let_def k table_entry_set)
qed simp

lemma user_walk_empty:
  "table_entry s t i = 0 \<Longrightarrow> user_walk s w v t (i # is) = None"
  by simp

text \<open>What \<^verbatim>\<open>vmm_create_address_space\<close> builds, at the level of the entries.\<close>

lemma vmm_create_address_space_entries:
  fixes s :: "'a vmm_state_scheme"
  assumes inv: "pmm_inv s" and k: "frame_used s (kernel_cr3 s)"
    and run: "vmm_create_address_space s = Inr (cr3, s')"
  shows "is_frame cr3" "\<not> frame_used s cr3" "frame_used s' cr3" "pmm_inv s'"
    "\<And>i. i < 256 \<Longrightarrow> table_entry s' cr3 i = 0"
    "\<And>i. 256 \<le> i \<Longrightarrow> i < 512 \<Longrightarrow> table_entry s' cr3 i = table_entry s (kernel_cr3 s) i"
    "\<And>t i. is_frame t \<Longrightarrow> t \<noteq> cr3 \<Longrightarrow> i < 512 \<Longrightarrow> table_entry s' t i = table_entry s t i"
    "\<And>f. frame_used s f \<Longrightarrow> frame_used s' f"
    "\<And>a. page_of a \<noteq> cr3 \<Longrightarrow> phys_mem s' a = phys_mem s a"
    "free_page_set s' = free_page_set s - {cr3 div PAGE_SIZE}" "cr3 div PAGE_SIZE \<in> free_page_set s"
    "pmm_max_page_index s' = pmm_max_page_index s" "pmm_state.more s' = pmm_state.more s"
proof -
  define ks :: "u64 list" where "ks = map word_of_nat [256..<512]"
  obtain s1 where al: "pmm_alloc_page s = Inr (cr3, s1)"
    and s': "s' = fold (\<lambda>i s. set_table_entry s cr3 i (table_entry s (kernel_cr3 s) i)) ks
      (fold (\<lambda>i s. set_table_entry s cr3 i 0) (table_indices 256) s1)"
    using run unfolding vmm_create_address_space_def ks_def [symmetric] by (auto simp: Let_def)
  note fr = pmm_alloc_frame [OF inv al]
  have less: "i < n \<longleftrightarrow> unat i < unat n" "n \<le> i \<longleftrightarrow> unat n \<le> unat i" for i n :: u64
    by (simp_all add: word_less_nat_alt word_le_nat_alt)
  have "fold (\<lambda>i s. set_table_entry s cr3 i 0) (table_indices 256) s1 = s1"
    using fr(7) by (intro fold_clear_table) (auto simp: table_indices_mem less)
  then have s': "s' = fold (\<lambda>i s. set_table_entry s cr3 i (table_entry s (kernel_cr3 s) i)) ks s1"
    using s' by simp
  have k1: "kernel_cr3 s1 = kernel_cr3 s" using fr(9) by (cases s; cases s1) simp
  have kf: "is_frame (kernel_cr3 s1)" "cr3 \<noteq> kernel_cr3 s1"
    using k fr(2) by (auto simp: k1 frame_used_def)
  have rng: "i \<in> set ks \<longleftrightarrow> 256 \<le> i \<and> i < 512" for i
    unfolding ks_def table_indices_range [OF order_refl] by (simp add: less)
  have copy: "table_entry s' x j = (if x = cr3 \<and> j \<in> set ks then table_entry s1 (kernel_cr3 s1) j else table_entry s1 x j)"
      "\<And>a. page_of a \<noteq> cr3 \<Longrightarrow> phys_mem s' a = phys_mem s1 a" "pmm_inv s' = pmm_inv s1"
      "\<And>f. frame_used s' f = frame_used s1 f" "free_page_set s' = free_page_set s1"
      "pmm_max_page_index s' = pmm_max_page_index s1" "pmm_state.more s' = pmm_state.more s1"
    if "is_frame x" "j < 512" for x j
    using fold_copy_table [OF fr(1) kf, of ks, folded s'] that rng unfolding Let_def by blast+
  have ent: "table_entry s' x j = (if x = cr3 \<and> 256 \<le> j then table_entry s1 (kernel_cr3 s1) j else table_entry s1 x j)"
    if "is_frame x" "j < 512" for x j using copy(1) [OF that] that(2) by (simp add: rng)
  have zero: "(0 :: u64) < 512" by simp
  note keep = copy(2-) [OF fr(1) zero]
  show "is_frame cr3" "\<not> frame_used s cr3" "cr3 div PAGE_SIZE \<in> free_page_set s" by (fact fr)+
  show "pmm_max_page_index s' = pmm_max_page_index s" "pmm_state.more s' = pmm_state.more s"
    using keep fr(8,9) by simp_all
  show "frame_used s' cr3" "pmm_inv s'" using keep fr(3,4) by blast+
  show "free_page_set s' = free_page_set s - {cr3 div PAGE_SIZE}" using keep fr(11) by metis
  show "frame_used s f \<Longrightarrow> frame_used s' f" for f using keep fr(5) by blast
  show "page_of a \<noteq> cr3 \<Longrightarrow> phys_mem s' a = phys_mem s a" for a using keep(1) fr(12) by metis
  show "table_entry s' cr3 i = 0" if "i < 256" for i
    using ent [OF fr(1), of i] fr(7) [of i] that by (auto simp: less)
  show "table_entry s' cr3 i = table_entry s (kernel_cr3 s) i" if "256 \<le> i" "i < 512" for i
    using ent [OF fr(1), of i] fr(6) [of "kernel_cr3 s" i] kf that by (simp add: k1)
  show "table_entry s' t i = table_entry s t i" if "is_frame t" "t \<noteq> cr3" "i < 512" for t i
    using ent [OF that(1,3)] fr(6) [OF that] that(2) by simp
qed

subsection \<open>Properties\<close>

text \<open>
  Sixteen managed pages: page 0 holds the kernel's PML4, page 1 a user PML4 and page 2 a data frame;
  the others are free and all memory is zero.
\<close>

definition vmm_example :: vmm_state where
  "vmm_example = \<lparr>pmm_bitmap = (\<lambda>_. 0xFFFFFFFFFFFF0007), pmm_max_page_index = 16,
     pmm_managed_page_count = 16, pmm_free_page_count = 13, pmm_next_hint = 3, phys_mem = (\<lambda>_. 0),
     hhdm_base = 0xFFFF800000000000, kernel_cr3 = 0, mmio_next = MMIO_BASE, cr3_reg = 0, ia32_pat = 0\<rparr>"

lemma upt_16: "[0..<16] = [0, 1, 2, 3, 4, 5, 6, 7, 8, 9, 10, 11, 12, 13, 14, 15 :: nat]"
  by (simp add: upt_rec)

lemma vmm_example_free: "free_page_set vmm_example = {3, 4, 5, 6, 7, 8, 9, 10, 11, 12, 13, 14, 15}"
  by (simp add: free_page_set_code vmm_example_def pmm_test_bit_def page_bit_def upt_16 insert_commute)

lemma vmm_example_inv: "pmm_inv vmm_example"
  by (simp add: pmm_inv_def vmm_example_free) (simp add: vmm_example_def)

lemma vmm_example_no_child: "\<not> pt_child vmm_example lv t k i c"
  by (simp add: pt_child_def table_entry_def vmm_example_def)

lemma vmm_example_used: "frame_used vmm_example 0" "frame_used vmm_example 0x1000" "frame_used vmm_example 0x2000"
  by (simp_all add: frame_used_def is_frame_def vmm_example_def pmm_test_bit_def page_bit_def)

lemma vmm_example_upt: "upt_inv vmm_example [0x1000 \<mapsto> 4]" "upt_inv vmm_example Map.empty"
  using vmm_example_used by (auto simp: upt_inv_def vmm_example_no_child split: if_splits)

lemma vmm_example_mappable: "mappable_frame vmm_example [0x1000 \<mapsto> 4] 0x2000"
  using vmm_example_used by (simp add: mappable_frame_def vmm_example_no_child)

text \<open>
  C7: mapping a user page works: with at least three free pages (the tables that may be missing on the
  way), \<^verbatim>\<open>vmm_map_page_in\<close> returns 0, keeps the page-table and allocator invariants, and from then on
  \<^verbatim>\<open>vmm_translate_user_addr\<close> sends every address of the page to the same offset of the frame, for
  writing only if the writable flag was given.
\<close>

theorem vmm_map_page_in_maps:
  assumes "upt_inv s lv" "pmm_inv s" "lv (cr3 AND PTE_ADDR_MASK) = Some 4"
    and "virt < USER_VIRT_MAX" "virt mod PAGE_SIZE = 0" "mappable_frame s lv phys"
    and "bit flags 2" "flags AND PTE_ADDR_MASK = 0" and "3 \<le> unat (pmm_free_pages s)"
  shows "\<exists>s' lv'. vmm_map_page_in s cr3 virt phys flags = Inr (0, s') \<and> upt_inv s' lv' \<and> pmm_inv s' \<and>
    lv' (cr3 AND PTE_ADDR_MASK) = Some 4 \<and>
    (\<forall>off < PAGE_SIZE. \<forall>write. vmm_translate_user_addr s' cr3 (virt + off) write =
       (if write \<and> \<not> bit flags 1 then None else Some (phys + off)))"
proof -
  have frame: "is_frame phys" using assms(6) by (simp add: mappable_frame_def frame_used_def)
  have "3 \<le> card (free_page_set s)" using assms(2,9) by (simp add: pmm_inv_def pmm_free_pages_def)
  from vmm_map_page_in_total [OF assms(2) this assms(5) frame_aligned [OF frame, unfolded page_aligned_def]]
  obtain s' where run: "vmm_map_page_in s cr3 virt phys flags = Inr (0, s')" by blast
  obtain lv' where lv': "upt_inv s' lv'" "pmm_inv s'" "lv' (cr3 AND PTE_ADDR_MASK) = Some 4"
    using vmm_map_page_in_user [OF assms(1-8) run] by (metis set_table_entry_sel(1))
  have "vmm_translate_user_addr s' cr3 (virt + off) w =
      (if w \<and> \<not> bit flags 1 then None else Some (phys + off))" if "off < 4096" for off w
    using vmm_map_page_in_translate [OF assms(1-8) run assms(3), of "virt + off" w] that assms(5)
      page_of_add [of virt off] frame_or_offset [OF frame that] and_offset [of virt off]
    by (simp add: page_aligned_def word_less_nat_alt)
  then show ?thesis using run lv' by auto
qed

theorem vmm_map_page_in_maps_witness:
  "\<exists>s'. vmm_map_page_in vmm_example 0x1000 0x400000 0x2000 4 = Inr (0, s') \<and>
     vmm_translate_user_addr s' 0x1000 0x400123 False = Some 0x2123 \<and>
     vmm_translate_user_addr s' 0x1000 0x400123 True = None"
proof -
  have "3 \<le> unat (pmm_free_pages vmm_example)" by (simp add: pmm_free_pages_def vmm_example_def)
  then obtain s' where s': "vmm_map_page_in vmm_example 0x1000 0x400000 0x2000 4 = Inr (0, s')"
    and t: "\<forall>off < PAGE_SIZE. \<forall>write. vmm_translate_user_addr s' 0x1000 (0x400000 + off) write =
       (if write \<and> \<not> bit (4::u64) 1 then None else Some (0x2000 + off))"
    using vmm_map_page_in_maps [OF vmm_example_upt(1) vmm_example_inv _ _ _ vmm_example_mappable,
        of "0x1000" "0x400000" 4] by (auto simp: bit_iff_odd)
  have "(0x123 :: u64) < PAGE_SIZE" by simp
  from spec [OF t, of "0x123"] this s' show ?thesis by (auto simp: bit_iff_odd)
qed

text \<open>
  C8: mapping a user page disturbs nothing else: every other page of the same address space and every
  page of every other address space translates as before, the kernel half of every PML4 is unchanged,
  and so is all memory outside the free pages and the user page tables.
\<close>

theorem vmm_map_page_in_isolation:
  assumes "upt_inv s lv" "pmm_inv s" "lv (cr3 AND PTE_ADDR_MASK) = Some 4"
    and "virt < USER_VIRT_MAX" "virt mod PAGE_SIZE = 0" "mappable_frame s lv phys"
    and "bit flags 2" "flags AND PTE_ADDR_MASK = 0"
    and "vmm_map_page_in s cr3 virt phys flags = Inr (r, s')"
  shows "(\<forall>t v write. lv (t AND PTE_ADDR_MASK) = Some 4 \<and>
            (t AND PTE_ADDR_MASK \<noteq> cr3 AND PTE_ADDR_MASK \<or> page_of v \<noteq> virt) \<longrightarrow>
          vmm_translate_user_addr s' t v write = vmm_translate_user_addr s t v write) \<and>
    (\<forall>t i. lv t = Some 4 \<and> 256 \<le> i \<and> i < 512 \<longrightarrow> table_entry s' t i = table_entry s t i) \<and>
    (\<forall>a. page_of a div PAGE_SIZE \<notin> free_page_set s \<and> lv (page_of a) = None \<longrightarrow> phys_mem s' a = phys_mem s a)"
proof (intro conjI allI impI)
  fix t v w
  assume "lv (t AND PTE_ADDR_MASK) = Some 4 \<and> (t AND PTE_ADDR_MASK \<noteq> cr3 AND PTE_ADDR_MASK \<or> page_of v \<noteq> virt)"
  then show "vmm_translate_user_addr s' t v w = vmm_translate_user_addr s t v w"
    using vmm_map_page_in_translate [OF assms] by auto
next
  obtain s1 lv' pt e where m: "pt_grow s lv s1 lv'" "upt_inv s1 lv'" "lv' pt = Some 1"
      "s' = set_table_entry s1 pt (pt_index virt) e"
    using vmm_map_page_in_user [OF assms] by metis
  note pt = upt_inv_frame [OF m(2,3)]
  fix t and i :: u64
  assume t: "lv t = Some 4 \<and> 256 \<le> i \<and> i < 512"
  then have t4: "lv' t = Some 4" using m(1) unfolding pt_grow_def map_le_def by (metis domI)
  then have "t \<noteq> pt" using m(3) by auto
  then have "table_entry s' t i = table_entry s1 t i"
    using t table_entry_set [OF pt upt_inv_frame [OF m(2) t4] low9_slots(3), of i] by (simp add: m(4))
  also have "\<dots> = table_entry s t i" using m(1) t unfolding pt_grow_def by blast
  finally show "table_entry s' t i = table_entry s t i" .
next
  obtain s1 lv' pt e where m: "pt_grow s lv s1 lv'" "upt_inv s1 lv'" "lv' pt = Some 1"
      "s' = set_table_entry s1 pt (pt_index virt) e"
    using vmm_map_page_in_user [OF assms] by metis
  fix a
  assume a: "page_of a div PAGE_SIZE \<notin> free_page_set s \<and> lv (page_of a) = None"
  then have "lv' (page_of a) = None" using m(1) unfolding pt_grow_def by metis
  then have "page_of a \<noteq> pt" using m(3) by auto
  then have "phys_mem s' a = phys_mem s1 a"
    using page_of_slot [OF upt_inv_frame [OF m(2,3)] low9_slots(3)] by (auto simp: m(4) set_table_entry_def)
  also have "\<dots> = phys_mem s a" using m(1) a unfolding pt_grow_def by blast
  finally show "phys_mem s' a = phys_mem s a" .
qed


theorem vmm_map_page_in_isolation_witness:
  "\<exists>s'. vmm_map_page_in vmm_example 0x1000 0x400000 0x2000 4 = Inr (0, s') \<and>
     vmm_translate_user_addr s' 0x1000 0x401000 False = vmm_translate_user_addr vmm_example 0x1000 0x401000 False"
proof -
  have "3 \<le> card (free_page_set vmm_example)" by (simp add: vmm_example_free)
  then obtain s' where s': "vmm_map_page_in vmm_example 0x1000 0x400000 0x2000 4 = Inr (0, s')"
    using vmm_map_page_in_total [OF vmm_example_inv, of "0x400000" "0x2000" "0x1000" 4] by auto
  have "page_of (0x401000 :: u64) \<noteq> 0x400000" by (simp add: align_down_def)
  then show ?thesis
    using vmm_map_page_in_isolation [OF vmm_example_upt(1) vmm_example_inv _ _ _ vmm_example_mappable _ _ s'] s'
    by (auto simp: bit_iff_odd)
qed

lemma upt_inv_new_root:
  assumes inv: "upt_inv s lv" and f: "\<not> frame_used s c" "frame_used s' c" "is_frame c"
    and zero: "\<And>i. i < 256 \<Longrightarrow> table_entry s' c i = 0"
    and same: "\<And>t i. is_frame t \<Longrightarrow> t \<noteq> c \<Longrightarrow> i < 512 \<Longrightarrow> table_entry s' t i = table_entry s t i"
    and mono: "\<And>f. frame_used s f \<Longrightarrow> frame_used s' f"
  shows "lv c = None" "upt_inv s' (lv(c \<mapsto> 4))"
    "pt_child s' (lv(c \<mapsto> 4)) t k i d \<longleftrightarrow> pt_child s lv t k i d"
    "lv t = Some k \<Longrightarrow> i < 512 \<Longrightarrow> table_entry s' t i = table_entry s t i"
proof -
  show lvc: "lv c = None" using upt_inv_table [OF inv, of c] f(1) by (cases "lv c") auto
  have ent: "table_entry s' t i = table_entry s t i" if "lv t = Some k" "i < 512" for t k i
    using that lvc same [OF upt_inv_frame [OF inv that(1)], of i] by (metis option.distinct(1))
  then show "lv t = Some k \<Longrightarrow> i < 512 \<Longrightarrow> table_entry s' t i = table_entry s t i" .
  have child: "pt_child s' (lv(c \<mapsto> 4)) t k i d \<longleftrightarrow> pt_child s lv t k i d" for t k i d
    using ent [of t k i] lvc zero [of i] user_slot_512 [of k i]
    by (auto simp: pt_child_def user_slot_def split: if_splits)
  then show "pt_child s' (lv(c \<mapsto> 4)) t k i d \<longleftrightarrow> pt_child s lv t k i d" .
  have e: "table_entry s' t i = table_entry s t i" if "pt_child s lv t k i d" for t k i d
    using that ent [of t k i] user_slot_512 by (auto simp: pt_child_def)
  have "d \<noteq> c" if "pt_child s lv t k i d" for t k i d using upt_inv_child [OF inv that] f(1) by auto
  then show "upt_inv s' (lv(c \<mapsto> 4))"
    using upt_inv_table [OF inv] upt_inv_child [OF inv] upt_inv_leaf [OF inv] upt_inv_inner [OF inv]
      upt_inv_unique [OF inv] f(2) mono
    by (intro upt_invI) (auto simp: child e split: if_splits)
qed


lemma pt_grow_translate:
  assumes "upt_inv s lv" "upt_inv s' lv'" "pt_grow s lv s' lv'" "lv (t AND PTE_ADDR_MASK) = Some 4"
  shows "vmm_translate_user_addr s' t v w = vmm_translate_user_addr s t v w"
proof (cases "v < USER_VIRT_MAX")
  case True
  let ?is = "[pml4_index v, pdpt_index v, pd_index v]"
  have ind: "vmm_indices v = ?is @ [pt_index v]" by (simp add: vmm_indices_def)
  have path: "user_path (length ?is + 1) (?is @ [pt_index v])"
    using vmm_indices_user_path [OF True] unfolding ind by (simp add: numeral_eq_Suc)
  have "user_walk s' w v (t AND PTE_ADDR_MASK) (vmm_indices v) = user_walk s w v (t AND PTE_ADDR_MASK) (vmm_indices v)"
    unfolding ind by (rule pt_grow_walk [OF assms(1-3) _ path]) (simp add: assms(4))
  then show ?thesis by (simp add: vmm_translate_user_addr_def)
qed (simp add: vmm_translate_user_addr_def not_less)

lemma vmm_create_address_space_grow:
  fixes s :: "'a vmm_state_scheme"
  assumes inv: "upt_inv s lv" "pmm_inv s" and k: "frame_used s (kernel_cr3 s)"
    and run: "vmm_create_address_space s = Inr (cr3, s')"
  shows "lv cr3 = None" "upt_inv s' (lv(cr3 \<mapsto> 4))" "pt_grow s lv s' (lv(cr3 \<mapsto> 4))"
proof -
  note e = vmm_create_address_space_entries [OF inv(2) k run]
  note root = upt_inv_new_root [OF inv(1) e(2,3,1) e(5) e(7) e(8)]
  show "lv cr3 = None" "upt_inv s' (lv(cr3 \<mapsto> 4))" using root(1,2) by blast+
  have "pt_child s lv t n i c \<Longrightarrow> table_entry s' t i = table_entry s t i" for t n i c
    using root(4) [of t n i] user_slot_512 by (auto simp: pt_child_def)
  moreover have "page_of a \<noteq> cr3" if "page_of a div PAGE_SIZE \<notin> free_page_set s" for a
    using that e(11) by auto
  ultimately show "pt_grow s lv s' (lv(cr3 \<mapsto> 4))"
    unfolding pt_grow_def using e(8-) root by (auto simp: map_le_def)
qed

text \<open>
  C9: \<^verbatim>\<open>vmm_create_address_space\<close> returns a PML4 that was free before, whose user half maps nothing and
  whose kernel half is the kernel's; the other address spaces translate as before.
\<close>


theorem vmm_create_address_space_fresh:
  assumes "upt_inv s lv" "pmm_inv s" "frame_used s (kernel_cr3 s)"
    and "vmm_create_address_space s = Inr (cr3, s')"
  shows "\<not> frame_used s cr3 \<and> upt_inv s' (lv(cr3 \<mapsto> 4)) \<and> pmm_inv s' \<and>
    (\<forall>v w. vmm_translate_user_addr s' cr3 v w = None) \<and>
    (\<forall>i. 256 \<le> i \<and> i < 512 \<longrightarrow> table_entry s' cr3 i = table_entry s (kernel_cr3 s) i) \<and>
    (\<forall>t v w. lv (t AND PTE_ADDR_MASK) = Some 4 \<longrightarrow>
       vmm_translate_user_addr s' t v w = vmm_translate_user_addr s t v w)"
proof (intro conjI allI impI)
  note e = vmm_create_address_space_entries [OF assms(2-4)]
  note g = vmm_create_address_space_grow [OF assms]
  show "\<not> frame_used s cr3" "upt_inv s' (lv(cr3 \<mapsto> 4))" "pmm_inv s'" by (fact e g)+
  show "table_entry s' cr3 i = table_entry s (kernel_cr3 s) i" if "256 \<le> i \<and> i < 512" for i
    using e(6) that by simp
  show "vmm_translate_user_addr s' cr3 v w = None" for v w
    using e(1) e(5) [OF user_pml4_index, of v]
    by (auto simp: vmm_translate_user_addr_def is_frame_def vmm_indices_def not_le)
  show "vmm_translate_user_addr s' t v w = vmm_translate_user_addr s t v w"
    if t: "lv (t AND PTE_ADDR_MASK) = Some 4" for t v w
    by (rule pt_grow_translate [OF assms(1) g(2,3) t])
qed

theorem vmm_create_address_space_fresh_witness:
  "\<exists>cr3 s'. vmm_create_address_space vmm_example = Inr (cr3, s') \<and>
     \<not> frame_used vmm_example cr3 \<and> vmm_translate_user_addr s' cr3 0x400000 False = None"
proof -
  obtain f s1 where "pmm_alloc_page vmm_example = Inr (f, s1)"
    using pmm_alloc_page_panics_iff [OF vmm_example_inv] by (metis empty_not_insert surj_pair sum.exhaust vmm_example_free)
  then obtain s' where s': "vmm_create_address_space vmm_example = Inr (f, s')"
    unfolding vmm_create_address_space_def by (metis (no_types, lifting) case_prod_conv kbind_simps(2))
  have "kernel_cr3 vmm_example = 0" by (simp add: vmm_example_def)
  then show ?thesis
    using vmm_create_address_space_fresh [OF vmm_example_upt(2) vmm_example_inv _ s'] vmm_example_used(1) s' by auto
qed

end
