(* ===== verification/Kernel_Heap.thy ===== *)
theory Kernel_Heap imports Page_Tables begin

text \<open>
  The kernel heap of \<^verbatim>\<open>memory.c\<close> (\<^verbatim>\<open>kmalloc\<close>, \<^verbatim>\<open>kzalloc\<close>, \<^verbatim>\<open>kfree\<close>): a doubly linked list of block
  headers that tile the heap from \<^verbatim>\<open>HEAP_BASE\<close>. Headers are kept in a store from header addresses to
  headers, the payload in a byte memory over the same addresses. The abstract heap is the list of blocks, with the address, size and status of each; the
  pointer code is shown to implement first fit with splitting and eager coalescing on that list.
\<close>

section \<open>The code\<close>

abbreviation HEAP_BASE :: u64 where "HEAP_BASE \<equiv> 0xffffffff90000000"
abbreviation HEAP_SIZE :: u64 where "HEAP_SIZE \<equiv> 16 * 1024 * 1024"
abbreviation HEAP_ALIGN :: u64 where "HEAP_ALIGN \<equiv> 16"
abbreviation HEAP_MAGIC :: u64 where "HEAP_MAGIC \<equiv> 0x54484541504d454d"

record heap_block =
  hb_size :: u64
  hb_free :: bool
  hb_magic :: u64
  hb_prev :: u64
  hb_next :: u64

record heap_state = vmm_state +
  heap_next :: u64
  heap_mapped_end :: u64
  heap_head :: u64
  heap_tail :: u64
  heap_store :: "u64 \<Rightarrow> heap_block"
  heap_data :: "u64 \<Rightarrow> u8"

text \<open>The header is five 8-byte words.\<close>

definition heap_header_size :: u64 where
  "heap_header_size = align_up 40 HEAP_ALIGN"

definition upd_block :: "u64 \<Rightarrow> (heap_block \<Rightarrow> heap_block) \<Rightarrow> 'a heap_state_scheme \<Rightarrow> 'a heap_state_scheme" where
  "upd_block b f s = s\<lparr>heap_store := (heap_store s)(b := f (heap_store s b))\<rparr>"

text \<open>
  The loop of \<^verbatim>\<open>heap_ensure_mapped\<close> takes a page in every round, so it ends, at the latest with a
  panic of the page allocator.
\<close>

definition clear_bits :: "'a pmm_state_scheme \<Rightarrow> u64 set" where
  "clear_bits s = {p. \<not> pmm_test_bit s p}"

lemma pmm_alloc_page_clear:
  assumes "pmm_alloc_page s = Inr (phys, s')"
  shows "clear_bits s' \<subset> clear_bits s"
proof -
  from assms obtain page where page: "\<not> pmm_test_bit s page" "pmm_take_page s page = (phys, s')"
    by (auto simp: pmm_alloc_page_def split: option.splits dest: pmm_find_free_Some)
  then show ?thesis using pmm_take_page_sel(2) [OF page(2)] by (auto simp: clear_bits_def)
qed

lemma vmm_next_level_clear:
  assumes "vmm_next_level s t i c flags = Inr (r, s')"
  shows "clear_bits s' \<subseteq> clear_bits s"
proof -
  have set: "clear_bits (set_table_entry s t i v) = clear_bits s" for s :: "'a pmm_state_scheme" and t i v
    by (simp add: clear_bits_def)
  show ?thesis
    using assms pmm_alloc_page_clear
    by (fastforce simp: vmm_next_level_def Let_def set split: if_splits)
qed

lemma vmm_map_page_clear:
  assumes "vmm_map_page s virt phys flags = Inr (r, s')"
  shows "clear_bits s' \<subseteq> clear_bits s"
proof -
  have set: "clear_bits (set_table_entry s t i v) = clear_bits s" for s :: "'b pmm_state_scheme" and t i v
    by (simp add: clear_bits_def)
  show ?thesis
    using assms unfolding vmm_map_page_def vmm_map_page_in_def
    by (auto split: if_splits simp: set dest!: vmm_next_level_clear) blast
qed

lemma heap_ensure_measure:
  assumes "pmm_alloc_page s = Inr (phys, s1)" "vmm_map_page s1 virt phys flags = Inr (r, s2)"
  shows "card (clear_bits (s2\<lparr>heap_mapped_end := e\<rparr>)) < card (clear_bits (s :: 'a heap_state_scheme))"
proof -
  have "clear_bits s2 \<subset> clear_bits s"
    using pmm_alloc_page_clear [OF assms(1)] vmm_map_page_clear [OF assms(2)] by auto
  then have "card (clear_bits s2) < card (clear_bits s)" by (intro psubset_card_mono) (simp_all add: finite)
  then show ?thesis by (simp add: clear_bits_def pmm_test_bit_def)
qed

function heap_ensure_mapped :: "'a heap_state_scheme \<Rightarrow> u64 \<Rightarrow> 'a heap_state_scheme kres" where
  "heap_ensure_mapped s end =
     (if heap_mapped_end s < end then
        kbind (pmm_alloc_page s) (\<lambda>(phys, s).
          kbind (vmm_map_page s (heap_mapped_end s) phys (PTE_WRITABLE OR PTE_NO_EXEC)) (\<lambda>(r, s).
            if r \<noteq> 0 then Inl ''failed to map kernel heap page''
            else heap_ensure_mapped (s\<lparr>heap_mapped_end := heap_mapped_end s + PAGE_SIZE\<rparr>) end))
      else Inr s)"
  by pat_completeness auto
termination
  by (relation "measure (\<lambda>(s, e). card (clear_bits s))") (auto intro: heap_ensure_measure)

declare heap_ensure_mapped.simps [simp del]

definition heap_split_block :: "'a heap_state_scheme \<Rightarrow> u64 \<Rightarrow> u64 \<Rightarrow> 'a heap_state_scheme" where
  "heap_split_block s block sz =
     (let header_size = heap_header_size in
      if hb_size (heap_store s block) < sz + header_size + HEAP_ALIGN then s
      else
        let split = block + header_size + sz;
            s = upd_block split (\<lambda>_. \<lparr>hb_size = hb_size (heap_store s block) - sz - header_size,
                  hb_free = True, hb_magic = HEAP_MAGIC, hb_prev = block,
                  hb_next = hb_next (heap_store s block)\<rparr>) s;
            s = (if hb_next (heap_store s split) \<noteq> 0
                 then upd_block (hb_next (heap_store s split)) (\<lambda>b. b\<lparr>hb_prev := split\<rparr>) s
                 else s\<lparr>heap_tail := split\<rparr>)
        in upd_block block (\<lambda>b. b\<lparr>hb_size := sz, hb_next := split\<rparr>) s)"

definition heap_merge_next :: "'a heap_state_scheme \<Rightarrow> u64 \<Rightarrow> 'a heap_state_scheme" where
  "heap_merge_next s block =
     (if hb_next (heap_store s block) \<noteq> 0 \<and> hb_free (heap_store s (hb_next (heap_store s block)))
      then let next = hb_next (heap_store s block);
               s = upd_block block (\<lambda>b. b\<lparr>hb_size := hb_size b + (heap_header_size + hb_size (heap_store s next))\<rparr>) s;
               s = upd_block block (\<lambda>b. b\<lparr>hb_next := hb_next (heap_store s next)\<rparr>) s
           in if hb_next (heap_store s block) \<noteq> 0
              then upd_block (hb_next (heap_store s block)) (\<lambda>b. b\<lparr>hb_prev := block\<rparr>) s
              else s\<lparr>heap_tail := block\<rparr>
      else s)"

definition heap_merge_prev :: "'a heap_state_scheme \<Rightarrow> u64 \<Rightarrow> 'a heap_state_scheme" where
  "heap_merge_prev s block =
     (if hb_prev (heap_store s block) \<noteq> 0 \<and> hb_free (heap_store s (hb_prev (heap_store s block)))
      then let prev = hb_prev (heap_store s block);
               s = upd_block prev (\<lambda>b. b\<lparr>hb_size := hb_size b + (heap_header_size + hb_size (heap_store s block))\<rparr>) s;
               s = upd_block prev (\<lambda>b. b\<lparr>hb_next := hb_next (heap_store s block)\<rparr>) s
           in if hb_next (heap_store s prev) \<noteq> 0
              then upd_block (hb_next (heap_store s prev)) (\<lambda>b. b\<lparr>hb_prev := prev\<rparr>) s
              else s\<lparr>heap_tail := prev\<rparr>
      else s)"

definition heap_coalesce :: "'a heap_state_scheme \<Rightarrow> u64 \<Rightarrow> 'a heap_state_scheme" where
  "heap_coalesce s block = heap_merge_prev (heap_merge_next s block) block"

text \<open>
  The search loop of \<^verbatim>\<open>kmalloc\<close> follows the \<^verbatim>\<open>next\<close> pointers; on a cyclic list it would not end, which is
  the value \<open>None\<close>. A NULL result is \<open>0\<close>.
\<close>

partial_function (option) heap_find :: "(u64 \<Rightarrow> heap_block) \<Rightarrow> u64 \<Rightarrow> u64 \<Rightarrow> u64 option" where
  "heap_find store alloc_size block =
     (if block = 0 then Some 0
      else if hb_free (store block) \<and> hb_size (store block) \<ge> alloc_size then Some block
      else heap_find store alloc_size (hb_next (store block)))"

definition kmalloc_extend :: "'a heap_state_scheme \<Rightarrow> u64 \<Rightarrow> (u64 \<times> 'a heap_state_scheme) kres" where
  "kmalloc_extend s alloc_size =
     (let header_size = heap_header_size;
          start = align_up (heap_next s) HEAP_ALIGN;
          end = align_up (start + header_size + alloc_size) HEAP_ALIGN
      in if end > HEAP_BASE + HEAP_SIZE then Inl ''kernel heap exhausted''
         else kbind (heap_ensure_mapped s end) (\<lambda>s.
           let s = upd_block start (\<lambda>_. \<lparr>hb_size = alloc_size, hb_free = False, hb_magic = HEAP_MAGIC,
                     hb_prev = heap_tail s, hb_next = 0\<rparr>) s;
               s = (if heap_tail s \<noteq> 0 then upd_block (heap_tail s) (\<lambda>b. b\<lparr>hb_next := start\<rparr>) s
                    else s\<lparr>heap_head := start\<rparr>);
               s = s\<lparr>heap_tail := start, heap_next := end\<rparr>
           in Inr (start + header_size, s)))"

definition kmalloc :: "'a heap_state_scheme \<Rightarrow> u64 \<Rightarrow> (u64 \<times> 'a heap_state_scheme) kres option" where
  "kmalloc s sz =
     (if sz = 0 then Some (Inr (0, s))
      else
        let alloc_size = align_up sz HEAP_ALIGN in
        case heap_find (heap_store s) alloc_size (heap_head s) of
          None \<Rightarrow> None
        | Some block \<Rightarrow>
            Some (if block \<noteq> 0
                  then let s = heap_split_block s block alloc_size;
                           s = upd_block block (\<lambda>b. b\<lparr>hb_free := False\<rparr>) s
                       in Inr (block + heap_header_size, s)
                  else kmalloc_extend s alloc_size))"

definition kzalloc :: "'a heap_state_scheme \<Rightarrow> u64 \<Rightarrow> (u64 \<times> 'a heap_state_scheme) kres option" where
  "kzalloc s sz =
     (case kmalloc s sz of
        None \<Rightarrow> None
      | Some r \<Rightarrow> Some (kbind r (\<lambda>(ptr, s).
          Inr (ptr, s\<lparr>heap_data := (\<lambda>a. if a - ptr < sz then 0 else heap_data s a)\<rparr>))))"

definition kfree :: "'a heap_state_scheme \<Rightarrow> u64 \<Rightarrow> 'a heap_state_scheme kres" where
  "kfree s ptr =
     (if ptr = 0 then Inr s
      else
        let block = ptr - heap_header_size in
        if hb_magic (heap_store s block) \<noteq> HEAP_MAGIC \<or> hb_free (heap_store s block)
        then Inl ''invalid kernel heap free''
        else let s = upd_block block (\<lambda>b. b\<lparr>hb_free := True\<rparr>) s
             in Inr (heap_coalesce s block))"

section \<open>The block list\<close>

text \<open>An abstract block: header address, payload size, and whether it is free.\<close>

type_synonym ablock = "u64 \<times> u64 \<times> bool"

abbreviation addrs :: "ablock list \<Rightarrow> u64 list" where "addrs bs \<equiv> map fst bs"

fun hd_addr :: "u64 \<Rightarrow> ablock list \<Rightarrow> u64" where
  "hd_addr n [] = n"
| "hd_addr n ((x, sz, f) # bs) = x"

fun last_addr :: "u64 \<Rightarrow> ablock list \<Rightarrow> u64" where
  "last_addr p [] = p"
| "last_addr p ((x, sz, f) # bs) = last_addr x bs"

text \<open>A segment of the doubly linked list, entered from \<open>p\<close> and left to \<open>n\<close>.\<close>

fun dll :: "(u64 \<Rightarrow> heap_block) \<Rightarrow> u64 \<Rightarrow> ablock list \<Rightarrow> u64 \<Rightarrow> bool" where
  "dll st p [] n \<longleftrightarrow> True"
| "dll st p ((x, sz, f) # bs) n \<longleftrightarrow>
     st x = \<lparr>hb_size = sz, hb_free = f, hb_magic = HEAP_MAGIC, hb_prev = p, hb_next = hd_addr n bs\<rparr> \<and>
     dll st x bs n"

text \<open>The blocks lie back to back from \<open>a\<close> to \<open>e\<close>; sizes are positive multiples of the alignment.\<close>

fun tiles :: "nat \<Rightarrow> ablock list \<Rightarrow> nat \<Rightarrow> bool" where
  "tiles a [] e \<longleftrightarrow> a = e"
| "tiles a ((x, sz, f) # bs) e \<longleftrightarrow>
     unat x = a \<and> 16 dvd unat sz \<and> 0 < unat sz \<and> tiles (a + 48 + unat sz) bs e"

definition coalesced :: "ablock list \<Rightarrow> bool" where
  "coalesced bs \<longleftrightarrow> successively (\<lambda>a b. \<not> (snd (snd a) \<and> snd (snd b))) bs"

definition heap_rep :: "'a heap_state_scheme \<Rightarrow> ablock list \<Rightarrow> bool" where
  "heap_rep s bs \<longleftrightarrow>
     dll (heap_store s) 0 bs 0 \<and> heap_head s = hd_addr 0 bs \<and> heap_tail s = last_addr 0 bs \<and>
     tiles (unat HEAP_BASE) bs (unat (heap_next s)) \<and> heap_next s \<le> HEAP_BASE + HEAP_SIZE \<and> coalesced bs"

named_theorems heap_simps

lemma heap_header_size_eq [heap_simps]: "heap_header_size = 48"
  by (simp add: heap_header_size_def align_up_def)

lemma hd_addr_append [simp]: "hd_addr n (xs @ ys) = hd_addr (hd_addr n ys) xs"
  by (cases "(n, xs)" rule: hd_addr.cases) auto

lemma last_addr_append [simp]: "last_addr p (xs @ ys) = last_addr (last_addr p xs) ys"
  by (induction p xs rule: last_addr.induct) auto

lemma hd_addr_mem: "bs \<noteq> [] \<Longrightarrow> hd_addr n bs \<in> set (addrs bs)"
  by (cases "(n, bs)" rule: hd_addr.cases) auto

lemma last_addr_mem: "bs \<noteq> [] \<Longrightarrow> last_addr p bs \<in> set (addrs bs)"
proof (induction p bs rule: last_addr.induct)
  case (2 p x sz f bs)
  then show ?case by (cases bs) auto
qed simp

lemma dll_append [simp]:
  "dll st p (xs @ ys) n \<longleftrightarrow> dll st p xs (hd_addr n ys) \<and> dll st (last_addr p xs) ys n"
  by (induction st p xs n rule: dll.induct) auto

lemma dll_upd [simp]: "x \<notin> set (addrs bs) \<Longrightarrow> dll (st(x := v)) p bs n = dll st p bs n"
  by (induction st p bs n rule: dll.induct) auto

lemma dll_set_prev:
  assumes "dll st p bs n" "bs \<noteq> []" "distinct (addrs bs)"
  shows "dll (st(hd_addr n bs := (st (hd_addr n bs))\<lparr>hb_prev := q\<rparr>)) q bs n"
  using assms by (cases "(n, bs)" rule: hd_addr.cases) auto

lemma dll_set_next:
  assumes "dll st p bs n" "bs \<noteq> []" "distinct (addrs bs)"
  shows "dll (st(last_addr p bs := (st (last_addr p bs))\<lparr>hb_next := m\<rparr>)) p bs m"
  using assms
proof (induction st p bs n rule: dll.induct)
  case (2 st p x sz f bs n)
  show ?case
  proof (cases bs)
    case Nil
    then show ?thesis using 2 by simp
  next
    case (Cons b bs')
    then have "last_addr x bs \<noteq> x" using 2(4) last_addr_mem [of bs x] by force
    then show ?thesis using 2 Cons by (cases b) auto
  qed
qed simp

lemma tiles_append: "tiles a (xs @ ys) e \<longleftrightarrow> (\<exists>m. tiles a xs m \<and> tiles m ys e)"
  by (induction a xs e rule: tiles.induct) auto

lemma tiles_le: "tiles a bs e \<Longrightarrow> a \<le> e"
  by (induction a bs e rule: tiles.induct) auto

lemma tiles_mem:
  "tiles a bs e \<Longrightarrow> (x, sz, f) \<in> set bs \<Longrightarrow>
     a \<le> unat x \<and> unat x + 48 + unat sz \<le> e \<and> 16 dvd unat sz \<and> 0 < unat sz"
  by (induction a bs e rule: tiles.induct) (auto dest: tiles_le)

lemma tiles_align: "tiles a bs e \<Longrightarrow> 16 dvd a \<Longrightarrow> 16 dvd e \<and> (\<forall>b \<in> set bs. 16 dvd unat (fst b))"
proof (induction a bs e rule: tiles.induct)
  case (2 a x sz f bs e)
  then have "16 dvd a + 48 + unat sz" by simp
  then show ?case using 2 by auto
qed simp

lemma tiles_distinct: "tiles a bs e \<Longrightarrow> distinct (addrs bs)"
proof (induction a bs e rule: tiles.induct)
  case (2 a x sz f bs e)
  have "unat x < unat (fst b)" if "b \<in> set bs" for b
    using that 2(2) tiles_mem [of "a + 48 + unat sz" bs e "fst b" "fst (snd b)" "snd (snd b)"] by auto
  then show ?case using 2 by fastforce
qed simp

text \<open>Distinct blocks do not overlap.\<close>

lemma tiles_disjoint:
  "tiles a bs e \<Longrightarrow> (x, sz, f) \<in> set bs \<Longrightarrow> (y, sz', f') \<in> set bs \<Longrightarrow> x \<noteq> y \<Longrightarrow>
     unat x + 48 + unat sz \<le> unat y \<or> unat y + 48 + unat sz' \<le> unat x"
proof (induction a bs e rule: tiles.induct)
  case (2 a z s0 f0 bs e)
  then show ?case
    using tiles_mem [of "a + 48 + unat s0" bs e x sz f] tiles_mem [of "a + 48 + unat s0" bs e y sz' f'] by auto
qed simp

lemma upd_block_sel [simp]:
  "heap_store (upd_block b f s) = (heap_store s)(b := f (heap_store s b))"
  "heap_head (upd_block b f s) = heap_head s"
  "heap_tail (upd_block b f s) = heap_tail s"
  "heap_next (upd_block b f s) = heap_next s"
  "heap_data (upd_block b f s) = heap_data s"
  by (simp_all add: upd_block_def)

text \<open>The search loop ends and finds the first free block that is large enough.\<close>

abbreviation fits :: "u64 \<Rightarrow> ablock \<Rightarrow> bool" where "fits n b \<equiv> snd (snd b) \<and> n \<le> fst (snd b)"

lemma heap_find_first_fit:
  "dll st p bs 0 \<Longrightarrow> 0 \<notin> set (addrs bs) \<Longrightarrow>
     heap_find st n (hd_addr 0 bs) = Some (hd_addr 0 (dropWhile (\<lambda>b. \<not> fits n b) bs))"
proof (induction bs arbitrary: p)
  case Nil
  then show ?case by (simp add: heap_find.simps)
next
  case (Cons b bs)
  obtain x sz f where b: "b = (x, sz, f)" by (cases b)
  have "heap_find st n (hd_addr 0 bs) = Some (hd_addr 0 (dropWhile (\<lambda>b. \<not> fits n b) bs))"
    using Cons.IH [of x] Cons.prems b by auto
  then show ?case using Cons.prems b by (subst heap_find.simps) auto
qed

lemma heap_split_block_dll:
  assumes dll: "dll (heap_store s) 0 (pre @ (x, sz, f) # post) 0"
    and tail: "heap_tail s = last_addr 0 (pre @ (x, sz, f) # post)"
    and dist: "distinct (addrs (pre @ (x, sz, f) # post))" "0 \<notin> set (addrs post)"
    and y: "y = x + 48 + n" "y \<notin> set (addrs (pre @ (x, sz, f) # post))"
    and room: "\<not> sz < n + 48 + 16"
  defines "s' \<equiv> heap_split_block s x n"
  shows "dll (heap_store s') 0 (pre @ (x, n, f) # (y, sz - n - 48, True) # post) 0"
    and "heap_tail s' = last_addr 0 (pre @ (x, n, f) # (y, sz - n - 48, True) # post)"
    and "heap_head s' = heap_head s" "heap_next s' = heap_next s"
proof -
  let ?st = "heap_store s"
  let ?b = "\<lparr>hb_size = sz - n - 48, hb_free = True, hb_magic = HEAP_MAGIC, hb_prev = x, hb_next = hd_addr 0 post\<rparr>"
  have x: "?st x = \<lparr>hb_size = sz, hb_free = f, hb_magic = HEAP_MAGIC, hb_prev = last_addr 0 pre, hb_next = hd_addr 0 post\<rparr>"
    and pre: "dll ?st 0 pre x" and post: "dll ?st x post 0" using dll by auto
  have s': "s' = (let s = upd_block y (\<lambda>_. ?b) s;
                      s = (if hd_addr 0 post \<noteq> 0 then upd_block (hd_addr 0 post) (\<lambda>b. b\<lparr>hb_prev := y\<rparr>) s
                           else s\<lparr>heap_tail := y\<rparr>)
                  in upd_block x (\<lambda>b. b\<lparr>hb_size := n, hb_next := y\<rparr>) s)"
    using room y by (simp add: s'_def heap_split_block_def heap_simps x Let_def)
  show "heap_head s' = heap_head s" "heap_next s' = heap_next s" by (simp_all add: s' Let_def)
  show "dll (heap_store s') 0 (pre @ (x, n, f) # (y, sz - n - 48, True) # post) 0"
  proof (cases post)
    case Nil
    then show ?thesis using x pre y dist by (auto simp: s' Let_def)
  next
    case (Cons c post')
    then have ne: "post \<noteq> []" by simp
    have h: "hd_addr 0 post \<in> set (addrs post)" using hd_addr_mem [OF ne] .
    then have h0: "hd_addr 0 post \<noteq> 0" using dist(2) by metis
    have hx: "hd_addr 0 post \<noteq> x" "hd_addr 0 post \<noteq> y" "hd_addr 0 post \<notin> set (addrs pre)"
      using h dist(1) y(2) by auto
    have "dll (?st(hd_addr 0 post := (?st (hd_addr 0 post))\<lparr>hb_prev := y\<rparr>)) y post 0"
      using dll_set_prev [OF post ne] dist(1) by simp
    moreover have "heap_store s' = (?st(hd_addr 0 post := (?st (hd_addr 0 post))\<lparr>hb_prev := y\<rparr>))
        (y := ?b, x := \<lparr>hb_size = n, hb_free = f, hb_magic = HEAP_MAGIC, hb_prev = last_addr 0 pre, hb_next = y\<rparr>)"
      using h0 hx x y(2) by (auto simp: s' Let_def fun_eq_iff)
    ultimately show ?thesis
      using pre y dist hx by auto
  qed
  show "heap_tail s' = last_addr 0 (pre @ (x, n, f) # (y, sz - n - 48, True) # post)"
  proof (cases post)
    case Nil
    then show ?thesis by (simp add: s' Let_def)
  next
    case (Cons c post')
    then have "hd_addr 0 post \<noteq> 0" using hd_addr_mem [of post 0] dist(2) by (metis list.distinct(1))
    then show ?thesis using tail Cons by (cases c) (simp add: s' Let_def)
  qed
qed

text \<open>Joining a block with its successor, and with its predecessor.\<close>

lemma merge_next_dll:
  assumes dll: "dll st p (pre @ (x, sz, f) # (y, sz', g) # post) 0"
    and dist: "distinct (addrs (pre @ (x, sz, f) # (y, sz', g) # post))" "0 \<notin> set (addrs post)"
    and st': "st' = (let st = st(x := (st x)\<lparr>hb_size := sz + (48 + sz'), hb_next := hd_addr 0 post\<rparr>)
       in if hd_addr 0 post \<noteq> 0
          then st(hd_addr 0 post := (st (hd_addr 0 post))\<lparr>hb_prev := x\<rparr>) else st)"
  shows "dll st' p (pre @ (x, sz + (48 + sz'), f) # post) 0"
proof -
  have x: "st x = \<lparr>hb_size = sz, hb_free = f, hb_magic = HEAP_MAGIC, hb_prev = last_addr p pre, hb_next = y\<rparr>"
    and pre: "dll st p pre x" and post: "dll st y post 0" using dll by auto
  show ?thesis
  proof (cases post)
    case Nil
    then show ?thesis using x pre dist by (simp add: st' Let_def)
  next
    case (Cons c post')
    then have ne: "post \<noteq> []" by simp
    have h: "hd_addr 0 post \<in> set (addrs post)" using hd_addr_mem [OF ne] .
    then have h0: "hd_addr 0 post \<noteq> 0" using dist(2) by metis
    have hx: "hd_addr 0 post \<noteq> x" "hd_addr 0 post \<notin> set (addrs pre)" using h dist(1) by auto
    have "dll (st(hd_addr 0 post := (st (hd_addr 0 post))\<lparr>hb_prev := x\<rparr>)) x post 0"
      using dll_set_prev [OF post ne] dist(1) by simp
    moreover have "st' = (st(hd_addr 0 post := (st (hd_addr 0 post))\<lparr>hb_prev := x\<rparr>))
        (x := \<lparr>hb_size = sz + (48 + sz'), hb_free = f, hb_magic = HEAP_MAGIC, hb_prev = last_addr p pre, hb_next = hd_addr 0 post\<rparr>)"
      using h0 hx x by (auto simp: st' Let_def fun_eq_iff)
    ultimately show ?thesis using pre dist hx by auto
  qed
qed

section \<open>The abstract allocator\<close>

text \<open>First fit with splitting, on the list of blocks.\<close>

fun alloc_block :: "u64 \<Rightarrow> ablock list \<Rightarrow> (u64 \<times> ablock list) option" where
  "alloc_block n [] = None"
| "alloc_block n ((x, sz, f) # bs) =
     (if f \<and> n \<le> sz
      then Some (x, if sz < n + 48 + 16 then (x, sz, False) # bs
                    else (x, n, False) # (x + 48 + n, sz - n - 48, True) # bs)
      else case alloc_block n bs of None \<Rightarrow> None | Some (y, bs') \<Rightarrow> Some (y, (x, sz, f) # bs'))"

text \<open>Marking a block free, and joining neighbouring free blocks.\<close>

definition mark_free :: "u64 \<Rightarrow> ablock list \<Rightarrow> ablock list" where
  "mark_free a bs = map (\<lambda>(x, sz, f). (x, sz, f \<or> x = a)) bs"

fun join_free :: "ablock list \<Rightarrow> ablock list" where
  "join_free ((x, sz, True) # (y, sz', True) # bs) = join_free ((x, sz + (48 + sz'), True) # bs)"
| "join_free (b # bs) = b # join_free bs"
| "join_free [] = []"

lemma alloc_block_None: "alloc_block n bs = None \<longleftrightarrow> (\<forall>b \<in> set bs. \<not> fits n b)"
  by (induction n bs rule: alloc_block.induct) (auto split: option.splits)

lemma alloc_block_Some:
  assumes "alloc_block n bs = Some (x, bs')"
  obtains pre sz post where "bs = pre @ (x, sz, True) # post" "\<forall>b \<in> set pre. \<not> fits n b" "n \<le> sz"
    "bs' = pre @ (if sz < n + 48 + 16 then (x, sz, False) # post
                  else (x, n, False) # (x + 48 + n, sz - n - 48, True) # post)"
proof -
  have "\<exists>pre sz post. bs = pre @ (x, sz, True) # post \<and> (\<forall>b \<in> set pre. \<not> fits n b) \<and> n \<le> sz \<and>
    bs' = pre @ (if sz < n + 48 + 16 then (x, sz, False) # post
                 else (x, n, False) # (x + 48 + n, sz - n - 48, True) # post)"
    using assms
  proof (induction n bs arbitrary: bs' rule: alloc_block.induct)
    case (2 n y sz f bs)
    show ?case
    proof (cases "f \<and> n \<le> sz")
      case True
      then show ?thesis using 2(2) by (intro exI [of _ "[]"] exI [of _ sz] exI [of _ bs]) auto
    next
      case False
      then obtain bs1 where bs1: "alloc_block n bs = Some (x, bs1)" "bs' = (y, sz, f) # bs1"
        using 2(2) by (auto split: option.splits)
      from 2(1) [OF False bs1(1)] obtain pre sz1 post where
        "bs = pre @ (x, sz1, True) # post" "\<forall>b \<in> set pre. \<not> fits n b" "n \<le> sz1"
        "bs1 = pre @ (if sz1 < n + 48 + 16 then (x, sz1, False) # post
                  else (x, n, False) # (x + 48 + n, sz1 - n - 48, True) # post)" by blast
      then show ?thesis using False bs1(2) by (intro exI [of _ "(y, sz, f) # pre"] exI [of _ sz1] exI [of _ post]) auto
    qed
  qed simp
  then show ?thesis using that by blast
qed

lemma coalesced_simps [simp]: "coalesced []" "coalesced [b]"
  "coalesced (b # c # bs) \<longleftrightarrow> \<not> (snd (snd b) \<and> snd (snd c)) \<and> coalesced (c # bs)"
  by (simp_all add: coalesced_def)

lemma coalesced_append:
  "coalesced (xs @ ys) \<longleftrightarrow> coalesced xs \<and> coalesced ys \<and>
     (xs \<noteq> [] \<longrightarrow> ys \<noteq> [] \<longrightarrow> \<not> (snd (snd (last xs)) \<and> snd (snd (hd ys))))"
  by (auto simp: coalesced_def successively_append_iff)

lemma coalesced_tl: "coalesced (b # bs) \<Longrightarrow> coalesced bs"
  by (cases bs) auto

lemma join_free_coalesced: "coalesced bs \<Longrightarrow> join_free bs = bs"
  by (induction bs rule: join_free.induct) (auto dest: coalesced_tl)

lemma join_free_append:
  "coalesced pre \<Longrightarrow> (pre = [] \<or> \<not> snd (snd (last pre))) \<Longrightarrow> join_free (pre @ bs) = pre @ join_free bs"
proof (induction pre)
  case (Cons b pre)
  then have IH: "join_free (pre @ bs) = pre @ join_free bs" by (cases pre) (auto dest: coalesced_tl)
  obtain x sz f where b: "b = (x, sz, f)" by (cases b)
  have "\<not> f \<or> (\<exists>c cs. pre @ bs = c # cs \<and> \<not> snd (snd c))" using Cons.prems b by (cases pre) auto
  then have "join_free (b # pre @ bs) = b # join_free (pre @ bs)"
    unfolding b by (cases "(x, sz, f) # pre @ bs" rule: join_free.cases) auto
  then show ?case using IH by simp
qed simp

definition allocated :: "ablock list \<Rightarrow> (u64 \<times> u64) set" where
  "allocated bs = {(x, sz). (x, sz, False) \<in> set bs}"

lemma allocated_simps [simp]:
  "allocated [] = {}"
  "allocated ((x, sz, f) # bs) = (if f then allocated bs else insert (x, sz) (allocated bs))"
  "allocated (xs @ ys) = allocated xs \<union> allocated ys"
  by (auto simp: allocated_def)

lemma allocated_Cons:
  "allocated (b # bs) = (if snd (snd b) then allocated bs else insert (fst b, fst (snd b)) (allocated bs))"
  by (cases b) simp

lemma tiles_Cons:
  "tiles a (b # bs) e \<longleftrightarrow>
     unat (fst b) = a \<and> 16 dvd unat (fst (snd b)) \<and> 0 < unat (fst (snd b)) \<and> tiles (a + 48 + unat (fst (snd b))) bs e"
  by (cases b) simp

lemma allocated_join_free [simp]: "allocated (join_free bs) = allocated bs"
proof (induction bs rule: join_free.induct)
  case "2_2"
  then show ?case by (simp add: allocated_Cons)
qed auto

lemma allocated_mark_free: "allocated (mark_free a bs) = {(x, sz) \<in> allocated bs. x \<noteq> a}"
  by (force simp: allocated_def mark_free_def)

lemma tiles_join_free: "tiles a bs e \<Longrightarrow> e \<le> 18446744073709551615 \<Longrightarrow> tiles a (join_free bs) e"
proof (induction bs arbitrary: a rule: join_free.induct)
  case (1 x sz y sz' bs)
  have "a + 48 + unat sz + 48 + unat sz' \<le> e" using 1(2) tiles_le [of _ bs e] by auto
  then have "unat (sz + (48 + sz')) = unat sz + 48 + unat sz'" using 1(3) by (simp add: unat_word_ariths)
  then show ?case using 1 by (auto simp: ac_simps)
next
  case "2_2"
  then show ?case by (simp add: tiles_Cons)
qed auto

section \<open>Freeing\<close>

text \<open>Joining with the successor, and with the predecessor, is what \<^const>\<open>join_free\<close> does at that place.\<close>

lemma heap_merge_next_dll:
  assumes dll: "dll (heap_store s) 0 (pre @ (x, sz, True) # post) 0"
    and tail: "heap_tail s = last_addr 0 (pre @ (x, sz, True) # post)"
    and dist: "distinct (addrs (pre @ (x, sz, True) # post))" "0 \<notin> set (addrs post)" and co: "coalesced post"
  defines "s' \<equiv> heap_merge_next s x"
  shows "dll (heap_store s') 0 (pre @ join_free ((x, sz, True) # post)) 0"
    "heap_tail s' = last_addr 0 (pre @ join_free ((x, sz, True) # post))"
    "heap_head s' = heap_head s" "heap_next s' = heap_next s"
proof -
  show "heap_head s' = heap_head s" "heap_next s' = heap_next s"
    by (simp_all add: s'_def heap_merge_next_def Let_def)
  have x: "heap_store s x = \<lparr>hb_size = sz, hb_free = True, hb_magic = HEAP_MAGIC, hb_prev = last_addr 0 pre, hb_next = hd_addr 0 post\<rparr>"
    using dll by simp
  consider (merge) y sz' post' where "post = (y, sz', True) # post'"
    | (stay) "join_free ((x, sz, True) # post) = (x, sz, True) # post"
        "hd_addr 0 post = 0 \<or> \<not> hb_free (heap_store s (hd_addr 0 post))"
  proof (cases post)
    case Nil
    then show thesis using stay by simp
  next
    case (Cons c post')
    obtain y sz' f where "c = (y, sz', f)" by (cases c)
    then show thesis using merge [of y sz' post'] stay Cons dll co join_free_coalesced [OF co] by (cases f) auto
  qed
  then have "dll (heap_store s') 0 (pre @ join_free ((x, sz, True) # post)) 0 \<and>
    heap_tail s' = last_addr 0 (pre @ join_free ((x, sz, True) # post))"
  proof cases
    case merge
    have y: "heap_store s y = \<lparr>hb_size = sz', hb_free = True, hb_magic = HEAP_MAGIC, hb_prev = x, hb_next = hd_addr 0 post'\<rparr>"
      using dll merge by simp
    have xy: "x \<noteq> y" "y \<noteq> 0" using dist merge by auto
    have co': "coalesced ((x, sz + (48 + sz'), True) # post')" using co merge by (cases post') auto
    have j: "join_free ((x, sz, True) # post) = (x, sz + (48 + sz'), True) # post'"
      using join_free_coalesced [OF co'] merge by simp
    have st': "heap_store s' = (let st = (heap_store s)(x := (heap_store s x)\<lparr>hb_size := sz + (48 + sz'), hb_next := hd_addr 0 post'\<rparr>)
       in if hd_addr 0 post' \<noteq> 0
          then st(hd_addr 0 post' := (st (hd_addr 0 post'))\<lparr>hb_prev := x\<rparr>) else st)"
      using x y xy merge by (simp add: s'_def heap_merge_next_def heap_simps Let_def)
    have "dll (heap_store s') 0 (pre @ (x, sz + (48 + sz'), True) # post') 0"
      by (rule merge_next_dll [OF _ _ _ st']) (use dll dist merge in auto)
    moreover have "heap_tail s' = last_addr 0 (pre @ (x, sz + (48 + sz'), True) # post')"
    proof (cases post')
      case Nil
      then show ?thesis using x y xy merge by (simp add: s'_def heap_merge_next_def heap_simps Let_def)
    next
      case (Cons c post'')
      then have "hd_addr 0 post' \<noteq> 0" using hd_addr_mem [of post' 0] dist(2) merge by (cases c) auto
      then show ?thesis using x y xy merge tail Cons
        by (cases c) (simp add: s'_def heap_merge_next_def heap_simps Let_def)
    qed
    ultimately show ?thesis using j by simp
  next
    case stay
    have "\<not> (hd_addr 0 post \<noteq> 0 \<and> hb_free (heap_store s (hd_addr 0 post)))" using stay(2) by blast
    then have "s' = s" using x by (simp only: s'_def heap_merge_next_def heap_block.select_convs if_False)
    then show ?thesis using dll tail stay(1) by simp
  qed
  then show "dll (heap_store s') 0 (pre @ join_free ((x, sz, True) # post)) 0"
    "heap_tail s' = last_addr 0 (pre @ join_free ((x, sz, True) # post))" by auto
qed

lemma heap_merge_prev_dll:
  assumes dll: "dll (heap_store s) 0 (pre @ (x, sz, True) # post) 0"
    and tail: "heap_tail s = last_addr 0 (pre @ (x, sz, True) # post)"
    and head: "heap_head s = hd_addr 0 (pre @ (x, sz, True) # post)"
    and dist: "distinct (addrs (pre @ (x, sz, True) # post))" "0 \<notin> set (addrs (pre @ (x, sz, True) # post))"
    and co: "coalesced pre" "coalesced ((x, sz, True) # post)"
  defines "s' \<equiv> heap_merge_prev s x"
  shows "dll (heap_store s') 0 (join_free (pre @ (x, sz, True) # post)) 0"
    "heap_tail s' = last_addr 0 (join_free (pre @ (x, sz, True) # post))"
    "heap_head s' = hd_addr 0 (join_free (pre @ (x, sz, True) # post))" "heap_next s' = heap_next s"
proof -
  show "heap_next s' = heap_next s" by (simp add: s'_def heap_merge_prev_def Let_def)
  have x: "heap_store s x = \<lparr>hb_size = sz, hb_free = True, hb_magic = HEAP_MAGIC, hb_prev = last_addr 0 pre, hb_next = hd_addr 0 post\<rparr>"
    using dll by simp
  consider (merge) w szw pre' where "pre = pre' @ [(w, szw, True)]"
    | (stay) "pre = [] \<or> \<not> snd (snd (last pre))" "last_addr 0 pre = 0 \<or> \<not> hb_free (heap_store s (last_addr 0 pre))"
  proof (cases pre rule: rev_cases)
    case Nil
    then show thesis using stay by simp
  next
    case (snoc pre' c)
    obtain w szw f where "c = (w, szw, f)" by (cases c)
    then show thesis using merge [of pre' w szw] stay snoc dll by (cases f) auto
  qed
  then have "dll (heap_store s') 0 (join_free (pre @ (x, sz, True) # post)) 0 \<and>
    heap_tail s' = last_addr 0 (join_free (pre @ (x, sz, True) # post)) \<and>
    heap_head s' = hd_addr 0 (join_free (pre @ (x, sz, True) # post))"
  proof cases
    case merge
    have w: "heap_store s w = \<lparr>hb_size = szw, hb_free = True, hb_magic = HEAP_MAGIC, hb_prev = last_addr 0 pre', hb_next = x\<rparr>"
      using dll merge by simp
    have xw: "x \<noteq> w" "w \<noteq> 0" using dist merge by auto
    have co': "coalesced ((w, szw + (48 + sz), True) # post)" using co(2) by (cases post) auto
    have pre': "coalesced pre'" "pre' = [] \<or> \<not> snd (snd (last pre'))"
      using co(1) merge by (auto simp: coalesced_append)
    have j: "join_free (pre @ (x, sz, True) # post) = pre' @ (w, szw + (48 + sz), True) # post"
      using join_free_append [OF pre'] join_free_coalesced [OF co'] merge by simp
    have st': "heap_store s' = (let st = (heap_store s)(w := (heap_store s w)\<lparr>hb_size := szw + (48 + sz), hb_next := hd_addr 0 post\<rparr>)
       in if hd_addr 0 post \<noteq> 0
          then st(hd_addr 0 post := (st (hd_addr 0 post))\<lparr>hb_prev := w\<rparr>) else st)"
      using x w xw merge by (simp add: s'_def heap_merge_prev_def heap_simps Let_def)
    have "dll (heap_store s') 0 (pre' @ (w, szw + (48 + sz), True) # post) 0"
      by (rule merge_next_dll [OF _ _ _ st', where y = x and g = True]) (use dll dist merge in auto)
    moreover have "heap_tail s' = last_addr 0 (pre' @ (w, szw + (48 + sz), True) # post)"
    proof (cases post)
      case Nil
      then show ?thesis using x w xw merge by (simp add: s'_def heap_merge_prev_def heap_simps Let_def)
    next
      case (Cons c post'')
      then have "hd_addr 0 post \<noteq> 0" using dist(2) merge by (cases c) auto
      then show ?thesis using x w xw merge tail Cons
        by (cases c) (simp add: s'_def heap_merge_prev_def heap_simps Let_def)
    qed
    moreover have "heap_head s' = heap_head s" by (simp add: s'_def heap_merge_prev_def Let_def)
    ultimately show ?thesis using j head merge by simp
  next
    case stay
    have "\<not> (last_addr 0 pre \<noteq> 0 \<and> hb_free (heap_store s (last_addr 0 pre)))" using stay(2) by blast
    then have "s' = s" using x by (simp only: s'_def heap_merge_prev_def heap_block.select_convs if_False)
    moreover have "join_free (pre @ (x, sz, True) # post) = pre @ (x, sz, True) # post"
      using join_free_append [OF co(1) stay(1)] join_free_coalesced [OF co(2)] by simp
    ultimately show ?thesis using dll tail head by simp
  qed
  then show "dll (heap_store s') 0 (join_free (pre @ (x, sz, True) # post)) 0"
    "heap_tail s' = last_addr 0 (join_free (pre @ (x, sz, True) # post))"
    "heap_head s' = hd_addr 0 (join_free (pre @ (x, sz, True) # post))" by auto
qed

lemma join_free_Cons_free:
  assumes "coalesced post" "distinct (addrs post)"
  obtains sz1 post1 where "join_free ((x, sz, True) # post) = (x, sz1, True) # post1"
    "coalesced ((x, sz1, True) # post1)" "set (addrs post1) \<subseteq> set (addrs post)"
    "distinct (addrs post1)"
proof -
  consider (join) y sz' post' where "post = (y, sz', True) # post'" | (co) "coalesced ((x, sz, True) # post)"
    using assms by (cases post) (auto, (metis (full_types) prod.collapse)+)
  then show ?thesis
  proof cases
    case join
    then have "coalesced ((x, sz + (48 + sz'), True) # post')" using assms by (cases post') auto
    then show ?thesis using that [of "sz + (48 + sz')" post'] join join_free_coalesced assms(2) by auto
  next
    case co
    then show ?thesis using that [of sz post] join_free_coalesced [OF co] assms(2) by auto
  qed
qed

lemma join_free_twice:
  assumes "coalesced pre" "coalesced post" "distinct (addrs post)"
  shows "join_free (pre @ join_free ((x, sz, True) # post)) = join_free (pre @ (x, sz, True) # post)"
proof (cases "pre = [] \<or> \<not> snd (snd (last pre))")
  case True
  obtain sz1 post1 where j: "join_free ((x, sz, True) # post) = (x, sz1, True) # post1"
    "coalesced ((x, sz1, True) # post1)" using join_free_Cons_free [OF assms(2,3)] by metis
  then show ?thesis using join_free_append [OF assms(1) True] join_free_coalesced by metis
next
  case False
  then obtain pre' w szw where pre: "pre = pre' @ [(w, szw, True)]"
    by (metis append_butlast_last_id prod.collapse)
  have pre': "coalesced pre'" "pre' = [] \<or> \<not> snd (snd (last pre'))"
    using assms(1) pre by (auto simp: coalesced_append)
  have "join_free ((w, szw, True) # join_free ((x, sz, True) # post)) = join_free ((w, szw, True) # (x, sz, True) # post)"
  proof (cases "\<exists>y sz' post'. post = (y, sz', True) # post'")
    case True
    then obtain y sz' post' where p: "post = (y, sz', True) # post'" by blast
    then have "coalesced ((x, sz + (48 + sz'), True) # post')" using assms(2) by (cases post') auto
    then have "join_free ((x, sz, True) # post) = (x, sz + (48 + sz'), True) # post'" using p join_free_coalesced by auto
    then show ?thesis using p by (simp add: ac_simps)
  next
    case False
    then have "coalesced ((x, sz, True) # post)" using assms(2) by (cases post) auto
    then show ?thesis using join_free_coalesced by metis
  qed
  then show ?thesis using join_free_append [OF pre'] pre by simp
qed

lemma heap_rep_bounds:
  assumes "heap_rep s bs" "(x, sz, f) \<in> set bs"
  shows "18446744071830503424 \<le> unat x" "unat x + 48 + unat sz \<le> 18446744071847280640"
    "unat x + 48 + unat sz \<le> unat (heap_next s)" "16 dvd unat sz" "0 < unat sz" "16 dvd unat x"
proof -
  have t: "tiles 18446744071830503424 bs (unat (heap_next s))" "unat (heap_next s) \<le> 18446744071847280640"
    using assms(1) by (auto simp: heap_rep_def word_le_nat_alt)
  show "18446744071830503424 \<le> unat x" "unat x + 48 + unat sz \<le> 18446744071847280640"
    "unat x + 48 + unat sz \<le> unat (heap_next s)" "16 dvd unat sz" "0 < unat sz"
    using tiles_mem [OF t(1) assms(2)] t(2) by auto
  show "16 dvd unat x" using tiles_align [OF t(1)] assms(2) by force
qed

lemma heap_rep_not_null: "heap_rep s bs \<Longrightarrow> 0 \<notin> set (addrs bs)"
  using heap_rep_bounds(1) [of s bs] by force

lemma heap_rep_distinct: "heap_rep s bs \<Longrightarrow> distinct (addrs bs)"
  by (auto simp: heap_rep_def dest: tiles_distinct)

lemma mark_free_id: "x \<notin> set (addrs bs) \<Longrightarrow> mark_free x bs = bs"
  by (induction bs) (auto simp: mark_free_def)

lemma mark_free_split:
  "distinct (addrs (pre @ (x, sz, f) # post)) \<Longrightarrow> mark_free x (pre @ (x, sz, f) # post) = pre @ (x, sz, True) # post"
  using mark_free_id [of x pre] mark_free_id [of x post] by (simp add: mark_free_def)

lemma addrs_mark_free [simp]: "addrs (mark_free x bs) = addrs bs"
  by (auto simp: mark_free_def)

lemma tiles_mark_free [simp]: "tiles a (mark_free x bs) e = tiles a bs e"
  by (induction a bs e rule: tiles.induct) (auto simp: mark_free_def)

lemma coalesced_join_prev:
  assumes "coalesced pre" "coalesced ((x, sz, True) # post)"
  shows "coalesced (join_free (pre @ (x, sz, True) # post))"
proof (cases "pre = [] \<or> \<not> snd (snd (last pre))")
  case True
  then show ?thesis
    using join_free_append [OF assms(1) True] join_free_coalesced [OF assms(2)] assms by (auto simp: coalesced_append)
next
  case False
  then obtain pre' w szw where pre: "pre = pre' @ [(w, szw, True)]"
    by (metis append_butlast_last_id prod.collapse)
  have pre': "coalesced pre'" "pre' = [] \<or> \<not> snd (snd (last pre'))"
    using assms(1) pre by (auto simp: coalesced_append)
  have co: "coalesced ((w, szw + (48 + sz), True) # post)" using assms(2) by (cases post) auto
  then have "join_free (pre @ (x, sz, True) # post) = pre' @ (w, szw + (48 + sz), True) # post"
    using join_free_append [OF pre'] join_free_coalesced [OF co] pre by simp
  then show ?thesis using pre' co by (auto simp: coalesced_append)
qed

lemma kfree_rep:
  assumes rep: "heap_rep s bs" and mem: "(x, sz, False) \<in> set bs"
  shows "\<exists>s'. kfree s (x + 48) = Inr s' \<and> heap_rep s' (join_free (mark_free x bs))"
proof -
  obtain pre post where bs: "bs = pre @ (x, sz, False) # post" using mem by (metis split_list)
  note dist = heap_rep_distinct [OF rep, unfolded bs] and null = heap_rep_not_null [OF rep, unfolded bs]
  have dll: "dll (heap_store s) 0 bs 0" and head: "heap_head s = hd_addr 0 bs" and tail: "heap_tail s = last_addr 0 bs"
    and co: "coalesced pre" "coalesced post"
    using rep by (auto simp: heap_rep_def bs coalesced_append dest: coalesced_tl)
  have x: "heap_store s x = \<lparr>hb_size = sz, hb_free = False, hb_magic = HEAP_MAGIC, hb_prev = last_addr 0 pre, hb_next = hd_addr 0 post\<rparr>"
    using dll by (simp add: bs)
  define s1 where "s1 = upd_block x (\<lambda>b. b\<lparr>hb_free := True\<rparr>) s"
  have "dll (heap_store s1) 0 (pre @ (x, sz, True) # post) 0" "heap_tail s1 = last_addr 0 (pre @ (x, sz, True) # post)"
    using dll dist tail x by (auto simp: s1_def bs)
  note nx = heap_merge_next_dll [OF this _ _ co(2)]
  define s2 where "s2 = heap_merge_next s1 x"
  have dp: "distinct (addrs post)" using dist by simp
  obtain sz1 post1 where j: "join_free ((x, sz, True) # post) = (x, sz1, True) # post1"
    "coalesced ((x, sz1, True) # post1)" "set (addrs post1) \<subseteq> set (addrs post)" "distinct (addrs post1)"
    using join_free_Cons_free [OF co(2) dp] .
  have d1: "distinct (addrs (pre @ (x, sz1, True) # post1))" "0 \<notin> set (addrs (pre @ (x, sz1, True) # post1))"
    using j(3,4) dist null by (auto simp del: set_map)
  have n: "dll (heap_store s2) 0 (pre @ (x, sz1, True) # post1) 0" "heap_tail s2 = last_addr 0 (pre @ (x, sz1, True) # post1)"
    "heap_head s2 = hd_addr 0 (pre @ (x, sz1, True) # post1)" "heap_next s2 = heap_next s"
    using nx dist null head by (auto simp: s2_def j(1) s1_def bs)
  note prev = heap_merge_prev_dll [OF n(1-3) d1 co(1) j(2)]
  have jf: "join_free (pre @ (x, sz1, True) # post1) = join_free (mark_free x bs)"
    using join_free_twice [OF co dp, of x sz] j(1) mark_free_split [OF dist] by (simp add: bs)
  have tl: "tiles (unat HEAP_BASE) (join_free (mark_free x bs)) (unat (heap_next s))"
    using rep by (intro tiles_join_free) (auto simp: heap_rep_def word_le_nat_alt)
  have cj: "coalesced (join_free (mark_free x bs))"
    using coalesced_join_prev [OF co(1) j(2)] by (simp only: jf)
  have "x + 48 \<noteq> 0"
  proof -
    have "unat (x + 48) = unat x + 48" using heap_rep_bounds(2) [OF rep mem] by (simp add: unat_word_ariths)
    then show ?thesis by (auto simp: word_unat_eq_iff)
  qed
  then have "kfree s (x + 48) = Inr (heap_merge_prev s2 x)"
    using x by (simp add: kfree_def heap_simps heap_coalesce_def s2_def s1_def)
  then show ?thesis
    using prev rep tl cj unfolding jf by (auto simp: heap_rep_def n(4))
qed

section \<open>Allocating\<close>

lemma dll_mark_used:
  assumes "dll st 0 (pre @ (x, sz, f) # post) 0" "distinct (addrs (pre @ (x, sz, f) # post))"
  shows "dll (st(x := (st x)\<lparr>hb_free := g\<rparr>)) 0 (pre @ (x, sz, g) # post) 0"
  using assms by auto

lemma dropWhile_first_fit:
  "\<forall>b \<in> set pre. \<not> fits n b \<Longrightarrow> fits n b \<Longrightarrow> dropWhile (\<lambda>b. \<not> fits n b) (pre @ b # post) = b # post"
  by (induction pre) auto

lemma split_sizes:
  fixes sz n x :: u64
  assumes "unat x + 48 + unat sz \<le> 18446744071847280640" "n \<le> sz" "\<not> sz < n + 48 + 16" "16 dvd unat sz"
    "16 dvd unat n" "unat x \<ge> 18446744071830503424"
  shows "unat (x + 48 + n) = unat x + 48 + unat n" "unat (sz - n - 48) = unat sz - unat n - 48"
    "unat n + 64 \<le> unat sz" "16 dvd unat (sz - n - 48)" "0 < unat (sz - n - 48)"
proof -
  have nsz: "unat n \<le> unat sz" using assms(2) by (simp add: word_le_nat_alt)
  have "unat sz \<le> 16777216" using assms(1,6) by linarith
  then have "unat (n + 48 + 16) = unat n + 64" using nsz by (simp add: unat_word_ariths)
  then show big: "unat n + 64 \<le> unat sz" using assms(3) by (simp add: word_less_nat_alt)
  show "unat (x + 48 + n) = unat x + 48 + unat n" using assms(1) nsz by (simp add: unat_word_ariths)
  have "unat (sz - n) = unat sz - unat n" using assms(2) by (rule unat_sub)
  moreover from this have "48 \<le> sz - n" using big by (simp add: word_le_nat_alt)
  ultimately show eq: "unat (sz - n - 48) = unat sz - unat n - 48" using unat_sub [of 48 "sz - n"] by simp
  show "16 dvd unat (sz - n - 48)" unfolding eq using assms(4,5) by (intro dvd_diff_nat) auto
  show "0 < unat (sz - n - 48)" unfolding eq using big by linarith
qed

lemma kmalloc_fit_rep:
  assumes rep: "heap_rep s bs" and n: "0 < unat (align_up sz 16)" "16 dvd unat (align_up sz 16)" and sz: "sz \<noteq> 0"
    and fit: "alloc_block (align_up sz 16) bs = Some (x, bs')"
  shows "\<exists>s'. kmalloc s sz = Some (Inr (x + 48, s')) \<and> heap_rep s' bs'"
proof -
  let ?n = "align_up sz 16"
  obtain pre sz0 post where bs: "bs = pre @ (x, sz0, True) # post" and pre: "\<forall>b \<in> set pre. \<not> fits ?n b"
    and le: "?n \<le> sz0"
    and bs': "bs' = pre @ (if sz0 < ?n + 48 + 16 then (x, sz0, False) # post
                  else (x, ?n, False) # (x + 48 + ?n, sz0 - ?n - 48, True) # post)"
    using alloc_block_Some [OF fit] .
  note dist = heap_rep_distinct [OF rep, unfolded bs] and null = heap_rep_not_null [OF rep, unfolded bs]
  have mem: "(x, sz0, True) \<in> set bs" by (simp add: bs)
  have dll: "dll (heap_store s) 0 (pre @ (x, sz0, True) # post) 0"
    and head: "heap_head s = hd_addr 0 (pre @ (x, sz0, True) # post)"
    and tail: "heap_tail s = last_addr 0 (pre @ (x, sz0, True) # post)"
    and tl: "tiles (unat HEAP_BASE) (pre @ (x, sz0, True) # post) (unat (heap_next s))"
    and lim: "heap_next s \<le> HEAP_BASE + HEAP_SIZE" and co: "coalesced (pre @ (x, sz0, True) # post)"
    using rep by (simp_all only: heap_rep_def bs)
  have find: "heap_find (heap_store s) ?n (heap_head s) = Some x"
    using heap_find_first_fit [OF dll null] dropWhile_first_fit [OF pre, of "(x, sz0, True)" post] le head by simp
  have x0: "x \<noteq> 0" using null by auto
  define s1 where "s1 = heap_split_block s x ?n"
  have run: "kmalloc s sz = Some (Inr (x + 48, upd_block x (\<lambda>b. b\<lparr>hb_free := False\<rparr>) s1))"
    using sz find x0 by (simp add: kmalloc_def heap_simps s1_def)
  have x: "hb_size (heap_store s x) = sz0" using dll by simp
  show ?thesis
  proof (cases "sz0 < ?n + 48 + 16")
    case True
    then have "s1 = s" using x by (simp add: s1_def heap_split_block_def heap_simps)
    moreover have "coalesced (pre @ (x, sz0, False) # post)"
      using co by (cases post) (auto simp: coalesced_append)
    moreover have "tiles (unat HEAP_BASE) (pre @ (x, sz0, False) # post) (unat (heap_next s))"
      using tl by (simp add: tiles_append)
    ultimately have "heap_rep (upd_block x (\<lambda>b. b\<lparr>hb_free := False\<rparr>) s1) bs'"
      using True dll_mark_used [OF dll dist, of False] head tail lim by (auto simp: heap_rep_def bs')
    then show ?thesis using run by blast
  next
    case False
    let ?y = "x + 48 + ?n" and ?sy = "sz0 - ?n - 48"
    note b = heap_rep_bounds [OF rep mem]
    note sizes = split_sizes [OF b(2) le False b(4) n(2) b(1)]
    have tl': "tiles (unat HEAP_BASE) (pre @ (x, ?n, False) # (?y, ?sy, True) # post) (unat (heap_next s))"
      using tl sizes n by (auto simp: tiles_append ac_simps)
    note dist' = tiles_distinct [OF tl']
    have y: "?y \<notin> set (addrs (pre @ (x, sz0, True) # post))" using dist' by auto
    have "0 \<notin> set (addrs post)" using null by simp
    note sp = heap_split_block_dll [OF dll tail dist this refl y False, folded s1_def]
    have "distinct (addrs (pre @ (x, ?n, True) # (?y, ?sy, True) # post))" using dist' by simp
    note used = dll_mark_used [OF sp(1) this, of False]
    have "coalesced (pre @ (x, ?n, False) # (?y, ?sy, True) # post)"
      using co by (cases post) (auto simp: coalesced_append)
    then have "heap_rep (upd_block x (\<lambda>b. b\<lparr>hb_free := False\<rparr>) s1) bs'"
      using False used sp head tl' lim by (auto simp: heap_rep_def bs')
    then show ?thesis using run by blast
  qed
qed


text \<open>Growing the heap does not touch the block list.\<close>

lemma vmm_next_level_more: "vmm_next_level s t i c flags = Inr (r, s') \<Longrightarrow> pmm_state.more s' = pmm_state.more s"
  by (auto simp: vmm_next_level_def Let_def pmm_alloc_page_def pmm_take_page_def split: if_splits option.splits)

lemma vmm_map_page_in_more:
  "vmm_map_page_in s cr3 virt phys flags = Inr (r, s') \<Longrightarrow> pmm_state.more s' = pmm_state.more s"
  by (auto simp: vmm_map_page_in_def split: if_splits dest!: vmm_next_level_more)

lemma pmm_alloc_page_more: "pmm_alloc_page s = Inr (p, s') \<Longrightarrow> pmm_state.more s' = pmm_state.more s"
  by (auto simp: pmm_alloc_page_def pmm_take_page_def Let_def split: option.splits)

lemma heap_fields_more:
  fixes s s' :: "'a heap_state_scheme"
  assumes "pmm_state.more s' = pmm_state.more s"
  shows "heap_store s' = heap_store s" "heap_head s' = heap_head s" "heap_tail s' = heap_tail s"
    "heap_next s' = heap_next s" "heap_data s' = heap_data s" "heap_mapped_end s' = heap_mapped_end s"
  using assms by (cases s; cases s'; simp)+

lemma heap_ensure_mapped_sel:
  "heap_ensure_mapped s e = Inr s' \<Longrightarrow>
     heap_store s' = heap_store s \<and> heap_head s' = heap_head s \<and> heap_tail s' = heap_tail s \<and>
     heap_next s' = heap_next s \<and> heap_data s' = heap_data s \<and> e \<le> heap_mapped_end s'"
proof (induction s e rule: heap_ensure_mapped.induct)
  case (1 s e)
  show ?case
  proof (cases "heap_mapped_end s < e")
    case True
    then obtain phys s1 s2 where a: "pmm_alloc_page s = Inr (phys, s1)"
        "vmm_map_page s1 (heap_mapped_end s1) phys (PTE_WRITABLE OR PTE_NO_EXEC) = Inr (0, s2)"
        "heap_ensure_mapped (s2\<lparr>heap_mapped_end := heap_mapped_end s2 + PAGE_SIZE\<rparr>) e = Inr s'"
      using 1(2) by (subst (asm) heap_ensure_mapped.simps) (auto split: if_splits)
    have "pmm_state.more s2 = pmm_state.more s"
      using pmm_alloc_page_more [OF a(1)] vmm_map_page_in_more [OF a(2) [unfolded vmm_map_page_def]] by simp
    then show ?thesis using 1(1) [OF True a(1) refl a(2) refl _ a(3)] heap_fields_more [of s2 s] by simp
  next
    case False
    then show ?thesis using 1(2) by (subst (asm) heap_ensure_mapped.simps) auto
  qed
qed


lemma align_up_16_id:
  assumes "16 dvd unat v" "unat v \<le> 18446744073709551600"
  shows "align_up v 16 = v"
proof -
  obtain k where k: "unat v = 16 * k" using assms(1) by (metis dvdE)
  then have "(unat v + 15) div 16 * 16 = unat v" by simp
  then show ?thesis using unat_align_up_16 [OF assms(2)] by (simp add: word_unat_eq_iff)
qed

lemma heap_next_aligned: "heap_rep s bs \<Longrightarrow> 16 dvd unat (heap_next s)"
  using tiles_align [of "unat HEAP_BASE" bs "unat (heap_next s)"] by (auto simp: heap_rep_def)

lemma dll_snoc:
  assumes "dll st 0 bs 0" "distinct (addrs bs)" "a \<notin> set (addrs bs)" "0 \<notin> set (addrs bs)"
    and st': "st' = (let st = st(a := \<lparr>hb_size = n, hb_free = f, hb_magic = HEAP_MAGIC, hb_prev = last_addr 0 bs, hb_next = 0\<rparr>)
       in if last_addr 0 bs \<noteq> 0 then st(last_addr 0 bs := (st (last_addr 0 bs))\<lparr>hb_next := a\<rparr>) else st)"
  shows "dll st' 0 (bs @ [(a, n, f)]) 0"
proof (cases "bs = []")
  case False
  note l = last_addr_mem [OF False, of 0]
  then have l0: "last_addr 0 bs \<noteq> 0" "last_addr 0 bs \<noteq> a" using assms(3,4) by metis+
  have "st' = (st(last_addr 0 bs := (st (last_addr 0 bs))\<lparr>hb_next := a\<rparr>))
      (a := \<lparr>hb_size = n, hb_free = f, hb_magic = HEAP_MAGIC, hb_prev = last_addr 0 bs, hb_next = 0\<rparr>)"
    using l0 by (auto simp: st' Let_def fun_eq_iff)
  then show ?thesis using dll_set_next [OF assms(1) False assms(2)] assms(3) by simp
qed (simp add: st' Let_def)

lemma kmalloc_extend_rep:
  assumes rep: "heap_rep s bs" and n: "0 < unat n" "16 dvd unat n" "unat n < 1845493760"
    and run: "kmalloc_extend s n = Inr (p, s')"
  shows "p = heap_next s + 48" "heap_rep s' (bs @ [(heap_next s, n, False)])"
    "unat (heap_next s) + 48 + unat n \<le> 18446744071847280640"
proof -
  have tl: "tiles (unat HEAP_BASE) bs (unat (heap_next s))" and lim: "unat (heap_next s) \<le> 18446744071847280640"
    using rep by (auto simp: heap_rep_def word_le_nat_alt)
  note al = heap_next_aligned [OF rep]
  have start: "align_up (heap_next s) 16 = heap_next s" using align_up_16_id [OF al] lim by simp
  have en: "unat (heap_next s + 48 + n) = unat (heap_next s) + 48 + unat n"
    using lim n(3) by (simp add: unat_word_ariths)
  then have "16 dvd unat (heap_next s + 48 + n)" using al n(2) by simp
  then have end': "align_up (heap_next s + 48 + n) 16 = heap_next s + 48 + n"
    using align_up_16_id en lim n(3) by simp
  obtain s1 where fits: "\<not> heap_next s + 48 + n > HEAP_BASE + HEAP_SIZE"
    and s1: "heap_ensure_mapped s (heap_next s + 48 + n) = Inr s1"
    and p: "p = heap_next s + 48"
    and s': "s' = (let a = heap_next s;
               s = upd_block a (\<lambda>_. \<lparr>hb_size = n, hb_free = False, hb_magic = HEAP_MAGIC,
                     hb_prev = heap_tail s1, hb_next = 0\<rparr>) s1;
               s = (if heap_tail s1 \<noteq> 0 then upd_block (heap_tail s1) (\<lambda>b. b\<lparr>hb_next := a\<rparr>) s
                    else s\<lparr>heap_head := a\<rparr>)
           in s\<lparr>heap_tail := a, heap_next := a + 48 + n\<rparr>)"
    using run by (auto simp: kmalloc_extend_def heap_simps Let_def start end' split: if_splits)
  note sel = heap_ensure_mapped_sel [OF s1]
  have tail: "heap_tail s1 = last_addr 0 bs" and dll: "dll (heap_store s1) 0 bs 0" and head: "heap_head s1 = hd_addr 0 bs"
    using rep sel by (auto simp: heap_rep_def)
  have a: "heap_next s \<notin> set (addrs bs)"
    using tiles_mem [OF tl] by fastforce
  have tl': "tiles (unat HEAP_BASE) (bs @ [(heap_next s, n, False)]) (unat (heap_next s + 48 + n))"
    using tl n en by (auto simp: tiles_append)
  note null = heap_rep_not_null [OF rep] and dist = heap_rep_distinct [OF rep]
  have "dll (heap_store s') 0 (bs @ [(heap_next s, n, False)]) 0"
    by (rule dll_snoc [OF dll dist a null]) (use sel tail in \<open>simp add: s' Let_def\<close>)
  moreover have "heap_head s' = hd_addr 0 (bs @ [(heap_next s, n, False)])"
  proof (cases "bs = []")
    case True
    then show ?thesis using sel tail by (simp add: s' Let_def)
  next
    case False
    then have "last_addr 0 bs \<noteq> 0" using last_addr_mem null by metis
    then show ?thesis using sel tail head False by (cases bs) (auto simp: s' Let_def)
  qed
  moreover have "coalesced (bs @ [(heap_next s, n, False)])" using rep by (auto simp: heap_rep_def coalesced_append)
  ultimately show "heap_rep s' (bs @ [(heap_next s, n, False)])"
    using tl' fits sel by (simp add: heap_rep_def s' Let_def not_less)
  show "p = heap_next s + 48" by (fact p)
  show "unat (heap_next s) + 48 + unat n \<le> 18446744071847280640"
    using fits en by (simp add: word_le_nat_alt not_less)
qed

section \<open>Properties\<close>

lemma align_up_16_request:
  assumes "sz \<noteq> 0" "unat sz < 1845493744"
  shows "0 < unat (align_up sz 16)" "16 dvd unat (align_up sz 16)" "unat (align_up sz 16) < 1845493760" "sz \<le> align_up sz 16"
proof -
  have eq: "unat (align_up sz 16) = (unat sz + 15) div 16 * 16" using assms(2) by (intro unat_align_up_16) simp
  have sz: "0 < unat sz" using assms(1) by (simp add: unat_gt_0)
  have "unat sz + 15 - 15 \<le> (unat sz + 15) div 16 * 16" using div_mult_mod_eq [of "unat sz + 15" 16] mod_less_divisor [of 16 "unat sz + 15"] by linarith
  then have ge: "unat sz \<le> (unat sz + 15) div 16 * 16" by simp
  have le: "(unat sz + 15) div 16 * 16 \<le> unat sz + 15" by simp
  show "0 < unat (align_up sz 16)" "16 dvd unat (align_up sz 16)" "unat (align_up sz 16) < 1845493760"
    using sz ge le assms(2) unfolding eq by (auto simp del: div_mult_self_is_m)
  show "sz \<le> align_up sz 16" using ge by (simp add: word_le_nat_alt eq)
qed

lemma alloc_block_allocated:
  assumes "alloc_block n bs = Some (x, bs')"
  obtains m where "n \<le> m" "allocated bs' = insert (x, m) (allocated bs)" "(x, m, False) \<in> set bs'"
proof -
  obtain pre sz post where bs: "bs = pre @ (x, sz, True) # post" "n \<le> sz"
    "bs' = pre @ (if sz < n + 48 + 16 then (x, sz, False) # post
                  else (x, n, False) # (x + 48 + n, sz - n - 48, True) # post)"
    using alloc_block_Some [OF assms] .
  then show ?thesis using that [of sz] that [of n] by (cases "sz < n + 48 + 16") auto
qed

lemma heap_find_none:
  assumes "heap_rep s bs" "alloc_block n bs = None"
  shows "heap_find (heap_store s) n (heap_head s) = Some 0"
proof -
  have drop: "dropWhile (\<lambda>b. \<not> fits n b) bs = []"
    using assms(2) unfolding alloc_block_None by (intro dropWhile_eq_Nil_conv [THEN iffD2])
  have "dll (heap_store s) 0 bs 0" "heap_head s = hd_addr 0 bs" using assms(1) by (simp_all add: heap_rep_def)
  then show ?thesis
    using heap_find_first_fit [OF _ heap_rep_not_null [OF assms(1)], of "heap_store s" 0 n] unfolding drop by simp
qed

lemma alloc_block_was_free:
  assumes "alloc_block n bs = Some (x, bs')" "distinct (addrs bs)"
  shows "(x, m) \<notin> allocated bs"
proof -
  obtain pre sz post where "bs = pre @ (x, sz, True) # post" using alloc_block_Some [OF assms(1)] .
  then show ?thesis using assms(2) by (auto simp: allocated_def image_iff)
qed

lemma kmalloc_cases:
  assumes rep: "heap_rep s bs" and sz: "sz \<noteq> 0" "unat sz < 1845493744"
    and run: "kmalloc s sz = Some (Inr (p, s'))"
  obtains x bs' m where "p = x + 48" "heap_rep s' bs'" "align_up sz 16 \<le> m"
    "allocated bs' = insert (x, m) (allocated bs)" "(x, m, False) \<in> set bs'" "\<forall>m'. (x, m') \<notin> allocated bs"
proof -
  note n = align_up_16_request [OF sz]
  show ?thesis
  proof (cases "alloc_block (align_up sz 16) bs")
    case None
    have "heap_find (heap_store s) (align_up sz 16) (heap_head s) = Some 0" by (rule heap_find_none [OF rep None])
    then have ex: "kmalloc_extend s (align_up sz 16) = Inr (p, s')" using run sz by (simp add: kmalloc_def)
    note r = kmalloc_extend_rep [OF rep n(1,2,3) ex]
    have "(heap_next s, m') \<notin> allocated bs" for m'
      using heap_rep_bounds(3) [OF rep, of "heap_next s" m' False] by (auto simp: allocated_def)
    then show ?thesis using that [OF r(1,2), of "align_up sz 16"] by simp
  next
    case (Some r)
    obtain x bs' where r: "r = (x, bs')" by (cases r)
    have fit: "alloc_block (align_up sz 16) bs = Some (x, bs')" using Some r by simp
    obtain s1 where "kmalloc s sz = Some (Inr (x + 48, s1))" "heap_rep s1 bs'"
      using kmalloc_fit_rep [OF rep n(1,2) sz(1) fit] by blast
    then show ?thesis using that [of x bs'] run alloc_block_allocated [OF fit]
        alloc_block_was_free [OF fit heap_rep_distinct [OF rep]] by auto
  qed
qed

text \<open>
  C12: \<^verbatim>\<open>kmalloc\<close> implements first fit with splitting on the list of blocks that the linked headers
  represent: its search loop ends; if some free block is large enough it returns the payload of the
  first one, split when the rest can hold a block; otherwise it appends a block at the end of the heap,
  or panics.
\<close>

theorem kmalloc_refines:
  assumes "heap_rep s bs" "sz \<noteq> 0" "unat sz < 1845493744"
  shows "case alloc_block (align_up sz 16) bs of
      Some (x, bs') \<Rightarrow> (\<exists>s'. kmalloc s sz = Some (Inr (x + 48, s')) \<and> heap_rep s' bs')
    | None \<Rightarrow> (\<exists>r. kmalloc s sz = Some r \<and>
        (\<forall>p s'. r = Inr (p, s') \<longrightarrow> p = heap_next s + 48 \<and>
           heap_rep s' (bs @ [(heap_next s, align_up sz 16, False)])))"
proof (cases "alloc_block (align_up sz 16) bs")
  case None
  note n = align_up_16_request [OF assms(2,3)]
  have "heap_find (heap_store s) (align_up sz 16) (heap_head s) = Some 0" by (rule heap_find_none [OF assms(1) None])
  then have "kmalloc s sz = Some (kmalloc_extend s (align_up sz 16))" using assms(2) by (simp add: kmalloc_def)
  then show ?thesis using None kmalloc_extend_rep [OF assms(1) n(1,2,3)] by auto
next
  case (Some r)
  then show ?thesis
    using kmalloc_fit_rep [OF assms(1) align_up_16_request(1,2) [OF assms(2,3)] assms(2)] assms(3) assms(2)
    by (cases r) auto
qed

text \<open>A heap with one used and one free block, its first page mapped.\<close>

definition heap_example :: heap_state where
  "heap_example = \<lparr>pmm_bitmap = (\<lambda>_. -1), pmm_max_page_index = 16,
     pmm_managed_page_count = 16, pmm_free_page_count = 0, pmm_next_hint = 0, phys_mem = (\<lambda>_. 0),
     hhdm_base = 0, kernel_cr3 = 0, mmio_next = MMIO_BASE, cr3_reg = 0, ia32_pat = 0,
     heap_next = HEAP_BASE + 240, heap_mapped_end = HEAP_BASE + PAGE_SIZE,
     heap_head = HEAP_BASE, heap_tail = HEAP_BASE + 64,
     heap_store = (\<lambda>_. \<lparr>hb_size = 0, hb_free = False, hb_magic = 0, hb_prev = 0, hb_next = 0\<rparr>)
       (HEAP_BASE := \<lparr>hb_size = 16, hb_free = False, hb_magic = HEAP_MAGIC, hb_prev = 0, hb_next = HEAP_BASE + 64\<rparr>,
        HEAP_BASE + 64 := \<lparr>hb_size = 128, hb_free = True, hb_magic = HEAP_MAGIC, hb_prev = HEAP_BASE, hb_next = 0\<rparr>),
     heap_data = (\<lambda>_. 0)\<rparr>"

lemma heap_example_rep: "heap_rep heap_example [(HEAP_BASE, 16, False), (HEAP_BASE + 64, 128, True)]"
  by (simp add: heap_rep_def heap_example_def)

theorem kmalloc_refines_witness:
  "\<exists>s'. kmalloc heap_example 24 = Some (Inr (HEAP_BASE + 112, s')) \<and>
     heap_rep s' [(HEAP_BASE, 16, False), (HEAP_BASE + 64, 32, False), (HEAP_BASE + 144, 48, True)]"
  using kmalloc_refines [OF heap_example_rep, of 24] by (simp add: align_up_def)



text \<open>
  C13: \<^verbatim>\<open>kfree\<close> of a block in use marks it free and leaves the list with all neighbouring free blocks
  joined; the other blocks in use stay as they are.
\<close>

theorem kfree_refines:
  assumes "heap_rep s bs" "(p - 48, sz) \<in> allocated bs"
  shows "\<exists>s'. kfree s p = Inr s' \<and> heap_rep s' (join_free (mark_free (p - 48) bs)) \<and>
     allocated (join_free (mark_free (p - 48) bs)) = allocated bs - {(p - 48, sz)}"
proof -
  have mem: "(p - 48, sz, False) \<in> set bs" using assms(2) by (simp add: allocated_def)
  have "x = p - 48 \<and> m = sz" if "(x, m) \<in> allocated bs" "x = p - 48" for x m
    using that mem heap_rep_distinct [OF assms(1)] eq_key_imp_eq_value [of bs] by (auto simp: allocated_def)
  then have "allocated (mark_free (p - 48) bs) = allocated bs - {(p - 48, sz)}"
    unfolding allocated_mark_free by auto
  then show ?thesis using kfree_rep [OF assms(1) mem] by simp
qed

theorem kfree_refines_witness:
  "\<exists>s'. kfree heap_example (HEAP_BASE + 48) = Inr s' \<and> heap_rep s' [(HEAP_BASE, 192, True)]"
  using kfree_refines [OF heap_example_rep, of "HEAP_BASE + 48" 16]
  by (simp add: allocated_def mark_free_def)

text \<open>
  C16: freeing a pointer twice in a row always panics, whatever the first call merged the block with.
\<close>

theorem kfree_twice_panics:
  assumes "p \<noteq> 0" "kfree s p = Inr s'"
  shows "kfree s' p = Inl ''invalid kernel heap free''"
proof -
  let ?b = "p - heap_header_size"
  have keep: "hb_free (heap_store (heap_merge_next s b) c) = hb_free (heap_store s c)"
    "hb_free (heap_store (heap_merge_prev s b) c) = hb_free (heap_store s c)" for s :: "'a heap_state_scheme" and b c
    by (simp_all add: heap_merge_next_def heap_merge_prev_def Let_def)
  have "s' = heap_coalesce (upd_block ?b (\<lambda>b. b\<lparr>hb_free := True\<rparr>) s) ?b"
    using assms by (auto simp: kfree_def Let_def split: if_splits)
  then have "hb_free (heap_store s' ?b)" by (simp add: heap_coalesce_def keep)
  then show ?thesis using assms(1) by (simp add: kfree_def Let_def)
qed

theorem kfree_twice_panics_witness:
  "\<exists>s'. kfree heap_example (HEAP_BASE + 48) = Inr s' \<and>
     kfree s' (HEAP_BASE + 48) = Inl ''invalid kernel heap free''"
proof -
  obtain s' where s': "kfree heap_example (HEAP_BASE + 48) = Inr s'"
    using kfree_rep [OF heap_example_rep, of HEAP_BASE 16] by auto
  then show ?thesis using kfree_twice_panics [OF _ s'] by simp
qed

lemma alloc_block_roundtrip:
  assumes "coalesced bs" "distinct (addrs bs)" "distinct (addrs bs')" "alloc_block n bs = Some (x, bs')"
  shows "join_free (mark_free x bs') = bs"
proof -
  obtain pre sz post where bs: "bs = pre @ (x, sz, True) # post"
    and bs': "bs' = pre @ (if sz < n + 48 + 16 then (x, sz, False) # post
                  else (x, n, False) # (x + 48 + n, sz - n - 48, True) # post)"
    using alloc_block_Some [OF assms(4)] .
  show ?thesis
  proof (cases "sz < n + 48 + 16")
    case True
    then have "mark_free x bs' = bs" using mark_free_split assms(3) by (simp add: bs bs')
    then show ?thesis using join_free_coalesced [OF assms(1)] by simp
  next
    case False
    then have "mark_free x bs' = pre @ (x, n, True) # (x + 48 + n, sz - n - 48, True) # post"
      using mark_free_split assms(3) by (simp add: bs')
    moreover have "coalesced pre" "pre = [] \<or> \<not> snd (snd (last pre))" "coalesced ((x, sz, True) # post)"
      using assms(1) by (auto simp: bs coalesced_append)
    ultimately show ?thesis using join_free_append join_free_coalesced by (auto simp: bs)
  qed
qed

text \<open>
  C15: taking a block from the free list and giving it back restores the block list exactly: a split is
  undone by the coalescing, so an immediate second request is served at the same address.
\<close>

theorem kmalloc_kfree_roundtrip:
  assumes "heap_rep s bs" "sz \<noteq> 0" "unat sz < 1845493744" "alloc_block (align_up sz 16) bs \<noteq> None"
  shows "\<exists>p s1 s2. kmalloc s sz = Some (Inr (p, s1)) \<and> kfree s1 p = Inr s2 \<and> heap_rep s2 bs \<and>
     (\<exists>s3. kmalloc s2 sz = Some (Inr (p, s3)))"
proof -
  note n = align_up_16_request [OF assms(2,3)]
  obtain x bs' where fit: "alloc_block (align_up sz 16) bs = Some (x, bs')" using assms(4) by auto
  obtain s1 where s1: "kmalloc s sz = Some (Inr (x + 48, s1))" "heap_rep s1 bs'"
    using kmalloc_fit_rep [OF assms(1) n(1,2) assms(2) fit] by blast
  obtain m where m: "(x, m, False) \<in> set bs'" using alloc_block_allocated [OF fit] .
  have "join_free (mark_free x bs') = bs"
    using alloc_block_roundtrip [OF _ _ _ fit] assms(1) heap_rep_distinct [OF assms(1)] heap_rep_distinct [OF s1(2)]
    by (simp add: heap_rep_def)
  then obtain s2 where s2: "kfree s1 (x + 48) = Inr s2" "heap_rep s2 bs"
    using kfree_rep [OF s1(2) m] by auto
  then show ?thesis using s1 kmalloc_fit_rep [OF s2(2) n(1,2) assms(2) fit] by blast
qed

theorem kmalloc_kfree_roundtrip_witness:
  "\<exists>p s1 s2. kmalloc heap_example 24 = Some (Inr (p, s1)) \<and> kfree s1 p = Inr s2 \<and>
     heap_rep s2 [(HEAP_BASE, 16, False), (HEAP_BASE + 64, 128, True)]"
  using kmalloc_kfree_roundtrip [OF heap_example_rep, of 24] by (auto simp: align_up_def)


end
