(* ===== verification/Usercopy.thy ===== *)
theory Usercopy imports C_Strings Page_Tables begin

text \<open>
  \<^verbatim>\<open>usercopy.c\<close>: copying between kernel buffers and user memory, page by page through the current
  address space. A kernel buffer is a byte list, a NULL pointer is \<open>None\<close>, and a byte of user memory is
  the byte of physical memory its address translates to.
\<close>

section \<open>The code\<close>

definition min_u64 :: "u64 \<Rightarrow> u64 \<Rightarrow> u64" where
  "min_u64 a b = (if a < b then a else b)"

definition range_wraps :: "u64 \<Rightarrow> u64 \<Rightarrow> bool" where
  "range_wraps start len \<longleftrightarrow> len \<noteq> 0 \<and> start + len - 1 < start"

text \<open>The number of bytes one round of the copy loops handles.\<close>

definition page_chunk :: "u64 \<Rightarrow> u64 \<Rightarrow> u64 \<Rightarrow> u64" where
  "page_chunk base len copied =
     (let addr = base + copied;
          page_remaining = PAGE_SIZE - (addr AND (PAGE_SIZE - 1))
      in min_u64 page_remaining (len - copied))"

lemma low12_less: "x AND 4095 < (4096 :: u64)"
  using word_and_le1 [of x "4095"] by (rule le_less_trans) simp

lemma page_remaining:
  "unat (PAGE_SIZE - (a AND 4095)) = 4096 - unat (a AND 4095)" "unat (a AND 4095) < 4096"
proof -
  have l: "a AND 4095 < PAGE_SIZE" by (rule low12_less)
  then show "unat (PAGE_SIZE - (a AND 4095)) = 4096 - unat (a AND 4095)" "unat (a AND 4095) < 4096"
    using unat_sub [of "a AND 4095" PAGE_SIZE] by (simp_all add: word_less_nat_alt less_imp_le)
qed

lemma page_chunk_unat:
  assumes "copied < len"
  shows "unat (page_chunk base len copied) = min (4096 - unat ((base + copied) AND 4095)) (unat len - unat copied)"
    "unat (copied + page_chunk base len copied) = unat copied + unat (page_chunk base len copied)"
    "0 < unat (page_chunk base len copied)"
proof -
  have s: "unat (len - copied) = unat len - unat copied" using assms by (intro unat_sub) simp
  have l: "unat copied < unat len" using assms by (simp add: word_less_nat_alt)
  show eq: "unat (page_chunk base len copied) = min (4096 - unat ((base + copied) AND 4095)) (unat len - unat copied)"
    using page_remaining [of "base + copied"] s by (simp add: page_chunk_def Let_def min_u64_def word_less_nat_alt)
  show "0 < unat (page_chunk base len copied)" unfolding eq using page_remaining(2) [of "base + copied"] l by simp
  have "unat copied + unat (page_chunk base len copied) \<le> unat len" unfolding eq using l by simp
  then have "unat copied + unat (page_chunk base len copied) < 18446744073709551616"
    using unat_u64_less [of len] by linarith
  then show "unat (copied + page_chunk base len copied) = unat copied + unat (page_chunk base len copied)"
    by (simp add: unat_word_ariths)
qed

lemma page_chunk_measure:
  "copied < len \<Longrightarrow> unat len - unat (copied + page_chunk base len copied) < unat len - unat copied"
  using page_chunk_unat(2,3) [of copied len base] by (simp add: word_less_nat_alt)

function usercopy_validate_loop :: "'a vmm_state_scheme \<Rightarrow> u64 \<Rightarrow> u64 \<Rightarrow> u64 \<Rightarrow> bool \<Rightarrow> u64 \<Rightarrow> int" where
  "usercopy_validate_loop s cr3 base len wr checked =
     (if checked < len then
        (case vmm_translate_user_addr s cr3 (base + checked) wr of
           None \<Rightarrow> -1
         | Some phys \<Rightarrow> usercopy_validate_loop s cr3 base len wr (checked + page_chunk base len checked))
      else 0)"
  by pat_completeness auto
termination
  by (relation "measure (\<lambda>(s, cr3, base, len, wr, checked). unat len - unat checked)")
    (auto simp: page_chunk_measure)

definition usercopy_validate_range :: "'a vmm_state_scheme \<Rightarrow> u64 \<Rightarrow> u64 \<Rightarrow> bool \<Rightarrow> int" where
  "usercopy_validate_range s user_ptr len wr =
     (if len = 0 then 0
      else if range_wraps user_ptr len then -1
      else usercopy_validate_loop s (vmm_current_address_space s) user_ptr len wr 0)"

definition mem_read_bytes :: "(u64 \<Rightarrow> u64) \<Rightarrow> u64 \<Rightarrow> nat \<Rightarrow> u8 list" where
  "mem_read_bytes m p n = map (\<lambda>i. mem_read8 m (p + word_of_nat i)) [0..<n]"

fun mem_write_bytes :: "(u64 \<Rightarrow> u64) \<Rightarrow> u64 \<Rightarrow> u8 list \<Rightarrow> (u64 \<Rightarrow> u64)" where
  "mem_write_bytes m p [] = m"
| "mem_write_bytes m p (b # bs) = mem_write_bytes (mem_write8 m p b) (p + 1) bs"

function copy_from_user_loop ::
  "'a vmm_state_scheme \<Rightarrow> u64 \<Rightarrow> u64 \<Rightarrow> u64 \<Rightarrow> u8 list \<Rightarrow> u64 \<Rightarrow> int \<times> u8 list" where
  "copy_from_user_loop s cr3 base len out copied =
     (if copied < len then
        (case vmm_translate_user_addr s cr3 (base + copied) False of
           None \<Rightarrow> (-1, out)
         | Some phys \<Rightarrow>
             let to_copy = page_chunk base len copied;
                 out = copy_bytes out (unat copied) (mem_read_bytes (phys_mem s) phys (unat to_copy)) (unat to_copy)
             in copy_from_user_loop s cr3 base len out (copied + to_copy))
      else (0, out))"
  by pat_completeness auto
termination
  by (relation "measure (\<lambda>(s, cr3, base, len, out, copied). unat len - unat copied)")
    (auto simp: page_chunk_measure)

definition copy_from_user ::
  "'a vmm_state_scheme \<Rightarrow> u8 list option \<Rightarrow> u64 \<Rightarrow> u64 \<Rightarrow> int \<times> u8 list option" where
  "copy_from_user s dst user_src len =
     (if len = 0 then (0, dst)
      else case dst of
        None \<Rightarrow> (-1, dst)
      | Some out \<Rightarrow>
          if user_src = 0 \<or> range_wraps user_src len then (-1, dst)
          else map_prod id Some (copy_from_user_loop s (vmm_current_address_space s) user_src len out 0))"

function copy_to_user_loop ::
  "'a vmm_state_scheme \<Rightarrow> u64 \<Rightarrow> u64 \<Rightarrow> u64 \<Rightarrow> u8 list \<Rightarrow> u64 \<Rightarrow> int \<times> 'a vmm_state_scheme" where
  "copy_to_user_loop s cr3 base len inp copied =
     (if copied < len then
        (case vmm_translate_user_addr s cr3 (base + copied) True of
           None \<Rightarrow> (-1, s)
         | Some phys \<Rightarrow>
             let to_copy = page_chunk base len copied;
                 s = s\<lparr>phys_mem := mem_write_bytes (phys_mem s) phys (take (unat to_copy) (drop (unat copied) inp))\<rparr>
             in copy_to_user_loop s cr3 base len inp (copied + to_copy))
      else (0, s))"
  by pat_completeness auto
termination
  by (relation "measure (\<lambda>(s, cr3, base, len, inp, copied). unat len - unat copied)")
    (auto simp: page_chunk_measure)

definition copy_to_user ::
  "'a vmm_state_scheme \<Rightarrow> u64 \<Rightarrow> u8 list option \<Rightarrow> u64 \<Rightarrow> int \<times> 'a vmm_state_scheme" where
  "copy_to_user s user_dst src len =
     (if len = 0 then (0, s)
      else case src of
        None \<Rightarrow> (-1, s)
      | Some inp \<Rightarrow>
          if user_dst = 0 \<or> range_wraps user_dst len then (-1, s)
          else copy_to_user_loop s (vmm_current_address_space s) user_dst len inp 0)"

function copy_string_loop :: "'a vmm_state_scheme \<Rightarrow> u64 \<Rightarrow> u64 \<Rightarrow> u64 \<Rightarrow> u8 list \<Rightarrow> u64 \<Rightarrow> int \<times> u8 list" where
  "copy_string_loop s cr3 base max_len dst i =
     (if i < max_len then
        (case vmm_translate_user_addr s cr3 (base + i) False of
           None \<Rightarrow> (-1, dst)
         | Some phys \<Rightarrow>
             let c = mem_read8 (phys_mem s) phys;
                 dst = dst[unat i := c]
             in if c = 0 then (0, dst) else copy_string_loop s cr3 base max_len dst (i + 1))
      else (-1, dst[unat (max_len - 1) := 0]))"
  by pat_completeness auto
termination
  by (relation "measure (\<lambda>(s, cr3, base, max_len, dst, i). unat max_len - unat i)") (auto simp: loop_measure_u64)

definition copy_string_from_user ::
  "'a vmm_state_scheme \<Rightarrow> u8 list option \<Rightarrow> u64 \<Rightarrow> u64 \<Rightarrow> int \<times> u8 list option" where
  "copy_string_from_user s dst user_src max_len =
     (case dst of
        None \<Rightarrow> (-1, dst)
      | Some out \<Rightarrow>
          if user_src = 0 \<or> max_len = 0 then (-1, dst)
          else map_prod id Some (copy_string_loop s (vmm_current_address_space s) user_src max_len out 0))"

declare usercopy_validate_loop.simps [simp del] copy_from_user_loop.simps [simp del]
  copy_to_user_loop.simps [simp del] copy_string_loop.simps [simp del]

section \<open>Addresses of one page\<close>

lemma user_walk_offset:
  "user_walk s w v t ix = map_option (\<lambda>f. f OR (v AND 4095)) (user_walk s w 0 t ix)"
  by (induction ix arbitrary: t) (auto simp: Let_def)

lemma user_walk_frame: "user_walk s w 0 t ix = Some f \<Longrightarrow> is_frame f"
  by (induction ix arbitrary: t) (auto simp: Let_def split: if_splits)

lemma page_of_offset: "v = page_of v + (v AND 4095)" "page_aligned (page_of v)"
proof -
  have "\<not> bit (page_of v) n \<or> \<not> bit (v AND 4095) n" for n by (auto simp: bit_page_of bit_low12)
  then have "page_of v + (v AND 4095) = page_of v OR (v AND 4095)" by (rule disjunctive_add)
  also have "\<dots> = v" by (rule bit_word_eqI) (auto simp: bit_or_iff bit_page_of bit_low12)
  finally show "v = page_of v + (v AND 4095)" by simp
  show "page_aligned (page_of v)" by (simp add: page_aligned_iff_page_of)
qed

lemma same_page_add:
  assumes "unat (v AND 4095) + unat i < 4096"
  shows "page_of (v + i) = page_of v" "(v + i) AND 4095 = (v AND 4095) + i"
proof -
  let ?o = "(v AND 4095) + i"
  have o: "unat ?o < 4096" using assms by (simp add: unat_word_ariths)
  have v: "v + i = page_of v + ?o" using page_of_offset(1) [of v] by (simp add: ac_simps)
  show "page_of (v + i) = page_of v" unfolding v by (rule page_of_add [OF page_of_offset(2) o])
  have "(v + i) AND 4095 = ?o AND 4095"
    unfolding v by (rule and_offset [OF page_of_offset(2)]) (use o in \<open>simp add: word_less_nat_alt\<close>)
  also have "\<dots> = ?o"
  proof -
    have m: "(4095 :: u64) = mask 12" by (simp add: mask_eq_exp_minus_1)
    have "take_bit 12 ?o = ?o"
      using o by (simp only: word_unat_eq_iff unsigned_take_bit_eq) (simp add: take_bit_nat_eq_self)
    then show ?thesis unfolding m by (simp only: take_bit_eq_mask)
  qed
  finally show "(v + i) AND 4095 = (v AND 4095) + i" .
qed

lemma vmm_indices_page: "page_of v = page_of v' \<Longrightarrow> vmm_indices v = vmm_indices v'"
proof -
  assume eq: "page_of v = page_of v'"
  have "bit v n = bit v' n" if "12 \<le> n" for n
    using arg_cong [OF eq, of "\<lambda>x. bit x n"] that by (simp add: bit_page_of)
  then have "drop_bit a v = drop_bit a v'" if "12 \<le> a" for a
    using that by (intro bit_word_eqI) (auto simp: bit_drop_bit_eq)
  then show ?thesis
    by (simp add: vmm_indices_def pml4_index_def pdpt_index_def pd_index_def pt_index_def)
qed

text \<open>The frame a page is mapped to, and the translation in terms of it.\<close>

definition user_frame :: "'a pmm_state_scheme \<Rightarrow> u64 \<Rightarrow> bool \<Rightarrow> u64 \<Rightarrow> u64 option" where
  "user_frame s cr3 w page =
     (if page \<ge> USER_VIRT_MAX then None else user_walk s w 0 (cr3 AND PTE_ADDR_MASK) (vmm_indices page))"

lemma user_frame_is_frame: "user_frame s cr3 w page = Some f \<Longrightarrow> is_frame f"
  by (auto simp: user_frame_def split: if_splits dest: user_walk_frame)

lemma translate_user_frame:
  "vmm_translate_user_addr s cr3 v w = map_option (\<lambda>f. f + (v AND 4095)) (user_frame s cr3 w (page_of v))"
proof -
  have "vmm_indices (page_of v) = vmm_indices v" by (rule vmm_indices_page) simp
  moreover have "page_of v \<ge> USER_VIRT_MAX \<longleftrightarrow> v \<ge> USER_VIRT_MAX" using page_of_user_iff [of v] by (simp add: not_less [symmetric])
  moreover have "f OR (v AND 4095) = f + (v AND 4095)" if "is_frame f" for f
    using frame_or_offset [OF that low12_less, of v] by (simp add: and.assoc)
  ultimately show ?thesis
    unfolding vmm_translate_user_addr_def user_frame_def user_walk_offset [of s w v]
    by (auto dest: user_walk_frame intro!: option.map_cong0 simp: option.set_sel split: option.splits)
qed

lemma translate_same_page:
  assumes "unat (v AND 4095) + unat i < 4096"
  shows "vmm_translate_user_addr s cr3 (v + i) w = map_option (\<lambda>p. p + i) (vmm_translate_user_addr s cr3 v w)"
  unfolding translate_user_frame same_page_add [OF assms]
  by (cases "user_frame s cr3 w (page_of v)") (simp_all add: ac_simps)

section \<open>What the copy loops do\<close>

definition user_byte :: "'a pmm_state_scheme \<Rightarrow> u64 \<Rightarrow> u64 \<Rightarrow> u8 option" where
  "user_byte s cr3 a = map_option (mem_read8 (phys_mem s)) (vmm_translate_user_addr s cr3 a False)"

text \<open>One round of a loop handles addresses of one page.\<close>

lemma chunk_translate:
  assumes "copied < len" "unat copied \<le> j" "j < unat copied + unat (page_chunk base len copied)"
  shows "vmm_translate_user_addr s cr3 (base + word_of_nat j) w =
    map_option (\<lambda>p. p + word_of_nat (j - unat copied)) (vmm_translate_user_addr s cr3 (base + copied) w)"
proof -
  let ?i = "word_of_nat (j - unat copied) :: u64"
  have k: "j - unat copied < 4096 - unat ((base + copied) AND 4095)" using assms page_chunk_unat(1) [OF assms(1)] by simp
  then have i: "unat ?i = j - unat copied" by (simp add: unat_of_nat)
  have "word_of_nat j = copied + ?i" using assms(2) by (simp add: of_nat_diff)
  moreover have "unat ((base + copied) AND 4095) + unat ?i < 4096" using k i by linarith
  ultimately show ?thesis using translate_same_page [of "base + copied" ?i s cr3 w] by (simp add: add.assoc)
qed

lemma chunk_bound: "copied < len \<Longrightarrow> unat copied + unat (page_chunk base len copied) \<le> unat len"
  using page_chunk_unat(1) [of copied len base] by (simp add: word_less_nat_alt)

lemma chunk_readable:
  assumes "copied < len"
  shows "(\<forall>j. unat copied \<le> j \<and> j < unat len \<longrightarrow> vmm_translate_user_addr s cr3 (base + word_of_nat j) w \<noteq> None) \<longleftrightarrow>
    vmm_translate_user_addr s cr3 (base + copied) w \<noteq> None \<and>
    (\<forall>j. unat (copied + page_chunk base len copied) \<le> j \<and> j < unat len \<longrightarrow>
       vmm_translate_user_addr s cr3 (base + word_of_nat j) w \<noteq> None)" (is "?l \<longleftrightarrow> ?h \<and> ?r")
proof
  note c = page_chunk_unat(2,3) [OF assms, of base]
  show "?h \<and> ?r" if ?l
  proof
    show ?h using that [rule_format, of "unat copied"] assms by (simp add: word_less_nat_alt)
    show ?r using that c by auto
  qed
  show ?l if "?h \<and> ?r"
  proof (intro allI impI)
    fix j assume j: "unat copied \<le> j \<and> j < unat len"
    show "vmm_translate_user_addr s cr3 (base + word_of_nat j) w \<noteq> None"
    proof (cases "j < unat copied + unat (page_chunk base len copied)")
      case True
      then show ?thesis using chunk_translate [OF assms _ True, of s cr3 w] j that by simp
    next
      case False
      then show ?thesis using that j c by auto
    qed
  qed
qed

lemma usercopy_validate_loop_iff:
  "usercopy_validate_loop s cr3 base len w checked =
     (if \<forall>j. unat checked \<le> j \<and> j < unat len \<longrightarrow> vmm_translate_user_addr s cr3 (base + word_of_nat j) w \<noteq> None
      then 0 else -1)"
proof (induction s cr3 base len w checked rule: usercopy_validate_loop.induct)
  case (1 s cr3 base len w checked)
  show ?case
  proof (cases "checked < len")
    case True
    show ?thesis
      unfolding chunk_readable [OF True] using 1 [OF True]
      by (subst usercopy_validate_loop.simps) (auto simp: True split: option.splits)
  next
    case False
    then show ?thesis by (subst usercopy_validate_loop.simps) (auto simp: word_less_nat_alt)
  qed
qed

lemma nth_mem_read_bytes: "i < n \<Longrightarrow> mem_read_bytes m p n ! i = mem_read8 m (p + word_of_nat i)"
  by (simp add: mem_read_bytes_def)

lemma copy_from_user_loop_spec:
  assumes "unat len \<le> length out"
  shows "case copy_from_user_loop s cr3 base len out copied of (r, out') \<Rightarrow>
     r = (if \<forall>j. unat copied \<le> j \<and> j < unat len \<longrightarrow> vmm_translate_user_addr s cr3 (base + word_of_nat j) False \<noteq> None
          then 0 else -1) \<and>
     length out' = length out \<and> (\<forall>i < length out. i < unat copied \<or> unat len \<le> i \<longrightarrow> out' ! i = out ! i) \<and>
     (r = 0 \<longrightarrow> (\<forall>i. unat copied \<le> i \<and> i < unat len \<longrightarrow> user_byte s cr3 (base + word_of_nat i) = Some (out' ! i)))"
  using assms
proof (induction s cr3 base len out copied rule: copy_from_user_loop.induct)
  case (1 s cr3 base len out copied)
  show ?case
  proof (cases "copied < len")
    case False
    then show ?thesis by (subst copy_from_user_loop.simps) (auto simp: word_less_nat_alt)
  next
    case True
    note read = chunk_readable [OF True, of s cr3 base False]
    show ?thesis
    proof (cases "vmm_translate_user_addr s cr3 (base + copied) False")
      case None
      then have "copy_from_user_loop s cr3 base len out copied = (-1, out)"
        using True by (subst copy_from_user_loop.simps) simp
      then show ?thesis unfolding read using None by simp
    next
      case (Some phys)
      let ?n = "page_chunk base len copied"
      let ?out = "copy_bytes out (unat copied) (mem_read_bytes (phys_mem s) phys (unat ?n)) (unat ?n)"
      note c = page_chunk_unat(2,3) [OF True, of base]
      have b: "unat copied + unat ?n \<le> unat len" by (rule chunk_bound [OF True])
      obtain r out' where r: "copy_from_user_loop s cr3 base len ?out (copied + ?n) = (r, out')" by fastforce
      have eq: "copy_from_user_loop s cr3 base len out copied = (r, out')"
        using True Some r by (subst copy_from_user_loop.simps) (simp add: Let_def)
      have IH: "r = (if \<forall>j. unat (copied + ?n) \<le> j \<and> j < unat len \<longrightarrow> vmm_translate_user_addr s cr3 (base + word_of_nat j) False \<noteq> None then 0 else -1)"
        "length out' = length out" "\<And>i. i < length out \<Longrightarrow> i < unat (copied + ?n) \<or> unat len \<le> i \<Longrightarrow> out' ! i = ?out ! i"
        "r = 0 \<Longrightarrow> unat (copied + ?n) \<le> i \<Longrightarrow> i < unat len \<Longrightarrow> user_byte s cr3 (base + word_of_nat i) = Some (out' ! i)" for i
        using 1(1) [OF True Some refl refl] 1(2) r by auto
      have new: "user_byte s cr3 (base + word_of_nat i) = Some (out' ! i)"
        if "unat copied \<le> i" "i < unat copied + unat ?n" for i
        using that b IH(3) [of i] 1(2) c(1) Some chunk_translate [OF True that, of s cr3 False]
        by (simp add: nth_copy_bytes nth_mem_read_bytes user_byte_def)
      show ?thesis
        unfolding eq prod.case
      proof (intro conjI allI impI)
        show "r = (if \<forall>j. unat copied \<le> j \<and> j < unat len \<longrightarrow> vmm_translate_user_addr s cr3 (base + word_of_nat j) False \<noteq> None then 0 else -1)"
          unfolding read IH(1) using Some by simp
        show "length out' = length out" by (fact IH)
        show "out' ! i = out ! i" if "i < length out" "i < unat copied \<or> unat len \<le> i" for i
          using that IH(3) [of i] b c(1) by (auto simp: nth_copy_bytes)
        show "user_byte s cr3 (base + word_of_nat i) = Some (out' ! i)" if "r = 0" "unat copied \<le> i \<and> i < unat len" for i
          using that new [of i] IH(4) [of i] c(1) by (cases "i < unat copied + unat ?n") auto
      qed
    qed
  qed
qed

section \<open>Writing to user memory\<close>

lemma user_walk_write_read: "user_walk s True v t ix = Some p \<Longrightarrow> user_walk s False v t ix = Some p"
  by (induction ix arbitrary: t) (auto simp: Let_def split: if_splits)

lemma user_frame_mask: "u AND PTE_ADDR_MASK = t AND PTE_ADDR_MASK \<Longrightarrow> user_frame s u w p = user_frame s t w p"
  by (simp add: user_frame_def)

lemma user_frame_write_read: "user_frame s cr3 True page = Some f \<Longrightarrow> user_frame s cr3 w page = Some f"
  by (cases w) (auto simp: user_frame_def split: if_splits dest: user_walk_write_read)

text \<open>The leaf entry behind a translation, and that no two pages share a frame.\<close>

lemma user_frame_path:
  assumes inv: "upt_inv s lv" and t: "lv (cr3 AND PTE_ADDR_MASK) = Some 4" and f: "user_frame s cr3 w page = Some f"
  obtains x where "page < USER_VIRT_MAX"
    "pt_path s lv (cr3 AND PTE_ADDR_MASK) [pml4_index page, pdpt_index page, pd_index page] x"
    "pt_child s lv x 1 (pt_index page) f"
proof -
  let ?is = "[pml4_index page, pdpt_index page, pd_index page]"
  have lt: "page < USER_VIRT_MAX" and walk: "user_walk s w 0 (cr3 AND PTE_ADDR_MASK) (?is @ [pt_index page]) = Some f"
    using f by (auto simp: user_frame_def vmm_indices_def not_le split: if_splits)
  have p: "user_path (length ?is + 1) (?is @ [pt_index page])"
    using vmm_indices_user_path [OF lt] by (simp add: vmm_indices_def numeral_eq_Suc)
  have t': "lv (cr3 AND PTE_ADDR_MASK) = Some (length ?is + 1)" using t by simp
  obtain x where x: "pt_path s lv (cr3 AND PTE_ADDR_MASK) ?is x" "user_walk s w 0 x [pt_index page] = Some f"
    using user_walk_has_path [OF inv walk t' p] .
  have "lv x = Some 1" using pt_path_level [OF inv x(1) t'] by simp
  then have "pt_child s lv x 1 (pt_index page) f"
    using x(2) low9_slots(3) [of page]
    by (auto simp: user_walk_leaf pt_child_def Let_def user_slot_def simp del: user_walk.simps split: if_splits)
  then show ?thesis using that lt x(1) by blast
qed

lemma user_frame_not_table:
  assumes "upt_inv s lv" "lv (cr3 AND PTE_ADDR_MASK) = Some 4" "user_frame s cr3 w page = Some f"
  shows "lv f = None" "frame_used s f"
  using user_frame_path [OF assms] upt_inv_leaf [OF assms(1)] upt_inv_child [OF assms(1)] by metis+

lemma user_frame_inj:
  assumes inv: "upt_inv s lv" and t: "lv (cr3 AND PTE_ADDR_MASK) = Some 4" "lv (cr3' AND PTE_ADDR_MASK) = Some 4"
    and f: "user_frame s cr3 w page = Some f" "user_frame s cr3' w' page' = Some f"
    and al: "page_of page = page" "page_of page' = page'"
  shows "cr3 AND PTE_ADDR_MASK = cr3' AND PTE_ADDR_MASK \<and> page = page'"
proof -
  obtain x where x: "page < USER_VIRT_MAX" "pt_path s lv (cr3 AND PTE_ADDR_MASK) [pml4_index page, pdpt_index page, pd_index page] x"
    "pt_child s lv x 1 (pt_index page) f" using user_frame_path [OF inv t(1) f(1)] .
  obtain y where y: "page' < USER_VIRT_MAX" "pt_path s lv (cr3' AND PTE_ADDR_MASK) [pml4_index page', pdpt_index page', pd_index page'] y"
    "pt_child s lv y 1 (pt_index page') f" using user_frame_path [OF inv t(2) f(2)] .
  have xy: "x = y" "pt_index page = pt_index page'" using upt_inv_unique [OF inv x(3) y(3)] by auto
  then have "cr3 AND PTE_ADDR_MASK = cr3' AND PTE_ADDR_MASK" "vmm_indices page = vmm_indices page'"
    using pt_path_inj [OF inv x(2) y(2) [folded xy(1)]] by (auto simp: vmm_indices_def)
  then show ?thesis using vmm_indices_eq_iff [OF x(1) y(1)] al by simp
qed

text \<open>Memory that is not a user page table does not matter for translations.\<close>

lemma pt_child_cong:
  assumes "\<And>t i. lv t \<noteq> None \<Longrightarrow> i < 512 \<Longrightarrow> table_entry s' t i = table_entry s t i"
  shows "pt_child s' lv t k i c = pt_child s lv t k i c"
  using assms [of t i] user_slot_512 [of k i] by (auto simp: pt_child_def)

lemma upt_inv_cong:
  assumes "\<And>t i. lv t \<noteq> None \<Longrightarrow> i < 512 \<Longrightarrow> table_entry s' t i = table_entry s t i"
    and "\<And>f. frame_used s' f = frame_used s f" and "upt_inv s lv"
  shows "upt_inv s' lv"
proof -
  have e: "table_entry s' t i = table_entry s t i" if "pt_child s lv t k i c" for t k i c
    using that assms(1) [of t i] user_slot_512 by (auto simp: pt_child_def)
  have child: "pt_child s' lv t k i c = pt_child s lv t k i c" for t k i c
    by (rule pt_child_cong) (rule assms(1))
  note inv = assms(3)
  show ?thesis
  proof (rule upt_invI)
    show "lv c = Some (k - 1) \<and> bit (table_entry s' t i) 1 \<and> bit (table_entry s' t i) 2 \<and> \<not> bit (table_entry s' t i) 7"
      if "pt_child s' lv t k i c" "k \<noteq> 1" for t k i c
      using that upt_inv_inner [OF inv, of t k i c] e [of t k i c] unfolding child by metis
  qed (use upt_inv_table [OF inv] upt_inv_child [OF inv] upt_inv_leaf [OF inv] upt_inv_unique [OF inv] in
      \<open>auto simp: child assms(2)\<close>)
qed

lemma user_walk_cong:
  assumes tab: "\<And>t i. lv t \<noteq> None \<Longrightarrow> i < 512 \<Longrightarrow> table_entry s' t i = table_entry s t i"
    and inv: "upt_inv s lv"
  shows "lv t = Some (length ix) \<Longrightarrow> user_path (length ix) ix \<Longrightarrow> user_walk s' w v t ix = user_walk s w v t ix"
proof (induction ix arbitrary: t)
  case (Cons i ix)
  have e: "table_entry s' t i = table_entry s t i" using Cons.prems tab [of t i] user_slot_512 by auto
  show ?case
  proof (cases "ix = [] \<or> \<not> bit (table_entry s t i) 0")
    case True
    then show ?thesis using e by (auto simp: Let_def and_flag_iff_bit)
  next
    case False
    then have c: "pt_child s lv t (Suc (length ix)) i (table_entry s t i AND PTE_ADDR_MASK)"
      using Cons.prems by (simp add: pt_child_def)
    have "lv (table_entry s t i AND PTE_ADDR_MASK) = Some (length ix)" using upt_inv_inner(1) [OF inv c] False by simp
    then show ?thesis using Cons e by (simp add: Let_def)
  qed
qed simp

lemma translate_cong:
  assumes "\<And>t i. lv t \<noteq> None \<Longrightarrow> i < 512 \<Longrightarrow> table_entry s' t i = table_entry s t i" "upt_inv s lv"
    and "lv (cr3 AND PTE_ADDR_MASK) = Some 4"
  shows "vmm_translate_user_addr s' cr3 v w = vmm_translate_user_addr s cr3 v w"
proof (cases "v < USER_VIRT_MAX")
  case True
  have "user_walk s' w v (cr3 AND PTE_ADDR_MASK) (vmm_indices v) = user_walk s w v (cr3 AND PTE_ADDR_MASK) (vmm_indices v)"
    by (rule user_walk_cong [OF assms(1,2)])
      (use assms(3) vmm_indices_user_path [OF True] in \<open>auto simp: vmm_indices_def numeral_eq_Suc\<close>)
  then show ?thesis by (simp add: vmm_translate_user_addr_def)
qed (simp add: vmm_translate_user_addr_def not_less)

lemma page_of_align_8: "page_of (align_down a 8) = page_of a"
proof (rule bit_word_eqI)
  fix n
  have "align_down a 8 = push_bit 3 (drop_bit 3 a)" using align_down_eq [of a 3] by simp
  then show "bit (page_of (align_down a 8)) n = bit (page_of a) n"
    unfolding bit_page_of by (auto simp: bit_simps dest: bit_imp_le_length)
qed

lemma mem_write8_page: "page_of b \<noteq> page_of a \<Longrightarrow> mem_write8 m a v b = m b"
  using page_of_align_8 [of a] by (auto simp: mem_write8_def)

lemma mem_write_bytes_page:
  "unat (p AND 4095) + length bs \<le> 4096 \<Longrightarrow> page_of b \<noteq> page_of p \<Longrightarrow> mem_write_bytes m p bs b = m b"
proof (induction bs arbitrary: m p)
  case (Cons x bs)
  show ?case
  proof (cases "bs = []")
    case True
    then show ?thesis using Cons.prems by (simp add: mem_write8_page)
  next
    case False
    then have "unat (p AND 4095) + unat (1 :: u64) < 4096" using Cons.prems(1) by (cases bs) auto
    note sp = same_page_add [OF this]
    have "unat ((p + 1) AND 4095) = unat (p AND 4095) + 1"
      unfolding sp(2) using \<open>unat (p AND 4095) + unat (1 :: u64) < 4096\<close> by (simp add: unat_word_ariths)
    then show ?thesis using Cons.IH [of "p + 1" "mem_write8 m p x"] Cons.prems sp(1) by (simp add: mem_write8_page)
  qed
qed simp

lemma mem_read8_write_bytes:
  "length bs \<le> 4096 \<Longrightarrow> mem_read8 (mem_write_bytes m p bs) a =
     (if unat (a - p) < length bs then bs ! unat (a - p) else mem_read8 m a)"
proof (induction bs arbitrary: m p)
  case (Cons x bs)
  have IH: "mem_read8 (mem_write_bytes m p (x # bs)) a =
     (if unat (a - (p + 1)) < length bs then bs ! unat (a - (p + 1)) else mem_read8 (mem_write8 m p x) a)"
    using Cons by simp
  show ?case
  proof (cases "a = p")
    case True
    have "unat (- 1 :: u64) = 18446744073709551615" by (simp add: unsigned_minus_1_eq_mask mask_eq_exp_minus_1)
    then show ?thesis unfolding IH using True Cons.prems by (simp add: mem_read8_write8)
  next
    case False
    then have "a - p \<noteq> 0" by simp
    then have "unat (a - p - 1) = unat (a - p) - 1" "0 < unat (a - p)" by (simp_all add: unat_minus_one unat_gt_0)
    moreover have "a - (p + 1) = a - p - 1" by simp
    ultimately have "unat (a - p) = Suc (unat (a - (p + 1)))" by (simp only:)
    then show ?thesis unfolding IH using False by (simp add: mem_read8_write8)
  qed
qed simp

text \<open>One round of \<^verbatim>\<open>copy_to_user\<close>.\<close>

lemma write_chunk:
  fixes s :: "'a vmm_state_scheme"
  assumes inv: "upt_inv s lv" and t: "lv (cr3 AND PTE_ADDR_MASK) = Some 4"
    and tr: "vmm_translate_user_addr s cr3 a True = Some phys"
    and len: "unat (a AND 4095) + length bs \<le> 4096"
  defines "s' \<equiv> s\<lparr>phys_mem := mem_write_bytes (phys_mem s) phys bs\<rparr>"
  shows "upt_inv s' lv"
    and "lv (u AND PTE_ADDR_MASK) = Some 4 \<Longrightarrow> vmm_translate_user_addr s' u v w = vmm_translate_user_addr s u v w"
    and "lv (u AND PTE_ADDR_MASK) = Some 4 \<Longrightarrow> user_byte s' u v =
       (if u AND PTE_ADDR_MASK = cr3 AND PTE_ADDR_MASK \<and> unat (v - a) < length bs
        then Some (bs ! unat (v - a)) else user_byte s u v)"
    and "user_frame s cr3 True (page_of a) \<noteq> Some (page_of b) \<Longrightarrow> phys_mem s' b = phys_mem s b"
proof -
  obtain f where f: "user_frame s cr3 True (page_of a) = Some f" and phys: "phys = f + (a AND 4095)"
    using tr by (auto simp: translate_user_frame)
  note frame = user_frame_is_frame [OF f] and nt = user_frame_not_table [OF inv t f]
  have pf: "page_of phys = f" unfolding phys
    by (rule page_of_add [OF frame_aligned [OF frame] page_remaining(2)])
  have po: "phys AND 4095 = a AND 4095"
    unfolding phys using and_offset [OF frame_aligned [OF frame] low12_less, of a] by (simp add: and.assoc)
  have mem: "phys_mem s' b = phys_mem s b" if "page_of b \<noteq> f" for b
    using mem_write_bytes_page [of phys bs b] len that by (simp add: s'_def po pf)
  then show "user_frame s cr3 True (page_of a) \<noteq> Some (page_of b) \<Longrightarrow> phys_mem s' b = phys_mem s b" using f by auto
  have tab: "table_entry s' x i = table_entry s x i" if "lv x \<noteq> None" "i < 512" for x i
  proof -
    have "is_frame x" using that(1) upt_inv_frame [OF inv] by blast
    then show ?thesis using mem [of "x + 8 * i"] page_of_slot that nt(1) by (metis table_entry_def)
  qed
  show "upt_inv s' lv" by (rule upt_inv_cong [OF tab _ inv]) (auto simp: s'_def frame_used_def pmm_test_bit_def)
  have trans: "vmm_translate_user_addr s' u v w = vmm_translate_user_addr s u v w"
    if "lv (u AND PTE_ADDR_MASK) = Some 4" for u v w by (rule translate_cong [OF tab inv that])
  then show "lv (u AND PTE_ADDR_MASK) = Some 4 \<Longrightarrow> vmm_translate_user_addr s' u v w = vmm_translate_user_addr s u v w" .
  have in_page: "page_of (c + d) = page_of c" "(c + d) AND 4095 = (c AND 4095) + d"
    if "unat d < length bs" "c AND 4095 = a AND 4095" for c d :: u64
    using same_page_add [of c d] that len by simp_all
  assume u: "lv (u AND PTE_ADDR_MASK) = Some 4"
  have vmask: "c AND 4095 = a AND 4095 \<Longrightarrow> unat (x - c) < length bs \<Longrightarrow> page_of x = page_of c \<and> x AND 4095 = (a AND 4095) + (x - c)" for c x
    using in_page [of "x - c" c] by simp
  have diff: "g + (v AND 4095) - phys = v - a \<and> g = f"
    if "user_frame s u False (page_of v) = Some g" "u AND PTE_ADDR_MASK = cr3 AND PTE_ADDR_MASK" "unat (v - a) < length bs" for g
    using that(1,3) vmask [of a v] user_frame_write_read [OF f, of False] user_frame_mask [OF that(2), of s False "page_of v"]
    by (simp add: phys)
  have key: "u AND PTE_ADDR_MASK = cr3 AND PTE_ADDR_MASK \<and> v - a = g + (v AND 4095) - phys"
    if g: "user_frame s u False (page_of v) = Some g" "unat (g + (v AND 4095) - phys) < length bs" for g
  proof -
    have gf: "is_frame g" using user_frame_is_frame [OF g(1)] .
    have "page_of (g + (v AND 4095)) = page_of phys" using vmask [of phys "g + (v AND 4095)"] g(2) po by simp
    moreover have "page_of (g + (v AND 4095)) = g" by (rule page_of_add [OF frame_aligned [OF gf] page_remaining(2)])
    ultimately have gf: "g = f" using pf by simp
    have "u AND PTE_ADDR_MASK = cr3 AND PTE_ADDR_MASK \<and> page_of v = page_of a"
      by (rule user_frame_inj [OF inv u t g(1) [unfolded gf] f]) simp_all
    then show ?thesis using page_of_offset(1) [of v] page_of_offset(1) [of a] gf
      by (metis (no_types, lifting) add_diff_cancel_left phys)
  qed
  have mapped: "user_frame s u False (page_of v) \<noteq> None"
    if "u AND PTE_ADDR_MASK = cr3 AND PTE_ADDR_MASK" "unat (v - a) < length bs"
    using that in_page(1) [of "v - a" a] user_frame_write_read [OF f, of False] user_frame_mask [OF that(1), of s False "page_of v"] by simp
  show "user_byte s' u v = (if u AND PTE_ADDR_MASK = cr3 AND PTE_ADDR_MASK \<and> unat (v - a) < length bs
        then Some (bs ! unat (v - a)) else user_byte s u v)"
  proof (cases "user_frame s u False (page_of v)")
    case None
    then have "user_byte s' u v = None" "user_byte s u v = None"
      unfolding user_byte_def trans [OF u] unfolding translate_user_frame by simp_all
    then show ?thesis using mapped None by auto
  next
    case (Some g)
    have l: "length bs \<le> 4096" using len by simp
    have "user_byte s' u v = Some (mem_read8 (mem_write_bytes (phys_mem s) phys bs) (g + (v AND 4095)))"
      "user_byte s u v = Some (mem_read8 (phys_mem s) (g + (v AND 4095)))"
      unfolding user_byte_def trans [OF u] unfolding translate_user_frame using Some by (simp_all add: s'_def)
    note bytes = this [unfolded mem_read8_write_bytes [OF l]]
    show ?thesis
    proof (cases "u AND PTE_ADDR_MASK = cr3 AND PTE_ADDR_MASK \<and> unat (v - a) < length bs")
      case True
      then have "g + (v AND 4095) - phys = v - a" using diff [OF Some] by blast
      then show ?thesis using True bytes(1) by simp
    next
      case False
      then have "\<not> unat (g + (v AND 4095) - phys) < length bs" using key [OF Some] by metis
      then show ?thesis using bytes False by (simp only: if_False)
    qed
  qed
qed

lemma user_frame_page_of: "user_frame s cr3 w (page_of p) = user_frame s cr3 w p"
  using vmm_indices_page [of "page_of p" p] page_of_user_iff [of p] by (auto simp: user_frame_def not_le [symmetric])

lemma sub_less_iff:
  fixes x c n :: u64
  assumes "unat c + unat n \<le> 18446744073709551615"
  shows "unat (x - c) < unat n \<longleftrightarrow> unat c \<le> unat x \<and> unat x < unat c + unat n"
    and "unat c \<le> unat x \<Longrightarrow> unat (x - c) = unat x - unat c"
proof -
  show eq: "unat c \<le> unat x \<Longrightarrow> unat (x - c) = unat x - unat c"
    by (intro unat_sub) (simp add: word_le_nat_alt)
  show "unat (x - c) < unat n \<longleftrightarrow> unat c \<le> unat x \<and> unat x < unat c + unat n"
  proof (cases "unat c \<le> unat x")
    case False
    have "unat x = (unat (x - c) + unat c) mod 18446744073709551616"
      using unat_word_ariths(1) [of "x - c" c] by simp
    then have "18446744073709551616 \<le> unat (x - c) + unat c" using False by (metis le_add2 mod_less not_le)
    then show ?thesis using False assms by linarith
  qed (use eq in auto)
qed

lemma copy_to_user_loop_spec:
  fixes s :: "'a vmm_state_scheme"
  assumes "upt_inv s lv" "lv (cr3 AND PTE_ADDR_MASK) = Some 4" "unat len \<le> length inp"
    and "copy_to_user_loop s cr3 base len inp copied = (r, s')"
  shows "r = (if \<forall>j. unat copied \<le> j \<and> j < unat len \<longrightarrow> vmm_translate_user_addr s cr3 (base + word_of_nat j) True \<noteq> None
          then 0 else -1) \<and>
     upt_inv s' lv \<and> s' = s\<lparr>phys_mem := phys_mem s'\<rparr> \<and>
     (\<forall>u v w. lv (u AND PTE_ADDR_MASK) = Some 4 \<longrightarrow> vmm_translate_user_addr s' u v w = vmm_translate_user_addr s u v w) \<and>
     (r = 0 \<longrightarrow> (\<forall>u v. lv (u AND PTE_ADDR_MASK) = Some 4 \<longrightarrow> user_byte s' u v =
        (if u AND PTE_ADDR_MASK = cr3 AND PTE_ADDR_MASK \<and> unat copied \<le> unat (v - base) \<and> unat (v - base) < unat len
         then Some (inp ! unat (v - base)) else user_byte s u v))) \<and>
     (\<forall>b. (\<forall>page. user_frame s cr3 True page \<noteq> Some (page_of b)) \<longrightarrow> phys_mem s' b = phys_mem s b)"
  using assms
proof (induction s cr3 base len inp copied rule: copy_to_user_loop.induct)
  case (1 s cr3 base len inp copied)
  show ?case
  proof (cases "copied < len")
    case False
    then have eq: "r = 0 \<and> s' = s" using 1(5) by (subst (asm) copy_to_user_loop.simps) simp
    have le: "unat len \<le> unat copied" using False by (simp add: word_less_nat_alt)
    show ?thesis using eq 1(2) le by auto
  next
    case True
    note read = chunk_readable [OF True, of s cr3 base True]
    show ?thesis
    proof (cases "vmm_translate_user_addr s cr3 (base + copied) True")
      case None
      then have "r = -1 \<and> s' = s" using True 1(5) by (subst (asm) copy_to_user_loop.simps) simp
      then show ?thesis unfolding read using None 1(2) by simp
    next
      case (Some phys)
      let ?n = "page_chunk base len copied"
      let ?bs = "take (unat ?n) (drop (unat copied) inp)"
      let ?s = "s\<lparr>phys_mem := mem_write_bytes (phys_mem s) phys ?bs\<rparr>"
      note c = page_chunk_unat [OF True, of base]
      have b: "unat copied + unat ?n \<le> unat len" by (rule chunk_bound [OF True])
      have linp: "unat copied \<le> length inp" using b 1(4) by simp
      have lenbs: "length ?bs = unat ?n" using b 1(4) by simp
      have l: "unat ((base + copied) AND 4095) + length ?bs \<le> 4096"
        using lenbs c(1) page_remaining(2) [of "base + copied"] by linarith
      note w = write_chunk [OF 1(2,3) Some l]
      have run: "copy_to_user_loop ?s cr3 base len inp (copied + ?n) = (r, s')"
        using True Some 1(5) by (subst (asm) copy_to_user_loop.simps) (simp add: Let_def)
      note IH = 1(1) [OF True Some refl refl w(1) 1(3,4) run]
      have tr: "vmm_translate_user_addr ?s cr3 v w = vmm_translate_user_addr s cr3 v w" for v w by (rule w(2) [OF 1(3)])
      have r: "r = (if \<forall>j. unat copied \<le> j \<and> j < unat len \<longrightarrow> vmm_translate_user_addr s cr3 (base + word_of_nat j) True \<noteq> None then 0 else -1)"
        unfolding read using IH Some by (simp only: tr) simp
      have fr: "user_frame ?s cr3 True page = user_frame s cr3 True page" for page
        using tr [of "page_of page" True] page_of_offset(1) [of "page_of page"]
        unfolding translate_user_frame by (simp add: user_frame_page_of option.map_ident)
      have ix: "unat (v - (base + copied)) < unat ?n \<longleftrightarrow> unat copied \<le> unat (v - base) \<and> unat (v - base) < unat copied + unat ?n"
        "unat copied \<le> unat (v - base) \<Longrightarrow> unat (v - (base + copied)) = unat (v - base) - unat copied" for v
        using sub_less_iff [of copied ?n "v - base"] b unat_u64_less [of len] by (simp_all add: diff_diff_eq)
      show ?thesis
      proof (intro conjI)
        show "upt_inv s' lv" "s' = s\<lparr>phys_mem := phys_mem s'\<rparr>" using IH by auto
        show "\<forall>u v w. lv (u AND PTE_ADDR_MASK) = Some 4 \<longrightarrow> vmm_translate_user_addr s' u v w = vmm_translate_user_addr s u v w"
          using IH w(2) by simp
        show "\<forall>b. (\<forall>page. user_frame s cr3 True page \<noteq> Some (page_of b)) \<longrightarrow> phys_mem s' b = phys_mem s b"
          using IH w(4) fr by (metis (no_types, lifting))
        show "r = 0 \<longrightarrow> (\<forall>u v. lv (u AND PTE_ADDR_MASK) = Some 4 \<longrightarrow> user_byte s' u v =
          (if u AND PTE_ADDR_MASK = cr3 AND PTE_ADDR_MASK \<and> unat copied \<le> unat (v - base) \<and> unat (v - base) < unat len
           then Some (inp ! unat (v - base)) else user_byte s u v))"
        proof (intro impI allI)
          fix u v assume r0: "r = 0" and u: "lv (u AND PTE_ADDR_MASK) = Some 4"
          have now: "user_byte s' u v = (if u AND PTE_ADDR_MASK = cr3 AND PTE_ADDR_MASK \<and> unat copied + unat ?n \<le> unat (v - base) \<and> unat (v - base) < unat len
             then Some (inp ! unat (v - base)) else user_byte ?s u v)" using IH r0 u by (simp add: c(2))
          show "user_byte s' u v = (if u AND PTE_ADDR_MASK = cr3 AND PTE_ADDR_MASK \<and> unat copied \<le> unat (v - base) \<and> unat (v - base) < unat len
             then Some (inp ! unat (v - base)) else user_byte s u v)"
            unfolding now w(3) [OF u] lenbs using ix [of v] b linp by (auto simp: nth_drop)
        qed
      qed (fact r)
    qed
  qed
qed

section \<open>Properties\<close>

text \<open>A state with one writable user page, mapped at \<open>0x400000\<close> in the current address space.\<close>

definition user_example :: "vmm_state \<Rightarrow> level_map \<Rightarrow> bool" where
  "user_example s lv \<longleftrightarrow> upt_inv s lv \<and> lv (cr3_reg s AND PTE_ADDR_MASK) = Some 4 \<and> cr3_reg s AND PTE_ADDR_MASK = 0x1000 \<and>
     (\<forall>off < PAGE_SIZE. \<forall>w. vmm_translate_user_addr s 0x1000 (0x400000 + off) w = Some (0x2000 + off))"

lemma vmm_map_page_in_inv:
  assumes "upt_inv s lv" "pmm_inv s" "lv (cr3 AND PTE_ADDR_MASK) = Some 4" "virt < USER_VIRT_MAX" "virt mod PAGE_SIZE = 0"
    "mappable_frame s lv phys" "bit flags 2" "flags AND PTE_ADDR_MASK = 0"
    and run: "vmm_map_page_in s cr3 virt phys flags = Inr (r, s')"
  shows "\<exists>lv'. upt_inv s' lv' \<and> lv' (cr3 AND PTE_ADDR_MASK) = Some 4 \<and> pmm_state.more s' = pmm_state.more s"
proof -
  obtain s1 lv' pt e where "pt_grow s lv s1 lv'" "lv' (cr3 AND PTE_ADDR_MASK) = Some 4"
    "s' = set_table_entry s1 pt (pt_index virt) e" "upt_inv s' lv'"
    by (rule vmm_map_page_in_user [OF assms])
  then show ?thesis by (intro exI [of _ lv']) (simp add: pt_grow_def)
qed

definition vmm_example_user :: vmm_state where
  "vmm_example_user = vmm_example\<lparr>cr3_reg := 0x1000\<rparr>"

lemma vmm_example_user_mem: "table_entry vmm_example_user t i = table_entry vmm_example t i"
  by (simp add: vmm_example_user_def table_entry_def)

lemma vmm_example_user_pmm:
  "free_page_set vmm_example_user = free_page_set vmm_example" "pmm_inv vmm_example_user"
  "frame_used vmm_example_user f = frame_used vmm_example f"
  using vmm_example_inv
  by (simp_all add: vmm_example_user_def free_page_set_def pmm_inv_def pmm_test_bit_def frame_used_def)

lemma vmm_example_user_upt: "upt_inv vmm_example_user [0x1000 \<mapsto> 4]" "mappable_frame vmm_example_user [0x1000 \<mapsto> 4] 0x2000"
proof -
  have child: "\<not> pt_child vmm_example_user lv t k i c" for lv t k i c
    using vmm_example_no_child [of lv t k i c] by (simp add: pt_child_def vmm_example_user_mem)
  show "upt_inv vmm_example_user [0x1000 \<mapsto> 4]"
    by (rule upt_invI) (use vmm_example_used in \<open>auto simp: child vmm_example_user_pmm split: if_splits\<close>)
  show "mappable_frame vmm_example_user [0x1000 \<mapsto> 4] 0x2000"
    using vmm_example_used by (simp add: mappable_frame_def child vmm_example_user_pmm)
qed

lemma user_example_exists: "\<exists>s lv. user_example s lv"
proof -
  let ?s = vmm_example_user
  have "3 \<le> card (free_page_set ?s)" by (simp add: vmm_example_user_pmm vmm_example_free)
  then obtain s' where run: "vmm_map_page_in ?s 0x1000 0x400000 0x2000 6 = Inr (0, s')"
    using vmm_map_page_in_total [of ?s "0x400000" "0x2000" "0x1000" 6] vmm_example_user_pmm(2) by auto
  have pre: "[0x1000 \<mapsto> 4] (0x1000 AND PTE_ADDR_MASK) = Some 4" "(0x400000 :: u64) < USER_VIRT_MAX"
    "(0x400000 :: u64) mod PAGE_SIZE = 0" "bit (6 :: u64) 2" "(6 :: u64) AND PTE_ADDR_MASK = 0"
    by (simp_all add: bit_iff_odd)
  note upt = vmm_example_user_upt(1) vmm_example_user_pmm(2) pre(1-3) vmm_example_user_upt(2) pre(4,5) run
  obtain lv' where inv: "upt_inv s' lv'" "lv' (0x1000 AND PTE_ADDR_MASK) = Some 4" "pmm_state.more s' = pmm_state.more ?s"
    using vmm_map_page_in_inv [OF upt] by blast
  have "vmm_translate_user_addr s' 0x1000 (0x400000 + off) w = Some (0x2000 + off)" if "off < 4096" for off w
  proof -
    have "page_of (0x400000 + off) = 0x400000"
      by (rule page_of_add) (use that in \<open>simp_all add: page_aligned_def word_less_nat_alt\<close>)
    moreover have "0x2000 OR ((0x400000 + off) AND 4095) = 0x2000 + off"
      using and_offset [of "0x400000" off] frame_or_offset [of "0x2000" off] that
      by (simp add: page_aligned_def is_frame_def)
    moreover have "bit (6 :: u64) 1" by (simp add: bit_iff_odd)
    ultimately show ?thesis
      using vmm_map_page_in_translate [OF upt pre(1), of "0x400000 + off" w] by simp
  qed
  moreover have "cr3_reg s' = 0x1000" using inv(3) by (cases s') (simp add: vmm_example_user_def vmm_example_def)
  ultimately have "user_example s' lv'" using inv by (simp add: user_example_def)
  then show ?thesis by blast
qed

text \<open>
  C11: \<^verbatim>\<open>copy_from_user\<close> succeeds exactly when the range does not wrap and every one of its addresses is
  mapped for user mode in the current address space, and then the buffer holds the bytes of user memory
  and nothing beyond the length was changed.
\<close>

theorem copy_from_user_correct:
  assumes "user_src \<noteq> 0" "len \<noteq> 0" "unat len \<le> length out" "copy_from_user s (Some out) user_src len = (r, dst)"
  shows "r = (if \<not> range_wraps user_src len \<and>
               (\<forall>j < unat len. user_byte s (vmm_current_address_space s) (user_src + word_of_nat j) \<noteq> None) then 0 else -1) \<and>
     (r = 0 \<longrightarrow> map Some (take (unat len) (the dst)) =
                  map (\<lambda>j. user_byte s (vmm_current_address_space s) (user_src + word_of_nat j)) [0..<unat len] \<and>
                drop (unat len) (the dst) = drop (unat len) out)"
proof (cases "range_wraps user_src len")
  case True
  then show ?thesis using assms by (simp add: copy_from_user_def)
next
  case False
  let ?cr3 = "vmm_current_address_space s"
  obtain out' where loop: "copy_from_user_loop s ?cr3 user_src len out 0 = (r, out')" and dst: "dst = Some out'"
    using assms False by (cases "copy_from_user_loop s ?cr3 user_src len out 0") (simp add: copy_from_user_def)
  have spec: "r = (if \<forall>j < unat len. vmm_translate_user_addr s ?cr3 (user_src + word_of_nat j) False \<noteq> None then 0 else -1)"
    "length out' = length out" "\<And>i. i < length out \<Longrightarrow> unat len \<le> i \<Longrightarrow> out' ! i = out ! i"
    "\<And>i. r = 0 \<Longrightarrow> i < unat len \<Longrightarrow> user_byte s ?cr3 (user_src + word_of_nat i) = Some (out' ! i)"
    using copy_from_user_loop_spec [OF assms(3), where s = s and ?cr3.0 = ?cr3 and base = user_src and copied = 0] by (simp_all add: loop)
  have byte: "user_byte s ?cr3 a \<noteq> None \<longleftrightarrow> vmm_translate_user_addr s ?cr3 a False \<noteq> None" for a
    by (simp add: user_byte_def)
  have "map Some (take (unat len) out') = map (\<lambda>j. user_byte s ?cr3 (user_src + word_of_nat j)) [0..<unat len]" if "r = 0"
    using spec that assms(3) by (intro nth_equalityI) simp_all
  moreover have "drop (unat len) out' = drop (unat len) out"
    using spec(2,3) assms(3) by (intro nth_equalityI) (simp_all add: nth_drop)
  moreover have "r = (if \<not> range_wraps user_src len \<and> (\<forall>j < unat len. user_byte s ?cr3 (user_src + word_of_nat j) \<noteq> None) then 0 else -1)"
    using spec(1) False by (simp only: byte simp_thms)
  ultimately show ?thesis unfolding dst option.sel by blast
qed

theorem copy_from_user_correct_witness:
  "\<exists>(s :: vmm_state) out. copy_from_user s (Some [1, 2, 3]) 0x400ffe 2 = (0, Some out) \<and> drop 2 out = [3 :: u8]"
proof -
  obtain s lv where s: "user_example (s :: vmm_state) lv" using user_example_exists by blast
  obtain r dst where run: "copy_from_user s (Some [1, 2, 3]) 0x400ffe 2 = (r, dst)" by fastforce
  have "vmm_translate_user_addr s 0x1000 (0x400ffe + word_of_nat j) False \<noteq> None" if "j < 2" for j
  proof -
    have "j = 0 \<or> j = 1" using that by auto
    then show ?thesis
      using s [unfolded user_example_def, THEN conjunct2, THEN conjunct2, THEN conjunct2, rule_format, of "0xffe" False]
        s [unfolded user_example_def, THEN conjunct2, THEN conjunct2, THEN conjunct2, rule_format, of "0xfff" False] by auto
  qed
  then have bytes: "\<forall>j < unat (2 :: u64). user_byte s (vmm_current_address_space s) (0x400ffe + word_of_nat j) \<noteq> None"
    using s by (simp add: user_byte_def vmm_current_address_space_def user_example_def)
  have nw: "\<not> range_wraps 0x400ffe 2" by (simp add: range_wraps_def)
  have r: "r = 0" "drop 2 (the dst) = [3]"
    using copy_from_user_correct [OF _ _ _ run] bytes nw by simp_all
  obtain out where "dst = Some out"
    using run nw by (cases "copy_from_user_loop s (vmm_current_address_space s) 0x400ffe 2 [1, 2, 3] 0") (auto simp: copy_from_user_def)
  then show ?thesis using run r by auto
qed

text \<open>
  C10: \<^verbatim>\<open>copy_to_user\<close> succeeds exactly when the range does not wrap and every address is mapped writable for
  user mode. It never changes page tables, translations or any memory outside the writable user frames of
  the current address space; on success user memory holds the source bytes at the range, and every other
  byte of every address space is as before.
\<close>

theorem copy_to_user_correct:
  fixes s :: "'a vmm_state_scheme"
  assumes "upt_inv s lv" "lv (vmm_current_address_space s) = Some 4"
    and "user_dst \<noteq> 0" "len \<noteq> 0" "unat len \<le> length src" "copy_to_user s user_dst (Some src) len = (r, s')"
  shows "r = (if \<not> range_wraps user_dst len \<and>
        (\<forall>j < unat len. vmm_translate_user_addr s (vmm_current_address_space s) (user_dst + word_of_nat j) True \<noteq> None)
        then 0 else -1) \<and>
     upt_inv s' lv \<and> s' = s\<lparr>phys_mem := phys_mem s'\<rparr> \<and>
     (\<forall>t v w. lv (t AND PTE_ADDR_MASK) = Some 4 \<longrightarrow> vmm_translate_user_addr s' t v w = vmm_translate_user_addr s t v w) \<and>
     (\<forall>b. (\<forall>page. user_frame s (vmm_current_address_space s) True page \<noteq> Some (page_of b)) \<longrightarrow> phys_mem s' b = phys_mem s b) \<and>
     (r = 0 \<longrightarrow> (\<forall>t v. lv (t AND PTE_ADDR_MASK) = Some 4 \<longrightarrow> user_byte s' t v =
        (if t AND PTE_ADDR_MASK = vmm_current_address_space s \<and> unat (v - user_dst) < unat len
         then Some (src ! unat (v - user_dst)) else user_byte s t v)))"
proof (cases "range_wraps user_dst len")
  case True
  then have "r = -1 \<and> s' = s" using assms by (simp add: copy_to_user_def)
  then show ?thesis using True assms(1) by simp
next
  case False
  let ?cr3 = "vmm_current_address_space s"
  have m: "?cr3 AND PTE_ADDR_MASK = ?cr3" by (simp add: vmm_current_address_space_def and.assoc)
  have loop: "copy_to_user_loop s ?cr3 user_dst len src 0 = (r, s')" using assms False by (simp add: copy_to_user_def)
  have "lv (?cr3 AND PTE_ADDR_MASK) = Some 4" using assms(2) m by simp
  note spec = copy_to_user_loop_spec [OF assms(1) this assms(5) loop, unfolded m]
  note rest = spec [THEN conjunct2, THEN conjunct1] spec [THEN conjunct2, THEN conjunct2, unfolded unat_0 le0 simp_thms]
  show ?thesis
  proof (intro conjI)
    show "r = (if \<not> range_wraps user_dst len \<and>
        (\<forall>j < unat len. vmm_translate_user_addr s ?cr3 (user_dst + word_of_nat j) True \<noteq> None) then 0 else -1)"
      using spec [THEN conjunct1] False by (simp only: unat_0 simp_thms le0)
    show "r = 0 \<longrightarrow> (\<forall>t v. lv (t AND PTE_ADDR_MASK) = Some 4 \<longrightarrow> user_byte s' t v =
        (if t AND PTE_ADDR_MASK = ?cr3 \<and> unat (v - user_dst) < unat len
         then Some (src ! unat (v - user_dst)) else user_byte s t v))"
      using rest(2) [THEN conjunct2, THEN conjunct2, THEN conjunct1] by simp
  qed (rule rest(1) rest(2) [THEN conjunct1] rest(2) [THEN conjunct2, THEN conjunct1]
      rest(2) [THEN conjunct2, THEN conjunct2, THEN conjunct1] rest(2) [THEN conjunct2, THEN conjunct2, THEN conjunct2])+
qed

theorem copy_to_user_correct_witness:
  "\<exists>(s :: vmm_state) s'. copy_to_user s 0x400ffe (Some [7, 8]) 2 = (0, s') \<and>
     user_byte s' 0x1000 0x400fff = Some 8"
proof -
  obtain s lv where s: "user_example (s :: vmm_state) lv" using user_example_exists by blast
  have u: "upt_inv s lv" "lv (vmm_current_address_space s) = Some 4" "vmm_current_address_space s = 0x1000"
    using s by (auto simp: user_example_def vmm_current_address_space_def)
  obtain r s' where run: "copy_to_user s 0x400ffe (Some [7, 8]) 2 = (r, s')" by fastforce
  have "vmm_translate_user_addr s 0x1000 (0x400000 + off) True \<noteq> None" if "off < 4096" for off
    using s that by (simp add: user_example_def)
  from this [of "0xffe"] this [of "0xfff"]
  have tr: "vmm_translate_user_addr s 0x1000 0x400ffe True \<noteq> None" "vmm_translate_user_addr s 0x1000 0x400fff True \<noteq> None"
    by simp_all
  have wr: "\<forall>j < unat (2 :: u64). vmm_translate_user_addr s (vmm_current_address_space s) (0x400ffe + word_of_nat j) True \<noteq> None"
  proof (intro allI impI)
    fix j assume "j < unat (2 :: u64)"
    then have "j = 0 \<or> j = 1" by auto
    then show "vmm_translate_user_addr s (vmm_current_address_space s) (0x400ffe + word_of_nat j) True \<noteq> None"
      using tr by (elim disjE) (simp_all add: u(3))
  qed
  have nw: "\<not> range_wraps 0x400ffe 2" by (simp add: range_wraps_def)
  have len: "unat (2 :: u64) \<le> length [7, 8 :: u8]" by simp
  note c = copy_to_user_correct [OF u(1,2) _ _ len run]
  have r: "r = 0" using c wr nw by simp
  have "lv (0x1000 AND PTE_ADDR_MASK) = Some 4" using u(2,3) by simp
  then have "user_byte s' 0x1000 0x400fff = Some 8"
    using c r u(3) by simp
  then show ?thesis using run r by blast
qed

text \<open>
  C17: \<^verbatim>\<open>usercopy_validate_range\<close> accepts exactly the empty ranges and the ranges that do not wrap and whose
  addresses are all mapped for the requested kind of access.
\<close>

theorem usercopy_validate_range_iff:
  "usercopy_validate_range s p len w = 0 \<longleftrightarrow>
     len = 0 \<or> (\<not> range_wraps p len \<and>
       (\<forall>j < unat len. vmm_translate_user_addr s (vmm_current_address_space s) (p + word_of_nat j) w \<noteq> None))"
  by (simp add: usercopy_validate_range_def usercopy_validate_loop_iff)

theorem usercopy_validate_range_iff_witness:
  "\<exists>s :: vmm_state. usercopy_validate_range s 0x400ffe 2 True = 0 \<and> usercopy_validate_range s 0x800000000000 1 False \<noteq> 0"
proof -
  obtain s lv where s: "user_example (s :: vmm_state) lv" using user_example_exists by blast
  have c: "vmm_current_address_space s = 0x1000"
    using s by (auto simp: user_example_def vmm_current_address_space_def)
  have "vmm_translate_user_addr s 0x1000 (0x400000 + off) True \<noteq> None" if "off < 4096" for off
    using s that by (simp add: user_example_def)
  from this [of "0xffe"] this [of "0xfff"]
  have tr: "vmm_translate_user_addr s 0x1000 0x400ffe True \<noteq> None" "vmm_translate_user_addr s 0x1000 0x400fff True \<noteq> None"
    by simp_all
  have "vmm_translate_user_addr s 0x1000 (0x400ffe + word_of_nat j) True \<noteq> None" if "j < 2" for j
  proof -
    have "j = 0 \<or> j = 1" using that by auto
    then show ?thesis using tr by (elim disjE) simp_all
  qed
  then have "usercopy_validate_range s 0x400ffe 2 True = 0"
    unfolding usercopy_validate_range_iff c by (simp add: range_wraps_def)
  moreover have "usercopy_validate_range s 0x800000000000 1 False \<noteq> 0"
    unfolding usercopy_validate_range_iff c by (simp add: vmm_translate_user_addr_def)
  ultimately show ?thesis by blast
qed

end
