(* ===== verification/Vfs.thy ===== *)
theory Vfs
  imports C_Strings "HOL-Library.Sublist"
begin

text \<open>
  The virtual file system switch of \<^verbatim>\<open>vfs.c\<close>: the mount table, path matching, and the operations that
  try the matching file systems in mount order. A file system's function pointers are functions on a
  state of type \<open>'s\<close> that all file systems share; the \<^verbatim>\<open>context\<close> argument is part of the function, and a
  null function pointer is \<open>None\<close>. A path or buffer argument that may be null is an option.
\<close>

section \<open>The code\<close>

abbreviation VFS_MAX_FILESYSTEMS :: nat where "VFS_MAX_FILESYSTEMS \<equiv> 8"
abbreviation VFS_MAX_DIRENTS_PER_FS :: nat where "VFS_MAX_DIRENTS_PER_FS \<equiv> 64"
abbreviation VFS_DIRENT_NAME_MAX :: nat where "VFS_DIRENT_NAME_MAX \<equiv> 64"
abbreviation VFS_MOUNT_NAME_MAX :: nat where "VFS_MOUNT_NAME_MAX \<equiv> 32"
abbreviation VFS_MOUNT_PATH_MAX :: nat where "VFS_MOUNT_PATH_MAX \<equiv> 64"
abbreviation VFS_MOUNT_SOURCE_MAX :: nat where "VFS_MOUNT_SOURCE_MAX \<equiv> 64"
abbreviation VFS_DIRENT_TYPE_FILE :: u64 where "VFS_DIRENT_TYPE_FILE \<equiv> 1"
abbreviation VFS_DIRENT_TYPE_DIR :: u64 where "VFS_DIRENT_TYPE_DIR \<equiv> 2"
abbreviation VFS_DIRENT_TYPE_DEVICE :: u64 where "VFS_DIRENT_TYPE_DEVICE \<equiv> 3"

record vfs_dirent =
  de_name :: string
  de_type :: u64
  de_size :: u64

record vfs_mount_info =
  mi_name :: string
  mi_path :: string
  mi_source :: string
  mi_writable :: u64

type_synonym 's vfs_read_fn = "string \<Rightarrow> u64 \<Rightarrow> u8 list \<Rightarrow> u64 \<Rightarrow> 's \<Rightarrow> u64 \<times> u8 list \<times> 's"
type_synonym 's vfs_list_fn = "string \<Rightarrow> nat \<Rightarrow> 's \<Rightarrow> int \<times> vfs_dirent option \<times> 's"
type_synonym 's vfs_write_fn = "string \<Rightarrow> u64 \<Rightarrow> u8 list \<Rightarrow> u64 \<Rightarrow> 's \<Rightarrow> u64 \<times> 's"
type_synonym 's vfs_size_fn = "string \<Rightarrow> 's \<Rightarrow> u64 \<times> 's"
type_synonym 's vfs_truncate_fn = "string \<Rightarrow> u64 \<Rightarrow> 's \<Rightarrow> int \<times> 's"
type_synonym 's vfs_unlink_fn = "string \<Rightarrow> 's \<Rightarrow> int \<times> 's"

record 's vfs_filesystem =
  fs_name :: string
  fs_path :: string
  fs_source :: string
  fs_writable :: u64
  fs_read :: "'s vfs_read_fn"
  fs_list :: "'s vfs_list_fn option"
  fs_write :: "'s vfs_write_fn option"
  fs_size :: "'s vfs_size_fn option"
  fs_truncate :: "'s vfs_truncate_fn option"
  fs_unlink :: "'s vfs_unlink_fn option"

text \<open>The mount table: the first \<^verbatim>\<open>filesystem_count\<close> entries of the array.\<close>

type_synonym 's mount_table = "'s vfs_filesystem list"

fun strip_slashes :: "string \<Rightarrow> string" where
  "strip_slashes s =
     (if length s > 1 \<and> last s = CHR ''/'' then strip_slashes (butlast s) else s)"

declare strip_slashes.simps [simp del]

definition copy_mount_path :: "nat \<Rightarrow> string option \<Rightarrow> string" where
  "copy_mount_path dst_len src =
     strip_slashes (copy_limited dst_len
       (case src of None \<Rightarrow> ''/'' | Some p \<Rightarrow> if deref p = NUL then ''/'' else p))"

definition mount_path_matches :: "'s vfs_filesystem \<Rightarrow> string \<Rightarrow> bool" where
  "mount_path_matches fs path =
     (if deref path \<noteq> CHR ''/'' then False
      else if chars_equal (fs_path fs) ''/'' then True
      else let mount_len = string_length (fs_path fs) in
        (\<forall>i \<in> set [0..<mount_len]. char_at path i = char_at (fs_path fs) i) \<and>
        (char_at path mount_len = NUL \<or> char_at path mount_len = CHR ''/''))"

definition mount_local_path :: "'s vfs_filesystem \<Rightarrow> string \<Rightarrow> string" where
  "mount_local_path fs path =
     (if chars_equal (fs_path fs) ''/'' then path
      else let mount_len = string_length (fs_path fs) in
        if char_at path mount_len = NUL then ''/'' else drop mount_len path)"

text \<open>The position of the last slash after position 0, or 0.\<close>

definition last_slash :: "string \<Rightarrow> nat" where
  "last_slash p = fold (\<lambda>i slash. if char_at p i = CHR ''/'' then i else slash) [1..<string_length p] 0"

definition mount_parent_entry :: "'s vfs_filesystem \<Rightarrow> string \<Rightarrow> vfs_dirent option" where
  "mount_parent_entry fs path =
     (if chars_equal (fs_path fs) ''/'' then None
      else
        let slash = last_slash (fs_path fs);
            parent_len = (if slash = 0 then 1 else slash)
        in if string_length path \<noteq> parent_len then None
           else if parent_len = 1 then
             (if \<not> chars_equal path ''/'' then None
              else Some \<lparr>de_name = copy_limited VFS_DIRENT_NAME_MAX (drop 1 (fs_path fs)),
                         de_type = VFS_DIRENT_TYPE_DIR, de_size = 0\<rparr>)
           else if \<exists>i \<in> set [0..<parent_len]. char_at path i \<noteq> char_at (fs_path fs) i then None
           else Some \<lparr>de_name = copy_limited VFS_DIRENT_NAME_MAX (drop (slash + 1) (fs_path fs)),
                      de_type = VFS_DIRENT_TYPE_DIR, de_size = 0\<rparr>)"

definition vfs_init :: "'s mount_table \<Rightarrow> 's mount_table" where
  "vfs_init fss = []"

definition vfs_register_fs_mount ::
  "'s mount_table \<Rightarrow> string \<Rightarrow> string option \<Rightarrow> string option \<Rightarrow> 's vfs_read_fn option \<Rightarrow> 's vfs_list_fn option \<Rightarrow>
   's vfs_write_fn option \<Rightarrow> 's vfs_size_fn option \<Rightarrow> 's vfs_truncate_fn option \<Rightarrow> 's vfs_unlink_fn option \<Rightarrow>
   int \<times> 's mount_table" where
  "vfs_register_fs_mount fss name path source rd ls wr sz tr ul =
     (case rd of
        None \<Rightarrow> (-1, fss)
      | Some rd \<Rightarrow>
          if length fss \<ge> VFS_MAX_FILESYSTEMS then (-1, fss)
          else (0, fss @ [\<lparr>fs_name = copy_limited VFS_MOUNT_NAME_MAX name,
                           fs_path = copy_mount_path VFS_MOUNT_PATH_MAX path,
                           fs_source = copy_limited VFS_MOUNT_SOURCE_MAX (case source of None \<Rightarrow> [] | Some src \<Rightarrow> src),
                           fs_writable = (if wr = None then 0 else 1),
                           fs_read = rd, fs_list = ls, fs_write = wr, fs_size = sz,
                           fs_truncate = tr, fs_unlink = ul\<rparr>]))"

definition vfs_register_fs_ex ::
  "'s mount_table \<Rightarrow> string \<Rightarrow> 's vfs_read_fn option \<Rightarrow> 's vfs_list_fn option \<Rightarrow> 's vfs_write_fn option \<Rightarrow>
   's vfs_size_fn option \<Rightarrow> 's vfs_truncate_fn option \<Rightarrow> 's vfs_unlink_fn option \<Rightarrow> int \<times> 's mount_table" where
  "vfs_register_fs_ex fss name rd ls wr sz tr ul =
     vfs_register_fs_mount fss name (Some ''/'') (Some name) rd ls wr sz tr ul"

definition vfs_register_fs ::
  "'s mount_table \<Rightarrow> string \<Rightarrow> 's vfs_read_fn option \<Rightarrow> 's vfs_list_fn option \<Rightarrow> 's vfs_write_fn option \<Rightarrow>
   int \<times> 's mount_table" where
  "vfs_register_fs fss name rd ls wr = vfs_register_fs_ex fss name rd ls wr None None None"

definition vfs_register_readonly_fs ::
  "'s mount_table \<Rightarrow> string \<Rightarrow> 's vfs_read_fn option \<Rightarrow> 's vfs_list_fn option \<Rightarrow> int \<times> 's mount_table" where
  "vfs_register_readonly_fs fss name rd ls = vfs_register_fs_ex fss name rd ls None None None None"

definition vfs_mount_info :: "'s mount_table \<Rightarrow> u64 \<Rightarrow> vfs_mount_info option" where
  "vfs_mount_info fss index =
     (if unat index \<ge> length fss then None
      else let fs = fss ! unat index in
        Some \<lparr>mi_name = copy_limited VFS_MOUNT_NAME_MAX (fs_name fs),
              mi_path = copy_limited VFS_MOUNT_PATH_MAX (fs_path fs),
              mi_source = copy_limited VFS_MOUNT_SOURCE_MAX (fs_source fs),
              mi_writable = fs_writable fs\<rparr>)"

text \<open>
  The loops of \<^verbatim>\<open>vfs_list_dir\<close> stop with the entry they were looking for (\<open>Inl\<close>) or with the number of
  entries seen (\<open>Inr\<close>).
\<close>

fun list_mount_points :: "'s mount_table \<Rightarrow> string \<Rightarrow> nat \<Rightarrow> nat \<Rightarrow> vfs_dirent + nat" where
  "list_mount_points [] path index seen = Inr seen"
| "list_mount_points (fs # fss) path index seen =
     (case mount_parent_entry fs path of
        None \<Rightarrow> list_mount_points fss path index seen
      | Some candidate \<Rightarrow>
          if seen = index then Inl candidate else list_mount_points fss path index (seen + 1))"

fun list_one_fs ::
  "'s vfs_list_fn \<Rightarrow> string \<Rightarrow> nat list \<Rightarrow> nat \<Rightarrow> nat \<Rightarrow> 's \<Rightarrow> (vfs_dirent + nat) \<times> 's" where
  "list_one_fs ls local_path [] index seen s = (Inr seen, s)"
| "list_one_fs ls local_path (local_index # rest) index seen s =
     (case ls local_path local_index s of (result, candidate, s) \<Rightarrow>
        if result \<le> 0 then (Inr seen, s)
        else if seen = index then (Inl (the candidate), s)
        else list_one_fs ls local_path rest index (seen + 1) s)"

fun list_all_fs :: "'s mount_table \<Rightarrow> string \<Rightarrow> nat \<Rightarrow> nat \<Rightarrow> 's \<Rightarrow> vfs_dirent option \<times> 's" where
  "list_all_fs [] path index seen s = (None, s)"
| "list_all_fs (fs # fss) path index seen s =
     (case fs_list fs of
        None \<Rightarrow> list_all_fs fss path index seen s
      | Some ls \<Rightarrow>
          if \<not> mount_path_matches fs path then list_all_fs fss path index seen s
          else case list_one_fs ls (mount_local_path fs path) [0..<VFS_MAX_DIRENTS_PER_FS] index seen s of
            (Inl candidate, s) \<Rightarrow> (Some candidate, s)
          | (Inr seen, s) \<Rightarrow> list_all_fs fss path index seen s)"

definition vfs_list_dir ::
  "'s mount_table \<Rightarrow> string option \<Rightarrow> u64 \<Rightarrow> 's \<Rightarrow> int \<times> vfs_dirent option \<times> 's" where
  "vfs_list_dir fss path index s =
     (case path of
        None \<Rightarrow> (-1, None, s)
      | Some path \<Rightarrow>
          case list_mount_points fss path (unat index) 0 of
            Inl candidate \<Rightarrow> (1, Some candidate, s)
          | Inr seen \<Rightarrow>
              case list_all_fs fss path (unat index) seen s of
                (Some candidate, s) \<Rightarrow> (1, Some candidate, s)
              | (None, s) \<Rightarrow> (0, None, s))"

fun vfs_try_read :: "'s mount_table \<Rightarrow> string \<Rightarrow> u64 \<Rightarrow> u8 list \<Rightarrow> u64 \<Rightarrow> 's \<Rightarrow> u64 \<times> u8 list \<times> 's" where
  "vfs_try_read [] path offset buffer buffer_len s = (U64_FAIL, buffer, s)"
| "vfs_try_read (fs # fss) path offset buffer buffer_len s =
     (if \<not> mount_path_matches fs path then vfs_try_read fss path offset buffer buffer_len s
      else case fs_read fs (mount_local_path fs path) offset buffer buffer_len s of (result, buffer, s) \<Rightarrow>
        if result \<noteq> U64_FAIL then (result, buffer, s)
        else vfs_try_read fss path offset buffer buffer_len s)"

definition vfs_read_file ::
  "'s mount_table \<Rightarrow> string option \<Rightarrow> u64 \<Rightarrow> u8 list option \<Rightarrow> u64 \<Rightarrow> 's \<Rightarrow> u64 \<times> u8 list option \<times> 's" where
  "vfs_read_file fss path offset buffer buffer_len s =
     (case (path, buffer) of
        (Some path, Some buffer) \<Rightarrow>
          (case vfs_try_read fss path offset buffer buffer_len s of (r, b, s) \<Rightarrow> (r, Some b, s))
      | _ \<Rightarrow> (U64_FAIL, buffer, s))"

definition vfs_file_exists :: "'s mount_table \<Rightarrow> string option \<Rightarrow> 's \<Rightarrow> bool \<times> 's" where
  "vfs_file_exists fss path s =
     (case path of
        None \<Rightarrow> (False, s)
      | Some p \<Rightarrow> (case vfs_read_file fss path 0 (Some [0]) 0 s of (r, _, s) \<Rightarrow> (r \<noteq> U64_FAIL, s)))"

fun vfs_try_write :: "'s mount_table \<Rightarrow> string \<Rightarrow> u64 \<Rightarrow> u8 list \<Rightarrow> u64 \<Rightarrow> 's \<Rightarrow> u64 \<times> 's" where
  "vfs_try_write [] path offset buffer buffer_len s = (U64_FAIL, s)"
| "vfs_try_write (fs # fss) path offset buffer buffer_len s =
     (case fs_write fs of
        None \<Rightarrow> vfs_try_write fss path offset buffer buffer_len s
      | Some wr \<Rightarrow>
          if \<not> mount_path_matches fs path then vfs_try_write fss path offset buffer buffer_len s
          else case wr (mount_local_path fs path) offset buffer buffer_len s of (result, s) \<Rightarrow>
            if result \<noteq> U64_FAIL then (result, s)
            else vfs_try_write fss path offset buffer buffer_len s)"

definition vfs_write_file ::
  "'s mount_table \<Rightarrow> string option \<Rightarrow> u64 \<Rightarrow> u8 list option \<Rightarrow> u64 \<Rightarrow> 's \<Rightarrow> u64 \<times> 's" where
  "vfs_write_file fss path offset buffer buffer_len s =
     (case (path, buffer) of
        (Some path, Some buffer) \<Rightarrow> vfs_try_write fss path offset buffer buffer_len s
      | _ \<Rightarrow> (U64_FAIL, s))"

fun vfs_try_write_existing :: "'s mount_table \<Rightarrow> string \<Rightarrow> u64 \<Rightarrow> u8 list \<Rightarrow> u64 \<Rightarrow> 's \<Rightarrow> u64 \<times> 's" where
  "vfs_try_write_existing [] path offset buffer buffer_len s = (U64_FAIL, s)"
| "vfs_try_write_existing (fs # fss) path offset buffer buffer_len s =
     (case fs_write fs of
        None \<Rightarrow> vfs_try_write_existing fss path offset buffer buffer_len s
      | Some wr \<Rightarrow>
          if \<not> mount_path_matches fs path then vfs_try_write_existing fss path offset buffer buffer_len s
          else
            let local_path = mount_local_path fs path in
            case fs_read fs local_path 0 [0] 0 s of (present, _, s) \<Rightarrow>
              if present = U64_FAIL then vfs_try_write_existing fss path offset buffer buffer_len s
              else case wr local_path offset buffer buffer_len s of (result, s) \<Rightarrow>
                if result \<noteq> U64_FAIL then (result, s)
                else vfs_try_write_existing fss path offset buffer buffer_len s)"

definition vfs_write_existing_file ::
  "'s mount_table \<Rightarrow> string option \<Rightarrow> u64 \<Rightarrow> u8 list option \<Rightarrow> u64 \<Rightarrow> 's \<Rightarrow> u64 \<times> 's" where
  "vfs_write_existing_file fss path offset buffer buffer_len s =
     (case (path, buffer) of
        (Some path, Some buffer) \<Rightarrow> vfs_try_write_existing fss path offset buffer buffer_len s
      | _ \<Rightarrow> (U64_FAIL, s))"

fun vfs_try_size :: "'s mount_table \<Rightarrow> string \<Rightarrow> 's \<Rightarrow> u64 \<times> 's" where
  "vfs_try_size [] path s = (U64_FAIL, s)"
| "vfs_try_size (fs # fss) path s =
     (case fs_size fs of
        None \<Rightarrow> vfs_try_size fss path s
      | Some sz \<Rightarrow>
          if \<not> mount_path_matches fs path then vfs_try_size fss path s
          else case sz (mount_local_path fs path) s of (result, s) \<Rightarrow>
            if result \<noteq> U64_FAIL then (result, s) else vfs_try_size fss path s)"

definition vfs_file_size :: "'s mount_table \<Rightarrow> string option \<Rightarrow> 's \<Rightarrow> u64 \<times> 's" where
  "vfs_file_size fss path s =
     (case path of None \<Rightarrow> (U64_FAIL, s) | Some path \<Rightarrow> vfs_try_size fss path s)"

fun vfs_try_truncate :: "'s mount_table \<Rightarrow> string \<Rightarrow> u64 \<Rightarrow> 's \<Rightarrow> int \<times> 's" where
  "vfs_try_truncate [] path sz s = (-1, s)"
| "vfs_try_truncate (fs # fss) path sz s =
     (case fs_truncate fs of
        None \<Rightarrow> vfs_try_truncate fss path sz s
      | Some tr \<Rightarrow>
          if \<not> mount_path_matches fs path then vfs_try_truncate fss path sz s
          else case tr (mount_local_path fs path) sz s of (result, s) \<Rightarrow>
            if result = 0 then (0, s) else vfs_try_truncate fss path sz s)"

definition vfs_truncate_file :: "'s mount_table \<Rightarrow> string option \<Rightarrow> u64 \<Rightarrow> 's \<Rightarrow> int \<times> 's" where
  "vfs_truncate_file fss path sz s =
     (case path of None \<Rightarrow> (-1, s) | Some path \<Rightarrow> vfs_try_truncate fss path sz s)"

definition vfs_create_file :: "'s mount_table \<Rightarrow> string option \<Rightarrow> 's \<Rightarrow> int \<times> 's" where
  "vfs_create_file fss path s = vfs_truncate_file fss path 0 s"

fun vfs_try_unlink :: "'s mount_table \<Rightarrow> string \<Rightarrow> 's \<Rightarrow> int \<times> 's" where
  "vfs_try_unlink [] path s = (-1, s)"
| "vfs_try_unlink (fs # fss) path s =
     (case fs_unlink fs of
        None \<Rightarrow> vfs_try_unlink fss path s
      | Some ul \<Rightarrow>
          if \<not> mount_path_matches fs path then vfs_try_unlink fss path s
          else case ul (mount_local_path fs path) s of (result, s) \<Rightarrow>
            if result = 0 then (0, s) else vfs_try_unlink fss path s)"

definition vfs_unlink_file :: "'s mount_table \<Rightarrow> string option \<Rightarrow> 's \<Rightarrow> int \<times> 's" where
  "vfs_unlink_file fss path s =
     (case path of None \<Rightarrow> (-1, s) | Some path \<Rightarrow> vfs_try_unlink fss path s)"

section \<open>Path resolution\<close>

lemma strip_slashes_stop: "\<not> (length s > 1 \<and> last s = CHR ''/'') \<Longrightarrow> strip_slashes s = s"
  by (subst strip_slashes.simps) (rule if_not_P)

lemma strip_slashes_le: "length (strip_slashes s) \<le> length s"
  by (induction s rule: strip_slashes.induct) (subst strip_slashes.simps, auto)

lemma strip_slashes_no_trailing:
  "length (strip_slashes s) > 1 \<Longrightarrow> last (strip_slashes s) \<noteq> CHR ''/''"
proof (induction s rule: strip_slashes.induct)
  case (1 s)
  show ?case
  proof (cases "length s > 1 \<and> last s = CHR ''/''")
    case True
    then have "strip_slashes s = strip_slashes (butlast s)" by (subst strip_slashes.simps) simp
    then show ?thesis using 1 True by simp
  next
    case False
    then have "strip_slashes s = s" by (rule strip_slashes_stop)
    then show ?thesis using 1 False by simp
  qed
qed

lemma strip_slashes_deref: "deref (strip_slashes s) = deref s"
proof (induction s rule: strip_slashes.induct)
  case (1 s)
  show ?case
  proof (cases "length s > 1 \<and> last s = CHR ''/''")
    case True
    then have "strip_slashes s = strip_slashes (butlast s)" by (subst strip_slashes.simps) simp
    moreover have "deref (butlast s) = deref s" using True by (cases s) auto
    ultimately show ?thesis using 1 True by simp
  next
    case False
    then show ?thesis by (simp add: strip_slashes_stop)
  qed
qed

lemma strip_slashes_nul_free: "nul_free s \<Longrightarrow> nul_free (strip_slashes s)"
proof (induction s rule: strip_slashes.induct)
  case (1 s)
  then show ?case
    by (subst strip_slashes.simps) (auto simp: nul_free_def dest: in_set_butlastD)
qed

text \<open>The mount paths the table holds: absolute, at most 63 characters, no trailing slash but for the root.\<close>

definition mount_path_ok :: "string \<Rightarrow> bool" where
  "mount_path_ok p \<longleftrightarrow> nul_free p \<and> length p < VFS_MOUNT_PATH_MAX \<and> deref p = CHR ''/'' \<and>
     (p = ''/'' \<or> last p \<noteq> CHR ''/'')"

lemma copy_mount_path_ok:
  assumes "case src of None \<Rightarrow> True | Some p \<Rightarrow> deref p = CHR ''/'' \<or> deref p = NUL"
  shows "mount_path_ok (copy_mount_path VFS_MOUNT_PATH_MAX src)"
proof -
  define q where "q = copy_limited VFS_MOUNT_PATH_MAX
       (case src of None \<Rightarrow> ''/'' | Some p \<Rightarrow> if deref p = NUL then ''/'' else p)"
  have q: "nul_free q" "length q < VFS_MOUNT_PATH_MAX" by (simp_all add: q_def copy_limited_length)
  have "deref q = CHR ''/''"
    using assms unfolding q_def copy_limited_eq
    by (cases src) (auto simp: deref_def numeral_eq_Suc split: list.splits)
  moreover have "copy_mount_path VFS_MOUNT_PATH_MAX src = strip_slashes q"
    by (simp add: copy_mount_path_def q_def)
  ultimately show ?thesis
    using q strip_slashes_le [of q] strip_slashes_no_trailing [of q]
      strip_slashes_deref [of q] strip_slashes_nul_free [of q]
    by (auto simp: mount_path_ok_def) (cases "strip_slashes q"; auto)+
qed

text \<open>A path lies under a mount point when it is the mount point or continues it with a slash.\<close>

definition under_mount :: "string \<Rightarrow> string \<Rightarrow> bool" where
  "under_mount m p \<longleftrightarrow> deref p = CHR ''/'' \<and> (m = ''/'' \<or> p = m \<or> prefix (m @ ''/'') p)"

lemma char_at_all_take:
  assumes "nul_free a" "nul_free b"
  shows "(\<forall>i \<in> {0..<length b}. char_at a i = char_at b i) \<longleftrightarrow> take (length b) a = b"
  using chars_equal_n_take [OF assms(1) order_refl assms(2)] by (simp add: chars_equal_n_def)

lemma mount_path_matches_iff:
  assumes "mount_path_ok (fs_path fs)" "nul_free p"
  shows "mount_path_matches fs p \<longleftrightarrow> under_mount (fs_path fs) p"
proof (cases "fs_path fs = ''/''")
  case True
  then show ?thesis by (simp add: mount_path_matches_def under_mount_def chars_equal_iff)
next
  case False
  define m where "m = fs_path fs"
  have m: "nul_free m" "m \<noteq> ''/''" using assms False by (simp_all add: mount_path_ok_def m_def)
  have "take (length m) p = m \<and> (char_at p (length m) = NUL \<or> char_at p (length m) = CHR ''/'')
      \<longleftrightarrow> p = m \<or> prefix (m @ ''/'') p" (is "?l \<longleftrightarrow> ?r")
  proof
    assume ?l
    then have t: "take (length m) p = m" by simp
    then have p: "p = m @ drop (length m) p" by (metis append_take_drop_id)
    show ?r
    proof (cases "drop (length m) p")
      case Nil
      then show ?thesis using p by simp
    next
      case (Cons c r)
      then have "char_at p (length m) = c" using p by (metis char_at_def length_append length_Cons less_add_Suc1 nth_append_length add_Suc_right)
      moreover have "c \<noteq> NUL" using Cons assms(2) p by (metis nul_free_simps(2,3))
      ultimately have "c = CHR ''/''" using \<open>?l\<close> by simp
      then show ?thesis using p Cons by (metis append.assoc append_Cons append_Nil prefixI)
    qed
  next
    assume ?r
    then show ?l by (auto simp: char_at_def prefix_def nth_append)
  qed
  then show ?thesis
    using m assms(2) False
    by (auto simp: mount_path_matches_def under_mount_def chars_equal_iff string_length_eq Let_def
        char_at_all_take m_def)
qed

lemma mount_local_path_eq:
  assumes "mount_path_ok (fs_path fs)" "nul_free p" "mount_path_matches fs p"
  shows "mount_local_path fs p =
    (if fs_path fs = ''/'' then p else if p = fs_path fs then ''/'' else drop (length (fs_path fs)) p)"
  using assms(1,2) assms(3) [unfolded mount_path_matches_iff [OF assms(1,2)]]
  by (auto simp: mount_local_path_def mount_path_ok_def chars_equal_iff string_length_eq Let_def
      under_mount_def prefix_def char_at_def nth_append)

section \<open>The contract of a file system\<close>

text \<open>
  What a read of \<open>len\<close> bytes at \<open>off\<close> gives, when the file is absent (\<open>None\<close>) or has the contents \<open>d\<close>.
\<close>

definition read_count :: "u8 list \<Rightarrow> u64 \<Rightarrow> u64 \<Rightarrow> nat" where
  "read_count d off len = min (unat len) (length d - unat off)"

definition read_result :: "u8 list option \<Rightarrow> u64 \<Rightarrow> u8 list \<Rightarrow> u64 \<Rightarrow> 's \<Rightarrow> u64 \<times> u8 list \<times> 's" where
  "read_result f off buf len s =
     (case f of
        None \<Rightarrow> (U64_FAIL, buf, s)
      | Some d \<Rightarrow> (of_nat (read_count d off len),
                  copy_bytes buf 0 (drop (unat off) d) (read_count d off len), s))"

lemma read_count_lt: "length d < 2 ^ 64 - 1 \<Longrightarrow> read_count d off len < 2 ^ 64 - 1"
  by (auto simp: read_count_def)

lemma of_nat_not_fail: "n < 2 ^ 64 - 1 \<Longrightarrow> (of_nat n :: u64) \<noteq> U64_FAIL"
proof
  assume n: "n < 2 ^ 64 - 1" and eq: "(of_nat n :: u64) = U64_FAIL"
  have "unat (of_nat n :: u64) = n" using n by (simp add: unat_of_nat take_bit_nat_eq_self)
  moreover have "unat (U64_FAIL) = 2 ^ 64 - 1"
    by (simp only: unsigned_minus_1_eq_mask mask_eq_exp_minus_1) simp
  ultimately show False using n eq by simp
qed

text \<open>A file system that can be read: each path names a file or nothing, and reading changes nothing.\<close>

locale vfs_reader =
  fixes rd :: "'s vfs_read_fn" and ok :: "'s \<Rightarrow> bool" and file_of :: "'s \<Rightarrow> string \<Rightarrow> u8 list option"
  assumes rd_spec: "ok s \<Longrightarrow> nul_free p \<Longrightarrow> rd p off buf len s = read_result (file_of s p) off buf len s"
    and file_small: "ok s \<Longrightarrow> file_of s p = Some d \<Longrightarrow> length d < 2 ^ 64 - 1"
begin

lemma rd_missing: "ok s \<Longrightarrow> nul_free p \<Longrightarrow> file_of s p = None \<Longrightarrow> rd p off buf len s = (U64_FAIL, buf, s)"
  by (simp add: rd_spec read_result_def)

lemma rd_fails_iff:
  assumes "ok s" "nul_free p"
  shows "fst (rd p off buf len s) = U64_FAIL \<longleftrightarrow> file_of s p = None"
  using assms file_small of_nat_not_fail read_count_lt
  by (auto simp: rd_spec read_result_def split: option.splits)

lemma rd_state: "ok s \<Longrightarrow> nul_free p \<Longrightarrow> snd (snd (rd p off buf len s)) = s"
  by (simp add: rd_spec read_result_def split: option.splits)

text \<open>A read that fits into the buffer delivers the bytes of the file from the offset on.\<close>

lemma rd_bytes:
  assumes "ok s" "nul_free p" "file_of s p = Some d" "rd p off buf len s = (r, buf', s')" "unat len \<le> length buf"
  shows "unat r = read_count d off len" "take (unat r) buf' = take (unat r) (drop (unat off) d)"
    "drop (unat r) buf' = drop (unat r) buf"
proof -
  define n where "n = read_count d off len"
  have n: "n < 2 ^ 64" using file_small [OF assms(1,3)] by (simp add: n_def read_count_def)
  have r: "r = of_nat n" "buf' = copy_bytes buf 0 (drop (unat off) d) n"
    using assms by (simp_all add: rd_spec read_result_def n_def)
  show u: "unat r = read_count d off len" using n by (simp add: r n_def [symmetric] unat_of_nat take_bit_nat_eq_self)
  have le: "n \<le> length buf" "n \<le> length d - unat off" using assms(5) by (auto simp: n_def read_count_def)
  have b: "buf' = take n (drop (unat off) d) @ drop n buf" using le by (simp add: r copy_bytes_eq)
  have un: "unat r = n" using u by (simp add: n_def)
  show "take (unat r) buf' = take (unat r) (drop (unat off) d)" "drop (unat r) buf' = drop (unat r) buf"
    using le by (simp_all add: b un)
qed

end

text \<open>A directory listing by index.\<close>

definition list_result :: "vfs_dirent list option \<Rightarrow> nat \<Rightarrow> 's \<Rightarrow> int \<times> vfs_dirent option \<times> 's" where
  "list_result es i s =
     (case es of
        None \<Rightarrow> (-1, None, s)
      | Some es \<Rightarrow> if i < length es then (1, Some (es ! i), s) else (0, None, s))"

text \<open>The entries of a directory, none when it is missing.\<close>

definition dir_entries :: "vfs_dirent list option \<Rightarrow> vfs_dirent list" where
  "dir_entries es = (case es of None \<Rightarrow> [] | Some es \<Rightarrow> es)"

locale vfs_lister =
  fixes ls :: "'s vfs_list_fn" and ok :: "'s \<Rightarrow> bool" and dir_of :: "'s \<Rightarrow> string \<Rightarrow> vfs_dirent list option"
  assumes ls_spec: "ok s \<Longrightarrow> nul_free p \<Longrightarrow> ls p i s = list_result (dir_of s p) i s"
begin

lemma list_one_fs_eq:
  assumes "ok s" "nul_free p"
  shows "list_one_fs ls p [k..<k + n] index seen s =
     (if seen \<le> index \<and> index - seen < length (take n (drop k (dir_entries (dir_of s p))))
      then (Inl (take n (drop k (dir_entries (dir_of s p))) ! (index - seen)), s)
      else (Inr (seen + length (take n (drop k (dir_entries (dir_of s p))))), s))"
proof (induction n arbitrary: k seen)
  case 0
  then show ?case by simp
next
  case (Suc n)
  have up: "[k..<k + Suc n] = k # [Suc k..<Suc k + n]" by (simp add: upt_conv_Cons)
  show ?case
  proof (cases "k < length (dir_entries (dir_of s p))")
    case False
    then have "fst (ls p k s) \<le> 0" "snd (snd (ls p k s)) = s"
      using assms by (auto simp: ls_spec list_result_def dir_entries_def split: option.splits)
    then obtain r c where "ls p k s = (r, c, s)" "r \<le> 0" by (cases "ls p k s") auto
    then show ?thesis using False unfolding up by simp
  next
    case True
    define e where "e = dir_entries (dir_of s p) ! k"
    have ls: "ls p k s = (1, Some e, s)"
      using assms True by (auto simp: ls_spec list_result_def dir_entries_def e_def split: option.splits)
    have d: "drop k (dir_entries (dir_of s p)) = e # drop (Suc k) (dir_entries (dir_of s p))"
      using True by (simp add: e_def Cons_nth_drop_Suc)
    show ?thesis
      unfolding up d list_one_fs.simps ls
      using Suc.IH [of "Suc k" "Suc seen"]
      by (cases "seen = index") (auto simp: nth_Cons' Suc_diff_le not_less_eq_eq)
  qed
qed

end

text \<open>
  A mount table of file systems that meet the contracts. The table itself is then a readable file
  system: a path names the file of the first mount, in mount order, that lies above it and has it.
\<close>

fun resolve_file :: "('s vfs_filesystem \<times> ('s \<Rightarrow> string \<Rightarrow> u8 list option)) list \<Rightarrow> 's \<Rightarrow> string \<Rightarrow> u8 list option" where
  "resolve_file [] s p = None"
| "resolve_file ((fs, file_of) # t) s p =
     (case (if mount_path_matches fs p then file_of s (mount_local_path fs p) else None) of
        Some d \<Rightarrow> Some d
      | None \<Rightarrow> resolve_file t s p)"

lemma nul_free_mount_local_path [simp]: "nul_free p \<Longrightarrow> nul_free (mount_local_path fs p)"
  by (simp add: mount_local_path_def Let_def)

lemma vfs_reader_table:
  assumes "\<And>fs f. (fs, f) \<in> set t \<Longrightarrow> vfs_reader (fs_read fs) ok f"
  shows "vfs_reader (vfs_try_read (map fst t)) ok (resolve_file t)"
  using assms
proof (induction t)
  case Nil
  show ?case by unfold_locales (simp_all add: read_result_def)
next
  case (Cons x t)
  obtain fs f where x: "x = (fs, f)" by (cases x) auto
  have h: "vfs_reader (fs_read fs) ok f" and t: "vfs_reader (vfs_try_read (map fst t)) ok (resolve_file t)"
    using Cons by (auto simp: x)
  show ?case
  proof (unfold_locales, goal_cases)
    case (1 s p off buf len)
    show ?case
    proof (cases "mount_path_matches fs p")
      case True
      note hs = vfs_reader.rd_spec [OF h 1(1) nul_free_mount_local_path [OF 1(2)]]
        vfs_reader.file_small [OF h 1(1)] vfs_reader.rd_spec [OF t 1]
      show ?thesis
        using True hs(2) of_nat_not_fail read_count_lt
        by (auto simp: x hs(1,3) read_result_def split: option.splits)
    next
      case False
      then show ?thesis using vfs_reader.rd_spec [OF t 1] by (simp add: x)
    qed
  next
    case (2 s p d)
    then show ?case
      using vfs_reader.file_small [OF h] vfs_reader.file_small [OF t]
      by (auto simp: x split: option.splits if_splits)
  qed
qed

text \<open>
  The directory of the table: the mount points whose parent it is, then the entries of every mount
  above it, at most 64 of each.
\<close>

definition mount_entries :: "'s mount_table \<Rightarrow> string \<Rightarrow> vfs_dirent list" where
  "mount_entries fss p = List.map_filter (\<lambda>fs. mount_parent_entry fs p) fss"

fun fs_entries :: "('s vfs_filesystem \<times> ('s \<Rightarrow> string \<Rightarrow> vfs_dirent list option)) list \<Rightarrow> 's \<Rightarrow> string \<Rightarrow> vfs_dirent list" where
  "fs_entries [] s p = []"
| "fs_entries ((fs, dir_of) # t) s p =
     (if fs_list fs \<noteq> None \<and> mount_path_matches fs p
      then take VFS_MAX_DIRENTS_PER_FS (dir_entries (dir_of s (mount_local_path fs p))) else []) @ fs_entries t s p"

lemma list_mount_points_eq:
  "seen \<le> index \<Longrightarrow> list_mount_points fss p index seen =
     (if index - seen < length (mount_entries fss p) then Inl (mount_entries fss p ! (index - seen))
      else Inr (seen + length (mount_entries fss p)))"
proof (induction fss arbitrary: seen)
  case Nil
  then show ?case by (simp add: mount_entries_def map_filter_simps)
next
  case (Cons fs fss)
  then show ?case
    by (cases "mount_parent_entry fs p"; cases "seen = index")
       (auto simp: mount_entries_def map_filter_simps nth_Cons' not_less_eq_eq Suc_diff_le)
qed

lemma list_all_fs_eq:
  assumes "\<And>fs f ls. (fs, f) \<in> set t \<Longrightarrow> fs_list fs = Some ls \<Longrightarrow> vfs_lister ls ok f"
    and "ok s" "nul_free p" "seen \<le> index"
  shows "list_all_fs (map fst t) p index seen s =
    (if index - seen < length (fs_entries t s p) then (Some (fs_entries t s p ! (index - seen)), s) else (None, s))"
  using assms(1,4)
proof (induction t arbitrary: seen)
  case Nil
  then show ?case by simp
next
  case (Cons x t)
  obtain fs f where x: "x = (fs, f)" by (cases x) auto
  have IH: "list_all_fs (map fst t) p index seen s =
    (if index - seen < length (fs_entries t s p) then (Some (fs_entries t s p ! (index - seen)), s) else (None, s))"
    if "seen \<le> index" for seen
    by (rule Cons.IH) (use Cons.prems(1) that in auto)
  show ?case
  proof (cases "fs_list fs \<noteq> None \<and> mount_path_matches fs p")
    case False
    then show ?thesis using IH [of seen] Cons.prems by (auto simp: x split: option.splits)
  next
    case True
    then obtain ls where ls: "fs_list fs = Some ls" by auto
    have "vfs_lister ls ok f" by (rule Cons.prems(1) [OF _ ls]) (simp add: x)
    note one = vfs_lister.list_one_fs_eq [OF this assms(2), where k = 0 and n = 64 and p = "mount_local_path fs p"]
    define es where "es = take 64 (dir_entries (f s (mount_local_path fs p)))"
    have e: "fs_entries (x # t) s p = es @ fs_entries t s p" using True by (simp add: x es_def)
    have "list_one_fs ls (mount_local_path fs p) [0..<64] index seen s =
        (if index - seen < length es then (Inl (es ! (index - seen)), s) else (Inr (seen + length es), s))"
      using one assms(3) Cons.prems(2) by (simp only: es_def add_0 drop_0 nul_free_mount_local_path simp_thms)
    then have step: "list_all_fs (map fst (x # t)) p index seen s =
        (if index - seen < length es then (Some (es ! (index - seen)), s)
         else list_all_fs (map fst t) p index (seen + length es) s)"
      using True ls by (simp del: upt_rec_numeral add: x)
    show ?thesis
      unfolding step e using IH [of "seen + length es"] Cons.prems(2)
      by (auto simp: nth_append)
  qed
qed

section \<open>Writable file systems\<close>

text \<open>The contents after writing \<open>new\<close> at \<open>off\<close>: a gap past the end is filled with zeros.\<close>

definition overwrite :: "u8 list \<Rightarrow> nat \<Rightarrow> u8 list \<Rightarrow> u8 list" where
  "overwrite d off new = take off (d @ replicate (off - length d) 0) @ new @ drop (off + length new) d"

definition resize :: "u8 list \<Rightarrow> nat \<Rightarrow> u8 list" where
  "resize d n = take n (d @ replicate (n - length d) 0)"

definition contents :: "u8 list option \<Rightarrow> u8 list" where
  "contents f = (case f of None \<Rightarrow> [] | Some d \<Rightarrow> d)"

lemma length_overwrite: "length (overwrite d off new) = max (off + length new) (length d)"
  by (simp add: overwrite_def)

lemma length_resize [simp]: "length (resize d n) = n"
  by (simp add: resize_def)

lemma drop_overwrite: "take (length new) (drop off (overwrite d off new)) = new"
  by (simp add: overwrite_def)

lemma overwrite_append: "overwrite d (length d) new = d @ new"
  by (simp add: overwrite_def)

locale vfs_writer = vfs_reader rd ok file_of
  for rd :: "'s vfs_read_fn" and ok :: "'s \<Rightarrow> bool" and file_of :: "'s \<Rightarrow> string \<Rightarrow> u8 list option" +
  fixes wr :: "'s vfs_write_fn" and sz :: "'s vfs_size_fn" and tr :: "'s vfs_truncate_fn" and ul :: "'s vfs_unlink_fn"
  assumes wr_spec: "ok s \<Longrightarrow> nul_free p \<Longrightarrow> unat len \<le> length buf \<Longrightarrow> wr p off buf len s = (r, s') \<Longrightarrow>
      r = U64_FAIL \<and> s' = s \<or>
      r = len \<and> r \<noteq> U64_FAIL \<and> ok s' \<and>
      file_of s' = (file_of s)(p \<mapsto> overwrite (contents (file_of s p)) (unat off) (take (unat len) buf))"
    and sz_spec: "ok s \<Longrightarrow> nul_free p \<Longrightarrow>
      sz p s = (case file_of s p of None \<Rightarrow> U64_FAIL | Some d \<Rightarrow> of_nat (length d), s)"
    and tr_spec: "ok s \<Longrightarrow> nul_free p \<Longrightarrow> tr p n s = (i, s') \<Longrightarrow>
      i \<noteq> 0 \<and> s' = s \<or>
      i = 0 \<and> ok s' \<and> file_of s' = (file_of s)(p \<mapsto> resize (contents (file_of s p)) (unat n))"
    and ul_spec: "ok s \<Longrightarrow> nul_free p \<Longrightarrow> ul p s = (i, s') \<Longrightarrow>
      i \<noteq> 0 \<and> s' = s \<or>
      i = 0 \<and> file_of s p \<noteq> None \<and> ok s' \<and> file_of s' = (file_of s)(p := None)"
begin

lemma wr_keeps: "ok s \<Longrightarrow> nul_free p \<Longrightarrow> unat len \<le> length buf \<Longrightarrow> ok (snd (wr p off buf len s))"
  using wr_spec [of s p len buf off "fst (wr p off buf len s)" "snd (wr p off buf len s)"] by auto

lemma tr_keeps: "ok s \<Longrightarrow> nul_free p \<Longrightarrow> ok (snd (tr p n s))"
  using tr_spec [of s p n "fst (tr p n s)" "snd (tr p n s)"] by auto

lemma ul_keeps: "ok s \<Longrightarrow> nul_free p \<Longrightarrow> ok (snd (ul p s))"
  using ul_spec [of s p "fst (ul p s)" "snd (ul p s)"] by auto

lemma wr_rd:
  assumes "ok s" "nul_free p" "unat len \<le> length buf" "wr p off buf len s = (r, s')" "r \<noteq> U64_FAIL"
    and "unat len \<le> length buf2"
  shows "rd p off buf2 len s' = (len, take (unat len) buf @ drop (unat len) buf2, s')"
proof -
  define d where "d = overwrite (contents (file_of s p)) (unat off) (take (unat len) buf)"
  have w: "r = len" "ok s'" "file_of s' p = Some d"
    using wr_spec [OF assms(1-4)] assms(5) by (auto simp: d_def)
  have l: "length (take (unat len) buf) = unat len" using assms(3) by simp
  have c: "read_count d off len = unat len"
    unfolding read_count_def d_def length_overwrite l by simp
  have "take (unat len) (drop (unat off) d) = take (unat len) buf"
    using drop_overwrite [of "take (unat len) buf"] unfolding d_def l by simp
  moreover have "unat len \<le> length (drop (unat off) d)" using c by (auto simp: read_count_def)
  ultimately show ?thesis
    using rd_spec [OF w(2) assms(2), of off buf2 len] assms(6)
    by (simp add: read_result_def w(3) c copy_bytes_eq)
qed

lemma wr_sz:
  assumes "ok s" "nul_free p" "unat len \<le> length buf" "wr p off buf len s = (r, s')" "r \<noteq> U64_FAIL"
  shows "sz p s' = (of_nat (max (unat off + unat len) (length (contents (file_of s p)))), s')"
  using wr_spec [OF assms(1-4)] assms(2,3,5) by (auto simp: sz_spec length_overwrite min_def)

lemma ul_rd:
  assumes "ok s" "nul_free p" "ul p s = (0, s')"
  shows "rd p off buf len s' = (U64_FAIL, buf, s')"
  using ul_spec [OF assms] assms(2) by (auto simp: rd_missing)

end

section \<open>Properties\<close>

text \<open>The mount table is well formed.\<close>

definition mounts_ok :: "'s mount_table \<Rightarrow> bool" where
  "mounts_ok fss \<longleftrightarrow> length fss \<le> VFS_MAX_FILESYSTEMS \<and>
     list_all (\<lambda>fs. mount_path_ok (fs_path fs) \<and>
        nul_free (fs_name fs) \<and> length (fs_name fs) < VFS_MOUNT_NAME_MAX \<and>
        nul_free (fs_source fs) \<and> length (fs_source fs) < VFS_MOUNT_SOURCE_MAX \<and>
        (fs_writable fs = 1 \<longleftrightarrow> fs_write fs \<noteq> None) \<and> (fs_writable fs = 0 \<longleftrightarrow> fs_write fs = None)) fss"

text \<open>
  C19: Mounting keeps the table well formed: at most eight file systems, every name and path terminated
  inside its array, every mount path absolute and without a trailing slash, the writable flag set
  exactly for file systems with a write function. It succeeds exactly when a read function is given
  and a slot is free, and then appends one entry; otherwise the table is unchanged.
\<close>

theorem vfs_register_fs_mount_table:
  assumes "mounts_ok fss" "case path of None \<Rightarrow> True | Some p \<Rightarrow> deref p = CHR ''/'' \<or> deref p = NUL"
    and "vfs_register_fs_mount fss name path source rd ls wr sz tr ul = (r, fss')"
  shows "mounts_ok fss' \<and>
    (if rd \<noteq> None \<and> length fss < VFS_MAX_FILESYSTEMS
     then r = 0 \<and> (\<exists>fs. fss' = fss @ [fs] \<and> Some (fs_read fs) = rd \<and> fs_list fs = ls \<and> fs_write fs = wr)
     else r = -1 \<and> fss' = fss)"
  using assms(1,3) copy_mount_path_ok [OF assms(2)]
  by (auto simp: vfs_register_fs_mount_def mounts_ok_def copy_limited_length split: option.splits if_splits)

theorem vfs_register_fs_mount_table_witness:
  "mounts_ok (snd (vfs_register_fs_mount [] ''fs'' (Some ''/mnt///'') None (Some (\<lambda>p off b n s. (0, b, s :: unit))) None None None None None))"
  using vfs_register_fs_mount_table [of "[] :: unit mount_table" "Some ''/mnt///''" "''fs''" None
      "Some (\<lambda>p off b n s. (0, b, s))" None None None None None, OF _ _ surjective_pairing]
  by (simp add: mounts_ok_def)

text \<open>
  C20: A mount is selected for a path exactly when the path is absolute and is the mount point or lies below
  it, component-wise (\<^verbatim>\<open>/devices\<close> is not below \<^verbatim>\<open>/dev\<close>); the path handed to the file system is absolute and
  is the rest of the path, or \<^verbatim>\<open>/\<close> for the mount point itself.
\<close>

theorem vfs_path_resolution:
  assumes "mount_path_ok (fs_path fs)" "nul_free p"
  shows "(mount_path_matches fs p \<longleftrightarrow> under_mount (fs_path fs) p) \<and>
    (mount_path_matches fs p \<longrightarrow>
      deref (mount_local_path fs p) = CHR ''/'' \<and>
      (if fs_path fs = ''/'' then mount_local_path fs p = p
       else if p = fs_path fs then mount_local_path fs p = ''/''
       else p = fs_path fs @ mount_local_path fs p))"
  using mount_path_matches_iff [OF assms] mount_local_path_eq [OF assms]
  by (auto simp: under_mount_def prefix_def)

theorem vfs_path_resolution_witness:
  "mount_local_path (\<lparr>fs_name = [], fs_path = ''/dev'', fs_source = [], fs_writable = 0, fs_read = \<lambda>p off b n s. (0, b, s :: unit),
     fs_list = None, fs_write = None, fs_size = None, fs_truncate = None, fs_unlink = None\<rparr>) ''/dev/tty'' = ''/tty'' \<and>
   \<not> mount_path_matches (\<lparr>fs_name = [], fs_path = ''/dev'', fs_source = [], fs_writable = 0, fs_read = \<lambda>p off b n s. (0, b, s :: unit),
     fs_list = None, fs_write = None, fs_size = None, fs_truncate = None, fs_unlink = None\<rparr>) ''/devices''"
proof -
  define fs :: "unit vfs_filesystem" where "fs = \<lparr>fs_name = [], fs_path = ''/dev'', fs_source = [], fs_writable = 0, fs_read = \<lambda>p off b n s. (0, b, s :: unit),
     fs_list = None, fs_write = None, fs_size = None, fs_truncate = None, fs_unlink = None\<rparr>"
  have p: "fs_path fs = ''/dev''" "mount_path_ok ''/dev''" by (simp_all add: fs_def mount_path_ok_def)
  show ?thesis
    using vfs_path_resolution [of fs "''/dev/tty''"] vfs_path_resolution [of fs "''/devices''"]
    unfolding fs_def [symmetric] by (simp add: p under_mount_def)
qed

end
