(* ===== verification/Devfs.thy ===== *)
theory Devfs
  imports Vfs
begin

text \<open>The device file system of \<^verbatim>\<open>devfs.c\<close>, whose only entry is the terminal, and the terminal's path of \<^verbatim>\<open>tty.c\<close>.\<close>

section \<open>The code\<close>

definition tty_is_path :: "string option \<Rightarrow> bool" where
  "tty_is_path path = strings_equal path (Some ''/dev/tty'')"

definition devfs_read :: "'s vfs_read_fn" where
  "devfs_read path offset buffer buffer_len s =
     (if tty_is_path (Some path) \<or> chars_equal path ''/tty'' then (0, buffer, s) else (U64_FAIL, buffer, s))"

definition devfs_list :: "'s vfs_list_fn" where
  "devfs_list path index s =
     (if chars_equal path ''/'' then
        (if index > 0 then (0, None, s)
         else (1, Some \<lparr>de_name = copy_limited VFS_DIRENT_NAME_MAX ''tty'', de_type = VFS_DIRENT_TYPE_DEVICE, de_size = 0\<rparr>, s))
      else (-1, None, s))"

definition devfs_init :: "'s mount_table \<Rightarrow> 's mount_table" where
  "devfs_init fss =
     snd (vfs_register_fs_mount fss ''devfs'' (Some ''/dev'') (Some ''kernel-devices'')
            (Some devfs_read) (Some devfs_list) None None None None)"

section \<open>It meets the contracts\<close>

text \<open>The terminal reads as an empty file.\<close>

definition devfs_file :: "'s \<Rightarrow> string \<Rightarrow> u8 list option" where
  "devfs_file s p = (if p = ''/dev/tty'' \<or> p = ''/tty'' then Some [] else None)"

definition devfs_dir :: "'s \<Rightarrow> string \<Rightarrow> vfs_dirent list option" where
  "devfs_dir s p =
     (if p = ''/'' then Some [\<lparr>de_name = ''tty'', de_type = VFS_DIRENT_TYPE_DEVICE, de_size = 0\<rparr>] else None)"

interpretation devfs: vfs_reader devfs_read "\<lambda>_. True" devfs_file
  by unfold_locales
     (auto simp: devfs_read_def tty_is_path_def chars_equal_iff read_result_def devfs_file_def read_count_def split: if_splits)

interpretation devfs: vfs_lister devfs_list "\<lambda>_. True" devfs_dir
  by unfold_locales
     (auto simp: devfs_list_def chars_equal_iff list_result_def devfs_dir_def copy_limited_eq numeral_eq_Suc)

end
