(* ===== verification/Block_Device.thy ===== *)
theory Block_Device
  imports C_Strings
begin

text \<open>
  The block layer of \<^verbatim>\<open>block.c\<close> with its memory disk, and the MBR partitions of \<^verbatim>\<open>partition.c\<close>. A read or write
  function pointer together with its context is a \<open>driver\<close> tag: the memory disk, a partition with the
  parent device and start block of its \<^verbatim>\<open>partition_context\<close>, or one of the other drivers (virtio, USB
  storage), which are parameters.
\<close>

section \<open>The code\<close>

abbreviation BLOCK_DEVICE_NAME_MAX :: nat where "BLOCK_DEVICE_NAME_MAX \<equiv> 32"
abbreviation BLOCK_MAX_DEVICES :: nat where "BLOCK_MAX_DEVICES \<equiv> 16"
abbreviation RAMDISK_BLOCK_SIZE :: u64 where "RAMDISK_BLOCK_SIZE \<equiv> 512"
abbreviation RAMDISK_BLOCK_COUNT :: u64 where "RAMDISK_BLOCK_COUNT \<equiv> 64"
abbreviation PARTITION_MAX_DEVICES :: nat where "PARTITION_MAX_DEVICES \<equiv> 16"
abbreviation MBR_SIGNATURE_OFFSET :: nat where "MBR_SIGNATURE_OFFSET \<equiv> 510"
abbreviation MBR_PARTITION_TABLE_OFFSET :: nat where "MBR_PARTITION_TABLE_OFFSET \<equiv> 446"
abbreviation MBR_PARTITION_ENTRY_SIZE :: nat where "MBR_PARTITION_ENTRY_SIZE \<equiv> 16"
abbreviation MBR_PRIMARY_PARTITIONS :: nat where "MBR_PRIMARY_PARTITIONS \<equiv> 4"

datatype driver = RamdiskDriver | PartitionDriver (dr_parent: u64) (dr_start: u64) | OtherDriver nat

record block_device =
  dv_name :: string
  dv_block_size :: u64
  dv_block_count :: u64
  dv_writable :: u64
  dv_read :: "driver option"
  dv_write :: "driver option"

record block_device_info =
  bi_name :: string
  bi_block_size :: u64
  bi_block_count :: u64
  bi_writable :: u64

record block_state =
  block_devices :: "block_device list"
  ramdisk :: "u8 list"
  partition_count :: nat

text \<open>The drivers outside the two files: a read fills the buffer, a write changes their part of the state.\<close>

record 's other_drivers =
  other_read :: "nat \<Rightarrow> u64 \<Rightarrow> u64 \<Rightarrow> u8 list \<Rightarrow> 's \<Rightarrow> int \<times> u8 list \<times> 's"
  other_write :: "nat \<Rightarrow> u64 \<Rightarrow> u64 \<Rightarrow> u8 list \<Rightarrow> 's \<Rightarrow> int \<times> 's"

definition block_range_valid :: "block_device \<Rightarrow> u64 \<Rightarrow> u64 \<Rightarrow> bool" where
  "block_range_valid device lba count =
     (if count = 0 \<or> lba \<ge> dv_block_count device then False
      else if count > dv_block_count device - lba then False
      else True)"

definition ramdisk_read ::
  "block_device \<Rightarrow> u64 \<Rightarrow> u64 \<Rightarrow> u8 list \<Rightarrow> 'a block_state_scheme \<Rightarrow> int \<times> u8 list \<times> 'a block_state_scheme" where
  "ramdisk_read device lba count buffer s =
     (if \<not> block_range_valid device lba count then (-1, buffer, s)
      else (0, copy_bytes buffer 0 (drop (unat (lba * RAMDISK_BLOCK_SIZE)) (ramdisk s)) (unat (count * RAMDISK_BLOCK_SIZE)), s))"

definition ramdisk_write ::
  "block_device \<Rightarrow> u64 \<Rightarrow> u64 \<Rightarrow> u8 list \<Rightarrow> 'a block_state_scheme \<Rightarrow> int \<times> 'a block_state_scheme" where
  "ramdisk_write device lba count buffer s =
     (if \<not> block_range_valid device lba count then (-1, s)
      else (0, s\<lparr>ramdisk := copy_bytes (ramdisk s) (unat (lba * RAMDISK_BLOCK_SIZE)) buffer (unat (count * RAMDISK_BLOCK_SIZE))\<rparr>))"

definition ramdisk_device :: block_device where
  "ramdisk_device = \<lparr>dv_name = ''ramblk0'', dv_block_size = RAMDISK_BLOCK_SIZE, dv_block_count = RAMDISK_BLOCK_COUNT,
     dv_writable = 1, dv_read = Some RamdiskDriver, dv_write = Some RamdiskDriver\<rparr>"

definition block_register :: "block_device \<Rightarrow> 'a block_state_scheme \<Rightarrow> int \<times> 'a block_state_scheme" where
  "block_register device s =
     (if dv_block_size device = 0 \<or> dv_block_count device = 0 \<or> dv_read device = None \<or>
         length (block_devices s) \<ge> BLOCK_MAX_DEVICES then (-1, s)
      else (0, s\<lparr>block_devices := block_devices s @ [device]\<rparr>))"

definition block_device_count :: "'a block_state_scheme \<Rightarrow> u64" where
  "block_device_count s = of_nat (length (block_devices s))"

definition block_get_info :: "u64 \<Rightarrow> 'a block_state_scheme \<Rightarrow> block_device_info option" where
  "block_get_info index s =
     (if index \<ge> block_device_count s then None
      else let device = block_devices s ! unat index in
        Some \<lparr>bi_name = copy_limited BLOCK_DEVICE_NAME_MAX (dv_name device), bi_block_size = dv_block_size device,
              bi_block_count = dv_block_count device, bi_writable = dv_writable device\<rparr>)"

definition block_find_by_name :: "string option \<Rightarrow> 'a block_state_scheme \<Rightarrow> u64 option" where
  "block_find_by_name name s =
     (case name of
        None \<Rightarrow> None
      | Some name \<Rightarrow>
          map_option of_nat (find (\<lambda>i. strings_equal (Some (dv_name (block_devices s ! i))) (Some name)) [0..<length (block_devices s)]))"

text \<open>
  \<^verbatim>\<open>block_read\<close> with \<^verbatim>\<open>partition_read\<close> inside, since a partition reads through \<^verbatim>\<open>block_read\<close> again; \<open>None\<close> means
  that the recursion does not end.
\<close>

partial_function (option) block_read ::
  "'a block_state_scheme other_drivers \<Rightarrow> u64 \<Rightarrow> u64 \<Rightarrow> u64 \<Rightarrow> u8 list option \<Rightarrow> 'a block_state_scheme \<Rightarrow>
   (int \<times> u8 list option \<times> 'a block_state_scheme) option" where
  "block_read drv index lba count buffer s =
     (case buffer of
        None \<Rightarrow> Some (-1, buffer, s)
      | Some buf \<Rightarrow>
          if index \<ge> block_device_count s then Some (-1, buffer, s)
          else
            let device = block_devices s ! unat index in
            if \<not> block_range_valid device lba count then Some (-1, buffer, s)
            else case the (dv_read device) of
              RamdiskDriver \<Rightarrow> (case ramdisk_read device lba count buf s of (r, b, s) \<Rightarrow> Some (r, Some b, s))
            | OtherDriver k \<Rightarrow> (case other_read drv k lba count buf s of (r, b, s) \<Rightarrow> Some (r, Some b, s))
            | PartitionDriver parent start \<Rightarrow> block_read drv parent (start + lba) count buffer s)"

partial_function (option) block_write ::
  "'a block_state_scheme other_drivers \<Rightarrow> u64 \<Rightarrow> u64 \<Rightarrow> u64 \<Rightarrow> u8 list option \<Rightarrow> 'a block_state_scheme \<Rightarrow>
   (int \<times> 'a block_state_scheme) option" where
  "block_write drv index lba count buffer s =
     (case buffer of
        None \<Rightarrow> Some (-1, s)
      | Some buf \<Rightarrow>
          if index \<ge> block_device_count s then Some (-1, s)
          else
            let device = block_devices s ! unat index in
            if dv_writable device = 0 \<or> dv_write device = None \<or> \<not> block_range_valid device lba count then Some (-1, s)
            else case the (dv_write device) of
              RamdiskDriver \<Rightarrow> Some (ramdisk_write device lba count buf s)
            | OtherDriver k \<Rightarrow> Some (other_write drv k lba count buf s)
            | PartitionDriver parent start \<Rightarrow> block_write drv parent (start + lba) count buffer s)"

definition write_label_sector :: "nat \<Rightarrow> u8 list \<Rightarrow> u8 list" where
  "write_label_sector lba disk = copy_bytes disk (lba * 512) [84, 80, 79, 83, of_nat lba] 5"

definition block_init :: "'a block_state_scheme \<Rightarrow> 'a block_state_scheme" where
  "block_init s =
     (let disk = fill_bytes 0 (ramdisk s) 0 (512 * 64);
          label = map (\<lambda>c. of_nat (of_char c)) (''TangPingOS ram block device'' @ [CHR 0x0A]);
          disk = copy_bytes disk 0 label 28;
          disk = fold write_label_sector [1..<64] disk
      in snd (block_register ramdisk_device (s\<lparr>ramdisk := disk\<rparr>)))"

subsection \<open>Partitions\<close>

definition read_le32 :: "u8 list \<Rightarrow> nat \<Rightarrow> u32" where
  "read_le32 p off =
     or (or (or (ucast (p ! off)) (push_bit 8 (ucast (p ! (off + 1))))) (push_bit 16 (ucast (p ! (off + 2)))))
       (push_bit 24 (ucast (p ! (off + 3))))"

definition make_partition_name :: "nat \<Rightarrow> string \<Rightarrow> nat \<Rightarrow> string" where
  "make_partition_name out_len parent number =
     (let out = copy_limited out_len parent; len = string_length out in
      if len + 2 \<ge> out_len then out else out @ [CHR ''p'', char_of (48 + number)])"

definition register_mbr_partition ::
  "u64 \<Rightarrow> block_device_info \<Rightarrow> nat \<Rightarrow> u8 \<Rightarrow> u32 \<Rightarrow> u32 \<Rightarrow> 'a block_state_scheme \<Rightarrow> 'a block_state_scheme" where
  "register_mbr_partition parent_index parent number type start_lba sector_count s =
     (if partition_count s \<ge> PARTITION_MAX_DEVICES \<or> type = 0 \<or> sector_count = 0 then s
      else if ucast start_lba \<ge> bi_block_count parent \<or>
              ucast sector_count > bi_block_count parent - ucast start_lba then s
      else
        let driver = PartitionDriver parent_index (ucast start_lba);
            device = \<lparr>dv_name = make_partition_name BLOCK_DEVICE_NAME_MAX (bi_name parent) number,
                      dv_block_size = bi_block_size parent, dv_block_count = ucast sector_count,
                      dv_writable = bi_writable parent, dv_read = Some driver,
                      dv_write = (if bi_writable parent \<noteq> 0 then Some driver else None)\<rparr>
        in case block_register device s of (r, s) \<Rightarrow>
             if r = 0 then s\<lparr>partition_count := partition_count s + 1\<rparr> else s)"

definition register_mbr_entry ::
  "u64 \<Rightarrow> block_device_info \<Rightarrow> u8 list \<Rightarrow> nat \<Rightarrow> 'a block_state_scheme \<Rightarrow> 'a block_state_scheme" where
  "register_mbr_entry parent_index parent sector i s =
     (let entry = MBR_PARTITION_TABLE_OFFSET + i * MBR_PARTITION_ENTRY_SIZE in
      register_mbr_partition parent_index parent (i + 1) (sector ! (entry + 4))
        (read_le32 sector (entry + 8)) (read_le32 sector (entry + 12)) s)"

definition scan_mbr ::
  "'a block_state_scheme other_drivers \<Rightarrow> u64 \<Rightarrow> 'a block_state_scheme \<Rightarrow> 'a block_state_scheme option" where
  "scan_mbr drv parent_index s =
     (case block_get_info parent_index s of
        None \<Rightarrow> Some s
      | Some parent \<Rightarrow>
          if bi_block_size parent \<noteq> 512 then Some s
          else case block_read drv parent_index 0 1 (Some (replicate 512 0)) s of
            None \<Rightarrow> None
          | Some (r, buffer, s) \<Rightarrow>
              let sector = the buffer in
              if r \<noteq> 0 then Some s
              else if sector ! MBR_SIGNATURE_OFFSET \<noteq> 0x55 \<or> sector ! (MBR_SIGNATURE_OFFSET + 1) \<noteq> 0xaa then Some s
              else Some (fold (register_mbr_entry parent_index parent sector) [0..<MBR_PRIMARY_PARTITIONS] s))"

primrec scan_devices ::
  "'a block_state_scheme other_drivers \<Rightarrow> nat list \<Rightarrow> 'a block_state_scheme \<Rightarrow> 'a block_state_scheme option" where
  "scan_devices drv [] s = Some s"
| "scan_devices drv (i # is) s = (case scan_mbr drv (of_nat i) s of None \<Rightarrow> None | Some s \<Rightarrow> scan_devices drv is s)"

definition partition_init ::
  "'a block_state_scheme other_drivers \<Rightarrow> 'a block_state_scheme \<Rightarrow> 'a block_state_scheme option" where
  "partition_init drv s = scan_devices drv [0..<length (block_devices s)] s"

definition partition_scan_device ::
  "'a block_state_scheme other_drivers \<Rightarrow> u64 \<Rightarrow> 'a block_state_scheme \<Rightarrow> 'a block_state_scheme option" where
  "partition_scan_device drv block_index s = scan_mbr drv block_index s"

section \<open>The device table\<close>

text \<open>
  A partition refers to an earlier device and lies inside it; devices of the memory disk fit the disk.
\<close>

definition device_ok :: "block_device list \<Rightarrow> nat \<Rightarrow> bool" where
  "device_ok ds i \<longleftrightarrow>
     (let d = ds ! i in
      dv_block_count d \<noteq> 0 \<and> dv_block_size d \<noteq> 0 \<and> (dv_write d = None \<or> dv_write d = dv_read d) \<and>
      (case dv_read d of
         None \<Rightarrow> False
       | Some RamdiskDriver \<Rightarrow> dv_block_count d \<le> RAMDISK_BLOCK_COUNT
       | Some (OtherDriver k) \<Rightarrow> True
       | Some (PartitionDriver p st) \<Rightarrow> unat p < i \<and> unat st + unat (dv_block_count d) \<le> unat (dv_block_count (ds ! unat p))))"

definition devices_ok :: "block_device list \<Rightarrow> bool" where
  "devices_ok ds \<longleftrightarrow> length ds \<le> BLOCK_MAX_DEVICES \<and> (\<forall>i < length ds. device_ok ds i)"

definition block_inv :: "'a block_state_scheme \<Rightarrow> bool" where
  "block_inv s \<longleftrightarrow> devices_ok (block_devices s) \<and> length (ramdisk s) = 64 * 512"

text \<open>The device without parent that a device's blocks lie on, and the block number there.\<close>

function block_root :: "block_device list \<Rightarrow> nat \<Rightarrow> nat \<Rightarrow> nat \<times> nat" where
  "block_root ds i lba =
     (case dv_read (ds ! i) of
        Some (PartitionDriver p st) \<Rightarrow> if unat p < i then block_root ds (unat p) (unat st + lba) else (i, lba)
      | _ \<Rightarrow> (i, lba))"
  by pat_completeness auto
termination by (relation "measure (\<lambda>(ds, i, lba). i)") auto

declare block_root.simps [simp del]

lemma block_range_valid_iff:
  "block_range_valid d lba count \<longleftrightarrow> count \<noteq> 0 \<and> unat lba + unat count \<le> unat (dv_block_count d)"
proof (cases "lba < dv_block_count d")
  case True
  then have "unat (dv_block_count d - lba) = unat (dv_block_count d) - unat lba" by (simp add: unat_sub)
  then show ?thesis using True by (auto simp: block_range_valid_def word_less_nat_alt word_le_nat_alt)
next
  case False
  then have "unat (dv_block_count d) \<le> unat lba" by (simp add: word_le_nat_alt not_less)
  moreover have "count \<noteq> 0 \<longleftrightarrow> 0 < unat count" by (simp add: unat_gt_0)
  ultimately show ?thesis using False by (auto simp: block_range_valid_def)
qed

lemma index_lt_count: "length ds \<le> BLOCK_MAX_DEVICES \<Longrightarrow> index < of_nat (length ds) \<longleftrightarrow> unat (index :: u64) < length ds"
  by (simp add: word_less_nat_alt unat_of_nat take_bit_nat_eq_self)

lemma block_root_partition:
  "dv_read (ds ! i) = Some (PartitionDriver p st) \<Longrightarrow> unat p < i \<Longrightarrow>
   block_root ds i lba = block_root ds (unat p) (unat st + lba)"
  by (simp add: block_root.simps [of ds i lba])

lemma block_root_leaf:
  "\<not> is_PartitionDriver (the (dv_read (ds ! i))) \<Longrightarrow> dv_read (ds ! i) \<noteq> None \<Longrightarrow> block_root ds i lba = (i, lba)"
  by (subst block_root.simps) (auto split: option.splits driver.splits)

lemma block_root_offset: "block_root ds i lba = (fst (block_root ds i 0), snd (block_root ds i 0) + lba)"
proof (induction i arbitrary: lba rule: less_induct)
  case (less i)
  show ?case
  proof (cases "\<exists>p st. dv_read (ds ! i) = Some (PartitionDriver p st) \<and> unat p < i")
    case True
    then obtain p st where p: "dv_read (ds ! i) = Some (PartitionDriver p st)" "unat p < i" by auto
    show ?thesis
      using less [OF p(2), of "unat st + lba"] less [OF p(2), of "unat st"]
      by (simp add: block_root_partition [OF p] add.assoc prod_eq_iff)
  next
    case False
    then have "block_root ds i l = (i, l)" for l
      by (subst block_root.simps) (auto split: option.splits driver.splits)
    then show ?thesis by simp
  qed
qed

lemma block_root_ok:
  assumes "devices_ok ds" "i < length ds" "lba + n \<le> unat (dv_block_count (ds ! i))"
  shows "fst (block_root ds i lba) \<le> i \<and> fst (block_root ds i lba) < length ds \<and>
    \<not> is_PartitionDriver (the (dv_read (ds ! fst (block_root ds i lba)))) \<and>
    snd (block_root ds i lba) + n \<le> unat (dv_block_count (ds ! fst (block_root ds i lba)))"
  using assms(2,3)
proof (induction i arbitrary: lba rule: less_induct)
  case (less i)
  have ok: "device_ok ds i" using assms(1) less.prems by (simp add: devices_ok_def)
  show ?case
  proof (cases "dv_read (ds ! i)")
    case None
    then show ?thesis using ok by (simp add: device_ok_def)
  next
    case (Some d)
    show ?thesis
    proof (cases d)
      case (PartitionDriver p st)
      then have p: "unat p < i" "unat st + unat (dv_block_count (ds ! i)) \<le> unat (dv_block_count (ds ! unat p))"
        using ok Some by (auto simp: device_ok_def Let_def)
      have "unat p < length ds" "unat st + lba + n \<le> unat (dv_block_count (ds ! unat p))" using p less.prems by auto
      from less.IH [OF p(1) this] show ?thesis
        using p(1) Some PartitionDriver by (auto simp: block_root_partition)
    qed (use less.prems Some in \<open>simp_all add: block_root_leaf\<close>)
  qed
qed

text \<open>What a device without parent does with a request.\<close>

definition root_read where
  "root_read drv d lba count buf s =
     (case dv_read d of
        Some RamdiskDriver \<Rightarrow> ramdisk_read d lba count buf s
      | Some (OtherDriver k) \<Rightarrow> other_read drv k lba count buf s
      | _ \<Rightarrow> (-1, buf, s))"

definition root_write where
  "root_write drv d lba count buf s =
     (case dv_read d of
        Some RamdiskDriver \<Rightarrow> ramdisk_write d lba count buf s
      | Some (OtherDriver k) \<Rightarrow> other_write drv k lba count buf s
      | _ \<Rightarrow> (-1, s))"

text \<open>Every device on the way to the root accepts writes.\<close>

function write_path :: "block_device list \<Rightarrow> nat \<Rightarrow> bool" where
  "write_path ds i =
     (dv_writable (ds ! i) \<noteq> 0 \<and> dv_write (ds ! i) \<noteq> None \<and>
      (case dv_read (ds ! i) of Some (PartitionDriver p st) \<Rightarrow> if unat p < i then write_path ds (unat p) else True | _ \<Rightarrow> True))"
  by pat_completeness auto
termination by (relation "measure (\<lambda>(ds, i). i)") auto

declare write_path.simps [simp del]

lemma partition_step:
  assumes "devices_ok (block_devices s)" "unat index < length (block_devices s)"
    and "dv_read (block_devices s ! unat index) = Some (PartitionDriver p st)"
    and "unat lba + unat count \<le> unat (dv_block_count (block_devices s ! unat index))"
  shows "unat p < unat index" "unat p < length (block_devices s)" "unat (st + lba) = unat st + unat lba"
    "unat (st + lba) + unat count \<le> unat (dv_block_count (block_devices s ! unat p))"
proof -
  have "device_ok (block_devices s) (unat index)" using assms(1,2) by (simp add: devices_ok_def)
  then have p: "unat p < unat index"
    "unat st + unat (dv_block_count (block_devices s ! unat index)) \<le> unat (dv_block_count (block_devices s ! unat p))"
    using assms(3) by (auto simp: device_ok_def Let_def)
  then show "unat p < unat index" "unat p < length (block_devices s)" using assms(2) by auto
  have "unat st + unat lba < 18446744073709551616"
    using p(2) assms(4) unat_u64_less [of "dv_block_count (block_devices s ! unat p)"] by linarith
  then show u: "unat (st + lba) = unat st + unat lba" by (simp add: unat_word_ariths)
  show "unat (st + lba) + unat count \<le> unat (dv_block_count (block_devices s ! unat p))"
    unfolding u using p(2) assms(4) by linarith
qed

lemma block_read_root:
  assumes "devices_ok (block_devices s)" "unat index < length (block_devices s)" "count \<noteq> 0"
    and "unat lba + unat count \<le> unat (dv_block_count (block_devices s ! unat index))"
  shows "block_read drv index lba count (Some buf) s =
    (case block_root (block_devices s) (unat index) (unat lba) of (r, l) \<Rightarrow>
      case root_read drv (block_devices s ! r) (of_nat l) count buf s of (res, b, s) \<Rightarrow> Some (res, Some b, s))"
  using assms(2-)
proof (induction "unat index" arbitrary: index lba rule: less_induct)
  case less
  let ?ds = "block_devices s"
  have ix: "\<not> block_device_count s \<le> index"
    using less.prems(1) index_lt_count [of ?ds index] assms(1) by (simp add: block_device_count_def devices_ok_def)
  have v: "block_range_valid (?ds ! unat index) lba count" using less.prems by (simp add: block_range_valid_iff)
  have ok: "device_ok ?ds (unat index)" using assms(1) less.prems by (simp add: devices_ok_def)
  then obtain d where d: "dv_read (?ds ! unat index) = Some d" by (auto simp: device_ok_def Let_def split: option.splits)
  show ?case
  proof (cases d)
    case (PartitionDriver p st)
    note ps = partition_step [OF assms(1) less.prems(1) d [unfolded PartitionDriver] less.prems(3)]
    have "block_read drv index lba count (Some buf) s = block_read drv p (st + lba) count (Some buf) s"
      by (subst block_read.simps) (simp add: ix v d PartitionDriver Let_def)
    then show ?thesis
      using less.hyps [OF ps(1,2) assms(3) ps(4)] block_root_partition [OF d [unfolded PartitionDriver] ps(1)]
      by (simp add: ps(3))
  qed (subst block_read.simps; simp add: ix v d Let_def block_root_leaf root_read_def)+
qed

lemma block_write_root:
  assumes "devices_ok (block_devices s)" "unat index < length (block_devices s)" "count \<noteq> 0"
    and "unat lba + unat count \<le> unat (dv_block_count (block_devices s ! unat index))"
  shows "block_write drv index lba count (Some buf) s =
    (if write_path (block_devices s) (unat index)
     then case block_root (block_devices s) (unat index) (unat lba) of (r, l) \<Rightarrow>
       Some (root_write drv (block_devices s ! r) (of_nat l) count buf s)
     else Some (-1, s))"
  using assms(2-)
proof (induction "unat index" arbitrary: index lba rule: less_induct)
  case less
  let ?ds = "block_devices s"
  let ?d = "?ds ! unat index"
  have ix: "\<not> block_device_count s \<le> index"
    using less.prems(1) index_lt_count [of ?ds index] assms(1) by (simp add: block_device_count_def devices_ok_def)
  have v: "block_range_valid ?d lba count" using less.prems by (simp add: block_range_valid_iff)
  have ok: "device_ok ?ds (unat index)" using assms(1) less.prems by (simp add: devices_ok_def)
  then obtain d where d: "dv_read ?d = Some d" by (auto simp: device_ok_def Let_def split: option.splits)
  show ?case
  proof (cases "dv_writable ?d \<noteq> 0 \<and> dv_write ?d \<noteq> None")
    case False
    then have "\<not> write_path ?ds (unat index)" by (subst write_path.simps) auto
    then show ?thesis using False by (subst block_write.simps) (auto simp: ix Let_def)
  next
    case True
    then have w: "dv_write ?d = Some d" using ok d by (auto simp: device_ok_def Let_def)
    show ?thesis
    proof (cases d)
      case (PartitionDriver p st)
      note ps = partition_step [OF assms(1) less.prems(1) d [unfolded PartitionDriver] less.prems(3)]
      have "block_write drv index lba count (Some buf) s = block_write drv p (st + lba) count (Some buf) s"
        using True by (subst block_write.simps) (simp add: ix v w PartitionDriver Let_def)
      moreover have "write_path ?ds (unat index) = write_path ?ds (unat p)"
        using True by (subst write_path.simps) (simp add: d PartitionDriver ps(1))
      ultimately show ?thesis
        using less.hyps [OF ps(1,2) assms(3) ps(4)] block_root_partition [OF d [unfolded PartitionDriver] ps(1)]
        by (simp add: ps(3))
    next
      case RamdiskDriver
      then have "write_path ?ds (unat index)" using True by (subst write_path.simps) (simp add: d)
      then show ?thesis
        using True by (subst block_write.simps) (simp add: ix v d w Let_def block_root_leaf root_write_def RamdiskDriver)
    next
      case (OtherDriver k)
      then have "write_path ?ds (unat index)" using True by (subst write_path.simps) (simp add: d)
      then show ?thesis
        using True by (subst block_write.simps) (simp add: ix v d w Let_def block_root_leaf root_write_def OtherDriver)
    qed
  qed
qed

lemma devices_ok_append:
  assumes "devices_ok ds" "length ds < BLOCK_MAX_DEVICES" "device_ok (ds @ [d]) (length ds)"
  shows "devices_ok (ds @ [d])"
proof -
  have "device_ok (ds @ [d]) i = device_ok ds i" if "i < length ds" for i
    using that by (auto simp: device_ok_def Let_def nth_append split: option.splits driver.splits)
  then show ?thesis using assms by (auto simp: devices_ok_def less_Suc_eq)
qed

text \<open>The devices registered so far stay, and the invariant holds.\<close>

definition block_extends :: "'a block_state_scheme \<Rightarrow> 'a block_state_scheme \<Rightarrow> bool" where
  "block_extends s s' \<longleftrightarrow> block_inv s' \<and> (\<exists>new. block_devices s' = block_devices s @ new)"

lemma block_extends_refl: "block_inv s \<Longrightarrow> block_extends s s"
  by (simp add: block_extends_def)

lemma block_extends_trans: "block_extends s t \<Longrightarrow> block_extends t u \<Longrightarrow> block_extends s u"
  by (auto simp: block_extends_def)

lemma unat_ucast32 [simp]: "unat (ucast (n :: u32) :: u64) = unat n"
proof -
  have "unat n < 2 ^ 32" using unsigned_less [of n] by simp
  then show ?thesis by (simp add: unsigned_ucast_eq take_bit_nat_eq_self)
qed

lemma register_mbr_partition_extends:
  assumes "block_inv s" "unat p < length (block_devices s)" "bi_block_count info = dv_block_count (block_devices s ! unat p)"
    and "bi_block_size info \<noteq> 0"
  shows "block_extends s (register_mbr_partition p info number ty st n s)"
proof (cases "partition_count s \<ge> PARTITION_MAX_DEVICES \<or> ty = 0 \<or> n = 0 \<or> ucast st \<ge> bi_block_count info \<or>
    ucast n > bi_block_count info - ucast st \<or> length (block_devices s) \<ge> BLOCK_MAX_DEVICES")
  case True
  then show ?thesis
    using assms(1) by (auto simp: register_mbr_partition_def block_register_def Let_def intro: block_extends_refl)
next
  case False
  define drv where "drv = PartitionDriver p (ucast st)"
  define d where "d = \<lparr>dv_name = make_partition_name BLOCK_DEVICE_NAME_MAX (bi_name info) number,
      dv_block_size = bi_block_size info, dv_block_count = ucast n, dv_writable = bi_writable info, dv_read = Some drv,
      dv_write = (if bi_writable info \<noteq> 0 then Some drv else None)\<rparr>"
  have n0: "(ucast n :: u64) \<noteq> 0"
    using False by (simp add: word_unat_eq_iff)
  have sub: "unat (bi_block_count info - ucast st) = unat (bi_block_count info) - unat (ucast st :: u64)"
    using False unat_sub [of "ucast st" "bi_block_count info"] by (simp add: not_le less_imp_le)
  have le: "unat (ucast st :: u64) + unat (ucast n :: u64) \<le> unat (bi_block_count info)"
    using False sub by (auto simp: word_less_nat_alt word_le_nat_alt not_less not_le)
  have ok: "device_ok (block_devices s @ [d]) (length (block_devices s))"
    using le n0 assms by (auto simp: device_ok_def Let_def d_def drv_def nth_append)
  have "devices_ok (block_devices s @ [d])"
    using assms(1) False ok by (intro devices_ok_append) (auto simp: block_inv_def)
  moreover have "register_mbr_partition p info number ty st n s =
      s\<lparr>block_devices := block_devices s @ [d], partition_count := partition_count s + 1\<rparr>"
    using False n0 assms(4) by (simp add: register_mbr_partition_def block_register_def Let_def d_def drv_def)
  ultimately show ?thesis using assms(1) by (simp add: block_extends_def block_inv_def)
qed

lemma register_mbr_entries_extend:
  assumes "block_inv s" "unat p < length (block_devices s)" "bi_block_count info = dv_block_count (block_devices s ! unat p)"
    and "bi_block_size info \<noteq> 0"
  shows "block_extends s (fold (register_mbr_entry p info sector) is s)"
  using assms
proof (induction "is" arbitrary: s)
  case (Cons i "is")
  define t where "t = register_mbr_entry p info sector i s"
  have t: "block_extends s t"
    using register_mbr_partition_extends [OF Cons.prems] by (simp add: t_def register_mbr_entry_def Let_def)
  then have "unat p < length (block_devices t)" "dv_block_count (block_devices t ! unat p) = dv_block_count (block_devices s ! unat p)"
    using Cons.prems(2) by (auto simp: block_extends_def nth_append)
  then have "block_extends t (fold (register_mbr_entry p info sector) is t)"
    using t Cons.prems by (intro Cons.IH) (auto simp: block_extends_def)
  then show ?case using t by (auto simp: t_def intro: block_extends_trans)
qed (simp add: block_extends_refl)

text \<open>The documented behaviour of the other drivers: a transfer leaves the tables of the block layer alone.\<close>

definition drivers_keep :: "'a block_state_scheme other_drivers \<Rightarrow> bool" where
  "drivers_keep drv \<longleftrightarrow>
     (\<forall>k lba count buf s. block_devices (snd (snd (other_read drv k lba count buf s))) = block_devices s \<and>
        ramdisk (snd (snd (other_read drv k lba count buf s))) = ramdisk s) \<and>
     (\<forall>k lba count buf s. block_devices (snd (other_write drv k lba count buf s)) = block_devices s \<and>
        ramdisk (snd (other_write drv k lba count buf s)) = ramdisk s)"

lemma block_read_keeps:
  assumes "block_inv s" "drivers_keep drv" "unat index < length (block_devices s)" "count \<noteq> 0"
    and "unat lba + unat count \<le> unat (dv_block_count (block_devices s ! unat index))"
  shows "\<exists>r b s'. block_read drv index lba count (Some buf) s = Some (r, Some b, s') \<and>
    block_devices s' = block_devices s \<and> ramdisk s' = ramdisk s"
proof -
  obtain r l where rl: "block_root (block_devices s) (unat index) (unat lba) = (r, l)" by (cases "block_root (block_devices s) (unat index) (unat lba)")
  have "block_devices (snd (snd (root_read drv d x count buf s))) = block_devices s \<and>
      ramdisk (snd (snd (root_read drv d x count buf s))) = ramdisk s" for d x
    using assms(2) by (auto simp: root_read_def drivers_keep_def ramdisk_read_def split: option.splits driver.splits)
  then show ?thesis
    using block_read_root [OF _ assms(3-5), of drv buf] assms(1) by (auto simp: block_inv_def rl case_prod_unfold)
qed

lemma scan_mbr_extends:
  assumes "block_inv s" "drivers_keep drv"
  shows "\<exists>s'. scan_mbr drv p s = Some s' \<and> block_extends s s'"
proof (cases "block_get_info p s")
  case None
  then show ?thesis using assms(1) by (simp add: scan_mbr_def block_extends_refl)
next
  case (Some info)
  have len: "length (block_devices s) \<le> BLOCK_MAX_DEVICES" using assms(1) by (simp add: block_inv_def devices_ok_def)
  have p: "unat p < length (block_devices s)" "bi_block_count info = dv_block_count (block_devices s ! unat p)"
    "bi_block_size info = dv_block_size (block_devices s ! unat p)"
    using Some index_lt_count [OF len, of p]
    by (auto simp: block_get_info_def block_device_count_def Let_def not_le split: if_splits)
  have d: "dv_block_size (block_devices s ! unat p) \<noteq> 0" "dv_block_count (block_devices s ! unat p) \<noteq> 0"
    using assms(1) p(1) by (auto simp: block_inv_def devices_ok_def device_ok_def Let_def)
  have "unat (0 :: u64) + unat (1 :: u64) \<le> unat (dv_block_count (block_devices s ! unat p))"
    using d(2) by (simp add: Suc_le_eq unat_gt_0)
  from block_read_keeps [OF assms p(1) _ this, of "replicate 512 0"]
  obtain r b s1 where r: "block_read drv p 0 1 (Some (replicate 512 0)) s = Some (r, Some b, s1)"
    "block_devices s1 = block_devices s" "ramdisk s1 = ramdisk s" by auto
  have s1: "block_extends s s1" "block_inv s1" using r assms(1) by (simp_all add: block_extends_def block_inv_def)
  have "block_extends s1 (fold (register_mbr_entry p info b) is s1)" for "is"
    using p d s1(2) r(2) by (intro register_mbr_entries_extend) simp_all
  then show ?thesis
    using s1 assms(1) r(1) Some block_extends_trans [OF s1(1)]
    by (simp add: scan_mbr_def Let_def block_extends_refl)
qed

lemma scan_devices_extends:
  "block_inv s \<Longrightarrow> drivers_keep drv \<Longrightarrow> \<exists>s'. scan_devices drv is s = Some s' \<and> block_extends s s'"
proof (induction "is" arbitrary: s)
  case (Cons i "is")
  obtain t where t: "scan_mbr drv (of_nat i) s = Some t" "block_extends s t" using scan_mbr_extends Cons.prems by blast
  then obtain u where "scan_devices drv is t = Some u" "block_extends t u"
    using Cons.IH [of t] Cons.prems by (auto simp: block_extends_def)
  then show ?case using t block_extends_trans by auto
qed (simp add: block_extends_refl)

lemma ramdisk_bounds:
  assumes "l + unat count \<le> unat (dv_block_count d)" "dv_block_count d \<le> RAMDISK_BLOCK_COUNT"
  shows "unat (of_nat l * RAMDISK_BLOCK_SIZE) = l * 512" "unat (count * RAMDISK_BLOCK_SIZE) = unat count * 512"
    "unat (of_nat l :: u64) = l" "l * 512 + unat count * 512 \<le> 64 * 512"
proof -
  have "unat (dv_block_count d) \<le> 64" using assms(2) by (simp add: word_le_nat_alt)
  then have "l \<le> 64" "unat count \<le> 64" "l + unat count \<le> 64" using assms(1) by auto
  then show "unat (of_nat l * RAMDISK_BLOCK_SIZE) = l * 512" "unat (count * RAMDISK_BLOCK_SIZE) = unat count * 512"
    "unat (of_nat l :: u64) = l" "l * 512 + unat count * 512 \<le> 64 * 512"
    by (simp_all add: unat_word_ariths unat_of_nat take_bit_nat_eq_self)
qed

section \<open>Properties\<close>

text \<open>
  C30: A write through any device whose blocks lie on the memory disk, partitions of partitions included, ends,
  changes only bytes inside that device's own extent on the disk, and, when every device on the way
  accepts writes, is read back unchanged through the same device. A request outside the device fails
  and changes nothing.
\<close>

theorem block_write_confined:
  assumes "block_inv s" "unat index < length (block_devices s)"
    and "block_root (block_devices s) (unat index) 0 = (r, l)" "dv_read (block_devices s ! r) = Some RamdiskDriver"
    and "unat count * 512 \<le> length buf" "unat count * 512 \<le> length buf2"
  shows "\<exists>res s'. block_write drv index lba count (Some buf) s = Some (res, s') \<and>
    block_devices s' = block_devices s \<and> length (ramdisk s') = length (ramdisk s) \<and>
    (\<forall>k < length (ramdisk s).
      \<not> (l * 512 \<le> k \<and> k < (l + unat (dv_block_count (block_devices s ! unat index))) * 512) \<longrightarrow> ramdisk s' ! k = ramdisk s ! k) \<and>
    (if block_range_valid (block_devices s ! unat index) lba count \<and> write_path (block_devices s) (unat index)
     then res = 0 \<and> block_read drv index lba count (Some buf2) s' =
       Some (0, Some (take (unat count * 512) buf @ drop (unat count * 512) buf2), s')
     else res = -1 \<and> s' = s)"
proof (cases "block_range_valid (block_devices s ! unat index) lba count")
  case False
  then have "block_write drv index lba count (Some buf) s = Some (-1, s)"
    by (subst block_write.simps) (simp add: Let_def)
  then show ?thesis using False by auto
next
  case True
  let ?ds = "block_devices s"
  have ok: "devices_ok ?ds" and len: "length (ramdisk s) = 64 * 512" using assms(1) by (simp_all add: block_inv_def)
  have c: "count \<noteq> 0" "unat lba + unat count \<le> unat (dv_block_count (?ds ! unat index))"
    using True by (simp_all add: block_range_valid_iff)
  have root: "block_root ?ds (unat index) (unat lba) = (r, l + unat lba)"
    using block_root_offset [of ?ds "unat index" "unat lba"] assms(3) by simp
  have rk: "r < length ?ds" "l + unat lba + unat count \<le> unat (dv_block_count (?ds ! r))"
    using block_root_ok [OF ok assms(2) c(2)] by (simp_all add: root)
  have cap: "dv_block_count (?ds ! r) \<le> RAMDISK_BLOCK_COUNT"
    using ok rk(1) assms(4) by (auto simp: devices_ok_def device_ok_def Let_def)
  note b = ramdisk_bounds [OF rk(2) cap]
  have v: "block_range_valid (?ds ! r) (of_nat (l + unat lba)) count"
    using c(1) rk(2) b(3) by (simp add: block_range_valid_iff del: of_nat_add)
  show ?thesis
  proof (cases "write_path ?ds (unat index)")
    case False
    then have "block_write drv index lba count (Some buf) s = Some (-1, s)"
      using block_write_root [OF ok assms(2) c] by simp
    then show ?thesis using False by auto
  next
    case wp: True
    define disk where "disk = copy_bytes (ramdisk s) ((l + unat lba) * 512) buf (unat count * 512)"
    define s' where "s' = s\<lparr>ramdisk := disk\<rparr>"
    have w: "block_write drv index lba count (Some buf) s = Some (0, s')"
      using block_write_root [OF ok assms(2) c] wp v
      by (simp add: root root_write_def assms(4) ramdisk_write_def b s'_def disk_def del: of_nat_add)
    have ds': "block_devices s' = ?ds" by (simp add: s'_def)
    have "copy_bytes buf2 0 (drop ((l + unat lba) * 512) disk) (unat count * 512) =
        take (unat count * 512) buf @ drop (unat count * 512) buf2"
      using assms(5,6) b(4) len by (intro nth_equalityI) (auto simp: nth_copy_bytes disk_def nth_append)
    then have rd: "block_read drv index lba count (Some buf2) s' =
        Some (0, Some (take (unat count * 512) buf @ drop (unat count * 512) buf2), s')"
      using block_read_root [of s', unfolded ds', OF ok assms(2) c, of drv buf2] v
      by (simp add: root root_read_def assms(4) ramdisk_read_def b s'_def del: of_nat_add)
    have "ramdisk s' ! k = ramdisk s ! k"
      if "k < length (ramdisk s)" "\<not> (l * 512 \<le> k \<and> k < (l + unat (dv_block_count (?ds ! unat index))) * 512)" for k
      using that c(2) by (auto simp: s'_def disk_def nth_copy_bytes)
    then show ?thesis using w rd ds' wp True by (auto simp: s'_def disk_def)
  qed
qed

text \<open>
  C31: Scanning the registered devices for MBR partitions ends and keeps the device table sound: at most 16
  devices, the earlier ones unchanged, and every partition inside a device registered before it,
  whatever the partition tables say.
\<close>

theorem partition_init_sound:
  assumes "block_inv s" "drivers_keep drv"
  shows "\<exists>s' new. partition_init drv s = Some s' \<and> block_inv s' \<and> block_devices s' = block_devices s @ new"
  using scan_devices_extends [OF assms, of "[0..<length (block_devices s)]"]
  by (auto simp: partition_init_def block_extends_def)

definition no_drivers :: "'s other_drivers" where
  "no_drivers = \<lparr>other_read = \<lambda>k lba count buf s. (-1, buf, s), other_write = \<lambda>k lba count buf s. (-1, s)\<rparr>"

definition block_example :: block_state where
  "block_example = \<lparr>block_devices = [ramdisk_device,
      ramdisk_device\<lparr>dv_name := ''ramblk0p1'', dv_block_count := 16,
        dv_read := Some (PartitionDriver 0 8), dv_write := Some (PartitionDriver 0 8)\<rparr>],
     ramdisk = replicate (64 * 512) 0, partition_count = 1\<rparr>"

lemma block_example_inv: "block_inv block_example"
  by (auto simp: block_inv_def block_example_def devices_ok_def device_ok_def less_Suc_eq ramdisk_device_def)

lemma no_drivers_keep: "drivers_keep no_drivers"
  by (simp add: drivers_keep_def no_drivers_def)

theorem block_write_confined_witness:
  "\<exists>s'. block_write no_drivers 1 2 1 (Some (replicate 512 7)) block_example = Some (0, s') \<and>
    block_read no_drivers 1 2 1 (Some (replicate 512 0)) s' = Some (0, Some (replicate 512 7), s')"
proof -
  have r: "block_root (block_devices block_example) (unat (1 :: u64)) 0 = (0, 8)"
    by (simp add: block_root.simps block_example_def ramdisk_device_def)
  have wp: "write_path (block_devices block_example) (unat (1 :: u64))"
    by (simp add: write_path.simps block_example_def ramdisk_device_def)
  have v: "block_range_valid (block_devices block_example ! unat (1 :: u64)) 2 1"
    by (simp add: block_range_valid_iff block_example_def ramdisk_device_def)
  show ?thesis
    using block_write_confined [OF block_example_inv _ r, of 1 "replicate 512 7" "replicate 512 0" no_drivers 2] wp v
    by (auto simp: block_example_def ramdisk_device_def)
qed

theorem partition_init_sound_witness:
  "\<exists>s'. partition_init no_drivers block_example = Some s' \<and> block_inv s'"
  using partition_init_sound [OF block_example_inv no_drivers_keep] by blast

end
