(* ===== verification/Ramfs.thy ===== *)
theory Ramfs
  imports Vfs Block_Device
begin

text \<open>
  The in-memory file system of \<^verbatim>\<open>ramfs.c\<close>: sixteen slots with a name and up to 1024 bytes each. The file
  systems share one state, which extends that of the block layer.
\<close>

section \<open>The code\<close>

abbreviation RAMFS_MAX_FILES :: nat where "RAMFS_MAX_FILES \<equiv> 16"
abbreviation RAMFS_NAME_MAX :: nat where "RAMFS_NAME_MAX \<equiv> 64"
abbreviation RAMFS_FILE_MAX_SIZE :: u64 where "RAMFS_FILE_MAX_SIZE \<equiv> 1024"

record ramfs_file =
  rf_in_use :: bool
  rf_name :: string
  rf_data :: "u8 list"
  rf_size :: u64

record ramfs_state = block_state +
  ramfs_files :: "ramfs_file list"

fun ramfs_path_valid_from :: "string \<Rightarrow> nat \<Rightarrow> bool" where
  "ramfs_path_valid_from [] i = True"
| "ramfs_path_valid_from (c # path) i =
     (if c = NUL then True
      else if c = CHR ''/'' then False
      else if i + 1 \<ge> RAMFS_NAME_MAX then False
      else ramfs_path_valid_from path (i + 1))"

definition ramfs_path_valid :: "string \<Rightarrow> bool" where
  "ramfs_path_valid path =
     (if deref path \<noteq> CHR ''/'' \<or> char_at path 1 = NUL then False
      else ramfs_path_valid_from (drop 1 path) 1)"

definition copy_path :: "string \<Rightarrow> string" where
  "copy_path src = copy_limited RAMFS_NAME_MAX src"

definition copy_dirent_name :: "string \<Rightarrow> string" where
  "copy_dirent_name path =
     copy_limited VFS_DIRENT_NAME_MAX (if deref path = CHR ''/'' then drop 1 path else path)"

definition find_file :: "ramfs_file list \<Rightarrow> string \<Rightarrow> nat option" where
  "find_file files path =
     find (\<lambda>i. rf_in_use (files ! i) \<and> chars_equal (rf_name (files ! i)) path) [0..<RAMFS_MAX_FILES]"

definition create_file :: "ramfs_file list \<Rightarrow> string \<Rightarrow> (nat \<times> ramfs_file list) option" where
  "create_file files path =
     (case find (\<lambda>i. \<not> rf_in_use (files ! i)) [0..<RAMFS_MAX_FILES] of
        None \<Rightarrow> None
      | Some i \<Rightarrow>
          Some (i, files[i := (files ! i)\<lparr>rf_in_use := True, rf_size := 0, rf_name := copy_path path\<rparr>]))"

text \<open>The file to change: the existing one, or a new one.\<close>

definition open_file :: "ramfs_file list \<Rightarrow> string \<Rightarrow> (nat \<times> ramfs_file list) option" where
  "open_file files path =
     (case find_file files path of Some i \<Rightarrow> Some (i, files) | None \<Rightarrow> create_file files path)"

definition ramfs_read :: "'a ramfs_state_scheme vfs_read_fn" where
  "ramfs_read path offset buffer buffer_len s =
     (case find_file (ramfs_files s) path of
        None \<Rightarrow> (U64_FAIL, buffer, s)
      | Some i \<Rightarrow>
          let file = ramfs_files s ! i in
          if offset \<ge> rf_size file then (0, buffer, s)
          else
            let available = rf_size file - offset;
                to_copy = (if buffer_len < available then buffer_len else available)
            in (to_copy, copy_bytes buffer 0 (drop (unat offset) (rf_data file)) (unat to_copy), s))"

fun ramfs_list_from :: "ramfs_file list \<Rightarrow> nat \<Rightarrow> nat \<Rightarrow> vfs_dirent option" where
  "ramfs_list_from [] index seen = None"
| "ramfs_list_from (file # files) index seen =
     (if \<not> rf_in_use file then ramfs_list_from files index seen
      else if seen = index then
        Some \<lparr>de_name = copy_dirent_name (rf_name file), de_type = VFS_DIRENT_TYPE_FILE, de_size = rf_size file\<rparr>
      else ramfs_list_from files index (seen + 1))"

definition ramfs_list :: "'a ramfs_state_scheme vfs_list_fn" where
  "ramfs_list path index s =
     (if \<not> chars_equal path ''/'' then (-1, None, s)
      else case ramfs_list_from (ramfs_files s) index 0 of
        Some entry \<Rightarrow> (1, Some entry, s)
      | None \<Rightarrow> (0, None, s))"

definition ramfs_write :: "'a ramfs_state_scheme vfs_write_fn" where
  "ramfs_write path offset buffer buffer_len s =
     (if \<not> ramfs_path_valid path \<or> offset > RAMFS_FILE_MAX_SIZE \<or> buffer_len > RAMFS_FILE_MAX_SIZE - offset
      then (U64_FAIL, s)
      else case open_file (ramfs_files s) path of
        None \<Rightarrow> (U64_FAIL, s)
      | Some (i, files) \<Rightarrow>
          let file = files ! i;
              data = (if offset > rf_size file
                      then zero_bytes (rf_data file) (unat (rf_size file)) (unat (offset - rf_size file))
                      else rf_data file);
              data = copy_bytes data (unat offset) buffer (unat buffer_len);
              sz = (if offset + buffer_len > rf_size file then offset + buffer_len else rf_size file)
          in (buffer_len, s\<lparr>ramfs_files := files[i := file\<lparr>rf_data := data, rf_size := sz\<rparr>]\<rparr>))"

definition ramfs_size :: "'a ramfs_state_scheme vfs_size_fn" where
  "ramfs_size path s =
     (case find_file (ramfs_files s) path of
        None \<Rightarrow> (U64_FAIL, s)
      | Some i \<Rightarrow> (rf_size (ramfs_files s ! i), s))"

definition ramfs_truncate :: "'a ramfs_state_scheme vfs_truncate_fn" where
  "ramfs_truncate path sz s =
     (if \<not> ramfs_path_valid path \<or> sz > RAMFS_FILE_MAX_SIZE then (-1, s)
      else case open_file (ramfs_files s) path of
        None \<Rightarrow> (-1, s)
      | Some (i, files) \<Rightarrow>
          let file = files ! i;
              data = (if sz > rf_size file
                      then zero_bytes (rf_data file) (unat (rf_size file)) (unat (sz - rf_size file))
                      else rf_data file)
          in (0, s\<lparr>ramfs_files := files[i := file\<lparr>rf_data := data, rf_size := sz\<rparr>]\<rparr>))"

definition ramfs_unlink :: "'a ramfs_state_scheme vfs_unlink_fn" where
  "ramfs_unlink path s =
     (if \<not> ramfs_path_valid path then (-1, s)
      else case find_file (ramfs_files s) path of
        None \<Rightarrow> (-1, s)
      | Some i \<Rightarrow>
          (0, s\<lparr>ramfs_files := (ramfs_files s)
                 [i := (ramfs_files s ! i)\<lparr>rf_in_use := False, rf_size := 0, rf_name := []\<rparr>]\<rparr>))"

definition ramfs_init ::
  "'a ramfs_state_scheme mount_table \<Rightarrow> 'a ramfs_state_scheme \<Rightarrow> 'a ramfs_state_scheme mount_table \<times> 'a ramfs_state_scheme" where
  "ramfs_init fss s =
     (let s = s\<lparr>ramfs_files := map (\<lambda>file. file\<lparr>rf_in_use := False, rf_size := 0, rf_name := []\<rparr>) (ramfs_files s)\<rparr>;
          (_, fss) = vfs_register_fs_mount fss ''ramfs'' (Some ''/'') (Some ''memory'')
                       (Some ramfs_read) (Some ramfs_list) (Some ramfs_write)
                       (Some ramfs_size) (Some ramfs_truncate) (Some ramfs_unlink)
      in (fss, s))"

section \<open>Invariant and abstraction\<close>

text \<open>The names a file of this file system can have: a slash and 1 to 62 further characters without a slash.\<close>

definition ramfs_name :: "string \<Rightarrow> bool" where
  "ramfs_name p \<longleftrightarrow> nul_free p \<and> deref p = CHR ''/'' \<and> tl p \<noteq> [] \<and> CHR ''/'' \<notin> set (tl p) \<and> length p < RAMFS_NAME_MAX"

definition ramfs_file_ok :: "ramfs_file \<Rightarrow> bool" where
  "ramfs_file_ok f \<longleftrightarrow> length (rf_data f) = 1024 \<and> rf_size f \<le> RAMFS_FILE_MAX_SIZE \<and>
     (rf_in_use f \<longrightarrow> ramfs_name (rf_name f))"

definition names_unique :: "ramfs_file list \<Rightarrow> bool" where
  "names_unique fs \<longleftrightarrow> (\<forall>i < length fs. \<forall>j < length fs.
     rf_in_use (fs ! i) \<and> rf_in_use (fs ! j) \<and> rf_name (fs ! i) = rf_name (fs ! j) \<longrightarrow> i = j)"

definition files_ok :: "ramfs_file list \<Rightarrow> bool" where
  "files_ok fs \<longleftrightarrow> length fs = RAMFS_MAX_FILES \<and> list_all ramfs_file_ok fs \<and> names_unique fs"

definition ramfs_inv :: "'a ramfs_state_scheme \<Rightarrow> bool" where
  "ramfs_inv s \<longleftrightarrow> files_ok (ramfs_files s)"

definition file_data :: "ramfs_file \<Rightarrow> u8 list" where
  "file_data f = take (unat (rf_size f)) (rf_data f)"

text \<open>The abstract file system: a map from names to contents.\<close>

definition files_map :: "ramfs_file list \<Rightarrow> string \<Rightarrow> u8 list option" where
  "files_map fs p = map_option file_data (find (\<lambda>f. rf_in_use f \<and> rf_name f = p) fs)"

definition ramfs_abs :: "'a ramfs_state_scheme \<Rightarrow> string \<Rightarrow> u8 list option" where
  "ramfs_abs s = files_map (ramfs_files s)"

lemma ramfs_path_valid_from_iff:
  "nul_free p \<Longrightarrow> i \<le> 63 \<Longrightarrow> ramfs_path_valid_from p i \<longleftrightarrow> CHR ''/'' \<notin> set p \<and> i + length p \<le> 63"
  by (induction p i rule: ramfs_path_valid_from.induct) auto

lemma ramfs_path_valid_iff [simp]: "nul_free p \<Longrightarrow> ramfs_path_valid p \<longleftrightarrow> ramfs_name p"
proof (cases p)
  case (Cons c q)
  assume "nul_free p"
  then show ?thesis
    by (cases q) (auto simp: Cons ramfs_path_valid_def ramfs_name_def ramfs_path_valid_from_iff char_at_def)
qed (simp add: ramfs_path_valid_def ramfs_name_def)

lemma files_okD:
  assumes "files_ok fs" "i < RAMFS_MAX_FILES"
  shows "i < length fs" "ramfs_file_ok (fs ! i)" "length (rf_data (fs ! i)) = 1024" "unat (rf_size (fs ! i)) \<le> 1024"
  using assms unfolding files_ok_def
  by (auto simp: list_all_length ramfs_file_ok_def word_le_nat_alt)

lemma files_ok_name: "files_ok fs \<Longrightarrow> i < RAMFS_MAX_FILES \<Longrightarrow> rf_in_use (fs ! i) \<Longrightarrow> ramfs_name (rf_name (fs ! i))"
  using files_okD(2) by (auto simp: ramfs_file_ok_def)

lemma files_map_Some_iff:
  assumes "files_ok fs"
  shows "files_map fs p = Some d \<longleftrightarrow>
    (\<exists>i < RAMFS_MAX_FILES. rf_in_use (fs ! i) \<and> rf_name (fs ! i) = p \<and> file_data (fs ! i) = d)"
proof -
  have l: "length fs = RAMFS_MAX_FILES" and u: "names_unique fs" using assms by (auto simp: files_ok_def)
  show ?thesis
  proof
    assume "files_map fs p = Some d"
    then show "\<exists>i < RAMFS_MAX_FILES. rf_in_use (fs ! i) \<and> rf_name (fs ! i) = p \<and> file_data (fs ! i) = d"
      using l by (auto simp: files_map_def find_Some_iff)
  next
    assume "\<exists>i < RAMFS_MAX_FILES. rf_in_use (fs ! i) \<and> rf_name (fs ! i) = p \<and> file_data (fs ! i) = d"
    then obtain i where i: "i < length fs" "rf_in_use (fs ! i)" "rf_name (fs ! i) = p" "file_data (fs ! i) = d"
      using l by auto
    have "\<not> (rf_in_use (fs ! j) \<and> rf_name (fs ! j) = p)" if "j < i" for j
      using u [unfolded names_unique_def, rule_format, of j i] i that by auto
    then have "find (\<lambda>f. rf_in_use f \<and> rf_name f = p) fs = Some (fs ! i)"
      using i unfolding find_Some_iff by blast
    then show "files_map fs p = Some d" using i by (simp add: files_map_def)
  qed
qed

lemma option_eqI: "(\<And>d. a = Some d \<longleftrightarrow> b = Some d) \<Longrightarrow> a = b"
  by (cases a) (metis not_None_eq)+

lemma files_map_None_iff:
  "files_ok fs \<Longrightarrow> files_map fs p = None \<longleftrightarrow>
     \<not> (\<exists>i < RAMFS_MAX_FILES. rf_in_use (fs ! i) \<and> rf_name (fs ! i) = p)"
  using files_map_Some_iff [of fs p] by (cases "files_map fs p") auto

lemma find_file_Some:
  assumes "files_ok fs" "nul_free p" "find_file fs p = Some i"
  shows "i < RAMFS_MAX_FILES" "rf_in_use (fs ! i)" "rf_name (fs ! i) = p" "files_map fs p = Some (file_data (fs ! i))"
proof -
  have i: "i < RAMFS_MAX_FILES" "rf_in_use (fs ! i)" "chars_equal (rf_name (fs ! i)) p"
    using assms(3) unfolding find_file_def find_Some_iff by (auto simp del: upt_rec_numeral)
  moreover have "nul_free (rf_name (fs ! i))" using files_ok_name [OF assms(1) i(1,2)] by (simp add: ramfs_name_def)
  ultimately show "i < RAMFS_MAX_FILES" "rf_in_use (fs ! i)" "rf_name (fs ! i) = p"
    "files_map fs p = Some (file_data (fs ! i))"
    using assms(2) by (auto simp: chars_equal_iff files_map_Some_iff [OF assms(1)])
qed

lemma find_file_None:
  assumes "files_ok fs" "nul_free p" "find_file fs p = None"
  shows "files_map fs p = None"
proof -
  have "\<not> (rf_in_use (fs ! i) \<and> chars_equal (rf_name (fs ! i)) p)" if "i < RAMFS_MAX_FILES" for i
    using assms(3) that unfolding find_file_def find_None_iff by (simp del: upt_rec_numeral)
  then show ?thesis using files_map_None_iff [OF assms(1)] by (auto simp: chars_equal_iff)
qed

lemma find_file_eq: "files_ok fs \<Longrightarrow> nul_free p \<Longrightarrow> find_file fs p = None \<longleftrightarrow> files_map fs p = None"
  using find_file_Some find_file_None by (cases "find_file fs p") force+

lemma files_ok_update:
  assumes ok: "files_ok fs" and i: "i < RAMFS_MAX_FILES" and f: "ramfs_file_ok f"
    and fresh: "\<And>j. j < RAMFS_MAX_FILES \<Longrightarrow> rf_in_use f \<Longrightarrow> rf_in_use (fs ! j) \<Longrightarrow> rf_name (fs ! j) = rf_name f \<Longrightarrow> j = i"
  shows "files_ok (fs[i := f])"
  using assms unfolding files_ok_def names_unique_def
  by (auto simp: list_all_length nth_list_update)

lemma files_map_put:
  assumes ok: "files_ok fs" "files_ok (fs[i := f])" and i: "i < RAMFS_MAX_FILES" and f: "rf_in_use f" "rf_name f = p"
    and old: "rf_in_use (fs ! i) \<Longrightarrow> rf_name (fs ! i) = p"
  shows "files_map (fs[i := f]) = (files_map fs)(p \<mapsto> file_data f)"
proof (rule ext, rule option_eqI)
  fix q d
  have l: "i < length fs" using ok i by (simp add: files_ok_def)
  show "files_map (fs[i := f]) q = Some d \<longleftrightarrow> ((files_map fs)(p \<mapsto> file_data f)) q = Some d"
  proof (cases "q = p")
    case True
    have "files_map (fs[i := f]) p = Some (file_data f)"
      using i f l by (auto simp: files_map_Some_iff [OF ok(2)] intro!: exI [of _ i])
    then show ?thesis by (simp add: True)
  next
    case False
    then have "(rf_in_use (fs[i := f] ! j) \<and> rf_name (fs[i := f] ! j) = q \<and> file_data (fs[i := f] ! j) = d) =
        (rf_in_use (fs ! j) \<and> rf_name (fs ! j) = q \<and> file_data (fs ! j) = d)" for j
      using f old l by (cases "j = i") auto
    then show ?thesis
      using False by (simp only: files_map_Some_iff [OF ok(2)] files_map_Some_iff [OF ok(1)] fun_upd_apply if_False simp_thms)
  qed
qed

lemma files_map_clear:
  assumes ok: "files_ok fs" "files_ok (fs[i := f])" and i: "i < RAMFS_MAX_FILES" and f: "\<not> rf_in_use f"
    and old: "rf_in_use (fs ! i)" "rf_name (fs ! i) = p"
  shows "files_map (fs[i := f]) = (files_map fs)(p := None)"
proof (rule ext, rule option_eqI)
  fix q d
  have l: "i < length fs" "names_unique fs" "length fs = RAMFS_MAX_FILES" using ok i by (simp_all add: files_ok_def)
  have p: "rf_name (fs ! j) \<noteq> p" if "j < RAMFS_MAX_FILES" "j \<noteq> i" "rf_in_use (fs ! j)" for j
    using l that old i unfolding names_unique_def by metis
  have "(rf_in_use (fs[i := f] ! j) \<and> rf_name (fs[i := f] ! j) = q \<and> file_data (fs[i := f] ! j) = d) =
      (rf_in_use (fs ! j) \<and> rf_name (fs ! j) = q \<and> file_data (fs ! j) = d \<and> q \<noteq> p)"
    if "j < RAMFS_MAX_FILES" for j
    using f old l p [OF that] by (cases "j = i") auto
  then show "files_map (fs[i := f]) q = Some d \<longleftrightarrow> ((files_map fs)(p := None)) q = Some d"
    by (auto simp: files_map_Some_iff [OF ok(2)] files_map_Some_iff [OF ok(1)])
qed

lemma create_file_Some:
  assumes ok: "files_ok fs" and p: "ramfs_name p" "files_map fs p = None" and c: "create_file fs p = Some (i, fs')"
  shows "i < RAMFS_MAX_FILES" "files_ok fs'" "rf_in_use (fs' ! i)" "rf_name (fs' ! i) = p" "file_data (fs' ! i) = []"
    "files_map fs' = (files_map fs)(p \<mapsto> [])"
proof -
  have i: "i < RAMFS_MAX_FILES" "\<not> rf_in_use (fs ! i)"
    and fs': "fs' = fs[i := (fs ! i)\<lparr>rf_in_use := True, rf_size := 0, rf_name := copy_path p\<rparr>]"
    using c unfolding create_file_def by (auto simp: find_Some_iff simp del: upt_rec_numeral split: option.splits)
  define f where "f = (fs ! i)\<lparr>rf_in_use := True, rf_size := 0, rf_name := copy_path p\<rparr>"
  have cp: "copy_path p = p" using p(1) by (simp add: copy_path_def ramfs_name_def copy_limited_id)
  have f: "rf_in_use f" "rf_name f = p" "file_data f = []" "ramfs_file_ok f"
    using files_okD [OF ok i(1)] p(1) by (simp_all add: f_def cp file_data_def ramfs_file_ok_def)
  have l: "i < length fs" using files_okD [OF ok i(1)] by simp
  show ok': "files_ok fs'"
    unfolding fs' f_def [symmetric]
    using p(2) f by (intro files_ok_update [OF ok i(1)]) (auto simp: files_map_None_iff [OF ok])
  show "i < RAMFS_MAX_FILES" by (rule i)
  show "rf_in_use (fs' ! i)" "rf_name (fs' ! i) = p" "file_data (fs' ! i) = []"
    using f l by (simp_all add: fs' f_def [symmetric])
  show "files_map fs' = (files_map fs)(p \<mapsto> [])"
    using files_map_put [OF ok ok' [unfolded fs' f_def [symmetric]] i(1) f(1,2)] i(2) f(3)
    by (simp add: fs' f_def [symmetric])
qed

lemma create_file_None:
  assumes "files_ok fs"
  shows "create_file fs p = None \<longleftrightarrow> list_all rf_in_use fs"
proof -
  have "create_file fs p = None \<longleftrightarrow> find (\<lambda>i. \<not> rf_in_use (fs ! i)) [0..<RAMFS_MAX_FILES] = None"
    by (simp add: create_file_def split: option.splits)
  then show ?thesis
    using assms by (simp add: find_None_iff files_ok_def list_all_length del: upt_rec_numeral)
qed

lemma open_file_Some:
  assumes ok: "files_ok fs" and p: "ramfs_name p" and o: "open_file fs p = Some (i, fs')"
  shows "i < RAMFS_MAX_FILES" "files_ok fs'" "rf_in_use (fs' ! i)" "rf_name (fs' ! i) = p"
    "file_data (fs' ! i) = contents (files_map fs p)"
    "files_map fs' = (files_map fs)(p \<mapsto> contents (files_map fs p))"
proof -
  have n: "nul_free p" using p by (simp add: ramfs_name_def)
  have "i < RAMFS_MAX_FILES \<and> files_ok fs' \<and> rf_in_use (fs' ! i) \<and> rf_name (fs' ! i) = p \<and>
      file_data (fs' ! i) = contents (files_map fs p) \<and>
      files_map fs' = (files_map fs)(p \<mapsto> contents (files_map fs p))"
  proof (cases "find_file fs p")
    case None
    then have m: "files_map fs p = None" by (rule find_file_None [OF ok n])
    have "create_file fs p = Some (i, fs')" using o None by (simp add: open_file_def)
    from create_file_Some [OF ok p m this] show ?thesis by (simp add: m contents_def)
  next
    case (Some k)
    then have "k = i" "fs' = fs" using o by (simp_all add: open_file_def)
    with find_file_Some [OF ok n Some] ok show ?thesis by (simp add: contents_def fun_upd_idem)
  qed
  then show "i < RAMFS_MAX_FILES" "files_ok fs'" "rf_in_use (fs' ! i)" "rf_name (fs' ! i) = p"
    "file_data (fs' ! i) = contents (files_map fs p)"
    "files_map fs' = (files_map fs)(p \<mapsto> contents (files_map fs p))" by blast+
qed

lemma open_file_None:
  assumes "files_ok fs" "nul_free p"
  shows "open_file fs p = None \<longleftrightarrow> files_map fs p = None \<and> list_all rf_in_use fs"
  using find_file_eq [OF assms] create_file_None [OF assms(1), of p]
  by (auto simp: open_file_def split: option.splits)

text \<open>Replacing the data and size of the opened slot.\<close>

lemma open_file_put:
  assumes ok: "files_ok fs" and p: "ramfs_name p" and o: "open_file fs p = Some (i, fs')"
    and d: "length d = 1024" "sz \<le> RAMFS_FILE_MAX_SIZE"
  shows "files_ok (fs'[i := (fs' ! i)\<lparr>rf_data := d, rf_size := sz\<rparr>])"
    "files_map (fs'[i := (fs' ! i)\<lparr>rf_data := d, rf_size := sz\<rparr>]) = (files_map fs)(p \<mapsto> take (unat sz) d)"
proof -
  note of = open_file_Some [OF ok p o]
  define f where "f = (fs' ! i)\<lparr>rf_data := d, rf_size := sz\<rparr>"
  have f: "ramfs_file_ok f" "rf_in_use f" "rf_name f = p" "file_data f = take (unat sz) d"
    using d of p by (simp_all add: f_def ramfs_file_ok_def file_data_def)
  have u: "names_unique fs'" "length fs' = RAMFS_MAX_FILES" using of(2) by (simp_all add: files_ok_def)
  show ok': "files_ok (fs'[i := (fs' ! i)\<lparr>rf_data := d, rf_size := sz\<rparr>])"
    unfolding f_def [symmetric]
  proof (rule files_ok_update [OF of(2,1) f(1)])
    fix j assume "j < RAMFS_MAX_FILES" "rf_in_use (fs' ! j)" "rf_name (fs' ! j) = rf_name f"
    then show "j = i" using u of(1,3,4) f(3) unfolding names_unique_def by metis
  qed
  show "files_map (fs'[i := (fs' ! i)\<lparr>rf_data := d, rf_size := sz\<rparr>]) = (files_map fs)(p \<mapsto> take (unat sz) d)"
    using files_map_put [OF of(2) ok' [folded f_def] of(1) f(2,3) of(4)] by (simp add: f_def [symmetric] of(6) f(4))
qed

section \<open>The operations implement the map\<close>

lemma ramfs_read_spec:
  assumes "ramfs_inv s" "nul_free p"
  shows "ramfs_read p off buf len s = read_result (ramfs_abs s p) off buf len s"
proof (cases "find_file (ramfs_files s) p")
  case None
  then show ?thesis
    using find_file_None [OF _ assms(2) None] assms(1)
    by (simp add: ramfs_read_def ramfs_inv_def ramfs_abs_def read_result_def)
next
  case (Some i)
  have ok: "files_ok (ramfs_files s)" using assms(1) by (simp add: ramfs_inv_def)
  note f = find_file_Some [OF ok assms(2) Some]
  define g where "g = ramfs_files s ! i"
  have g: "length (rf_data g) = 1024" "unat (rf_size g) \<le> 1024" using files_okD [OF ok f(1)] by (simp_all add: g_def)
  have m: "ramfs_abs s p = Some (file_data g)" using f by (simp add: ramfs_abs_def g_def)
  have len: "length (file_data g) = unat (rf_size g)" using g by (simp add: file_data_def)
  show ?thesis
  proof (cases "rf_size g \<le> off")
    case True
    then have "read_count (file_data g) off len = 0" by (simp add: read_count_def len word_le_nat_alt)
    then show ?thesis using True by (simp add: ramfs_read_def Some Let_def g_def [symmetric] m read_result_def)
  next
    case False
    then have a: "unat (rf_size g - off) = unat (rf_size g) - unat off"
      by (simp add: unat_sub)
    define n where "n = (if len < rf_size g - off then len else rf_size g - off)"
    have n: "unat n = read_count (file_data g) off len"
      by (auto simp: n_def read_count_def len a word_less_nat_alt)
    have "copy_bytes buf 0 (drop (unat off) (rf_data g)) (unat n) = copy_bytes buf 0 (drop (unat off) (file_data g)) (unat n)"
    proof (rule nth_equalityI)
      fix k assume "k < length (copy_bytes buf 0 (drop (unat off) (rf_data g)) (unat n))"
      then show "copy_bytes buf 0 (drop (unat off) (rf_data g)) (unat n) ! k =
          copy_bytes buf 0 (drop (unat off) (file_data g)) (unat n) ! k"
        using g by (auto simp: nth_copy_bytes n read_count_def len file_data_def)
    qed simp
    moreover have "of_nat (unat n) = n" by simp
    ultimately show ?thesis
      using False by (simp add: ramfs_read_def Some Let_def g_def [symmetric] m read_result_def n_def [symmetric] n [symmetric])
  qed
qed

lemma ramfs_write_spec:
  assumes inv: "ramfs_inv s" and n: "nul_free p" and buf: "unat len \<le> length buf"
    and w: "ramfs_write p off buf len s = (r, s')"
  shows "r = U64_FAIL \<and> s' = s \<or>
    r = len \<and> r \<noteq> U64_FAIL \<and> ramfs_inv s' \<and>
    ramfs_abs s' = (ramfs_abs s)(p \<mapsto> overwrite (contents (ramfs_abs s p)) (unat off) (take (unat len) buf))"
proof (cases "ramfs_name p \<and> off \<le> RAMFS_FILE_MAX_SIZE \<and> len \<le> RAMFS_FILE_MAX_SIZE - off \<and>
    open_file (ramfs_files s) p \<noteq> None")
  case False
  then have "ramfs_write p off buf len s = (U64_FAIL, s)"
    using n by (cases "open_file (ramfs_files s) p") (auto simp: ramfs_write_def)
  then show ?thesis using w by simp
next
  case True
  then obtain i fs where o: "open_file (ramfs_files s) p = Some (i, fs)" by auto
  have ok: "files_ok (ramfs_files s)" using inv by (simp add: ramfs_inv_def)
  have p: "ramfs_name p" and le: "off \<le> RAMFS_FILE_MAX_SIZE" "len \<le> RAMFS_FILE_MAX_SIZE - off" using True by simp_all
  note of = open_file_Some [OF ok p o]
  define f where "f = fs ! i"
  have f: "length (rf_data f) = 1024" "unat (rf_size f) \<le> 1024"
    using files_okD [OF of(2,1)] by (simp_all add: f_def)
  have b: "unat off + unat len \<le> 1024"
  proof -
    have "unat off \<le> 1024" using True by (simp add: word_le_nat_alt)
    moreover have "unat (RAMFS_FILE_MAX_SIZE - off) = 1024 - unat off" using True by (simp add: unat_sub)
    ultimately show ?thesis using True by (auto simp: word_le_nat_alt)
  qed
  have ol: "unat (off + len) = unat off + unat len" using b by (simp add: unat_word_ariths)
  define sz where "sz = (if off + len > rf_size f then off + len else rf_size f)"
  have sz: "unat sz = max (unat off + unat len) (unat (rf_size f))"
    by (auto simp: sz_def word_less_nat_alt ol max_def)
  define d0 where "d0 = (if off > rf_size f then zero_bytes (rf_data f) (unat (rf_size f)) (unat (off - rf_size f)) else rf_data f)"
  define d where "d = copy_bytes d0 (unat off) buf (unat len)"
  have d: "length d = 1024" using f by (simp add: d_def d0_def)
  have sz_le: "sz \<le> RAMFS_FILE_MAX_SIZE" using sz b f by (simp add: word_le_nat_alt)
  have fd: "file_data f = contents (files_map (ramfs_files s) p)" using of(5) by (simp add: f_def)
  have "take (unat sz) d = overwrite (file_data f) (unat off) (take (unat len) buf)"
  proof (rule nth_equalityI)
    show "length (take (unat sz) d) = length (overwrite (file_data f) (unat off) (take (unat len) buf))"
      using buf f b by (simp add: length_overwrite d sz file_data_def)
  next
    fix k assume "k < length (take (unat sz) d)"
    then have k: "k < unat sz" "k < 1024" using d by auto
    have sub: "rf_size f < off \<Longrightarrow> unat (off - rf_size f) = unat off - unat (rf_size f)"
      by (simp add: unat_sub)
    show "take (unat sz) d ! k = overwrite (file_data f) (unat off) (take (unat len) buf) ! k"
      using k f buf sub
      by (auto simp: d_def d0_def nth_copy_bytes nth_fill_bytes overwrite_def nth_append file_data_def sz
          word_less_nat_alt min_def)
  qed
  moreover have "r = len" "s' = s\<lparr>ramfs_files := fs[i := f\<lparr>rf_data := d, rf_size := sz\<rparr>]\<rparr>"
    using w p n o le [THEN leD] by (auto simp: ramfs_write_def Let_def f_def sz_def d_def d0_def)
  moreover have "len \<noteq> U64_FAIL" using b by (auto simp: unsigned_minus_1_eq_mask mask_eq_exp_minus_1)
  ultimately show ?thesis
    using open_file_put [OF ok p o d sz_le] fd by (simp add: ramfs_inv_def ramfs_abs_def f_def)
qed

lemma ramfs_truncate_spec:
  assumes inv: "ramfs_inv s" and n: "nul_free p" and t: "ramfs_truncate p len s = (r, s')"
  shows "r \<noteq> 0 \<and> s' = s \<or>
    r = 0 \<and> ramfs_inv s' \<and> ramfs_abs s' = (ramfs_abs s)(p \<mapsto> resize (contents (ramfs_abs s p)) (unat len))"
proof (cases "ramfs_name p \<and> len \<le> RAMFS_FILE_MAX_SIZE \<and> open_file (ramfs_files s) p \<noteq> None")
  case False
  then have "ramfs_truncate p len s = (-1, s)"
    using n by (cases "open_file (ramfs_files s) p") (auto simp: ramfs_truncate_def)
  then show ?thesis using t by simp
next
  case True
  then obtain i fs where o: "open_file (ramfs_files s) p = Some (i, fs)" by auto
  have ok: "files_ok (ramfs_files s)" using inv by (simp add: ramfs_inv_def)
  have p: "ramfs_name p" and le: "len \<le> RAMFS_FILE_MAX_SIZE" using True by simp_all
  note of = open_file_Some [OF ok p o]
  define f where "f = fs ! i"
  have f: "length (rf_data f) = 1024" "unat (rf_size f) \<le> 1024"
    using files_okD [OF of(2,1)] by (simp_all add: f_def)
  define d where "d = (if len > rf_size f then zero_bytes (rf_data f) (unat (rf_size f)) (unat (len - rf_size f)) else rf_data f)"
  have d: "length d = 1024" using f by (simp add: d_def)
  have fd: "file_data f = contents (files_map (ramfs_files s) p)" using of(5) by (simp add: f_def)
  have "take (unat len) d = resize (file_data f) (unat len)"
  proof (rule nth_equalityI)
    show "length (take (unat len) d) = length (resize (file_data f) (unat len))"
      using le by (simp add: d word_le_nat_alt)
  next
    fix k assume "k < length (take (unat len) d)"
    then have k: "k < unat len" "k < 1024" using d by auto
    have sub: "rf_size f < len \<Longrightarrow> unat (len - rf_size f) = unat len - unat (rf_size f)"
      by (simp add: unat_sub)
    show "take (unat len) d ! k = resize (file_data f) (unat len) ! k"
      using k f sub
      by (auto simp: d_def nth_fill_bytes resize_def nth_append file_data_def word_less_nat_alt min_def)
  qed
  moreover have "r = 0" "s' = s\<lparr>ramfs_files := fs[i := f\<lparr>rf_data := d, rf_size := len\<rparr>]\<rparr>"
    using t p n o leD [OF le] by (auto simp: ramfs_truncate_def Let_def f_def d_def)
  ultimately show ?thesis
    using open_file_put [OF ok p o d le] fd by (simp add: ramfs_inv_def ramfs_abs_def f_def)
qed

lemma ramfs_unlink_spec:
  assumes inv: "ramfs_inv s" and n: "nul_free p" and u: "ramfs_unlink p s = (r, s')"
  shows "r \<noteq> 0 \<and> s' = s \<or> r = 0 \<and> ramfs_abs s p \<noteq> None \<and> ramfs_inv s' \<and> ramfs_abs s' = (ramfs_abs s)(p := None)"
proof (cases "ramfs_name p \<and> find_file (ramfs_files s) p \<noteq> None")
  case False
  then have "ramfs_unlink p s = (-1, s)"
    using n by (cases "find_file (ramfs_files s) p") (auto simp: ramfs_unlink_def)
  then show ?thesis using u by simp
next
  case True
  then obtain i where i: "find_file (ramfs_files s) p = Some i" by auto
  have ok: "files_ok (ramfs_files s)" using inv by (simp add: ramfs_inv_def)
  note f = find_file_Some [OF ok n i]
  define g where "g = (ramfs_files s ! i)\<lparr>rf_in_use := False, rf_size := 0, rf_name := []\<rparr>"
  have g: "ramfs_file_ok g" "\<not> rf_in_use g"
    using files_okD [OF ok f(1)] by (simp_all add: g_def ramfs_file_ok_def)
  have ok': "files_ok ((ramfs_files s)[i := g])" by (rule files_ok_update [OF ok f(1) g(1)]) (simp add: g(2))
  have "r = 0" "s' = s\<lparr>ramfs_files := (ramfs_files s)[i := g]\<rparr>"
    using u True i n by (auto simp: ramfs_unlink_def g_def)
  then show ?thesis
    using files_map_clear [OF ok ok' f(1) g(2) f(2,3)] ok' f(4) by (simp add: ramfs_inv_def ramfs_abs_def)
qed

lemma ramfs_size_spec:
  assumes "ramfs_inv s" "nul_free p"
  shows "ramfs_size p s = (case ramfs_abs s p of None \<Rightarrow> U64_FAIL | Some d \<Rightarrow> of_nat (length d), s)"
proof -
  have ok: "files_ok (ramfs_files s)" using assms by (simp add: ramfs_inv_def)
  show ?thesis
    using find_file_None [OF ok assms(2)] find_file_Some [OF ok assms(2)] files_okD [OF ok]
    by (cases "find_file (ramfs_files s) p") (simp_all add: ramfs_size_def ramfs_abs_def file_data_def)
qed

text \<open>The directory \<^verbatim>\<open>/\<close>: one entry for each slot in use, in slot order.\<close>

definition ramfs_dir :: "'a ramfs_state_scheme \<Rightarrow> string \<Rightarrow> vfs_dirent list option" where
  "ramfs_dir s p =
     (if p = ''/''
      then Some (map (\<lambda>f. \<lparr>de_name = copy_dirent_name (rf_name f), de_type = VFS_DIRENT_TYPE_FILE, de_size = rf_size f\<rparr>)
                   (filter rf_in_use (ramfs_files s)))
      else None)"

lemma ramfs_list_from_eq:
  "seen \<le> index \<Longrightarrow> ramfs_list_from fs index seen =
     (let es = map (\<lambda>f. \<lparr>de_name = copy_dirent_name (rf_name f), de_type = VFS_DIRENT_TYPE_FILE, de_size = rf_size f\<rparr>)
                 (filter rf_in_use fs)
      in if index - seen < length es then Some (es ! (index - seen)) else None)"
  by (induction fs arbitrary: seen) (auto simp: Let_def nth_Cons' Suc_diff_le not_less_eq_eq)

lemma ramfs_file_small: "ramfs_inv s \<Longrightarrow> ramfs_abs s p = Some d \<Longrightarrow> length d \<le> 1024"
  using files_okD(4) by (fastforce simp: ramfs_inv_def ramfs_abs_def files_map_Some_iff file_data_def)

interpretation ramfs: vfs_writer ramfs_read ramfs_inv ramfs_abs ramfs_write ramfs_size ramfs_truncate ramfs_unlink
proof (unfold_locales, goal_cases)
  case (2 s p d)
  then show ?case using ramfs_file_small by fastforce
qed (fact ramfs_read_spec ramfs_write_spec ramfs_size_spec ramfs_truncate_spec ramfs_unlink_spec)+

interpretation ramfs: vfs_lister ramfs_list ramfs_inv ramfs_dir
  by unfold_locales (simp add: ramfs_list_def chars_equal_iff list_result_def ramfs_dir_def ramfs_list_from_eq Let_def)

lemma dom_files_map:
  "files_ok fs \<Longrightarrow> dom (files_map fs) = (\<lambda>i. rf_name (fs ! i)) ` {i. i < RAMFS_MAX_FILES \<and> rf_in_use (fs ! i)}"
  by (auto simp: dom_def files_map_Some_iff)

lemma card_files_map:
  assumes "files_ok fs"
  shows "card (dom (files_map fs)) < RAMFS_MAX_FILES \<longleftrightarrow> \<not> list_all rf_in_use fs"
proof -
  let ?I = "{i. i < RAMFS_MAX_FILES \<and> rf_in_use (fs ! i)}"
  have u: "names_unique fs" "length fs = RAMFS_MAX_FILES" using assms by (simp_all add: files_ok_def)
  have "inj_on (\<lambda>i. rf_name (fs ! i)) ?I"
    using u by (auto simp: inj_on_def names_unique_def)
  then have c: "card (dom (files_map fs)) = card ?I"
    by (simp add: dom_files_map [OF assms] card_image)
  show ?thesis
  proof (cases "list_all rf_in_use fs")
    case True
    then have "?I = {..<RAMFS_MAX_FILES}" using u by (auto simp: list_all_length)
    then show ?thesis using True c by simp
  next
    case False
    then obtain k where "k < RAMFS_MAX_FILES" "\<not> rf_in_use (fs ! k)" using u by (auto simp: list_all_length)
    then have "?I \<subset> {..<RAMFS_MAX_FILES}" by auto
    from psubset_card_mono [OF _ this] show ?thesis using False c by simp
  qed
qed

lemma ramfs_write_fails_iff:
  assumes "ramfs_inv s" "nul_free p" "len \<noteq> U64_FAIL"
  shows "fst (ramfs_write p off buf len s) = U64_FAIL \<longleftrightarrow>
    \<not> (ramfs_name p \<and> unat off + unat len \<le> 1024 \<and>
       (ramfs_abs s p \<noteq> None \<or> card (dom (ramfs_abs s)) < RAMFS_MAX_FILES))"
proof -
  have ok: "files_ok (ramfs_files s)" using assms by (simp add: ramfs_inv_def)
  have r: "off \<le> RAMFS_FILE_MAX_SIZE \<and> len \<le> RAMFS_FILE_MAX_SIZE - off \<longleftrightarrow> unat off + unat len \<le> 1024"
    using unat_sub [of off RAMFS_FILE_MAX_SIZE] by (auto simp: word_le_nat_alt)
  have o: "open_file (ramfs_files s) p = None \<longleftrightarrow>
      \<not> (ramfs_abs s p \<noteq> None \<or> card (dom (ramfs_abs s)) < RAMFS_MAX_FILES)"
    using open_file_None [OF ok assms(2)] card_files_map [OF ok] by (auto simp: ramfs_abs_def)
  have "fst (ramfs_write p off buf len s) = U64_FAIL \<longleftrightarrow>
    \<not> (ramfs_name p \<and> (off \<le> RAMFS_FILE_MAX_SIZE \<and> len \<le> RAMFS_FILE_MAX_SIZE - off) \<and> open_file (ramfs_files s) p \<noteq> None)"
    using assms(2,3) by (cases "open_file (ramfs_files s) p") (auto simp: ramfs_write_def Let_def)
  then show ?thesis unfolding r o by simp
qed

lemma ramfs_init_inv:
  assumes "length (ramfs_files s) = RAMFS_MAX_FILES" "\<forall>f \<in> set (ramfs_files s). length (rf_data f) = 1024"
  shows "ramfs_inv (snd (ramfs_init fss s))" "ramfs_abs (snd (ramfs_init fss s)) = Map.empty"
proof -
  define fs where "fs = map (\<lambda>file. file\<lparr>rf_in_use := False, rf_size := 0, rf_name := []\<rparr>) (ramfs_files s)"
  have r: "ramfs_files (snd (ramfs_init fss s)) = fs" by (simp add: ramfs_init_def fs_def split: prod.splits)
  have ok: "files_ok fs"
    using assms by (auto simp: files_ok_def fs_def list_all_iff ramfs_file_ok_def names_unique_def)
  show "ramfs_inv (snd (ramfs_init fss s))" using ok by (simp add: ramfs_inv_def r)
  show "ramfs_abs (snd (ramfs_init fss s)) = Map.empty"
  proof
    fix q
    have "files_map fs q = None" unfolding files_map_None_iff [OF ok] using assms(1) by (auto simp: fs_def)
    then show "ramfs_abs (snd (ramfs_init fss s)) q = None" by (simp add: ramfs_abs_def r)
  qed
qed

text \<open>Sixteen empty slots, as the kernel image has them before \<^verbatim>\<open>ramfs_init\<close>.\<close>

definition ramfs_boot :: ramfs_state where
  "ramfs_boot = \<lparr>block_devices = [], ramdisk = [], partition_count = 0, ramfs_files = replicate 16 \<lparr>rf_in_use = False, rf_name = [], rf_data = replicate 1024 0, rf_size = 0\<rparr>\<rparr>"

lemma ramfs_boot_inv: "ramfs_inv ramfs_boot" "ramfs_abs ramfs_boot = Map.empty"
proof -
  have ok: "files_ok (ramfs_files ramfs_boot)"
    by (simp add: files_ok_def ramfs_boot_def list_all_length ramfs_file_ok_def names_unique_def)
  then show "ramfs_inv ramfs_boot" by (simp add: ramfs_inv_def)
  show "ramfs_abs ramfs_boot = Map.empty"
    by (rule ext) (auto simp: ramfs_abs_def files_map_None_iff [OF ok], auto simp: ramfs_boot_def)
qed

section \<open>Properties\<close>

text \<open>
  C21: \<^verbatim>\<open>ramfs_write\<close> implements writing to a map from names to contents: it succeeds exactly for a valid name,
  a range that ends within 1024 bytes, and a file that exists or a free slot for a new one; then it
  returns the length, the file's contents are overwritten from the offset on (a gap filled with
  zeros) and no other file changes. Otherwise it returns -1 and changes nothing.
\<close>

theorem ramfs_write_refines:
  assumes "ramfs_inv s" "nul_free p" "unat len \<le> length buf" "len \<noteq> U64_FAIL"
    and "ramfs_write p off buf len s = (r, s')"
  shows "ramfs_inv s' \<and>
    (if ramfs_name p \<and> unat off + unat len \<le> 1024 \<and>
        (ramfs_abs s p \<noteq> None \<or> card (dom (ramfs_abs s)) < RAMFS_MAX_FILES)
     then r = len \<and>
       ramfs_abs s' = (ramfs_abs s)(p \<mapsto> overwrite (contents (ramfs_abs s p)) (unat off) (take (unat len) buf))
     else r = U64_FAIL \<and> s' = s)"
  using ramfs.wr_spec [OF assms(1-3,5)] ramfs_write_fails_iff [OF assms(1,2,4), of off buf] assms(1,5) by auto

theorem ramfs_write_refines_witness:
  "ramfs_abs (snd (ramfs_write ''/a'' 2 [7, 8, 9] 3 ramfs_boot)) = [''/a'' \<mapsto> [0, 0, 7, 8, 9]] \<and>
   fst (ramfs_write ''/a'' 2 [7, 8, 9] 3 ramfs_boot) = 3"
proof -
  have rep: "replicate 2 (0 :: u8) = [0, 0]" by (simp add: numeral_2_eq_2)
  show ?thesis
    using ramfs_write_refines [of ramfs_boot "''/a''" 3 "[7, 8, 9]" 2 "fst (ramfs_write ''/a'' 2 [7, 8, 9] 3 ramfs_boot)"
      "snd (ramfs_write ''/a'' 2 [7, 8, 9] 3 ramfs_boot)"]
  by (simp add: ramfs_boot_inv ramfs_name_def overwrite_def contents_def rep)
qed

text \<open>
  C22: Bytes written to a file are the bytes a later read of the same range delivers, whatever the read
  buffer held; the reported size is the larger of the old size and the end of the write; and a file
  removed by \<^verbatim>\<open>ramfs_unlink\<close> can no longer be read.
\<close>

theorem ramfs_write_read_roundtrip:
  assumes "ramfs_inv s" "nul_free p" "unat len \<le> length buf" "unat len \<le> length buf2"
    and "ramfs_write p off buf len s = (r, s')" "r \<noteq> U64_FAIL" "ramfs_unlink p s' = (0, s'')"
  shows "ramfs_read p off buf2 len s' = (len, take (unat len) buf @ drop (unat len) buf2, s') \<and>
    ramfs_size p s' = (of_nat (max (unat off + unat len) (length (contents (ramfs_abs s p)))), s') \<and>
    ramfs_read p off buf2 len s'' = (U64_FAIL, buf2, s'')"
  using ramfs.wr_rd [OF assms(1-3,5,6,4)] ramfs.wr_sz [OF assms(1-3,5,6)] ramfs.ul_rd [OF _ assms(2,7)]
    ramfs.wr_keeps [OF assms(1-3), of off] assms(5) by simp

theorem ramfs_write_read_roundtrip_witness:
  "ramfs_read ''/a'' 2 [1, 1, 1, 1] 3 (snd (ramfs_write ''/a'' 2 [7, 8, 9] 3 ramfs_boot)) =
   (3, [7, 8, 9, 1], snd (ramfs_write ''/a'' 2 [7, 8, 9] 3 ramfs_boot))"
proof -
  define s' where "s' = snd (ramfs_write ''/a'' 2 [7, 8, 9] 3 ramfs_boot)"
  have w: "ramfs_inv s'" "ramfs_abs s' ''/a'' \<noteq> None" "ramfs_write ''/a'' 2 [7, 8, 9] 3 ramfs_boot = (3, s')"
    using ramfs_write_spec [of ramfs_boot "''/a''" 3 "[7, 8, 9]" 2 "fst (ramfs_write ''/a'' 2 [7, 8, 9] 3 ramfs_boot)" s']
      ramfs_write_fails_iff [of ramfs_boot "''/a''" 3 2 "[7, 8, 9]"]
    by (auto simp: s'_def ramfs_boot_inv ramfs_name_def prod_eq_iff)
  have "fst (ramfs_unlink ''/a'' s') = 0"
    using w(2) find_file_eq [of "ramfs_files s'" "''/a''"] w(1)
    by (auto simp: ramfs_unlink_def ramfs_name_def ramfs_inv_def ramfs_abs_def split: option.splits)
  then have u: "ramfs_unlink ''/a'' s' = (0, snd (ramfs_unlink ''/a'' s'))" by (simp add: prod_eq_iff)
  show ?thesis
    using ramfs_write_read_roundtrip [OF ramfs_boot_inv(1) _ _ _ w(3) _ u, of "[1, 1, 1, 1]"]
    by (simp add: s'_def [symmetric])
qed

end
