(* ===== verification/Initrd.thy ===== *)
theory Initrd
  imports Ramfs
begin

text \<open>
  The boot archive of \<^verbatim>\<open>initrd.c\<close>: \<^verbatim>\<open>initrd_init\<close> scans the tar image the boot loader left in memory and records
  the files; the read-only file system serves them from the image. The state extends that of the
  in-memory file system by the bytes of the boot modules and the table of files.
\<close>

section \<open>The code\<close>

abbreviation INITRD_MAX_FILES :: nat where "INITRD_MAX_FILES \<equiv> 32"
abbreviation INITRD_NAME_MAX :: nat where "INITRD_NAME_MAX \<equiv> 128"
abbreviation TAR_BLOCK_SIZE :: u64 where "TAR_BLOCK_SIZE \<equiv> 512"

record initrd_file =
  if_name :: string
  if_data :: u64
  if_size :: u64

record initrd_state = ramfs_state +
  boot_mem :: "u64 \<Rightarrow> u8"
  initrd_files :: "initrd_file list"

record limine_file =
  lf_address :: u64
  lf_size :: u64
  lf_path :: "string option"
  lf_string :: "string option"

text \<open>The character fields of the \<^verbatim>\<open>tar_header\<close> at an address, and the scalar ones.\<close>

definition header_field :: "(u64 \<Rightarrow> u8) \<Rightarrow> u64 \<Rightarrow> u64 \<Rightarrow> nat \<Rightarrow> string" where
  "header_field mem header off n = map (\<lambda>i. char_of (unat (mem (header + off + of_nat i)))) [0..<n]"

definition tar_name :: "(u64 \<Rightarrow> u8) \<Rightarrow> u64 \<Rightarrow> string" where
  "tar_name mem header = header_field mem header 0 100"

definition tar_size :: "(u64 \<Rightarrow> u8) \<Rightarrow> u64 \<Rightarrow> string" where
  "tar_size mem header = header_field mem header 124 12"

definition tar_typeflag :: "(u64 \<Rightarrow> u8) \<Rightarrow> u64 \<Rightarrow> char" where
  "tar_typeflag mem header = char_of (unat (mem (header + 156)))"

definition tar_prefix :: "(u64 \<Rightarrow> u8) \<Rightarrow> u64 \<Rightarrow> string" where
  "tar_prefix mem header = header_field mem header 345 155"

definition ends_with :: "string option \<Rightarrow> string \<Rightarrow> bool" where
  "ends_with s sfx =
     (case s of
        None \<Rightarrow> False
      | Some s \<Rightarrow>
          let s_len = string_length s; sfx_len = string_length sfx in
          if s_len < sfx_len then False else chars_equal (drop (s_len - sfx_len) s) sfx)"

fun parse_octal_from :: "string \<Rightarrow> u64 \<Rightarrow> u64" where
  "parse_octal_from [] result = result"
| "parse_octal_from (c # value) result =
     (if c = NUL \<or> c = CHR '' '' then result
      else if of_char c < (48 :: nat) \<or> of_char c > (55 :: nat) then result
      else parse_octal_from value (push_bit 3 result + of_nat (of_char c - 48)))"

definition parse_octal :: "string \<Rightarrow> u64" where
  "parse_octal value = parse_octal_from value 0"

definition is_zero_block :: "(u64 \<Rightarrow> u8) \<Rightarrow> u64 \<Rightarrow> bool" where
  "is_zero_block mem block = list_all (\<lambda>i. mem (block + of_nat i) = 0) [0..<512]"

text \<open>One of the two copy loops of \<^verbatim>\<open>copy_tar_name\<close>: \<open>dst\<close> holds the \<^verbatim>\<open>out\<close> characters written so far.\<close>

fun append_tar_chars :: "string \<Rightarrow> string \<Rightarrow> string" where
  "append_tar_chars dst [] = dst"
| "append_tar_chars dst (c # src) =
     (if c = NUL then dst
      else if length dst + 1 \<ge> INITRD_NAME_MAX then dst
      else append_tar_chars (dst @ [c]) src)"

definition copy_tar_name :: "(u64 \<Rightarrow> u8) \<Rightarrow> u64 \<Rightarrow> string" where
  "copy_tar_name mem header =
     (let dst = (if deref (tar_prefix mem header) \<noteq> NUL
                 then let dst = append_tar_chars [] (tar_prefix mem header)
                      in if length dst + 1 < INITRD_NAME_MAX then dst @ ''/'' else dst
                 else [])
      in append_tar_chars dst (tar_name mem header))"

fun skip_slashes :: "string \<Rightarrow> string" where
  "skip_slashes [] = []"
| "skip_slashes (c # path) = (if c = CHR ''/'' then skip_slashes path else c # path)"

definition normalize_path :: "string \<Rightarrow> string" where
  "normalize_path path =
     (let path = skip_slashes path in
      if deref path = CHR ''.'' \<and> char_at path 1 = CHR ''/'' then drop 2 path else path)"

definition copy_user_path :: "string \<Rightarrow> string" where
  "copy_user_path path = copy_limited INITRD_NAME_MAX (normalize_path path)"

fun child_length :: "string \<Rightarrow> nat" where
  "child_length [] = 0"
| "child_length (c # rest) = (if c \<noteq> NUL \<and> c \<noteq> CHR ''/'' then Suc (child_length rest) else 0)"

text \<open>The child pointer, its length and whether it is a directory; \<open>None\<close> when the result is 0.\<close>

definition path_child_for_dir :: "string \<Rightarrow> string \<Rightarrow> (string \<times> nat \<times> bool) option" where
  "path_child_for_dir file_name dir =
     (let dir_len = string_length dir in
      if dir_len > 0 \<and> (\<not> chars_equal_n file_name dir dir_len \<or> char_at file_name dir_len \<noteq> CHR ''/'') then None
      else
        let rest = (if dir_len > 0 then drop (dir_len + 1) file_name else file_name) in
        if deref rest = NUL then None
        else
          let len = child_length rest in
          if len > 0 then Some (rest, len, char_at rest len = CHR ''/'') else None)"

definition listed_child_before :: "initrd_file list \<Rightarrow> string \<Rightarrow> nat \<Rightarrow> string \<Rightarrow> nat \<Rightarrow> bool" where
  "listed_child_before files dir file_index child child_len =
     list_ex (\<lambda>i. case path_child_for_dir (if_name (files ! i)) dir of
                    None \<Rightarrow> False
                  | Some (candidate_child, candidate_len, _) \<Rightarrow>
                      candidate_len = child_len \<and> chars_equal_n candidate_child child child_len)
       [0..<file_index]"

definition copy_child_name :: "string \<Rightarrow> nat \<Rightarrow> string" where
  "copy_child_name src src_len = map (char_at src) [0..<min (VFS_DIRENT_NAME_MAX - 1) src_len]"

definition find_initrd_module :: "limine_file list option \<Rightarrow> limine_file option" where
  "find_initrd_module modules =
     (case modules of
        None \<Rightarrow> None
      | Some modules \<Rightarrow>
          find (\<lambda>m. (lf_string m \<noteq> None \<and> chars_equal (the (lf_string m)) ''initrd'') \<or>
                     (lf_path m \<noteq> None \<and> ends_with (lf_path m) ''/initrd.tar'')) modules)"

definition tar_record_size :: "u64 \<Rightarrow> u64" where
  "tar_record_size sz = TAR_BLOCK_SIZE + and (sz + TAR_BLOCK_SIZE - 1) (not (TAR_BLOCK_SIZE - 1))"

partial_function (option) initrd_scan :: "(u64 \<Rightarrow> u8) \<Rightarrow> u64 \<Rightarrow> u64 \<Rightarrow> initrd_file list \<Rightarrow> initrd_file list option" where
  "initrd_scan mem fin cursor files =
     (if cursor + TAR_BLOCK_SIZE \<le> fin \<and> \<not> is_zero_block mem cursor then
        let sz = parse_octal (tar_size mem cursor);
            data = cursor + TAR_BLOCK_SIZE;
            record_size = tar_record_size sz
        in if data + sz > fin \<or> cursor + record_size > fin then Some files
           else
             let files =
               (if (tar_typeflag mem cursor = NUL \<or> tar_typeflag mem cursor = CHR ''0'') \<and> length files < INITRD_MAX_FILES
                then files @ [\<lparr>if_name = copy_tar_name mem cursor, if_data = data, if_size = sz\<rparr>]
                else files)
             in initrd_scan mem fin (cursor + record_size) files
      else Some files)"

definition find_initrd_file :: "initrd_file list \<Rightarrow> string \<Rightarrow> initrd_file option" where
  "find_initrd_file files normalized = find (\<lambda>file. chars_equal normalized (if_name file)) files"

definition initrd_read_file :: "'a initrd_state_scheme vfs_read_fn" where
  "initrd_read_file path offset buffer buffer_len s =
     (case find_initrd_file (initrd_files s) (copy_user_path path) of
        None \<Rightarrow> (U64_FAIL, buffer, s)
      | Some file \<Rightarrow>
          if offset \<ge> if_size file then (0, buffer, s)
          else
            let remaining = if_size file - offset;
                to_copy = (if remaining < buffer_len then remaining else buffer_len)
            in (to_copy,
                copy_bytes buffer 0 (map (\<lambda>j. boot_mem s (if_data file + (offset + of_nat j))) [0..<unat to_copy]) (unat to_copy),
                s))"

fun initrd_list_from :: "initrd_file list \<Rightarrow> string \<Rightarrow> nat list \<Rightarrow> nat \<Rightarrow> nat \<Rightarrow> vfs_dirent option" where
  "initrd_list_from files dir [] index seen = None"
| "initrd_list_from files dir (i # is) index seen =
     (case path_child_for_dir (if_name (files ! i)) dir of
        None \<Rightarrow> initrd_list_from files dir is index seen
      | Some (child, child_len, is_dir) \<Rightarrow>
          if listed_child_before files dir i child child_len then initrd_list_from files dir is index seen
          else if seen = index then
            Some \<lparr>de_name = copy_child_name child child_len,
                  de_type = (if is_dir then VFS_DIRENT_TYPE_DIR else VFS_DIRENT_TYPE_FILE),
                  de_size = (if is_dir then 0 else if_size (files ! i))\<rparr>
          else initrd_list_from files dir is index (seen + 1))"

definition initrd_list_dir :: "'a initrd_state_scheme vfs_list_fn" where
  "initrd_list_dir path index s =
     (let dir = normalize_path path;
          dir = (if deref dir = CHR ''.'' \<and> char_at dir 1 = NUL then [] else dir)
      in case initrd_list_from (initrd_files s) dir [0..<length (initrd_files s)] index 0 of
           Some entry \<Rightarrow> (1, Some entry, s)
         | None \<Rightarrow> (0, None, s))"

definition initrd_file_size :: "'a initrd_state_scheme vfs_size_fn" where
  "initrd_file_size path s =
     (case find_initrd_file (initrd_files s) (copy_user_path path) of
        None \<Rightarrow> (U64_FAIL, s)
      | Some file \<Rightarrow> (if_size file, s))"

text \<open>\<open>None\<close>: the scan does not end.\<close>

definition initrd_init ::
  "limine_file list option \<Rightarrow> 'a initrd_state_scheme mount_table \<Rightarrow> 'a initrd_state_scheme \<Rightarrow>
   ('a initrd_state_scheme mount_table \<times> 'a initrd_state_scheme) option" where
  "initrd_init modules fss s =
     (case find_initrd_module modules of
        None \<Rightarrow> Some (fss, s\<lparr>initrd_files := []\<rparr>)
      | Some m \<Rightarrow>
          (case initrd_scan (boot_mem s) (lf_address m + lf_size m) (lf_address m) [] of
             None \<Rightarrow> None
           | Some files \<Rightarrow>
               Some (if files \<noteq> []
                     then snd (vfs_register_fs_mount fss ''initrd'' (Some ''/'') (Some ''limine-initrd'')
                            (Some initrd_read_file) (Some initrd_list_dir) None (Some initrd_file_size) None None)
                     else fss,
                     s\<lparr>initrd_files := files\<rparr>)))"

section \<open>The scan ends and stays inside the module\<close>

lemma unat_octal_step:
  assumes "unat (r :: u64) < 8 ^ k" "d < 8" "k < 21"
  shows "unat (push_bit 3 r + of_nat d) = 8 * unat r + d" "unat (push_bit 3 r + of_nat d) < 8 ^ Suc k"
proof -
  have "(8 :: nat) ^ Suc k \<le> 8 ^ 21" using assms(3) by (intro power_increasing) auto
  then have lt: "8 * unat r + d < 2 ^ 64" "8 * unat r + d < 8 ^ Suc k" using assms(1,2) by auto
  have "push_bit 3 r + of_nat d = of_nat (8 * unat r + d)" by (simp add: push_bit_eq_mult mult.commute)
  then show eq: "unat (push_bit 3 r + of_nat d) = 8 * unat r + d"
    using lt(1) by (simp only: unat_of_nat) (simp add: take_bit_nat_eq_self)
  show "unat (push_bit 3 r + of_nat d) < 8 ^ Suc k" unfolding eq by (rule lt(2))
qed

lemma parse_octal_from_bound:
  "unat r < 8 ^ k \<Longrightarrow> k + length cs \<le> 21 \<Longrightarrow> unat (parse_octal_from cs r) < 8 ^ (k + length cs)"
proof (induction cs r arbitrary: k rule: parse_octal_from.induct)
  case (2 c cs r)
  have mono: "(8 :: nat) ^ k \<le> 8 ^ (k + length (c # cs))" by (intro power_increasing) auto
  show ?case
  proof (cases "c = NUL \<or> c = CHR '' '' \<or> of_char c < (48 :: nat) \<or> of_char c > (55 :: nat)")
    case True
    then show ?thesis using "2.prems"(1) mono by (auto intro: less_le_trans)
  next
    case False
    then have d: "of_char c - 48 < (8 :: nat)" by auto
    have "unat (parse_octal_from cs (push_bit 3 r + of_nat (of_char c - 48))) < 8 ^ (Suc k + length cs)"
      using "2.prems" False unat_octal_step(2) [OF "2.prems"(1) d] by (intro "2.IH") auto
    then show ?thesis using False by (simp add: not_less)
  qed
qed simp

lemma tar_size_bound: "unat (parse_octal (tar_size mem cursor)) < 2 ^ 36"
  using parse_octal_from_bound [of 0 0 "tar_size mem cursor"]
  by (simp add: parse_octal_def tar_size_def header_field_def)

lemma unat_tar_record_size:
  assumes "unat sz < 2 ^ 63"
  shows "unat (tar_record_size sz) = 512 + (unat sz + 511) div 512 * 512"
proof -
  have "tar_record_size sz = 512 + align_down (sz + 511) (2 ^ 9)"
    by (simp add: tar_record_size_def align_down_def add.commute)
  moreover have "unat (align_down (sz + 511) (2 ^ 9)) = unat (sz + 511) div 512 * 512"
    using unat_align_down_exp [of "sz + 511" 9] by simp
  moreover have "unat (sz + 511) = unat sz + 511" using assms by (simp add: unat_word_ariths)
  moreover have "(unat sz + 511) div 512 * 512 \<le> unat sz + 511" by simp
  ultimately show ?thesis using assms by (simp add: unat_word_ariths)
qed

text \<open>A file whose bytes lie between two addresses, with a proper name.\<close>

definition initrd_file_ok :: "nat \<Rightarrow> nat \<Rightarrow> initrd_file \<Rightarrow> bool" where
  "initrd_file_ok lo hi f \<longleftrightarrow> nul_free (if_name f) \<and> length (if_name f) < INITRD_NAME_MAX \<and>
     lo \<le> unat (if_data f) \<and> unat (if_data f) + unat (if_size f) \<le> hi"

lemma append_tar_chars_ok:
  "nul_free dst \<Longrightarrow> length dst < INITRD_NAME_MAX \<Longrightarrow>
   nul_free (append_tar_chars dst src) \<and> length (append_tar_chars dst src) < INITRD_NAME_MAX"
  by (induction dst src rule: append_tar_chars.induct) auto

lemma append_tar_chars_eq:
  "length dst < INITRD_NAME_MAX \<Longrightarrow> append_tar_chars dst src = take (INITRD_NAME_MAX - 1) (dst @ cstr src)"
  by (induction dst src rule: append_tar_chars.induct) auto

lemma copy_tar_name_ok: "nul_free (copy_tar_name mem h)" "length (copy_tar_name mem h) < INITRD_NAME_MAX"
  using append_tar_chars_ok [of "[]" "tar_prefix mem h"] append_tar_chars_ok [of "[]" "tar_name mem h"]
    append_tar_chars_ok [of "append_tar_chars [] (tar_prefix mem h)" "tar_name mem h"]
    append_tar_chars_ok [of "append_tar_chars [] (tar_prefix mem h) @ ''/''" "tar_name mem h"]
  by (simp_all add: copy_tar_name_def Let_def)

lemma initrd_scan_total:
  assumes "unat fin + 2 ^ 37 \<le> 2 ^ 64" "cursor \<le> fin" "lo \<le> unat cursor"
    and "list_all (initrd_file_ok lo (unat fin)) files" "length files \<le> INITRD_MAX_FILES"
  shows "\<exists>files'. initrd_scan mem fin cursor files = Some files' \<and>
    list_all (initrd_file_ok lo (unat fin)) files' \<and> length files' \<le> INITRD_MAX_FILES"
  using assms(2-)
proof (induction "unat fin - unat cursor" arbitrary: cursor files rule: less_induct)
  case less
  define sz where "sz = parse_octal (tar_size mem cursor)"
  define nx where "nx = cursor + tar_record_size sz"
  let ?go = "cursor + TAR_BLOCK_SIZE \<le> fin \<and> \<not> is_zero_block mem cursor"
  let ?cut = "cursor + TAR_BLOCK_SIZE + sz > fin \<or> nx > fin"
  have sz: "unat sz < 2 ^ 36" using tar_size_bound by (simp add: sz_def)
  have cf: "unat cursor \<le> unat fin" using less.prems(1) by (simp add: word_le_nat_alt)
  have rec: "unat (tar_record_size sz) = 512 + (unat sz + 511) div 512 * 512"
    using sz by (intro unat_tar_record_size) simp
  have rb: "512 \<le> unat (tar_record_size sz)" "unat (tar_record_size sz) < 2 ^ 36 + 1024"
    using rec sz div_times_less_eq_dividend [of "unat sz + 511" 512] by simp_all
  have nx: "unat nx = unat cursor + unat (tar_record_size sz)"
    using rb cf assms(1) by (simp add: nx_def unat_word_ariths)
  have data: "unat (cursor + TAR_BLOCK_SIZE) = unat cursor + 512" "unat (cursor + TAR_BLOCK_SIZE + sz) = unat cursor + 512 + unat sz"
    using sz cf assms(1) by (simp_all add: unat_word_ariths)
  define files1 where "files1 =
     (if (tar_typeflag mem cursor = NUL \<or> tar_typeflag mem cursor = CHR ''0'') \<and> length files < INITRD_MAX_FILES
      then files @ [\<lparr>if_name = copy_tar_name mem cursor, if_data = cursor + TAR_BLOCK_SIZE, if_size = sz\<rparr>]
      else files)"
  have unf: "initrd_scan mem fin cursor files =
      (if ?go then (if ?cut then Some files else initrd_scan mem fin nx files1) else Some files)"
    by (subst initrd_scan.simps) (simp only: Let_def sz_def nx_def files1_def)
  show ?case
  proof (cases "?go \<and> \<not> ?cut")
    case False
    then have "initrd_scan mem fin cursor files = Some files" unfolding unf by auto
    then show ?thesis using less.prems by simp
  next
    case True
    have le: "unat nx \<le> unat fin" "unat cursor + 512 + unat sz \<le> unat fin"
      using True data(2) by (auto simp: not_less word_le_nat_alt)
    have "list_all (initrd_file_ok lo (unat fin)) files1"
      using less.prems le data copy_tar_name_ok by (auto simp: files1_def initrd_file_ok_def)
    moreover have "length files1 \<le> INITRD_MAX_FILES" using less.prems by (auto simp: files1_def)
    moreover have "unat fin - unat nx < unat fin - unat cursor" using nx rb le by simp
    moreover have "nx \<le> fin" "lo \<le> unat nx" using le nx less.prems by (auto simp: word_le_nat_alt)
    ultimately have "\<exists>files'. initrd_scan mem fin nx files1 = Some files' \<and>
        list_all (initrd_file_ok lo (unat fin)) files' \<and> length files' \<le> INITRD_MAX_FILES"
      by (intro less.hyps)
    then show ?thesis using True unf by simp
  qed
qed

section \<open>Reading and listing\<close>

definition initrd_inv :: "'a initrd_state_scheme \<Rightarrow> bool" where
  "initrd_inv s \<longleftrightarrow> list_all (\<lambda>f. nul_free (if_name f) \<and> unat (if_size f) < 2 ^ 64 - 1) (initrd_files s)"

definition initrd_bytes :: "(u64 \<Rightarrow> u8) \<Rightarrow> initrd_file \<Rightarrow> u8 list" where
  "initrd_bytes mem f = map (\<lambda>j. mem (if_data f + of_nat j)) [0..<unat (if_size f)]"

text \<open>The file a path names: leading slashes and one \<^verbatim>\<open>./\<close> are skipped.\<close>

definition initrd_file_of :: "'a initrd_state_scheme \<Rightarrow> string \<Rightarrow> u8 list option" where
  "initrd_file_of s p =
     map_option (initrd_bytes (boot_mem s)) (find (\<lambda>f. if_name f = copy_user_path p) (initrd_files s))"

lemma length_initrd_bytes [simp]: "length (initrd_bytes mem f) = unat (if_size f)"
  by (simp add: initrd_bytes_def)

lemma find_initrd_file_eq:
  assumes "initrd_inv s"
  shows "find_initrd_file (initrd_files s) (copy_user_path p) = find (\<lambda>f. if_name f = copy_user_path p) (initrd_files s)"
  unfolding find_initrd_file_def
  using assms by (intro find_cong) (auto simp: chars_equal_iff initrd_inv_def list_all_iff copy_user_path_def)

lemma initrd_find_size:
  "initrd_inv s \<Longrightarrow> find P (initrd_files s) = Some f \<Longrightarrow> unat (if_size f) < 2 ^ 64 - 1"
  by (auto simp: initrd_inv_def find_Some_iff list_all_length)

lemma initrd_read_file_spec:
  assumes "initrd_inv s"
  shows "initrd_read_file p off buf len s = read_result (initrd_file_of s p) off buf len s"
proof (cases "find (\<lambda>f. if_name f = copy_user_path p) (initrd_files s)")
  case None
  then show ?thesis
    by (simp add: initrd_read_file_def find_initrd_file_eq [OF assms] initrd_file_of_def read_result_def)
next
  case (Some f)
  define d where "d = initrd_bytes (boot_mem s) f"
  have fo: "initrd_file_of s p = Some d" by (simp add: initrd_file_of_def Some d_def)
  have r: "initrd_read_file p off buf len s =
      (if off \<ge> if_size f then (0, buf, s)
       else let n = (if if_size f - off < len then if_size f - off else len)
            in (n, copy_bytes buf 0 (map (\<lambda>j. boot_mem s (if_data f + (off + of_nat j))) [0..<unat n]) (unat n), s))"
    by (simp add: initrd_read_file_def find_initrd_file_eq [OF assms] Some Let_def)
  show ?thesis
  proof (cases "if_size f \<le> off")
    case True
    then have "read_count d off len = 0" by (simp add: read_count_def d_def word_le_nat_alt)
    then show ?thesis using True by (simp add: r fo read_result_def)
  next
    case False
    define n where "n = (if if_size f - off < len then if_size f - off else len)"
    have sub: "unat (if_size f - off) = unat (if_size f) - unat off" using False by (simp add: unat_sub)
    have n: "unat n = read_count d off len"
      by (auto simp: n_def read_count_def d_def sub word_less_nat_alt)
    have "copy_bytes buf 0 (map (\<lambda>j. boot_mem s (if_data f + (off + of_nat j))) [0..<unat n]) (unat n) =
        copy_bytes buf 0 (drop (unat off) d) (unat n)"
      by (rule nth_equalityI) (auto simp: nth_copy_bytes d_def initrd_bytes_def n read_count_def add.assoc)
    moreover have "of_nat (read_count d off len) = n" by (simp add: n [symmetric])
    ultimately show ?thesis
      using False by (simp add: r fo read_result_def n_def [symmetric] Let_def n [symmetric])
  qed
qed

text \<open>The children of a directory in the order of the archive, with repetitions, and the entry of each.\<close>

definition dir_name :: "string \<Rightarrow> string" where
  "dir_name p =
     (let dir = normalize_path p in if deref dir = CHR ''.'' \<and> char_at dir 1 = NUL then [] else dir)"

definition child_entry :: "string \<Rightarrow> initrd_file list \<Rightarrow> nat \<Rightarrow> vfs_dirent option" where
  "child_entry dir files i =
     (case path_child_for_dir (if_name (files ! i)) dir of
        None \<Rightarrow> None
      | Some (child, child_len, is_dir) \<Rightarrow>
          if listed_child_before files dir i child child_len then None
          else Some \<lparr>de_name = copy_child_name child child_len,
                     de_type = (if is_dir then VFS_DIRENT_TYPE_DIR else VFS_DIRENT_TYPE_FILE),
                     de_size = (if is_dir then 0 else if_size (files ! i))\<rparr>)"

definition initrd_dir :: "'a initrd_state_scheme \<Rightarrow> string \<Rightarrow> vfs_dirent list option" where
  "initrd_dir s p =
     Some (List.map_filter (child_entry (dir_name p) (initrd_files s)) [0..<length (initrd_files s)])"

lemma initrd_list_from_eq:
  "seen \<le> index \<Longrightarrow> initrd_list_from files dir is index seen =
     (let es = List.map_filter (child_entry dir files) is
      in if index - seen < length es then Some (es ! (index - seen)) else None)"
proof (induction "is" arbitrary: seen)
  case Nil
  then show ?case by (simp add: map_filter_simps)
next
  case (Cons i "is")
  then show ?case
    by (cases "path_child_for_dir (if_name (files ! i)) dir")
       (auto simp: Let_def map_filter_simps child_entry_def nth_Cons' Suc_diff_le not_less_eq_eq split: prod.splits)
qed

interpretation initrd: vfs_reader initrd_read_file initrd_inv initrd_file_of
  by unfold_locales
     (use initrd_find_size in \<open>force simp: initrd_read_file_spec initrd_file_of_def\<close>)+

interpretation initrd: vfs_lister initrd_list_dir initrd_inv initrd_dir
  by unfold_locales
     (simp add: initrd_list_dir_def list_result_def initrd_dir_def dir_name_def initrd_list_from_eq Let_def)

section \<open>The archive format\<close>

text \<open>
  What \<^verbatim>\<open>tar --format=ustar\<close> writes for regular files: per file a 512-byte header with the path (split into
  a prefix and a name), the size as eleven octal digits and a terminator, and the type \<^verbatim>\<open>0\<close>; then the
  contents, padded to a multiple of 512; at the end a zero block or the end of the module.
\<close>

primrec octal :: "nat \<Rightarrow> nat \<Rightarrow> string" where
  "octal 0 n = []"
| "octal (Suc k) n = octal k (n div 8) @ [char_of (48 + n mod 8)]"

definition tar_path :: "(u64 \<Rightarrow> u8) \<Rightarrow> u64 \<Rightarrow> string" where
  "tar_path mem h =
     (if cstr (tar_prefix mem h) = [] then [] else cstr (tar_prefix mem h) @ ''/'') @ cstr (tar_name mem h)"

fun tar_at :: "(u64 \<Rightarrow> u8) \<Rightarrow> u64 \<Rightarrow> u64 \<Rightarrow> (string \<times> u8 list) list \<Rightarrow> bool" where
  "tar_at mem fin cursor [] \<longleftrightarrow>
     unat cursor \<le> unat fin \<and> (unat fin < unat cursor + 512 \<or> is_zero_block mem cursor)"
| "tar_at mem fin cursor ((path, d) # es) \<longleftrightarrow>
     unat cursor + 512 + (length d + 511) div 512 * 512 \<le> unat fin \<and>
     tar_path mem cursor = path \<and> tar_name mem cursor \<noteq> replicate 100 NUL \<and> length path < INITRD_NAME_MAX \<and>
     length d < 8 ^ 11 \<and> tar_size mem cursor = octal 11 (length d) @ [NUL] \<and> tar_typeflag mem cursor = CHR ''0'' \<and>
     list_all (\<lambda>i. mem (cursor + 512 + of_nat i) = d ! i) [0..<length d] \<and>
     tar_at mem fin (cursor + 512 + of_nat ((length d + 511) div 512 * 512)) es"

lemma length_octal [simp]: "length (octal k n) = k"
  by (induction k arbitrary: n) auto

lemma parse_octal_from_append:
  assumes "n < 8 ^ k" "unat r < 8 ^ j" "j + k \<le> 21"
  shows "parse_octal_from (octal k n @ cs) r = parse_octal_from cs (of_nat (unat r * 8 ^ k + n))"
  using assms
proof (induction k arbitrary: n cs)
  case (Suc k)
  have "n div 8 < 8 ^ k" using Suc.prems(1) by (simp add: less_mult_imp_div_less mult.commute)
  note IH = Suc.IH [OF this Suc.prems(2)]
  define m where "m = unat r * 8 ^ k + n div 8"
  have "m < 8 ^ (j + k)"
  proof -
    have "(unat r + 1) * 8 ^ k \<le> 8 ^ j * 8 ^ k" using Suc.prems(2) by (intro mult_right_mono) auto
    then show ?thesis using \<open>n div 8 < 8 ^ k\<close> by (simp add: m_def power_add)
  qed
  also have "(8 :: nat) ^ (j + k) < 2 ^ 64"
    using Suc.prems(3) power_increasing [of "j + k" 20 "8 :: nat"] by simp
  finally have m64: "m < 2 ^ 64" .
  then have um: "unat (of_nat m :: u64) = m" by (simp add: unat_of_nat take_bit_nat_eq_self)
  have mk: "unat (of_nat m :: u64) < 8 ^ (j + k)" using \<open>m < 8 ^ (j + k)\<close> um by simp
  define c where "c = (char_of (48 + n mod 8) :: char)"
  have oc: "of_char c = (48 + n mod 8 :: nat)"
  proof -
    have "48 + n mod 8 < (256 :: nat)" using mod_less_divisor [of 8 n] by linarith
    then show ?thesis by (simp add: c_def)
  qed
  have c: "c \<noteq> NUL" "c \<noteq> CHR '' ''" "\<not> of_char c < (48 :: nat)" "\<not> of_char c > (55 :: nat)" "of_char c - 48 = n mod 8"
    using oc mod_less_divisor [of 8 n] by (auto simp del: mod_less_divisor)
  have "parse_octal_from (octal (Suc k) n @ cs) r = parse_octal_from (c # cs) (of_nat m)"
    using IH [of "c # cs"] Suc.prems(3) by (simp add: m_def c_def)
  also have "\<dots> = parse_octal_from cs (push_bit 3 (of_nat m) + of_nat (n mod 8))" using c by simp
  also have "push_bit 3 (of_nat m) + of_nat (n mod 8) = (of_nat (unat r * 8 ^ Suc k + n) :: u64)"
  proof -
    have "push_bit 3 (of_nat m :: u64) + of_nat (n mod 8) = of_nat (8 * m + n mod 8)"
      by (simp add: push_bit_eq_mult mult.commute)
    also have "8 * m + n mod 8 = unat r * 8 ^ Suc k + n"
      by (simp add: m_def algebra_simps)
    finally show ?thesis .
  qed
  finally show ?case .
qed simp

lemma parse_octal_octal: "n < 8 ^ 11 \<Longrightarrow> parse_octal (octal 11 n @ [NUL]) = of_nat n"
  using parse_octal_from_append [of n 11 0 0 "[NUL]"] by (simp add: parse_octal_def)

lemma copy_tar_name_path:
  assumes "length (tar_path mem h) < INITRD_NAME_MAX"
  shows "copy_tar_name mem h = tar_path mem h"
proof -
  have p: "append_tar_chars [] (tar_prefix mem h) = take (INITRD_NAME_MAX - 1) (cstr (tar_prefix mem h))"
    using append_tar_chars_eq [of "[]" "tar_prefix mem h"] by simp
  show ?thesis
  proof (cases "cstr (tar_prefix mem h) = []")
    case True
    then have "deref (tar_prefix mem h) = NUL" by (cases "tar_prefix mem h") (auto split: if_splits)
    then show ?thesis
      using True assms append_tar_chars_eq [of "[]" "tar_name mem h"] by (simp add: copy_tar_name_def tar_path_def)
  next
    case False
    then have d: "deref (tar_prefix mem h) \<noteq> NUL" by (cases "tar_prefix mem h") auto
    have l: "length (cstr (tar_prefix mem h)) + 1 < INITRD_NAME_MAX" using assms False by (simp add: tar_path_def)
    then have "append_tar_chars [] (tar_prefix mem h) = cstr (tar_prefix mem h)" unfolding p by simp
    then show ?thesis
      using False d l assms append_tar_chars_eq [of "cstr (tar_prefix mem h) @ ''/''" "tar_name mem h"]
      by (simp add: copy_tar_name_def tar_path_def Let_def)
  qed
qed

lemma zero_block_name:
  assumes "is_zero_block mem h"
  shows "tar_name mem h = replicate 100 NUL"
proof -
  have "mem (h + of_nat i) = 0" if "i < 512" for i
    using assms that by (simp add: is_zero_block_def list_all_iff del: upt_rec_numeral)
  then have "char_of (unat (mem (h + 0 + of_nat i))) = NUL" if "i < 100" for i
    using that by (simp add: char_of_def)
  then show ?thesis
    by (intro nth_equalityI) (simp_all add: tar_name_def header_field_def del: upt_rec_numeral)
qed

lemma initrd_scan_tar:
  assumes "unat fin + 2 ^ 37 \<le> 2 ^ 64" "tar_at mem fin cursor es" "length files + length es \<le> INITRD_MAX_FILES"
  shows "\<exists>fs. initrd_scan mem fin cursor files = Some (files @ fs) \<and>
    map (\<lambda>f. (if_name f, initrd_bytes mem f)) fs = es"
  using assms
proof (induction mem fin cursor es arbitrary: files rule: tar_at.induct)
  case (1 mem fin cursor)
  then have "unat (cursor + TAR_BLOCK_SIZE) = unat cursor + 512" by (simp add: unat_word_ariths)
  then have "\<not> (cursor + TAR_BLOCK_SIZE \<le> fin \<and> \<not> is_zero_block mem cursor)"
    using 1 by (auto simp: word_le_nat_alt)
  then have "initrd_scan mem fin cursor files = Some files" by (subst initrd_scan.simps) (rule if_not_P)
  then show ?case by simp
next
  case (2 mem fin cursor path d es)
  define pad where "pad = (length d + 511) div 512 * 512"
  have h: "unat cursor + 512 + pad \<le> unat fin" "tar_path mem cursor = path" "tar_name mem cursor \<noteq> replicate 100 NUL"
      "length path < INITRD_NAME_MAX" "length d < 8 ^ 11" "tar_size mem cursor = octal 11 (length d) @ [NUL]"
      "tar_typeflag mem cursor = CHR ''0''" "\<And>i. i < length d \<Longrightarrow> mem (cursor + 512 + of_nat i) = d ! i"
      "tar_at mem fin (cursor + 512 + of_nat pad) es"
    using "2.prems"(2) by (simp_all add: list_all_iff pad_def)
  define sz where "sz = parse_octal (tar_size mem cursor)"
  have sz: "sz = of_nat (length d)" by (simp only: sz_def h(6) parse_octal_octal [OF h(5)])
  have usz: "unat sz = length d" using h(5) by (simp add: sz unat_of_nat take_bit_nat_eq_self)
  have le_pad: "length d \<le> pad" "pad \<le> length d + 511" unfolding pad_def by simp_all
  have upad: "unat (of_nat pad :: u64) = pad" using le_pad(2) h(5) by (simp add: unat_of_nat take_bit_nat_eq_self)
  have rec: "unat (tar_record_size sz) = 512 + pad"
    using h(5) usz unat_tar_record_size [of sz] by (simp add: pad_def)
  have rec': "tar_record_size sz = 512 + of_nat pad"
    using h(5) le_pad(2) by (simp add: word_unat_eq_iff rec unat_word_ariths upad)
  have lt: "unat cursor + 512 + pad < 18446744073709551616" using h(1) unat_u64_less by (rule le_less_trans)
  have u: "unat (cursor + TAR_BLOCK_SIZE) = unat cursor + 512" "unat (cursor + TAR_BLOCK_SIZE + sz) = unat cursor + 512 + length d"
    "unat (cursor + tar_record_size sz) = unat cursor + 512 + pad"
    using lt le_pad usz rec by (simp_all add: unat_word_ariths)
  have go: "cursor + TAR_BLOCK_SIZE \<le> fin \<and> \<not> is_zero_block mem cursor"
    using h(1) zero_block_name [of mem cursor] h(3) by (auto simp: word_le_nat_alt u)
  have ncut: "\<not> (cursor + TAR_BLOCK_SIZE + sz > fin \<or> cursor + tar_record_size sz > fin)"
    using h(1) le_pad by (simp add: not_less word_le_nat_alt u)
  define f where "f = \<lparr>if_name = copy_tar_name mem cursor, if_data = cursor + TAR_BLOCK_SIZE, if_size = sz\<rparr>"
  have ty: "(tar_typeflag mem cursor = NUL \<or> tar_typeflag mem cursor = CHR ''0'') \<and> length files < INITRD_MAX_FILES"
    using "2.prems"(3) h(7) by simp
  have step: "initrd_scan mem fin cursor files = initrd_scan mem fin (cursor + tar_record_size sz) (files @ [f])"
    by (subst initrd_scan.simps)
       (simp only: Let_def sz_def [symmetric] f_def [symmetric] go [THEN Eq_TrueI] ncut [THEN Eq_FalseI] ty [THEN Eq_TrueI] if_True if_False)
  have at: "tar_at mem fin (cursor + tar_record_size sz) es" using h(9) by (simp add: rec' add.assoc)
  have "length (files @ [f]) + length es \<le> INITRD_MAX_FILES" using "2.prems"(3) by simp
  from "2.IH" [OF "2.prems"(1) h(9) [unfolded pad_def] this]
  obtain fs where fs: "initrd_scan mem fin (cursor + tar_record_size sz) (files @ [f]) = Some ((files @ [f]) @ fs)"
    "map (\<lambda>f. (if_name f, initrd_bytes mem f)) fs = es"
    by (auto simp: rec' add.assoc pad_def)
  have "(if_name f, initrd_bytes mem f) = (path, d)"
    using h(2,4,8) copy_tar_name_path [of mem cursor]
    by (auto simp: f_def initrd_bytes_def usz intro!: nth_equalityI)
  then show ?case using step fs by (intro exI [of _ "f # fs"]) simp
qed

section \<open>The children of a directory\<close>

definition child_name :: "string \<Rightarrow> string \<Rightarrow> string option" where
  "child_name dir name = map_option (\<lambda>(child, len, _). take len child) (path_child_for_dir name dir)"

definition dir_children :: "string \<Rightarrow> initrd_file list \<Rightarrow> string list" where
  "dir_children dir files = List.map_filter (\<lambda>f. child_name dir (if_name f)) files"

lemma child_length_le: "child_length s \<le> length s"
  by (induction s) auto

lemma path_child_ok:
  assumes "path_child_for_dir name dir = Some (child, len, is_dir)" "nul_free name"
  shows "nul_free child" "len \<le> length child" "child_name dir name = Some (take len child)"
  using assms child_length_le [of child]
  by (auto simp: path_child_for_dir_def child_name_def Let_def split: if_splits)

lemma copy_child_name_eq: "len \<le> length child \<Longrightarrow> copy_child_name child len = take 63 (take len child)"
  by (rule nth_equalityI) (auto simp: copy_child_name_def char_at_def)

lemma chars_equal_n_eq_take:
  assumes "nul_free a" "nul_free b" "l \<le> length a" "n \<le> length b"
  shows "l = n \<and> chars_equal_n a b n \<longleftrightarrow> take l a = take n b"
proof
  assume "l = n \<and> chars_equal_n a b n"
  then show "take l a = take n b" using chars_equal_n_take [OF assms(1,4,2)] by simp
next
  assume t: "take l a = take n b"
  from arg_cong [OF this, of length] have "l = n" using assms(3,4) by (simp add: min_def split: if_splits)
  then show "l = n \<and> chars_equal_n a b n" using t chars_equal_n_take [OF assms(1,4,2)] by simp
qed

lemma listed_child_before_iff:
  assumes "\<And>f. f \<in> set files \<Longrightarrow> nul_free (if_name f)" "n \<le> length files" "nul_free child" "len \<le> length child"
  shows "listed_child_before files dir n child len \<longleftrightarrow> take len child \<in> set (dir_children dir (take n files))"
proof -
  have "(case path_child_for_dir (if_name (files ! i)) dir of None \<Rightarrow> False
         | Some (c, l, _) \<Rightarrow> l = len \<and> chars_equal_n c child len) \<longleftrightarrow>
        child_name dir (if_name (files ! i)) = Some (take len child)" if "i < n" for i
  proof (cases "path_child_for_dir (if_name (files ! i)) dir")
    case (Some r)
    obtain c l b where r: "r = (c, l, b)" by (cases r)
    have "nul_free (if_name (files ! i))" using assms(1,2) that by simp
    note c = path_child_ok [OF Some [unfolded r] this]
    show ?thesis using chars_equal_n_eq_take [OF c(1) assms(3) c(2) assms(4)] by (simp add: Some r c(3))
  qed (simp add: child_name_def)
  then have "listed_child_before files dir n child len \<longleftrightarrow>
      (\<exists>i < n. child_name dir (if_name (files ! i)) = Some (take len child))"
    unfolding listed_child_before_def list_ex_iff by auto
  also have "\<dots> \<longleftrightarrow> take len child \<in> set (dir_children dir (take n files))"
    using assms(2) by (auto simp: dir_children_def map_filter_def in_set_conv_nth image_iff)
  finally show ?thesis .
qed

lemma child_entry_names:
  assumes "\<And>f. f \<in> set files \<Longrightarrow> nul_free (if_name f)" "n \<le> length files"
  shows "map de_name (List.map_filter (child_entry dir files) [0..<n]) =
    map (take 63) (rev (remdups (rev (dir_children dir (take n files)))))"
  using assms(2)
proof (induction n)
  case 0
  then show ?case by (simp add: dir_children_def map_filter_simps)
next
  case (Suc n)
  have nf: "nul_free (if_name (files ! n))" using assms(1) Suc.prems by simp
  have t: "take (Suc n) files = take n files @ [files ! n]" using Suc.prems by (simp add: take_Suc_conv_app_nth)
  have mf: "List.map_filter f (xs @ [x]) = List.map_filter f xs @ (case f x of None \<Rightarrow> [] | Some y \<Rightarrow> [y])" for f xs x
    by (simp add: map_filter_def split: option.splits)
  show ?case
  proof (cases "path_child_for_dir (if_name (files ! n)) dir")
    case None
    then show ?thesis using Suc by (simp add: mf t dir_children_def child_entry_def child_name_def)
  next
    case (Some r)
    obtain c l b where r: "r = (c, l, b)" by (cases r)
    note c = path_child_ok [OF Some [unfolded r] nf]
    have lb: "listed_child_before files dir n c l \<longleftrightarrow> take l c \<in> set (dir_children dir (take n files))"
      using listed_child_before_iff [OF assms(1) _ c(1,2)] Suc.prems by simp
    have dc: "dir_children dir (take (Suc n) files) = dir_children dir (take n files) @ [take l c]"
      by (simp add: t dir_children_def mf c(3))
    show ?thesis
      using Suc by (simp add: mf dc child_entry_def Some r lb copy_child_name_eq [OF c(2)])
  qed
qed

lemma initrd_init_ok:
  assumes "find_initrd_module modules = Some m" "unat (lf_address m) + unat (lf_size m) + 2 ^ 37 \<le> 2 ^ 64"
  shows "\<exists>fss' s'. initrd_init modules fss s = Some (fss', s') \<and> initrd_inv s' \<and>
    length (initrd_files s') \<le> INITRD_MAX_FILES \<and>
    list_all (initrd_file_ok (unat (lf_address m)) (unat (lf_address m) + unat (lf_size m))) (initrd_files s')"
proof -
  define fin where "fin = lf_address m + lf_size m"
  have fin: "unat fin = unat (lf_address m) + unat (lf_size m)" using assms(2) by (simp add: fin_def unat_word_ariths)
  obtain files where f: "initrd_scan (boot_mem s) fin (lf_address m) [] = Some files"
    "list_all (initrd_file_ok (unat (lf_address m)) (unat fin)) files" "length files \<le> INITRD_MAX_FILES"
    using initrd_scan_total [of fin "lf_address m" "unat (lf_address m)" "[]" "boot_mem s"] assms(2) fin
    by (auto simp: word_le_nat_alt)
  have "list_all (\<lambda>f. nul_free (if_name f) \<and> unat (if_size f) < 2 ^ 64 - 1) files"
    using f(2) assms(2) fin by (fastforce simp: initrd_file_ok_def list_all_iff)
  then show ?thesis
    using f assms(1) by (simp add: initrd_init_def initrd_inv_def fin_def [symmetric] fin)
qed

section \<open>Properties\<close>

text \<open>
  C24: Scanning the boot archive always ends, whatever bytes the module holds, when the module does not reach
  into the last 2^37 bytes of the address space: \<^verbatim>\<open>initrd_init\<close> returns with at most 32 files, each with a
  name of at most 127 characters and its bytes inside the module.
\<close>

theorem initrd_init_total:
  assumes "find_initrd_module modules = Some m" "unat (lf_address m) + unat (lf_size m) + 2 ^ 37 \<le> 2 ^ 64"
  shows "\<exists>fss' s'. initrd_init modules fss s = Some (fss', s') \<and> initrd_inv s' \<and>
    length (initrd_files s') \<le> INITRD_MAX_FILES \<and>
    list_all (initrd_file_ok (unat (lf_address m)) (unat (lf_address m) + unat (lf_size m))) (initrd_files s')"
  using initrd_init_ok [OF assms] .

text \<open>A module at address 0x1000 with one file \<^verbatim>\<open>a\<close> that holds the two bytes \<^verbatim>\<open>hi\<close>, followed by a zero block.\<close>

definition tar_example_mem :: "u64 \<Rightarrow> u8" where
  "tar_example_mem a =
     (let n = unat a in
      if n = 0x1000 then 97 else if 0x107C \<le> n \<and> n < 0x1086 then 48 else if n = 0x1086 then 50
      else if n = 0x109C then 48 else if n = 0x1200 then 104 else if n = 0x1201 then 105 else 0)"

lemma tar_example_chars:
  "char_of (97 :: nat) = CHR ''a''" "char_of (48 :: nat) = CHR ''0''" "char_of (50 :: nat) = CHR ''2''" "char_of (0 :: nat) = NUL"
  by code_simp+

lemma tar_example_header:
  assumes "off + n \<le> 512"
  shows "header_field tar_example_mem 0x1000 (of_nat off) n =
    map (\<lambda>i. if i = 0 then CHR ''a'' else if 124 \<le> i \<and> i < 134 then CHR ''0'' else if i = 134 then CHR ''2''
             else if i = 156 then CHR ''0'' else NUL) [off..<off + n]"
proof (rule nth_equalityI)
  fix i assume "i < length (header_field tar_example_mem 0x1000 (of_nat off) n)"
  then have i: "i < n" by (simp add: header_field_def)
  have "0x1000 + of_nat off + of_nat i = (of_nat (4096 + off + i) :: u64)" by simp
  then have "unat (0x1000 + of_nat off + of_nat i :: u64) = 4096 + off + i"
    using i assms by (simp only: unat_of_nat) (simp add: take_bit_nat_eq_self)
  then show "header_field tar_example_mem 0x1000 (of_nat off) n ! i =
    map (\<lambda>i. if i = 0 then CHR ''a'' else if 124 \<le> i \<and> i < 134 then CHR ''0'' else if i = 134 then CHR ''2''
             else if i = 156 then CHR ''0'' else NUL) [off..<off + n] ! i"
    using i assms by (simp add: header_field_def tar_example_mem_def Let_def tar_example_chars)
qed (simp add: header_field_def)

lemma tar_example_fields:
  "tar_size tar_example_mem 0x1000 = ''00000000002'' @ [NUL]"
  "cstr (tar_name tar_example_mem 0x1000) = ''a''"
  "cstr (tar_prefix tar_example_mem 0x1000) = []"
  "tar_typeflag tar_example_mem 0x1000 = CHR ''0''"
proof -
  have u: "[0..<0 + 100] = 0 # 1 # [2..<100 :: nat]" "[345..<345 + 155] = 345 # [346..<500 :: nat]"
    by (simp_all add: upt_conv_Cons del: upt_rec_numeral)
  show "tar_size tar_example_mem 0x1000 = ''00000000002'' @ [NUL]"
    using tar_example_header [of 124 12] by (simp add: tar_size_def)
  show "cstr (tar_name tar_example_mem 0x1000) = ''a''"
    using tar_example_header [of 0 100] unfolding u(1) by (simp add: tar_name_def del: upt_rec_numeral)
  show "cstr (tar_prefix tar_example_mem 0x1000) = []"
    using tar_example_header [of 345 155] unfolding u(2) by (simp add: tar_prefix_def del: upt_rec_numeral)
  show "tar_typeflag tar_example_mem 0x1000 = CHR ''0''"
    by (simp add: tar_typeflag_def tar_example_mem_def tar_example_chars)
qed

lemma tar_example_at: "tar_at tar_example_mem 0x1600 0x1000 [(''a'', [104, 105])]"
proof -
  have "cstr (replicate n NUL) = []" for n by (cases n) auto
  then have "tar_name tar_example_mem 0x1000 \<noteq> replicate 100 NUL" using tar_example_fields(2) by auto
  moreover have "is_zero_block tar_example_mem 0x1400"
  proof -
    have "tar_example_mem (0x1400 + of_nat i) = 0" if "i < 512" for i
    proof -
      have "unat (0x1400 + of_nat i :: u64) = 5120 + i"
        using that by (simp add: unat_word_ariths unat_of_nat take_bit_nat_eq_self)
      then show ?thesis by (simp add: tar_example_mem_def)
    qed
    then show ?thesis by (simp add: is_zero_block_def list_all_iff del: upt_rec_numeral)
  qed
  moreover have "octal 11 (Suc (Suc 0)) = ''00000000002''" by code_simp
  moreover have "tar_example_mem 0x1200 = 104" "tar_example_mem 0x1201 = 105" by (simp_all add: tar_example_mem_def)
  ultimately show ?thesis by (simp add: tar_path_def tar_example_fields del: octal.simps)
qed

definition tar_example_module :: limine_file where
  "tar_example_module = \<lparr>lf_address = 0x1000, lf_size = 0x600, lf_path = Some ''/initrd.tar'', lf_string = None\<rparr>"

definition tar_example :: initrd_state where
  "tar_example = \<lparr>block_devices = [], ramdisk = [], partition_count = 0, ramfs_files = [], boot_mem = tar_example_mem, initrd_files = []\<rparr>"

lemma tar_example_find: "find_initrd_module (Some [tar_example_module]) = Some tar_example_module"
  by (simp add: find_initrd_module_def tar_example_module_def ends_with_def chars_equal_iff)

theorem initrd_init_total_witness:
  "\<exists>fss' s'. initrd_init (Some [tar_example_module]) [] tar_example = Some (fss', s') \<and>
    list_all (initrd_file_ok 0x1000 0x1600) (initrd_files s')"
  using initrd_init_total [OF tar_example_find, of "[]" tar_example]
  by (auto simp: tar_example_module_def)

text \<open>A path that \<^verbatim>\<open>normalize_path\<close> leaves alone after the leading slash.\<close>

definition relative_path :: "string \<Rightarrow> bool" where
  "relative_path p \<longleftrightarrow> deref p \<noteq> CHR ''/'' \<and> \<not> prefix ''./'' p"

lemma copy_user_path_relative:
  assumes "relative_path p" "nul_free p" "length p < INITRD_NAME_MAX"
  shows "copy_user_path (CHR ''/'' # p) = p"
proof -
  have "skip_slashes p = p" using assms(1) by (cases p) (auto simp: relative_path_def)
  moreover have "\<not> (deref p = CHR ''.'' \<and> char_at p 1 = CHR ''/'')"
  proof
    assume a: "deref p = CHR ''.'' \<and> char_at p 1 = CHR ''/''"
    then obtain q where "p = ''./'' @ q" by (cases p; cases "tl p") (auto simp: char_at_def split: if_splits)
    then show False using assms(1) by (simp add: relative_path_def)
  qed
  ultimately have "normalize_path (CHR ''/'' # p) = p" by (auto simp: normalize_path_def)
  then show ?thesis using assms by (simp add: copy_user_path_def copy_limited_id)
qed

text \<open>
  C23: The files of a boot archive come back: when the module holds the ustar image of at most 32 regular
  files with different relative paths, then after \<^verbatim>\<open>initrd_init\<close> reading the absolute path of any of them
  delivers its contents and its size, at every offset and for every buffer length.
\<close>

theorem initrd_archive_roundtrip:
  assumes "find_initrd_module modules = Some m" "unat (lf_address m) + unat (lf_size m) + 2 ^ 37 \<le> 2 ^ 64"
    and "tar_at (boot_mem s) (lf_address m + lf_size m) (lf_address m) es"
    and "length es \<le> INITRD_MAX_FILES" "distinct (map fst es)" "(path, d) \<in> set es" "relative_path path"
  shows "\<exists>fss' s'. initrd_init modules fss s = Some (fss', s') \<and>
    initrd_read_file (CHR ''/'' # path) off buf len s' = read_result (Some d) off buf len s' \<and>
    initrd_file_size (CHR ''/'' # path) s' = (of_nat (length d), s')"
proof -
  obtain fss' s' where s': "initrd_init modules fss s = Some (fss', s')" "initrd_inv s'"
    and ok: "list_all (initrd_file_ok (unat (lf_address m)) (unat (lf_address m) + unat (lf_size m))) (initrd_files s')"
    using initrd_init_ok [OF assms(1,2), of fss s] by blast
  have fin: "unat (lf_address m + lf_size m) = unat (lf_address m) + unat (lf_size m)"
    using assms(2) by (simp add: unat_word_ariths)
  obtain fs where fs: "initrd_scan (boot_mem s) (lf_address m + lf_size m) (lf_address m) [] = Some fs"
    "map (\<lambda>f. (if_name f, initrd_bytes (boot_mem s) f)) fs = es"
    using initrd_scan_tar [OF _ assms(3), of "[]"] assms(2,4) fin by auto
  have files: "initrd_files s' = fs" "boot_mem s' = boot_mem s"
    using s'(1) assms(1) fs(1) by (auto simp: initrd_init_def)
  obtain f where f: "f \<in> set fs" "if_name f = path" "initrd_bytes (boot_mem s) f = d"
    using assms(6) unfolding fs(2) [symmetric] by auto
  have path: "nul_free path" "length path < INITRD_NAME_MAX"
    using ok f files by (auto simp: list_all_iff initrd_file_ok_def)
  have dist: "distinct (map if_name fs)" using assms(5) unfolding fs(2) [symmetric] by (simp add: comp_def)
  have "find (\<lambda>g. if_name g = path) fs = Some f"
  proof -
    obtain i where i: "i < length fs" "fs ! i = f" using f(1) by (auto simp: in_set_conv_nth)
    have "if_name (fs ! j) \<noteq> path" if "j < i" for j
      using nth_eq_iff_index_eq [OF dist, of j i] i f(2) that by auto
    then show ?thesis using i f(2) by (auto simp: find_Some_iff)
  qed
  then have fo: "find (\<lambda>g. if_name g = copy_user_path (CHR ''/'' # path)) (initrd_files s') = Some f"
    using copy_user_path_relative [OF assms(7) path] by (simp add: files)
  then have "initrd_file_of s' (CHR ''/'' # path) = Some d" by (simp add: initrd_file_of_def files f(3))
  moreover have "if_size f = of_nat (length d)"
    by (simp add: f(3) [symmetric])
  ultimately show ?thesis
    using s' fo by (simp add: initrd_read_file_spec initrd_file_size_def find_initrd_file_eq)
qed

theorem initrd_archive_roundtrip_witness:
  "\<exists>fss' s'. initrd_init (Some [tar_example_module]) [] tar_example = Some (fss', s') \<and>
    initrd_read_file ''/a'' 0 [0, 0, 0] 3 s' = (2, [104, 105, 0], s')"
  using initrd_archive_roundtrip [OF tar_example_find, of tar_example "[(''a'', [104, 105])]" "''a''" "[104, 105]" "[]" 0 "[0, 0, 0]" 3]
    tar_example_at
  by (simp add: tar_example_module_def tar_example_def relative_path_def read_result_def read_count_def
      copy_bytes_eq del: tar_at.simps) blast



end
