(* ===== verification/Boot_Files.thy ===== *)
theory Boot_Files
  imports Devfs Initrd
begin

text \<open>
  The file systems as \<^verbatim>\<open>main.c\<close> brings them up: the mount table starts empty and the device, in-memory and
  archive file systems are mounted in this order. The theorems are about the table after that, and
  about tables of file systems that meet the contracts in general.
\<close>

section \<open>The code\<close>

definition boot_file_systems ::
  "limine_file list option \<Rightarrow> 'a initrd_state_scheme mount_table \<Rightarrow> 'a initrd_state_scheme \<Rightarrow>
   ('a initrd_state_scheme mount_table \<times> 'a initrd_state_scheme) option" where
  "boot_file_systems modules fss s =
     (let fss = devfs_init (vfs_init fss);
          (fss, s) = ramfs_init fss s
      in initrd_init modules fss s)"

section \<open>The table\<close>

definition devfs_mount :: "'s vfs_filesystem" where
  "devfs_mount = \<lparr>fs_name = ''devfs'', fs_path = ''/dev'', fs_source = ''kernel-devices'', fs_writable = 0,
     fs_read = devfs_read, fs_list = Some devfs_list, fs_write = None, fs_size = None, fs_truncate = None, fs_unlink = None\<rparr>"

definition ramfs_mount :: "'a ramfs_state_scheme vfs_filesystem" where
  "ramfs_mount = \<lparr>fs_name = ''ramfs'', fs_path = ''/'', fs_source = ''memory'', fs_writable = 1,
     fs_read = ramfs_read, fs_list = Some ramfs_list, fs_write = Some ramfs_write, fs_size = Some ramfs_size,
     fs_truncate = Some ramfs_truncate, fs_unlink = Some ramfs_unlink\<rparr>"

definition initrd_mount :: "'a initrd_state_scheme vfs_filesystem" where
  "initrd_mount = \<lparr>fs_name = ''initrd'', fs_path = ''/'', fs_source = ''limine-initrd'', fs_writable = 0,
     fs_read = initrd_read_file, fs_list = Some initrd_list_dir, fs_write = None, fs_size = Some initrd_file_size,
     fs_truncate = None, fs_unlink = None\<rparr>"

text \<open>Each mount with the files and directories it stands for.\<close>

definition boot_readers ::
  "('a initrd_state_scheme vfs_filesystem \<times> ('a initrd_state_scheme \<Rightarrow> string \<Rightarrow> u8 list option)) list" where
  "boot_readers = [(devfs_mount, devfs_file), (ramfs_mount, ramfs_abs), (initrd_mount, initrd_file_of)]"

definition boot_listers ::
  "('a initrd_state_scheme vfs_filesystem \<times> ('a initrd_state_scheme \<Rightarrow> string \<Rightarrow> vfs_dirent list option)) list" where
  "boot_listers = [(devfs_mount, devfs_dir), (ramfs_mount, ramfs_dir), (initrd_mount, initrd_dir)]"

definition boot_table :: "'a initrd_state_scheme mount_table" where
  "boot_table = [devfs_mount, ramfs_mount, initrd_mount]"

definition boot_inv :: "'a initrd_state_scheme \<Rightarrow> bool" where
  "boot_inv s \<longleftrightarrow> ramfs_inv s \<and> initrd_inv s"

lemma copy_limited_boot:
  "copy_limited VFS_MOUNT_NAME_MAX ''devfs'' = ''devfs''" "copy_limited VFS_MOUNT_NAME_MAX ''ramfs'' = ''ramfs''"
  "copy_limited VFS_MOUNT_NAME_MAX ''initrd'' = ''initrd''" "copy_limited VFS_MOUNT_SOURCE_MAX ''kernel-devices'' = ''kernel-devices''"
  "copy_limited VFS_MOUNT_SOURCE_MAX ''memory'' = ''memory''" "copy_limited VFS_MOUNT_SOURCE_MAX ''limine-initrd'' = ''limine-initrd''"
  "copy_mount_path VFS_MOUNT_PATH_MAX (Some ''/'') = ''/''" "copy_mount_path VFS_MOUNT_PATH_MAX (Some ''/dev'') = ''/dev''"
  by (simp_all add: copy_limited_id copy_mount_path_def strip_slashes_stop)

lemma devfs_init_mount: "devfs_init (vfs_init fss) = [devfs_mount]"
  by (simp add: devfs_init_def vfs_init_def vfs_register_fs_mount_def copy_limited_boot devfs_mount_def)

lemma ramfs_init_mount: "length fss < VFS_MAX_FILESYSTEMS \<Longrightarrow> fst (ramfs_init fss s) = fss @ [ramfs_mount]"
  by (simp add: ramfs_init_def vfs_register_fs_mount_def copy_limited_boot ramfs_mount_def)

lemma initrd_init_mount:
  "length fss < VFS_MAX_FILESYSTEMS \<Longrightarrow> initrd_init modules fss s = Some (fss', s') \<Longrightarrow>
   fss' = fss @ (if initrd_files s' = [] then [] else [initrd_mount])"
  by (auto simp: initrd_init_def vfs_register_fs_mount_def copy_limited_boot initrd_mount_def split: option.splits if_splits)

lemma boot_file_systems_table:
  assumes "boot_file_systems modules fss s = Some (fss', s')" "initrd_files s' \<noteq> []"
  shows "fss' = boot_table"
proof -
  obtain fss1 s1 where r: "ramfs_init [devfs_mount] s = (fss1, s1)" by (cases "ramfs_init [devfs_mount] s")
  have "fss1 = [devfs_mount, ramfs_mount]" using ramfs_init_mount [of "[devfs_mount]" s] by (simp add: r)
  then show ?thesis
    using assms initrd_init_mount [of fss1 modules s1 fss' s']
    by (simp add: boot_file_systems_def devfs_init_mount r boot_table_def)
qed

lemma vfs_reader_mono: "vfs_reader rd ok f \<Longrightarrow> (\<And>s. ok' s \<Longrightarrow> ok s) \<Longrightarrow> vfs_reader rd ok' f"
  unfolding vfs_reader_def by blast

lemma vfs_lister_mono: "vfs_lister ls ok f \<Longrightarrow> (\<And>s. ok' s \<Longrightarrow> ok s) \<Longrightarrow> vfs_lister ls ok' f"
  unfolding vfs_lister_def by blast

lemma boot_readers_ok:
  assumes "(fs, f) \<in> set boot_readers"
  shows "vfs_reader (fs_read fs) boot_inv f"
proof -
  have "vfs_reader devfs_read boot_inv devfs_file" by (rule vfs_reader_mono [OF devfs.vfs_reader_axioms]) simp
  moreover have "vfs_reader ramfs_read boot_inv ramfs_abs"
    by (rule vfs_reader_mono [OF ramfs.vfs_reader_axioms]) (simp add: boot_inv_def)
  moreover have "vfs_reader initrd_read_file boot_inv initrd_file_of"
    by (rule vfs_reader_mono [OF initrd.vfs_reader_axioms]) (simp add: boot_inv_def)
  ultimately show ?thesis
    using assms by (auto simp: boot_readers_def devfs_mount_def ramfs_mount_def initrd_mount_def)
qed

lemma boot_listers_ok:
  assumes "(fs, f) \<in> set boot_listers" "fs_list fs = Some ls"
  shows "vfs_lister ls boot_inv f"
proof -
  have "vfs_lister devfs_list boot_inv devfs_dir" by (rule vfs_lister_mono [OF devfs.vfs_lister_axioms]) simp
  moreover have "vfs_lister ramfs_list boot_inv ramfs_dir"
    by (rule vfs_lister_mono [OF ramfs.vfs_lister_axioms]) (simp add: boot_inv_def)
  moreover have "vfs_lister initrd_list_dir boot_inv initrd_dir"
    by (rule vfs_lister_mono [OF initrd.vfs_lister_axioms]) (simp add: boot_inv_def)
  ultimately show ?thesis
    using assms by (auto simp: boot_listers_def devfs_mount_def ramfs_mount_def initrd_mount_def)
qed

lemma boot_tables: "map fst boot_readers = boot_table" "map fst boot_listers = boot_table"
  by (simp_all add: boot_table_def boot_readers_def boot_listers_def)

interpretation boot: vfs_reader "vfs_try_read boot_table" boot_inv "resolve_file boot_readers"
  using vfs_reader_table [of boot_readers boot_inv, OF boot_readers_ok] by (simp add: boot_tables)

section \<open>Properties\<close>

text \<open>
  C26: \<^verbatim>\<open>vfs_read_file\<close> over any table of file systems that meet the reading contract delivers the file of the
  first mount, in mount order, whose mount point lies above the path and which has the file; it fails
  exactly when there is none, and changes no file system.
\<close>

theorem vfs_read_file_resolves:
  assumes "\<And>fs f. (fs, f) \<in> set t \<Longrightarrow> vfs_reader (fs_read fs) ok f" "ok s" "nul_free p"
  shows "vfs_read_file (map fst t) (Some p) off (Some buf) len s =
    (case resolve_file t s p of
       None \<Rightarrow> (U64_FAIL, Some buf, s)
     | Some d \<Rightarrow> (of_nat (read_count d off len), Some (copy_bytes buf 0 (drop (unat off) d) (read_count d off len)), s)) \<and>
    (fst (vfs_read_file (map fst t) (Some p) off (Some buf) len s) = U64_FAIL \<longleftrightarrow> resolve_file t s p = None)"
proof -
  have r: "vfs_reader (vfs_try_read (map fst t)) ok (resolve_file t)" using assms(1) by (rule vfs_reader_table)
  show ?thesis
    using vfs_reader.rd_spec [OF r assms(2,3), of off buf len] vfs_reader.rd_fails_iff [OF r assms(2,3), of off buf len]
    by (auto simp: vfs_read_file_def read_result_def split: option.splits)
qed

definition boot_example :: initrd_state where
  "boot_example = \<lparr>block_devices = [], ramdisk = [], partition_count = 0, ramfs_files = ramfs_files ramfs_boot, boot_mem = tar_example_mem,
     initrd_files = [\<lparr>if_name = ''a'', if_data = 0x1200, if_size = 2\<rparr>]\<rparr>"

lemma boot_example_inv: "boot_inv boot_example"
  using ramfs_boot_inv(1) by (simp add: boot_inv_def ramfs_inv_def initrd_inv_def boot_example_def)

lemma boot_example_abs: "ramfs_abs boot_example = Map.empty"
  using ramfs_boot_inv(2) by (simp add: ramfs_abs_def boot_example_def)

lemma devfs_mount_example:
  "mount_path_matches devfs_mount ''/a'' = False"
  "mount_parent_entry devfs_mount ''/'' = Some \<lparr>de_name = ''dev'', de_type = VFS_DIRENT_TYPE_DIR, de_size = 0\<rparr>"
proof -
  have "mount_path_ok (fs_path devfs_mount)" by (simp add: mount_path_ok_def devfs_mount_def)
  from mount_path_matches_iff [OF this, of "''/a''"] show "mount_path_matches devfs_mount ''/a'' = False"
    by (simp add: under_mount_def devfs_mount_def)
  show "mount_parent_entry devfs_mount ''/'' = Some \<lparr>de_name = ''dev'', de_type = VFS_DIRENT_TYPE_DIR, de_size = 0\<rparr>"
    by (simp add: mount_parent_entry_def devfs_mount_def chars_equal_iff last_slash_def upt_rec char_at_def copy_limited_id)
qed

theorem vfs_read_file_resolves_witness:
  "vfs_read_file boot_table (Some ''/a'') 0 (Some [0, 0, 0]) 3 boot_example = (2, Some [104, 105, 0], boot_example)"
proof -
  have m: "mount_path_matches ramfs_mount ''/a''"
      "mount_path_matches (initrd_mount :: initrd_state vfs_filesystem) ''/a''"
      "mount_local_path ramfs_mount ''/a'' = ''/a''"
      "mount_local_path (initrd_mount :: initrd_state vfs_filesystem) ''/a'' = ''/a''"
    by (simp_all add: mount_path_matches_def mount_local_path_def ramfs_mount_def initrd_mount_def chars_equal_iff)
  have "initrd_file_of boot_example ''/a'' = Some [104, 105]"
    by (simp add: initrd_file_of_def boot_example_def copy_user_path_def normalize_path_def copy_limited_id char_at_def
        initrd_bytes_def tar_example_mem_def upt_rec)
  then have "resolve_file boot_readers boot_example ''/a'' = Some [104, 105]"
    by (simp add: boot_readers_def m devfs_mount_example boot_example_abs)
  then show ?thesis
    using vfs_read_file_resolves [of boot_readers boot_inv boot_example "''/a''" 0 "[0, 0, 0]" 3, OF boot_readers_ok boot_example_inv]
    by (simp add: boot_tables read_count_def copy_bytes_eq)
qed

text \<open>
  C27: \<^verbatim>\<open>vfs_list_dir\<close> by index enumerates the mount points directly below the path and then the entries of every
  mount above it, in mount order and at most 64 of each, without gaps and without changing any file
  system; past the last one it returns 0.
\<close>

theorem vfs_list_dir_enumerates:
  assumes "\<And>fs f ls. (fs, f) \<in> set t \<Longrightarrow> fs_list fs = Some ls \<Longrightarrow> vfs_lister ls ok f" "ok s" "nul_free p"
  shows "vfs_list_dir (map fst t) (Some p) index s =
    (let es = mount_entries (map fst t) p @ fs_entries t s p in
     if unat index < length es then (1, Some (es ! unat index), s) else (0, None, s))"
proof -
  let ?m = "mount_entries (map fst t) p"
  have "list_all_fs (map fst t) p (unat index) (length ?m) s =
      (if unat index - length ?m < length (fs_entries t s p)
       then (Some (fs_entries t s p ! (unat index - length ?m)), s) else (None, s))" if "length ?m \<le> unat index"
    by (rule list_all_fs_eq [where ok = ok]) (use assms that in auto)
  then show ?thesis
    by (auto simp: vfs_list_dir_def list_mount_points_eq Let_def nth_append)
qed

theorem vfs_list_dir_enumerates_witness:
  "vfs_list_dir boot_table (Some ''/'') 0 boot_example =
     (1, Some \<lparr>de_name = ''dev'', de_type = VFS_DIRENT_TYPE_DIR, de_size = 0\<rparr>, boot_example)"
  using vfs_list_dir_enumerates [of boot_listers boot_inv boot_example "''/''" 0, OF boot_listers_ok boot_example_inv]
  by (simp add: boot_tables Let_def) (simp add: boot_table_def mount_entries_def map_filter_simps devfs_mount_example)

text \<open>Writes to the booted table go to the in-memory file system.\<close>

lemma boot_write:
  assumes "nul_free p"
  shows "vfs_write_file boot_table (Some p) off (Some buf) len s =
    (if deref p = CHR ''/'' then ramfs_write p off buf len s else (U64_FAIL, s))"
  by (auto simp: vfs_write_file_def boot_table_def devfs_mount_def ramfs_mount_def initrd_mount_def
      mount_path_matches_def mount_local_path_def chars_equal_iff split: prod.splits)

lemma ramfs_write_state: "\<exists>files. snd (ramfs_write p off buf len s) = s\<lparr>ramfs_files := files\<rparr>"
  by (auto simp: ramfs_write_def Let_def split: option.splits intro: exI [of _ "ramfs_files s"])

lemma devfs_matches: "nul_free p \<Longrightarrow> mount_path_matches devfs_mount p \<longleftrightarrow> under_mount ''/dev'' p"
  using mount_path_matches_iff [of devfs_mount p] by (simp add: mount_path_ok_def devfs_mount_def)

lemma devfs_has_no_root_file:
  assumes "ramfs_name p" "mount_path_matches devfs_mount p"
  shows "devfs_file s (mount_local_path devfs_mount p) = None"
proof -
  have n: "nul_free p" using assms(1) by (simp add: ramfs_name_def)
  have u: "under_mount ''/dev'' p" using assms(2) by (simp add: devfs_matches [OF n])
  have "\<not> prefix ''/dev/'' p" using assms(1) by (auto simp: ramfs_name_def prefix_def)
  then have "p = ''/dev''" using u by (auto simp: under_mount_def)
  then show ?thesis by (simp add: mount_local_path_def devfs_mount_def devfs_file_def chars_equal_iff char_at_def)
qed

lemma ramfs_mount_root:
  "deref p = CHR ''/'' \<Longrightarrow> mount_path_matches ramfs_mount p" "mount_local_path ramfs_mount p = p"
  by (simp_all add: mount_path_matches_def mount_local_path_def ramfs_mount_def chars_equal_iff)

lemma ramfs_name_shadows:
  assumes "ramfs_name p" "ramfs_abs s p = Some d"
  shows "resolve_file boot_readers s p = Some d"
proof -
  have "deref p = CHR ''/''" using assms(1) by (simp add: ramfs_name_def)
  then show ?thesis
    using assms(2) by (simp add: boot_readers_def devfs_has_no_root_file [OF assms(1)] ramfs_mount_root)
qed



end
