(* ===== verification/Input.thy ===== *)
theory Input
  imports C_Strings "HOL-Library.Sublist"
begin

text \<open>
  The keyboard ring buffer of \<^verbatim>\<open>input.c\<close>, between the keyboard interrupt that pushes characters and the
  terminal reads that take them. One slot stays empty, so that equal positions mean an empty buffer.
\<close>

section \<open>The code\<close>

abbreviation INPUT_BUFFER_SIZE :: u64 where "INPUT_BUFFER_SIZE \<equiv> 256"

record input_state =
  input_buffer :: "char list"
  input_read_pos :: u64
  input_write_pos :: u64

definition input_push_key :: "char \<Rightarrow> 'a input_state_scheme \<Rightarrow> 'a input_state_scheme" where
  "input_push_key c s =
     (let nx = (input_write_pos s + 1) mod INPUT_BUFFER_SIZE in
      if nx = input_read_pos s then s
      else s\<lparr>input_buffer := (input_buffer s)[unat (input_write_pos s) := c], input_write_pos := nx\<rparr>)"

function input_read_loop ::
  "char list \<Rightarrow> u64 \<Rightarrow> u64 \<Rightarrow> 'a input_state_scheme \<Rightarrow> u64 \<times> char list \<times> 'a input_state_scheme" where
  "input_read_loop buffer len count s =
     (if count < len \<and> input_read_pos s \<noteq> input_write_pos s
      then input_read_loop (buffer[unat count := input_buffer s ! unat (input_read_pos s)]) len (count + 1)
             (s\<lparr>input_read_pos := (input_read_pos s + 1) mod INPUT_BUFFER_SIZE\<rparr>)
      else (count, buffer, s))"
  by pat_completeness auto
termination
  by (relation "measure (\<lambda>(buffer, len, count, s). unat len - unat count)") (auto simp: loop_measure_u64)

declare input_read_loop.simps [simp del]

definition input_read :: "char list \<Rightarrow> u64 \<Rightarrow> 'a input_state_scheme \<Rightarrow> u64 \<times> char list \<times> 'a input_state_scheme" where
  "input_read buffer len s = input_read_loop buffer len 0 s"

section \<open>The queue the buffer stands for\<close>

definition ring_ok :: "'a input_state_scheme \<Rightarrow> bool" where
  "ring_ok s \<longleftrightarrow> length (input_buffer s) = 256 \<and> input_read_pos s < INPUT_BUFFER_SIZE \<and> input_write_pos s < INPUT_BUFFER_SIZE"

definition ring_used :: "'a input_state_scheme \<Rightarrow> nat" where
  "ring_used s = (unat (input_write_pos s) + 256 - unat (input_read_pos s)) mod 256"

definition ring_contents :: "'a input_state_scheme \<Rightarrow> char list" where
  "ring_contents s = map (\<lambda>i. input_buffer s ! ((unat (input_read_pos s) + i) mod 256)) [0..<ring_used s]"

text \<open>Arithmetic modulo the buffer size, on positions inside the buffer.\<close>

lemma mod_256: "(n :: nat) < 512 \<Longrightarrow> n mod 256 = (if n < 256 then n else n - 256)"
  by (simp add: mod_if)

lemma diff_mod_256: "r < 256 \<Longrightarrow> w < 256 \<Longrightarrow> (w + 256 - r) mod 256 = (if r \<le> w then w - r else (w :: nat) + 256 - r)"
  by (subst mod_256) auto

lemma ring_used_eq:
  assumes "ring_ok s"
  shows "ring_used s = (if unat (input_read_pos s) \<le> unat (input_write_pos s)
    then unat (input_write_pos s) - unat (input_read_pos s)
    else unat (input_write_pos s) + 256 - unat (input_read_pos s))"
  using assms by (simp add: ring_used_def ring_ok_def word_less_nat_alt diff_mod_256)

lemma length_ring_contents [simp]: "length (ring_contents s) = ring_used s"
  by (simp add: ring_contents_def)

lemma nth_ring_contents:
  "i < ring_used s \<Longrightarrow> ring_contents s ! i = input_buffer s ! ((unat (input_read_pos s) + i) mod 256)"
  by (simp add: ring_contents_def)

lemma ring_used_lt: "ring_used s < 256"
  by (simp add: ring_used_def)

lemma unat_ring_inc:
  assumes "p < INPUT_BUFFER_SIZE"
  shows "unat ((p + 1) mod INPUT_BUFFER_SIZE) = (unat p + 1) mod 256"
  using assms by (simp add: unat_mod_distrib unat_inc [OF assms])

lemma ring_eq_iff:
  assumes "p < INPUT_BUFFER_SIZE" "q < INPUT_BUFFER_SIZE"
  shows "p = q \<longleftrightarrow> (unat q + 256 - unat p) mod 256 = 0"
proof -
  have "unat p < 256" "unat q < 256" using assms by (simp_all add: word_less_nat_alt)
  then have "(unat q + 256 - unat p) mod 256 = 0 \<longleftrightarrow> unat p = unat q" by (auto simp: diff_mod_256)
  then show ?thesis by (simp add: word_unat_eq_iff)
qed

lemma push_full_iff:
  assumes "ring_ok s"
  shows "(input_write_pos s + 1) mod INPUT_BUFFER_SIZE = input_read_pos s \<longleftrightarrow> ring_used s = 255"
proof -
  have p: "unat (input_read_pos s) < 256" "unat (input_write_pos s) < 256"
    using assms by (simp_all add: ring_ok_def word_less_nat_alt)
  have "(input_write_pos s + 1) mod INPUT_BUFFER_SIZE = input_read_pos s \<longleftrightarrow>
      (unat (input_write_pos s) + 1) mod 256 = unat (input_read_pos s)"
    using assms by (simp add: ring_ok_def word_unat_eq_iff unat_ring_inc)
  also have "\<dots> \<longleftrightarrow> ring_used s = 255" using p by (auto simp: ring_used_eq [OF assms] mod_256)
  finally show ?thesis .
qed

lemma input_push_key_ring:
  assumes ok: "ring_ok s"
  shows "ring_ok (input_push_key c s)"
    "ring_contents (input_push_key c s) = (if ring_used s < 255 then ring_contents s @ [c] else ring_contents s)"
proof -
  let ?r = "unat (input_read_pos s)" and ?w = "unat (input_write_pos s)"
  have p: "?r < 256" "?w < 256" using ok by (simp_all add: ring_ok_def word_less_nat_alt)
  have nx: "(input_write_pos s + 1) mod INPUT_BUFFER_SIZE < INPUT_BUFFER_SIZE" by (simp add: word_mod_less_divisor)
  show "ring_ok (input_push_key c s)"
    using ok nx by (auto simp: ring_ok_def input_push_key_def Let_def)
  show "ring_contents (input_push_key c s) = (if ring_used s < 255 then ring_contents s @ [c] else ring_contents s)"
  proof (cases "ring_used s < 255")
    case False
    then have "input_push_key c s = s"
      using push_full_iff [OF ok] ring_used_lt [of s] by (simp add: input_push_key_def Let_def)
    then show ?thesis using False by simp
  next
    case True
    define s' where "s' = s\<lparr>input_buffer := (input_buffer s)[?w := c], input_write_pos := (input_write_pos s + 1) mod INPUT_BUFFER_SIZE\<rparr>"
    have s': "input_push_key c s = s'"
      using True push_full_iff [OF ok] by (simp add: input_push_key_def Let_def s'_def)
    have used: "ring_used s' = Suc (ring_used s)"
    proof -
      have "ring_used s' = ((?w + 1) mod 256 + 256 - ?r) mod 256"
        using ok by (simp add: ring_used_def s'_def ring_ok_def unat_ring_inc)
      also have "\<dots> = Suc ((?w + 256 - ?r) mod 256)"
        using True p unfolding ring_used_def by (auto simp: diff_mod_256 mod_256 split: if_splits)
      finally show ?thesis by (simp add: ring_used_def)
    qed
    have fields: "input_buffer s' = (input_buffer s)[?w := c]" "input_read_pos s' = input_read_pos s" by (simp_all add: s'_def)
    have at: "(?r + i) mod 256 = ?w \<longleftrightarrow> i = ring_used s" if "i < 256" for i
      using that p by (auto simp: ring_used_eq [OF ok] mod_256)
    show ?thesis
      unfolding s'
    proof (rule nth_equalityI)
      show "length (ring_contents s') = length (if ring_used s < 255 then ring_contents s @ [c] else ring_contents s)"
        using True by (simp add: used)
    next
      fix i assume "i < length (ring_contents s')"
      then have i: "i \<le> ring_used s" by (simp add: used)
      have "i < 256" using i ring_used_lt [of s] by simp
      then show "ring_contents s' ! i = (if ring_used s < 255 then ring_contents s @ [c] else ring_contents s) ! i"
        using i True at [of i] ok p
        by (cases "i = ring_used s") (auto simp: nth_ring_contents used fields nth_append ring_ok_def nth_list_update)
    qed
  qed
qed

lemma ring_contents_pop:
  assumes ok: "ring_ok s" and ne: "input_read_pos s \<noteq> input_write_pos s"
  defines "s' \<equiv> s\<lparr>input_read_pos := (input_read_pos s + 1) mod INPUT_BUFFER_SIZE\<rparr>"
  shows "ring_ok s'" "ring_contents s = input_buffer s ! unat (input_read_pos s) # ring_contents s'"
proof -
  let ?r = "unat (input_read_pos s)" and ?w = "unat (input_write_pos s)"
  have p: "?r < 256" "?w < 256" using ok by (simp_all add: ring_ok_def word_less_nat_alt)
  show "ring_ok s'" using ok by (simp add: ring_ok_def s'_def word_mod_less_divisor)
  have n0: "?r \<noteq> ?w" using ne by (simp add: word_unat_eq_iff)
  have used: "ring_used s = Suc (ring_used s')"
  proof -
    have "ring_used s' = (?w + 256 - (?r + 1) mod 256) mod 256"
      using ok by (simp add: ring_used_def s'_def ring_ok_def unat_ring_inc)
    then show ?thesis using n0 p by (auto simp: ring_used_eq [OF ok] diff_mod_256 mod_256 split: if_splits)
  qed
  show "ring_contents s = input_buffer s ! ?r # ring_contents s'"
  proof (rule nth_equalityI)
    show "length (ring_contents s) = length (input_buffer s ! ?r # ring_contents s')" by (simp add: used)
  next
    fix i assume "i < length (ring_contents s)"
    then show "ring_contents s ! i = (input_buffer s ! ?r # ring_contents s') ! i"
      using ok p by (cases i) (auto simp: ring_contents_def used s'_def ring_ok_def unat_ring_inc mod_add_left_eq simp del: upt_Suc)
  qed
qed

lemma input_read_loop_ring:
  assumes "ring_ok s" "count \<le> len" "unat len \<le> length buffer"
  shows "\<exists>s'. input_read_loop buffer len count s =
      (count + of_nat (min (unat len - unat count) (ring_used s)),
       copy_bytes buffer (unat count) (ring_contents s) (min (unat len - unat count) (ring_used s)), s') \<and>
      ring_ok s' \<and> ring_contents s' = drop (unat len - unat count) (ring_contents s)"
  using assms
proof (induction buffer len count s rule: input_read_loop.induct)
  case (1 buffer len count s)
  show ?case
  proof (cases "count < len \<and> input_read_pos s \<noteq> input_write_pos s")
    case False
    then have "unat len - unat count = 0 \<or> ring_used s = 0"
      using "1.prems"(2) ring_eq_iff [of "input_read_pos s" "input_write_pos s"] "1.prems"(1)
      by (auto simp: word_less_nat_alt word_le_nat_alt ring_used_def ring_ok_def)
    then show ?thesis using False "1.prems" by (auto simp: input_read_loop.simps [of buffer len count s] ring_contents_def)
  next
    case True
    define s1 where "s1 = s\<lparr>input_read_pos := (input_read_pos s + 1) mod INPUT_BUFFER_SIZE\<rparr>"
    define c where "c = input_buffer s ! unat (input_read_pos s)"
    note pop = ring_contents_pop [OF "1.prems"(1) conjunct2 [OF True], folded s1_def c_def]
    have used: "ring_used s = Suc (ring_used s1)" using pop(2) length_ring_contents [of s] by simp
    have inc: "unat (count + 1) = Suc (unat count)" using True unat_inc by blast
    have lt: "unat count < unat len" using True by (simp add: word_less_nat_alt)
    define m where "m = min (unat len - Suc (unat count)) (ring_used s1)"
    have m: "min (unat len - unat count) (ring_used s) = Suc m" using lt by (simp add: m_def used)
    have step: "input_read_loop buffer len count s = input_read_loop (buffer[unat count := c]) len (count + 1) s1"
      using True by (simp add: input_read_loop.simps [of buffer len count s] s1_def c_def)
    obtain s' where s': "input_read_loop (buffer[unat count := c]) len (count + 1) s1 =
        (count + 1 + of_nat m, copy_bytes (buffer[unat count := c]) (Suc (unat count)) (ring_contents s1) m, s')"
      "ring_ok s'" "ring_contents s' = drop (unat len - Suc (unat count)) (ring_contents s1)"
      using "1.IH" [OF True, folded s1_def c_def, OF pop(1) inc_le_u64] True "1.prems"(3) inc by (auto simp: m_def)
    have "copy_bytes (buffer[unat count := c]) (Suc (unat count)) (ring_contents s1) m =
        copy_bytes buffer (unat count) (ring_contents s) (Suc m)"
      using "1.prems"(3) lt
      by (intro nth_equalityI) (auto simp: nth_copy_bytes pop(2) nth_Cons' nth_list_update simp del: copy_bytes.simps)
    moreover have "drop (unat len - Suc (unat count)) (ring_contents s1) = drop (unat len - unat count) (ring_contents s)"
      using lt by (simp add: pop(2) drop_Cons' Suc_diff_Suc)
    ultimately show ?thesis using s' by (simp add: step m add.assoc del: copy_bytes.simps)
  qed
qed

lemma input_read_ring:
  assumes "ring_ok s" "unat len \<le> length buffer"
  shows "\<exists>s'. input_read buffer len s =
      (of_nat (min (unat len) (ring_used s)),
       take (unat len) (ring_contents s) @ drop (min (unat len) (ring_used s)) buffer, s') \<and>
      ring_ok s' \<and> ring_contents s' = drop (unat len) (ring_contents s)"
proof -
  have "copy_bytes buffer 0 (ring_contents s) (min (unat len) (ring_used s)) =
      take (unat len) (ring_contents s) @ drop (min (unat len) (ring_used s)) buffer"
    using assms(2) by (simp add: copy_bytes_eq min.coboundedI1) (metis length_ring_contents min.commute take_all_iff min_def nle_le)
  then show ?thesis
    using input_read_loop_ring [OF assms(1) _ assms(2), of 0] by (simp add: input_read_def)
qed

section \<open>First in, first out\<close>

datatype 'a queue_event = Enqueue 'a | Dequeue u64

text \<open>A sequence of events from a state: everything that was taken, and the state after it.\<close>

fun queue_run :: "('a \<Rightarrow> 's \<Rightarrow> 's) \<Rightarrow> (u64 \<Rightarrow> 's \<Rightarrow> 'a list \<times> 's) \<Rightarrow> 'a queue_event list \<Rightarrow> 's \<Rightarrow> 'a list \<times> 's" where
  "queue_run push pop [] s = ([], s)"
| "queue_run push pop (Enqueue x # es) s = queue_run push pop es (push x s)"
| "queue_run push pop (Dequeue n # es) s =
     (case pop n s of (xs, s) \<Rightarrow> case queue_run push pop es s of (ys, s) \<Rightarrow> (xs @ ys, s))"

fun enqueued :: "'a queue_event list \<Rightarrow> 'a list" where
  "enqueued [] = []"
| "enqueued (Enqueue x # es) = x # enqueued es"
| "enqueued (Dequeue n # es) = enqueued es"

locale bounded_queue =
  fixes push :: "'a \<Rightarrow> 's \<Rightarrow> 's" and pop :: "u64 \<Rightarrow> 's \<Rightarrow> 'a list \<times> 's"
    and ok :: "'s \<Rightarrow> bool" and items :: "'s \<Rightarrow> 'a list" and cap :: nat
  assumes push_ok: "ok s \<Longrightarrow> ok (push x s)"
    and push_items: "ok s \<Longrightarrow> items (push x s) = (if length (items s) < cap then items s @ [x] else items s)"
    and pop_ok: "ok s \<Longrightarrow> ok (snd (pop n s))"
    and pop_result: "ok s \<Longrightarrow> fst (pop n s) = take (unat n) (items s)"
    and pop_items: "ok s \<Longrightarrow> items (snd (pop n s)) = drop (unat n) (items s)"
begin

lemma run_ok: "ok s \<Longrightarrow> ok (snd (queue_run push pop es s))"
proof (induction es arbitrary: s)
  case (Cons e es)
  then show ?case
    using push_ok pop_ok by (cases e) (simp_all add: case_prod_unfold)
qed simp

text \<open>Nothing is reordered, duplicated or invented: what was taken and what is left is a selection of what was put in.\<close>

lemma run_subseq:
  assumes "ok s"
  shows "subseq (fst (queue_run push pop es s) @ items (snd (queue_run push pop es s))) (items s @ enqueued es)"
  using assms
proof (induction es arbitrary: s)
  case (Cons e es)
  show ?case
  proof (cases e)
    case (Enqueue x)
    have "subseq (items (push x s) @ enqueued es) (items s @ enqueued (e # es))"
      using Cons.prems by (auto simp: Enqueue push_items subseq_append_iff)
    then show ?thesis using Cons.IH [OF push_ok [OF Cons.prems], of x] by (auto simp: Enqueue intro: subseq_order.trans)
  next
    case (Dequeue n)
    obtain xs s1 where p: "pop n s = (xs, s1)" by (cases "pop n s")
    obtain ys s2 where r: "queue_run push pop es s1 = (ys, s2)" by (cases "queue_run push pop es s1")
    have "subseq (xs @ ys @ items s2) (xs @ items s1 @ enqueued es)"
      using Cons.IH [of s1] pop_ok [OF Cons.prems, of n] by (simp add: p r subseq_append')
    moreover have "xs @ items s1 = items s"
      using pop_result [OF Cons.prems, of n] pop_items [OF Cons.prems, of n] by (simp add: p)
    ultimately show ?thesis by (metis Dequeue append.assoc enqueued.simps(3) fst_conv p queue_run.simps(3) r snd_conv case_prod_conv)
  qed
qed simp

text \<open>As long as the items never outnumber the capacity, none is lost.\<close>

lemma run_lossless:
  assumes "ok s" "length (items s) + length (enqueued es) \<le> cap"
  shows "fst (queue_run push pop es s) @ items (snd (queue_run push pop es s)) = items s @ enqueued es"
  using assms
proof (induction es arbitrary: s)
  case (Cons e es)
  show ?case
  proof (cases e)
    case (Enqueue x)
    then show ?thesis using Cons.IH [OF push_ok [OF Cons.prems(1)], of x] Cons.prems by (simp add: push_items)
  next
    case (Dequeue n)
    obtain xs s1 where p: "pop n s = (xs, s1)" by (cases "pop n s")
    obtain ys s2 where r: "queue_run push pop es s1 = (ys, s2)" by (cases "queue_run push pop es s1")
    have x: "xs @ items s1 = items s"
      using pop_result [OF Cons.prems(1), of n] pop_items [OF Cons.prems(1), of n] by (simp add: p)
    then have "length (items s1) \<le> length (items s)" by (metis length_append le_add2)
    then have "ys @ items s2 = items s1 @ enqueued es"
      using Cons.IH [of s1] Cons.prems pop_ok [OF Cons.prems(1), of n] by (simp add: p r Dequeue)
    then show ?thesis using x by (metis Dequeue append.assoc enqueued.simps(3) fst_conv p queue_run.simps(3) r snd_conv case_prod_conv)
  qed
qed simp

end

text \<open>A read as a queue operation: the characters it delivers.\<close>

definition input_take :: "u64 \<Rightarrow> 'a input_state_scheme \<Rightarrow> char list \<times> 'a input_state_scheme" where
  "input_take len s =
     (case input_read (replicate (unat len) NUL) len s of (count, buffer, s) \<Rightarrow> (take (unat count) buffer, s))"

lemma input_take_ring:
  assumes "ring_ok s"
  shows "ring_ok (snd (input_take len s))" "fst (input_take len s) = take (unat len) (ring_contents s)"
    "ring_contents (snd (input_take len s)) = drop (unat len) (ring_contents s)"
proof -
  obtain s' where s': "input_read (replicate (unat len) NUL) len s =
      (of_nat (min (unat len) (ring_used s)),
       take (unat len) (ring_contents s) @ drop (min (unat len) (ring_used s)) (replicate (unat len) NUL), s')"
    "ring_ok s'" "ring_contents s' = drop (unat len) (ring_contents s)"
    using input_read_ring [OF assms, of len "replicate (unat len) NUL"] by auto
  have "unat (of_nat (min (unat len) (ring_used s)) :: u64) = min (unat len) (ring_used s)"
    using ring_used_lt [of s] by (simp add: unat_of_nat take_bit_nat_eq_self)
  then show "ring_ok (snd (input_take len s))" "fst (input_take len s) = take (unat len) (ring_contents s)"
    "ring_contents (snd (input_take len s)) = drop (unat len) (ring_contents s)"
    using s' by (simp_all add: input_take_def min_def)
qed

interpretation input: bounded_queue input_push_key input_take ring_ok ring_contents 255
  using ring_used_lt by unfold_locales (auto simp: input_push_key_ring input_take_ring)

text \<open>
  C29: For every sequence of key presses and reads, the characters read so far followed by those still
  buffered are a subsequence of the characters typed, in order; and they are all of them as long as no
  more than 255 characters were pending in total. (A key pressed while 255 are pending is dropped.)
\<close>

theorem input_fifo:
  assumes "ring_ok s"
  shows "ring_ok (snd (queue_run input_push_key input_take es s)) \<and>
    subseq (fst (queue_run input_push_key input_take es s) @ ring_contents (snd (queue_run input_push_key input_take es s)))
      (ring_contents s @ enqueued es) \<and>
    (length (ring_contents s) + length (enqueued es) \<le> 255 \<longrightarrow>
      fst (queue_run input_push_key input_take es s) @ ring_contents (snd (queue_run input_push_key input_take es s)) =
      ring_contents s @ enqueued es)"
  using input.run_ok [OF assms] input.run_subseq [OF assms] input.run_lossless [OF assms] by blast

definition input_boot :: input_state where
  "input_boot = \<lparr>input_buffer = replicate 256 NUL, input_read_pos = 0, input_write_pos = 0\<rparr>"

theorem input_fifo_witness:
  "fst (queue_run input_push_key input_take [Enqueue CHR ''a'', Enqueue CHR ''b'', Dequeue 1, Enqueue CHR ''c''] input_boot) @
   ring_contents (snd (queue_run input_push_key input_take
     [Enqueue CHR ''a'', Enqueue CHR ''b'', Dequeue 1, Enqueue CHR ''c''] input_boot)) = ''abc''"
  using input_fifo [of input_boot "[Enqueue CHR ''a'', Enqueue CHR ''b'', Dequeue 1, Enqueue CHR ''c'']"]
  by (simp add: ring_ok_def input_boot_def ring_contents_def ring_used_def del: queue_run.simps)

end
