(* ===== verification/Console.thy ===== *)
theory Console
  imports C_Strings
begin

text \<open>
  The console of \<^verbatim>\<open>console.c\<close>: every character goes to the serial line, and, unless the screen output is
  switched off, into a grid of text cells from which dirty rows are drawn into the framebuffer. The
  framebuffer is a map from addresses to 32-bit pixels. The serial port is the string of characters
  sent so far; waiting for its transmitter is not modelled.
\<close>

section \<open>The code\<close>

abbreviation FB_CHAR_WIDTH :: u32 where "FB_CHAR_WIDTH \<equiv> 8"
abbreviation FB_CHAR_HEIGHT :: u32 where "FB_CHAR_HEIGHT \<equiv> 16"
abbreviation TEXT_MAX_COLS :: u32 where "TEXT_MAX_COLS \<equiv> 512"
abbreviation TEXT_MAX_ROWS :: u32 where "TEXT_MAX_ROWS \<equiv> 256"

record limine_framebuffer =
  lfb_address :: u64
  lfb_width :: u64
  lfb_height :: u64
  lfb_pitch :: u64

record console_state =
  fb :: "limine_framebuffer option"
  text_x :: u32
  text_y :: u32
  text_cols :: u32
  text_rows :: u32
  fg_color :: u32
  bg_color :: u32
  fb_cursor_visible :: bool
  fb_output_enabled :: bool
  screen_output_suppressed :: bool
  fb_dirty_all :: bool
  text_cells :: "char list list"
  text_dirty :: "bool list"
  fb_mem :: "u64 \<Rightarrow> u32"
  serial_out :: string

definition font8x8_basic :: "(char \<times> u8 list) list" where
  "font8x8_basic =
     [(CHR '' '', [0x00, 0x00, 0x00, 0x00, 0x00, 0x00, 0x00, 0x00]),
      (CHR ''!'', [0x18, 0x3c, 0x3c, 0x18, 0x18, 0x00, 0x18, 0x00]),
      (CHR ''#'', [0x36, 0x36, 0x7f, 0x36, 0x7f, 0x36, 0x36, 0x00]),
      (CHR ''%'', [0x63, 0x67, 0x0e, 0x1c, 0x38, 0x73, 0x63, 0x00]),
      (CHR '':'', [0x00, 0x18, 0x18, 0x00, 0x00, 0x18, 0x18, 0x00]),
      (CHR ''.'', [0x00, 0x00, 0x00, 0x00, 0x00, 0x18, 0x18, 0x00]),
      (CHR ''-'', [0x00, 0x00, 0x00, 0x7e, 0x00, 0x00, 0x00, 0x00]),
      (CHR ''_'', [0x00, 0x00, 0x00, 0x00, 0x00, 0x00, 0x7f, 0x00]),
      (CHR ''/'', [0x03, 0x07, 0x0e, 0x1c, 0x38, 0x70, 0x60, 0x00]),
      (CHR ''0'', [0x3e, 0x63, 0x67, 0x6f, 0x7b, 0x73, 0x3e, 0x00]),
      (CHR ''1'', [0x18, 0x38, 0x18, 0x18, 0x18, 0x18, 0x7e, 0x00]),
      (CHR ''2'', [0x3e, 0x63, 0x03, 0x0e, 0x38, 0x60, 0x7f, 0x00]),
      (CHR ''3'', [0x3e, 0x63, 0x03, 0x1e, 0x03, 0x63, 0x3e, 0x00]),
      (CHR ''4'', [0x06, 0x0e, 0x1e, 0x36, 0x7f, 0x06, 0x06, 0x00]),
      (CHR ''5'', [0x7f, 0x60, 0x7e, 0x03, 0x03, 0x63, 0x3e, 0x00]),
      (CHR ''6'', [0x1e, 0x30, 0x60, 0x7e, 0x63, 0x63, 0x3e, 0x00]),
      (CHR ''7'', [0x7f, 0x63, 0x06, 0x0c, 0x18, 0x18, 0x18, 0x00]),
      (CHR ''8'', [0x3e, 0x63, 0x63, 0x3e, 0x63, 0x63, 0x3e, 0x00]),
      (CHR ''9'', [0x3e, 0x63, 0x63, 0x3f, 0x03, 0x06, 0x3c, 0x00]),
      (CHR ''A'', [0x1c, 0x36, 0x63, 0x63, 0x7f, 0x63, 0x63, 0x00]),
      (CHR ''B'', [0x7e, 0x33, 0x33, 0x3e, 0x33, 0x33, 0x7e, 0x00]),
      (CHR ''C'', [0x1e, 0x33, 0x60, 0x60, 0x60, 0x33, 0x1e, 0x00]),
      (CHR ''D'', [0x7c, 0x36, 0x33, 0x33, 0x33, 0x36, 0x7c, 0x00]),
      (CHR ''E'', [0x7f, 0x60, 0x60, 0x7c, 0x60, 0x60, 0x7f, 0x00]),
      (CHR ''F'', [0x7f, 0x60, 0x60, 0x7c, 0x60, 0x60, 0x60, 0x00]),
      (CHR ''G'', [0x1e, 0x33, 0x60, 0x67, 0x63, 0x33, 0x1f, 0x00]),
      (CHR ''H'', [0x63, 0x63, 0x63, 0x7f, 0x63, 0x63, 0x63, 0x00]),
      (CHR ''I'', [0x3c, 0x18, 0x18, 0x18, 0x18, 0x18, 0x3c, 0x00]),
      (CHR ''J'', [0x0f, 0x06, 0x06, 0x06, 0x66, 0x66, 0x3c, 0x00]),
      (CHR ''K'', [0x63, 0x66, 0x6c, 0x78, 0x6c, 0x66, 0x63, 0x00]),
      (CHR ''L'', [0x60, 0x60, 0x60, 0x60, 0x60, 0x60, 0x7f, 0x00]),
      (CHR ''M'', [0x63, 0x77, 0x7f, 0x6b, 0x63, 0x63, 0x63, 0x00]),
      (CHR ''N'', [0x63, 0x73, 0x7b, 0x6f, 0x67, 0x63, 0x63, 0x00]),
      (CHR ''O'', [0x3e, 0x63, 0x63, 0x63, 0x63, 0x63, 0x3e, 0x00]),
      (CHR ''P'', [0x7e, 0x63, 0x63, 0x7e, 0x60, 0x60, 0x60, 0x00]),
      (CHR ''Q'', [0x3e, 0x63, 0x63, 0x63, 0x6b, 0x66, 0x3d, 0x00]),
      (CHR ''R'', [0x7e, 0x63, 0x63, 0x7e, 0x6c, 0x66, 0x63, 0x00]),
      (CHR ''S'', [0x3e, 0x63, 0x60, 0x3e, 0x03, 0x63, 0x3e, 0x00]),
      (CHR ''T'', [0x7e, 0x18, 0x18, 0x18, 0x18, 0x18, 0x18, 0x00]),
      (CHR ''U'', [0x63, 0x63, 0x63, 0x63, 0x63, 0x63, 0x3e, 0x00]),
      (CHR ''V'', [0x63, 0x63, 0x63, 0x63, 0x63, 0x36, 0x1c, 0x00]),
      (CHR ''W'', [0x63, 0x63, 0x63, 0x6b, 0x7f, 0x77, 0x63, 0x00]),
      (CHR ''X'', [0x63, 0x63, 0x36, 0x1c, 0x36, 0x63, 0x63, 0x00]),
      (CHR ''Y'', [0x66, 0x66, 0x66, 0x3c, 0x18, 0x18, 0x18, 0x00]),
      (CHR ''Z'', [0x7f, 0x03, 0x06, 0x1c, 0x30, 0x60, 0x7f, 0x00]),
      (CHR ''a'', [0x00, 0x00, 0x3e, 0x03, 0x3f, 0x63, 0x3f, 0x00]),
      (CHR ''b'', [0x60, 0x60, 0x7e, 0x63, 0x63, 0x63, 0x7e, 0x00]),
      (CHR ''c'', [0x00, 0x00, 0x3e, 0x63, 0x60, 0x63, 0x3e, 0x00]),
      (CHR ''d'', [0x03, 0x03, 0x3f, 0x63, 0x63, 0x63, 0x3f, 0x00]),
      (CHR ''e'', [0x00, 0x00, 0x3e, 0x63, 0x7f, 0x60, 0x3e, 0x00]),
      (CHR ''f'', [0x1e, 0x33, 0x30, 0x7c, 0x30, 0x30, 0x30, 0x00]),
      (CHR ''g'', [0x00, 0x00, 0x3f, 0x63, 0x63, 0x3f, 0x03, 0x3e]),
      (CHR ''h'', [0x60, 0x60, 0x7e, 0x63, 0x63, 0x63, 0x63, 0x00]),
      (CHR ''i'', [0x18, 0x00, 0x38, 0x18, 0x18, 0x18, 0x3c, 0x00]),
      (CHR ''j'', [0x06, 0x00, 0x0e, 0x06, 0x06, 0x66, 0x66, 0x3c]),
      (CHR ''k'', [0x60, 0x60, 0x66, 0x6c, 0x78, 0x6c, 0x66, 0x00]),
      (CHR ''l'', [0x38, 0x18, 0x18, 0x18, 0x18, 0x18, 0x3c, 0x00]),
      (CHR ''m'', [0x00, 0x00, 0x66, 0x7f, 0x7f, 0x6b, 0x63, 0x00]),
      (CHR ''n'', [0x00, 0x00, 0x7e, 0x63, 0x63, 0x63, 0x63, 0x00]),
      (CHR ''o'', [0x00, 0x00, 0x3e, 0x63, 0x63, 0x63, 0x3e, 0x00]),
      (CHR ''p'', [0x00, 0x00, 0x7e, 0x63, 0x63, 0x7e, 0x60, 0x60]),
      (CHR ''q'', [0x00, 0x00, 0x3f, 0x63, 0x63, 0x3f, 0x03, 0x03]),
      (CHR ''r'', [0x00, 0x00, 0x6e, 0x73, 0x60, 0x60, 0x60, 0x00]),
      (CHR ''s'', [0x00, 0x00, 0x3f, 0x60, 0x3e, 0x03, 0x7e, 0x00]),
      (CHR ''t'', [0x30, 0x30, 0x7c, 0x30, 0x30, 0x33, 0x1e, 0x00]),
      (CHR ''u'', [0x00, 0x00, 0x63, 0x63, 0x63, 0x67, 0x3b, 0x00]),
      (CHR ''v'', [0x00, 0x00, 0x63, 0x63, 0x63, 0x36, 0x1c, 0x00]),
      (CHR ''w'', [0x00, 0x00, 0x63, 0x6b, 0x7f, 0x7f, 0x36, 0x00]),
      (CHR ''x'', [0x00, 0x00, 0x63, 0x36, 0x1c, 0x36, 0x63, 0x00]),
      (CHR ''y'', [0x00, 0x00, 0x63, 0x63, 0x63, 0x3f, 0x03, 0x3e]),
      (CHR ''z'', [0x00, 0x00, 0x7f, 0x06, 0x1c, 0x30, 0x7f, 0x00])]"

definition glyph_of :: "char \<Rightarrow> u8 list" where
  "glyph_of c =
     (case map_of font8x8_basic (if of_char c < (128 :: nat) then c else CHR '' '') of
        Some glyph \<Rightarrow> glyph
      | None \<Rightarrow> replicate 8 0)"

definition serial_putc :: "char \<Rightarrow> console_state \<Rightarrow> console_state" where
  "serial_putc c s = s\<lparr>serial_out := serial_out s @ [c]\<rparr>"

fun serial_write :: "string \<Rightarrow> console_state \<Rightarrow> console_state" where
  "serial_write [] s = s"
| "serial_write (c # str) s =
     (if c = NUL then s
      else serial_write str (serial_putc c (if c = CHR 0x0A then serial_putc (CHR 0x0D) s else s)))"

definition min_u32 :: "u32 \<Rightarrow> u32 \<Rightarrow> u32" where
  "min_u32 a b = (if a < b then a else b)"

definition fb_put_pixel :: "u32 \<Rightarrow> u32 \<Rightarrow> u32 \<Rightarrow> console_state \<Rightarrow> console_state" where
  "fb_put_pixel x y color s =
     (case fb s of
        None \<Rightarrow> s
      | Some f \<Rightarrow>
          if ucast x \<ge> lfb_width f \<or> ucast y \<ge> lfb_height f then s
          else s\<lparr>fb_mem := (fb_mem s)(lfb_address f + (ucast y * lfb_pitch f + ucast (x * 4)) := color)\<rparr>)"

text \<open>Pairs of pixels are written as one 64-bit word, whose two halves are both the colour.\<close>

definition fb_fill_pixels :: "u64 \<Rightarrow> u64 \<Rightarrow> u32 \<Rightarrow> console_state \<Rightarrow> console_state" where
  "fb_fill_pixels dst pixel_count color s =
     (let pairs = pixel_count div 2;
          s = fold (\<lambda>i s. s\<lparr>fb_mem := (fb_mem s)(dst + of_nat i * 8 := color, dst + of_nat i * 8 + 4 := color)\<rparr>)
                [0..<unat pairs] s
      in if and pixel_count 1 \<noteq> 0
         then s\<lparr>fb_mem := (fb_mem s)(dst + (pixel_count - 1) * 4 := color)\<rparr> else s)"

definition fb_clear :: "console_state \<Rightarrow> console_state" where
  "fb_clear s =
     (case fb s of
        None \<Rightarrow> s
      | Some f \<Rightarrow>
          fold (\<lambda>y s. fb_fill_pixels (lfb_address f + of_nat y * lfb_pitch f) (lfb_width f) (bg_color s) s)
            [0..<unat (lfb_height f)] s)"

definition text_mark_row_dirty :: "u32 \<Rightarrow> console_state \<Rightarrow> console_state" where
  "text_mark_row_dirty row s =
     (if row < text_rows s then s\<lparr>text_dirty := (text_dirty s)[unat row := True]\<rparr> else s)"

definition text_mark_all_dirty :: "console_state \<Rightarrow> console_state" where
  "text_mark_all_dirty s =
     s\<lparr>text_dirty := fold (\<lambda>row d. d[row := True]) [0..<unat (text_rows s)] (text_dirty s), fb_dirty_all := True\<rparr>"

definition set_cell :: "nat \<Rightarrow> nat \<Rightarrow> char \<Rightarrow> char list list \<Rightarrow> char list list" where
  "set_cell row col c cells = cells[row := (cells ! row)[col := c]]"

definition text_clear_row :: "u32 \<Rightarrow> console_state \<Rightarrow> console_state" where
  "text_clear_row row s =
     (if row \<ge> text_rows s then s
      else text_mark_row_dirty row
        (s\<lparr>text_cells := fold (\<lambda>col. set_cell (unat row) col CHR '' '') [0..<unat (text_cols s)] (text_cells s)\<rparr>))"

definition text_clear :: "console_state \<Rightarrow> console_state" where
  "text_clear s =
     (let s = fold (\<lambda>row. text_clear_row (of_nat row)) [0..<unat (text_rows s)] s
      in text_mark_all_dirty (s\<lparr>text_x := 0, text_y := 0\<rparr>))"

definition fb_fill_rect :: "u32 \<Rightarrow> u32 \<Rightarrow> u32 \<Rightarrow> u32 \<Rightarrow> u32 \<Rightarrow> console_state \<Rightarrow> console_state" where
  "fb_fill_rect x y width height color s =
     (case fb s of
        None \<Rightarrow> s
      | Some f \<Rightarrow>
          if ucast x \<ge> lfb_width f \<or> ucast y \<ge> lfb_height f then s
          else
            let width = (if ucast (x + width) > lfb_width f then ucast (lfb_width f) - x else width);
                height = (if ucast (y + height) > lfb_height f then ucast (lfb_height f) - y else height)
            in fold (\<lambda>row. fb_fill_pixels (lfb_address f + ucast (y + of_nat row) * lfb_pitch f + ucast (x * 4)) (ucast width) color)
                 [0..<unat height] s)"

definition fb_draw_char_at :: "u32 \<Rightarrow> u32 \<Rightarrow> char \<Rightarrow> console_state \<Rightarrow> console_state" where
  "fb_draw_char_at col row c s =
     (if fb s = None \<or> col \<ge> text_cols s \<or> row \<ge> text_rows s then s
      else
        let glyph = glyph_of c; px = col * FB_CHAR_WIDTH; py = row * FB_CHAR_HEIGHT in
        fold (\<lambda>glyph_row. fold (\<lambda>glyph_col s.
            let color = (if bit (glyph ! glyph_row) (7 - glyph_col) then fg_color s else bg_color s) in
            fb_put_pixel (px + of_nat glyph_col) (py + of_nat glyph_row * 2 + 1) color
              (fb_put_pixel (px + of_nat glyph_col) (py + of_nat glyph_row * 2) color s)) [0..<8]) [0..<8] s)"

text \<open>The characters of a row that are drawn.\<close>

definition fb_draw_row :: "nat \<Rightarrow> console_state \<Rightarrow> console_state" where
  "fb_draw_row row s =
     fold (\<lambda>col s. let c = text_cells s ! row ! col in
             if c \<noteq> CHR '' '' then fb_draw_char_at (of_nat col) (of_nat row) c s else s)
       [0..<unat (text_cols s)] s"

definition fb_redraw_row :: "u32 \<Rightarrow> console_state \<Rightarrow> console_state" where
  "fb_redraw_row row s =
     (if fb s = None \<or> row \<ge> text_rows s then s
      else fb_draw_row (unat row)
             (fb_fill_rect 0 (row * FB_CHAR_HEIGHT) (text_cols s * FB_CHAR_WIDTH) FB_CHAR_HEIGHT (bg_color s) s))"

definition clear_dirty :: "nat \<Rightarrow> console_state \<Rightarrow> console_state" where
  "clear_dirty row s = s\<lparr>text_dirty := (text_dirty s)[row := False]\<rparr>"

definition fb_flush_dirty_rows :: "console_state \<Rightarrow> console_state" where
  "fb_flush_dirty_rows s =
     (if fb s = None \<or> \<not> fb_output_enabled s then s
      else if fb_dirty_all s then
        (fold (\<lambda>row s. clear_dirty row (fb_draw_row row s)) [0..<unat (text_rows s)] (fb_clear s))\<lparr>fb_dirty_all := False\<rparr>
      else
        fold (\<lambda>row s. if text_dirty s ! row then clear_dirty row (fb_redraw_row (of_nat row) s) else s)
          [0..<unat (text_rows s)] s)"

definition fb_draw_cursor :: "u32 \<Rightarrow> console_state \<Rightarrow> console_state" where
  "fb_draw_cursor color s =
     (if fb s = None \<or> text_cols s = 0 \<or> text_rows s = 0 then s
      else
        let col = (if text_x s \<ge> text_cols s then text_cols s - 1 else text_x s);
            row = (if text_y s \<ge> text_rows s then text_rows s - 1 else text_y s);
            y = row * FB_CHAR_HEIGHT + FB_CHAR_HEIGHT - 2
        in fb_fill_rect (col * FB_CHAR_WIDTH) y FB_CHAR_WIDTH 2 color s)"

definition fb_show_cursor :: "console_state \<Rightarrow> console_state" where
  "fb_show_cursor s =
     (if \<not> fb_cursor_visible s then (fb_draw_cursor (fg_color s) s)\<lparr>fb_cursor_visible := True\<rparr> else s)"

definition fb_hide_cursor :: "console_state \<Rightarrow> console_state" where
  "fb_hide_cursor s =
     (if fb_cursor_visible s then (fb_draw_cursor (bg_color s) s)\<lparr>fb_cursor_visible := False\<rparr> else s)"

definition console_clear_framebuffer :: "console_state \<Rightarrow> console_state" where
  "console_clear_framebuffer s =
     fb_show_cursor ((fb_clear (text_clear (fb_hide_cursor s)))\<lparr>fb_cursor_visible := False\<rparr>)"

definition console_set_framebuffer_enabled :: "bool \<Rightarrow> console_state \<Rightarrow> console_state" where
  "console_set_framebuffer_enabled enabled s =
     (let s = s\<lparr>fb_output_enabled := enabled\<rparr> in
      if fb_output_enabled s then fb_show_cursor s else fb_hide_cursor s)"

definition console_set_screen_output_suppressed :: "bool \<Rightarrow> console_state \<Rightarrow> console_state" where
  "console_set_screen_output_suppressed suppressed s = s\<lparr>screen_output_suppressed := suppressed\<rparr>"

definition fb_newline :: "console_state \<Rightarrow> console_state" where
  "fb_newline s =
     (let s = s\<lparr>text_x := 0, text_y := text_y s + 1\<rparr> in
      if text_y s \<ge> text_rows s then
        if text_rows s = 0 then s\<lparr>text_y := 0\<rparr>
        else
          let cells = fold (\<lambda>row. fold (\<lambda>col cells. set_cell (row - 1) col (cells ! row ! col) cells) [0..<unat (text_cols s)])
                        [1..<unat (text_rows s)] (text_cells s);
              cells = fold (\<lambda>col. set_cell (unat (text_rows s - 1)) col CHR '' '') [0..<unat (text_cols s)] cells
          in text_mark_all_dirty (s\<lparr>text_cells := cells, text_y := text_rows s - 1\<rparr>)
      else s)"

definition fb_backspace :: "console_state \<Rightarrow> console_state" where
  "fb_backspace s =
     (let s = (if text_x s > 0 then s\<lparr>text_x := text_x s - 1\<rparr>
               else if text_y s > 0 then
                 s\<lparr>text_y := text_y s - 1, text_x := (if text_cols s > 0 then text_cols s - 1 else 0)\<rparr>
               else s)
      in if text_y s < text_rows s \<and> text_x s < text_cols s
         then text_mark_row_dirty (text_y s)
                (s\<lparr>text_cells := set_cell (unat (text_y s)) (unat (text_x s)) CHR '' '' (text_cells s)\<rparr>)
         else s)"

definition fb_putc :: "char \<Rightarrow> console_state \<Rightarrow> console_state" where
  "fb_putc c s =
     (if text_cols s = 0 \<or> text_rows s = 0 then s
      else if c = CHR 0x0A then fb_newline s
      else if c = CHR 0x08 then fb_backspace s
      else
        let s = (if text_x s \<ge> text_cols s then fb_newline s else s);
            s = text_mark_row_dirty (text_y s)
                  (s\<lparr>text_cells := set_cell (unat (text_y s)) (unat (text_x s)) c (text_cells s)\<rparr>);
            s = s\<lparr>text_x := text_x s + 1\<rparr>
        in if text_x s \<ge> text_cols s then fb_newline s else s)"

text \<open>The loop of \<^verbatim>\<open>console_write_n\<close>; the flag is \<^verbatim>\<open>old_cursor_visible\<close>.\<close>

fun console_write_chars :: "string \<Rightarrow> bool \<Rightarrow> console_state \<Rightarrow> bool \<times> console_state" where
  "console_write_chars [] old s = (old, s)"
| "console_write_chars (c # str) old s =
     (if c = CHR 0x0C then
        console_write_chars str True
          (console_clear_framebuffer (console_set_framebuffer_enabled True (serial_write [CHR 0x0A] s)))
      else
        let s = (if c = CHR 0x0A then serial_putc (CHR 0x0D) s else s);
            s = serial_putc c s
        in if screen_output_suppressed s \<or> \<not> fb_output_enabled s then console_write_chars str old s
           else console_write_chars str old (fb_putc c s))"

definition console_write_n :: "string \<Rightarrow> console_state \<Rightarrow> console_state" where
  "console_write_n str s =
     (let old = fb_cursor_visible s;
          s = (if \<not> screen_output_suppressed s then fb_hide_cursor s else s);
          (old, s) = console_write_chars str old s;
          s = (if \<not> screen_output_suppressed s then fb_flush_dirty_rows s else s)
      in if \<not> screen_output_suppressed s \<and> (old \<or> fb_output_enabled s) then fb_show_cursor s else s)"

definition console_write :: "string option \<Rightarrow> console_state \<Rightarrow> console_state" where
  "console_write str s =
     (case str of None \<Rightarrow> s | Some str \<Rightarrow> console_write_n (take (string_length str) str) s)"

text \<open>The digits of a number, last digit first into the buffer: at most as many as the buffer holds.\<close>

fun u64_digits :: "nat \<Rightarrow> u64 \<Rightarrow> string \<Rightarrow> string" where
  "u64_digits 0 v buf = buf"
| "u64_digits (Suc i) v buf =
     (if v > 0 then u64_digits i (v div 10) (char_of (48 + unat (v mod 10)) # buf) else buf)"

definition console_write_u64 :: "u64 \<Rightarrow> console_state \<Rightarrow> console_state" where
  "console_write_u64 v s = console_write (Some (if v = 0 then ''0'' else u64_digits 20 v [])) s"

definition hex_digit :: "u64 \<Rightarrow> char" where
  "hex_digit d = ''0123456789abcdef'' ! unat (and d 0xf)"

definition console_write_hex :: "u64 \<Rightarrow> console_state \<Rightarrow> console_state" where
  "console_write_hex v s =
     console_write (Some (''0x'' @ map (\<lambda>i. hex_digit (drop_bit ((15 - i) * 4) v)) [0..<16])) s"

definition console_write_i64 :: "64 word \<Rightarrow> console_state \<Rightarrow> console_state" where
  "console_write_i64 v s =
     (if v <s 0 then console_write_u64 (- v) (console_write (Some ''-'') s) else console_write_u64 v s)"

fun hex_digits :: "nat \<Rightarrow> u64 \<Rightarrow> string \<Rightarrow> string" where
  "hex_digits 0 v buf = buf"
| "hex_digits (Suc i) v buf = (if v > 0 then hex_digits i (drop_bit 4 v) (hex_digit v # buf) else buf)"

definition console_write_hex_compact :: "u64 \<Rightarrow> console_state \<Rightarrow> console_state" where
  "console_write_hex_compact v s =
     console_write (Some (if v = 0 then ''0'' else hex_digits 16 v [])) (console_write (Some ''0x'') s)"

text \<open>The variable arguments; each conversion takes the next one, \<^verbatim>\<open>%d\<close> and \<^verbatim>\<open>%c\<close> a 32-bit \<^verbatim>\<open>int\<close>. A missing
  argument or one of another type is undefined in C; the model prints \<^verbatim>\<open>%?\<close>, as for an unknown conversion.\<close>

datatype printf_arg = ArgString "string option" | ArgInt "32 word" | ArgU64 u64

definition printf_convert :: "char \<Rightarrow> printf_arg list \<Rightarrow> console_state \<Rightarrow> printf_arg list \<times> console_state" where
  "printf_convert d args s =
     (if d = CHR ''%'' then (args, console_write (Some ''%'') s)
      else case args of
        ArgString str # rest \<Rightarrow>
          if d = CHR ''s'' then (rest, console_write str s) else (args, console_write (Some ''%?'') s)
      | ArgInt i # rest \<Rightarrow>
          if d = CHR ''c'' then (rest, console_write (Some [char_of (unat (and i 0xff))]) s)
          else if d = CHR ''d'' then (rest, console_write_i64 (scast i) s)
          else (args, console_write (Some ''%?'') s)
      | ArgU64 v # rest \<Rightarrow>
          if d = CHR ''u'' then (rest, console_write_u64 v s)
          else if d = CHR ''x'' then (rest, console_write_hex_compact v s)
          else (args, console_write (Some ''%?'') s)
      | [] \<Rightarrow> (args, console_write (Some ''%?'') s))"

fun console_vprintf :: "string \<Rightarrow> printf_arg list \<Rightarrow> console_state \<Rightarrow> console_state" where
  "console_vprintf fmt args s =
     (case fmt of
        [] \<Rightarrow> s
      | c # rest \<Rightarrow>
          if c = NUL then s
          else if c \<noteq> CHR ''%'' then console_vprintf rest args (console_write (Some [c]) s)
          else case printf_convert (deref rest) args s of (args, s) \<Rightarrow> console_vprintf (drop 1 rest) args s)"

declare console_vprintf.simps [simp del]

definition console_printf :: "string \<Rightarrow> printf_arg list \<Rightarrow> console_state \<Rightarrow> console_state" where
  "console_printf fmt args s = console_vprintf fmt args s"

text \<open>What a panic prints before the processor halts.\<close>

definition kernel_panic :: "string \<Rightarrow> console_state \<Rightarrow> console_state" where
  "kernel_panic message s =
     console_write (Some [CHR 0x0A])
       (console_write (Some message)
         (console_write (Some ([CHR 0x0A] @ ''PANIC: '')) (console_set_framebuffer_enabled True s)))"

definition console_init_framebuffer :: "limine_framebuffer option \<Rightarrow> console_state \<Rightarrow> console_state" where
  "console_init_framebuffer framebuffer s =
     (let cols = (case framebuffer of None \<Rightarrow> 0 | Some f \<Rightarrow> min_u32 (ucast (lfb_width f div 8)) TEXT_MAX_COLS);
          rows = (case framebuffer of None \<Rightarrow> 0 | Some f \<Rightarrow> min_u32 (ucast (lfb_height f div 16)) TEXT_MAX_ROWS);
          s = s\<lparr>fb := framebuffer, text_cols := cols, text_rows := rows, text_x := 0, text_y := 0,
                fb_cursor_visible := False, fb_output_enabled := True, screen_output_suppressed := False, fb_dirty_all := False\<rparr>
      in fb_clear (text_clear s))"

section \<open>Drawing\<close>

text \<open>Drawing changes the framebuffer and nothing else.\<close>

definition draws :: "console_state \<Rightarrow> console_state \<Rightarrow> bool" where
  "draws s s' \<longleftrightarrow> (\<exists>m. s' = s\<lparr>fb_mem := m\<rparr>)"

lemma draws_refl [simp]: "draws s s"
  by (auto simp: draws_def intro: exI [of _ "fb_mem s"])

lemma draws_trans: "draws s t \<Longrightarrow> draws t u \<Longrightarrow> draws s u"
  by (auto simp: draws_def)

lemma draws_fold: "(\<And>x s. x \<in> set xs \<Longrightarrow> draws s (f x s)) \<Longrightarrow> draws s (fold f xs s)"
proof (induction xs arbitrary: s)
  case (Cons x xs)
  have "draws s (f x s)" using Cons.prems by simp
  moreover have "draws (f x s) (fold f xs (f x s))" using Cons by simp
  ultimately show ?case by (auto intro: draws_trans)
qed simp

lemma draws_mem [simp]: "draws s (s\<lparr>fb_mem := m\<rparr>)"
  by (auto simp: draws_def)

lemma draws_put_pixel [simp]: "draws s (fb_put_pixel x y c s)"
  by (simp add: fb_put_pixel_def split: option.splits)

lemma draws_fill_pixels [simp]: "draws s (fb_fill_pixels d n c s)"
proof -
  have "draws s (fold (\<lambda>i s. s\<lparr>fb_mem := (fb_mem s)(d + of_nat i * 8 := c, d + of_nat i * 8 + 4 := c)\<rparr>) [0..<unat (n div 2)] s)"
    by (rule draws_fold) simp
  then show ?thesis by (auto simp: fb_fill_pixels_def Let_def intro: draws_trans)
qed

lemma draws_clear [simp]: "draws s (fb_clear s)"
  by (auto simp: fb_clear_def split: option.splits intro!: draws_fold)

lemma draws_fill_rect [simp]: "draws s (fb_fill_rect x y w h c s)"
  by (auto simp: fb_fill_rect_def Let_def split: option.splits intro!: draws_fold)

lemma draws_draw_char [simp]: "draws s (fb_draw_char_at col row c s)"
  by (auto simp: fb_draw_char_at_def Let_def simp del: upt_rec_numeral intro!: draws_fold)
     (rule draws_trans [OF draws_put_pixel draws_put_pixel])+

lemma draws_draw_row [simp]: "draws s (fb_draw_row row s)"
  by (auto simp: fb_draw_row_def Let_def intro!: draws_fold)

lemma draws_redraw_row [simp]: "draws s (fb_redraw_row row s)"
  by (auto simp: fb_redraw_row_def intro: draws_trans [OF draws_fill_rect draws_draw_row])

lemma draws_draw_cursor [simp]: "draws s (fb_draw_cursor c s)"
  by (auto simp: fb_draw_cursor_def Let_def)

section \<open>The text screen\<close>

definition console_ok :: "console_state \<Rightarrow> bool" where
  "console_ok s \<longleftrightarrow> length (text_cells s) = 256 \<and> list_all (\<lambda>r. length r = 512) (text_cells s) \<and> length (text_dirty s) = 256 \<and>
     text_cols s \<le> TEXT_MAX_COLS \<and> text_rows s \<le> TEXT_MAX_ROWS \<and>
     (text_cols s \<noteq> 0 \<and> text_rows s \<noteq> 0 \<longrightarrow> text_x s < text_cols s \<and> text_y s < text_rows s)"

text \<open>The part of the state that the text screen consists of: two states with the same screen and flags.\<close>

definition same_text :: "console_state \<Rightarrow> console_state \<Rightarrow> bool" where
  "same_text s t \<longleftrightarrow> text_x t = text_x s \<and> text_y t = text_y s \<and> text_cols t = text_cols s \<and> text_rows t = text_rows s \<and>
     text_cells t = text_cells s \<and> length (text_dirty t) = length (text_dirty s) \<and> serial_out t = serial_out s \<and>
     fb_output_enabled t = fb_output_enabled s \<and> screen_output_suppressed t = screen_output_suppressed s \<and> fb t = fb s"

lemma same_text_refl [simp]: "same_text s s"
  by (simp add: same_text_def)

lemma same_text_trans: "same_text s t \<Longrightarrow> same_text t u \<Longrightarrow> same_text s u"
  by (simp add: same_text_def)

lemma same_text_draws: "draws s t \<Longrightarrow> same_text s t"
  by (auto simp: draws_def same_text_def)

lemma same_text_fold: "(\<And>x s. x \<in> set xs \<Longrightarrow> same_text s (f x s)) \<Longrightarrow> same_text s (fold f xs s)"
proof (induction xs arbitrary: s)
  case (Cons x xs)
  have "same_text s (f x s)" using Cons.prems by simp
  moreover have "same_text (f x s) (fold f xs (f x s))" using Cons by simp
  ultimately show ?case by (auto intro: same_text_trans)
qed simp

lemma console_ok_same: "same_text s t \<Longrightarrow> console_ok t = console_ok s"
  by (simp add: same_text_def console_ok_def)

lemma same_text_clear_dirty [simp]: "same_text s (clear_dirty row t) = same_text s t"
  by (simp add: same_text_def clear_dirty_def)

lemma same_text_flush [simp]: "same_text s (fb_flush_dirty_rows s)"
proof -
  have a: "same_text t (fold (\<lambda>row s. clear_dirty row (fb_draw_row row s)) rows t)" for rows t
    by (rule same_text_fold) (simp add: same_text_draws)
  have b: "same_text t (fold (\<lambda>row s. if text_dirty s ! row then clear_dirty row (fb_redraw_row (of_nat row) s) else s) rows t)" for rows t
    by (rule same_text_fold) (simp add: same_text_draws)
  have "same_text s (fb_clear s)" by (simp add: same_text_draws)
  from same_text_trans [OF this a] b show ?thesis
    by (auto simp: fb_flush_dirty_rows_def same_text_def)
qed

lemma same_text_cursor [simp]: "same_text s (fb_show_cursor s)" "same_text s (fb_hide_cursor s)"
  using same_text_draws [OF draws_draw_cursor, of s "fg_color s"] same_text_draws [OF draws_draw_cursor, of s "bg_color s"]
  by (auto simp: fb_show_cursor_def fb_hide_cursor_def same_text_def)

text \<open>The loops over the columns of a row.\<close>

lemma length_set_cell [simp]: "length (set_cell r c v cells) = length cells"
  by (simp add: set_cell_def)

lemma set_cell_row: "r < length cells \<Longrightarrow> set_cell r c v cells ! i = (if i = r then (cells ! r)[c := v] else cells ! i)"
  by (simp add: set_cell_def nth_list_update)

lemma blank_row:
  assumes "r < length cells" "n \<le> length (cells ! r)"
  shows "fold (\<lambda>col. set_cell r col v) [0..<n] cells = cells[r := replicate n v @ drop n (cells ! r)]"
  using assms(2)
proof (induction n)
  case (Suc n)
  have "(replicate n v @ drop n (cells ! r))[n := v] = replicate (Suc n) v @ drop (Suc n) (cells ! r)"
    using Suc.prems by (intro nth_equalityI) (auto simp: nth_append nth_list_update simp del: replicate_Suc)
  then show ?case using Suc assms(1) by (simp add: set_cell_def)
qed simp

lemma copy_row:
  assumes "r < length cells" "r \<noteq> q" "q < length cells" "n \<le> length (cells ! q)" "n \<le> length (cells ! r)"
  shows "fold (\<lambda>col cells. set_cell q col (cells ! r ! col) cells) [0..<n] cells =
    cells[q := take n (cells ! r) @ drop n (cells ! q)]"
  using assms(4,5)
proof (induction n)
  case (Suc n)
  have "(take n (cells ! r) @ drop n (cells ! q))[n := cells ! r ! n] = take (Suc n) (cells ! r) @ drop (Suc n) (cells ! q)"
    using Suc.prems by (intro nth_equalityI) (auto simp: nth_append nth_list_update min_def)
  then show ?case using Suc assms(1-3) by (simp add: set_cell_def)
qed simp

text \<open>Scrolling: rows \<open>1..<n\<close> move up by one, in their first \<open>w\<close> columns.\<close>

lemma scroll_rows:
  assumes "list_all (\<lambda>r. length r = 512) cells" "n \<le> length cells" "w \<le> 512" "0 < n"
  shows "fold (\<lambda>row. fold (\<lambda>col cells. set_cell (row - 1) col (cells ! row ! col) cells) [0..<w]) [1..<n] cells =
    map (\<lambda>i. if i + 1 < n then take w (cells ! (i + 1)) @ drop w (cells ! i) else cells ! i) [0..<length cells]"
  using assms(2,4)
proof (induction n)
  case (Suc n)
  show ?case
  proof (cases "n = 0")
    case True
    then show ?thesis by (simp add: map_nth)
  next
    case False
    define c1 where "c1 = map (\<lambda>i. if i + 1 < n then take w (cells ! (i + 1)) @ drop w (cells ! i) else cells ! i) [0..<length cells]"
    have len: "length (cells ! i) = 512" if "i < length cells" for i using assms(1) that by (simp add: list_all_length)
    have at: "c1 ! n = cells ! n" "c1 ! (n - 1) = cells ! (n - 1)" "length c1 = length cells" using False Suc.prems by (simp_all add: c1_def)
    have "fold (\<lambda>row. fold (\<lambda>col cells. set_cell (row - 1) col (cells ! row ! col) cells) [0..<w]) [1..<Suc n] cells =
        fold (\<lambda>col cells. set_cell (n - 1) col (cells ! n ! col) cells) [0..<w] c1"
      using Suc False by (simp add: c1_def)
    also have "\<dots> = c1[n - 1 := take w (c1 ! n) @ drop w (c1 ! (n - 1))]"
      using False Suc.prems at assms(3) len by (intro copy_row) (auto simp: at)
    also have "\<dots> = map (\<lambda>i. if i + 1 < Suc n then take w (cells ! (i + 1)) @ drop w (cells ! i) else cells ! i) [0..<length cells]"
      using False Suc.prems by (intro nth_equalityI) (auto simp: at nth_list_update c1_def)
    finally show ?thesis .
  qed
qed simp

text \<open>The screen: the visible part of the cells, row by row, and the cursor.\<close>

type_synonym screen = "string list \<times> nat \<times> nat"

definition screen_of :: "console_state \<Rightarrow> screen" where
  "screen_of s = (map (take (unat (text_cols s))) (take (unat (text_rows s)) (text_cells s)), unat (text_x s), unat (text_y s))"

definition term_newline :: "nat \<Rightarrow> screen \<Rightarrow> screen" where
  "term_newline w t = (case t of (ls, x, y) \<Rightarrow>
     if y + 1 < length ls then (ls, 0, y + 1) else (drop 1 ls @ [replicate w CHR '' ''], 0, y))"

definition term_putc :: "nat \<Rightarrow> char \<Rightarrow> screen \<Rightarrow> screen" where
  "term_putc w c t = (case t of (ls, x, y) \<Rightarrow>
     if c = CHR 0x0A then term_newline w t
     else if c = CHR 0x08 then
       (let (x, y) = (if x > 0 then (x - 1, y) else if y > 0 then (w - 1, y - 1) else (x, y))
        in (ls[y := (ls ! y)[x := CHR '' '']], x, y))
     else
       let ls = ls[y := (ls ! y)[x := c]]
       in if x + 1 < w then (ls, x + 1, y) else term_newline w (ls, x + 1, y))"

lemma unat_dec32: "(0 :: u32) < v \<Longrightarrow> unat (v - 1) = unat v - 1"
  by (subst unat_sub) (simp_all add: word_le_nat_alt word_less_nat_alt)

lemma unat_inc32: "i < (n :: u32) \<Longrightarrow> unat (i + 1) = unat i + 1"
proof -
  assume "i < n"
  moreover have "unat n < 4294967296" by (rule unsigned_less [THEN order_less_le_trans]) simp
  ultimately have "Suc (unat i) < 4294967296" unfolding word_less_nat_alt by linarith
  then show ?thesis by (simp add: unat_word_ariths)
qed

text \<open>The cell arrays alone: what holds also in the middle of writing a character.\<close>

definition cells_ok :: "console_state \<Rightarrow> bool" where
  "cells_ok s \<longleftrightarrow> length (text_cells s) = 256 \<and> list_all (\<lambda>r. length r = 512) (text_cells s) \<and> length (text_dirty s) = 256 \<and>
     unat (text_cols s) \<le> 512 \<and> unat (text_rows s) \<le> 256"

lemma console_ok_cells:
  "console_ok s \<longleftrightarrow> cells_ok s \<and> (text_cols s \<noteq> 0 \<and> text_rows s \<noteq> 0 \<longrightarrow> text_x s < text_cols s \<and> text_y s < text_rows s)"
  by (auto simp: console_ok_def cells_ok_def word_le_nat_alt)

text \<open>What stays while characters are put on the screen.\<close>

definition same_frame :: "console_state \<Rightarrow> console_state \<Rightarrow> bool" where
  "same_frame s t \<longleftrightarrow> text_cols t = text_cols s \<and> text_rows t = text_rows s \<and> serial_out t = serial_out s \<and>
     fb_output_enabled t = fb_output_enabled s \<and> screen_output_suppressed t = screen_output_suppressed s"

lemma length_mark_fold [simp]: "length (fold (\<lambda>row d. d[row := True]) rows (d :: bool list)) = length d"
  by (induction rows arbitrary: d) simp_all

lemma mark_row_dirty [simp]:
  "cells_ok (text_mark_row_dirty r s) = cells_ok s" "screen_of (text_mark_row_dirty r s) = screen_of s"
  "same_frame t (text_mark_row_dirty r s) = same_frame t s" "text_x (text_mark_row_dirty r s) = text_x s"
  "text_y (text_mark_row_dirty r s) = text_y s" "text_cols (text_mark_row_dirty r s) = text_cols s"
  "text_rows (text_mark_row_dirty r s) = text_rows s"
  by (simp_all add: text_mark_row_dirty_def cells_ok_def screen_of_def same_frame_def)

lemma mark_all_dirty [simp]:
  "cells_ok (text_mark_all_dirty s) = cells_ok s" "screen_of (text_mark_all_dirty s) = screen_of s"
  "same_frame t (text_mark_all_dirty s) = same_frame t s" "text_x (text_mark_all_dirty s) = text_x s"
  "text_y (text_mark_all_dirty s) = text_y s" "text_cols (text_mark_all_dirty s) = text_cols s"
  "text_rows (text_mark_all_dirty s) = text_rows s"
  by (simp_all add: text_mark_all_dirty_def cells_ok_def screen_of_def same_frame_def)

lemma newline_cells:
  assumes "cells_ok s" "text_rows s \<noteq> 0"
  defines "R \<equiv> unat (text_rows s)" and "C \<equiv> unat (text_cols s)"
  defines "cells \<equiv> fold (\<lambda>row. fold (\<lambda>col cells. set_cell (row - 1) col (cells ! row ! col) cells) [0..<C]) [1..<R] (text_cells s)"
  defines "cells' \<equiv> fold (\<lambda>col. set_cell (R - 1) col CHR '' '') [0..<C] cells"
  shows "length cells' = 256" "list_all (\<lambda>r. length r = 512) cells'"
    "map (take C) (take R cells') = drop 1 (map (take C) (take R (text_cells s))) @ [replicate C CHR '' '']"
proof -
  have R: "0 < R" "R \<le> 256" "C \<le> 512" using assms(1,2) by (simp_all add: R_def C_def cells_ok_def unat_gt_0)
  have tc: "length (text_cells s) = 256" "list_all (\<lambda>r. length r = 512) (text_cells s)" using assms(1) by (simp_all add: cells_ok_def)
  have row: "length (text_cells s ! i) = 512" if "i < 256" for i using tc that by (simp add: list_all_length)
  have c: "cells = map (\<lambda>i. if i + 1 < R then take C (text_cells s ! (i + 1)) @ drop C (text_cells s ! i) else text_cells s ! i) [0..<256]"
    unfolding cells_def using scroll_rows [OF tc(2), of R C] R tc(1) by simp
  have cl: "length cells = 256" "length (cells ! i) = 512" if "i < 256" for i
    using row that R by (auto simp: c simp del: upt_rec_numeral)
  have l256: "length cells = 256" by (simp add: c)
  have c': "cells' = cells[R - 1 := replicate C CHR '' '' @ drop C (cells ! (R - 1))]"
    unfolding cells'_def using R l256 cl(2) [of "R - 1"] by (intro blank_row) simp_all
  show "length cells' = 256" by (simp add: c' l256)
  show "list_all (\<lambda>r. length r = 512) cells'"
    using cl(2) R by (auto simp: list_all_length c' l256 nth_list_update)
  show "map (take C) (take R cells') = drop 1 (map (take C) (take R (text_cells s))) @ [replicate C CHR '' '']"
  proof (rule nth_equalityI)
    show "length (map (take C) (take R cells')) = length (drop 1 (map (take C) (take R (text_cells s))) @ [replicate C CHR '' ''])"
      using R tc(1) by (simp add: c' l256)
  next
    fix i assume "i < length (map (take C) (take R cells'))"
    then have i: "i < R" by simp
    show "map (take C) (take R cells') ! i = (drop 1 (map (take C) (take R (text_cells s))) @ [replicate C CHR '' '']) ! i"
    proof (cases "i = R - 1")
      case True
      then show ?thesis using R tc(1) by (simp add: c' l256 nth_append)
    next
      case False
      then have "i < R - 1" "i + 1 < R" using i by simp_all
      then show ?thesis
        using R tc(1) row by (simp add: c' l256 nth_append c min_def)
    qed
  qed
qed

lemma fb_newline_screen:
  assumes "cells_ok s" "text_y s < text_rows s"
  shows "cells_ok (fb_newline s)" "same_frame s (fb_newline s)" "text_x (fb_newline s) = 0"
    "text_y (fb_newline s) < text_rows s" "screen_of (fb_newline s) = term_newline (unat (text_cols s)) (screen_of s)"
proof -
  have r0: "text_rows s \<noteq> 0" using assms(2) by (auto simp: word_less_nat_alt)
  have y: "unat (text_y s + 1) = unat (text_y s) + 1" by (rule unat_inc32 [OF assms(2)])
  have dec: "unat (text_rows s - 1) = unat (text_rows s) - 1" using r0 by (intro unat_dec32) (simp add: word_gt_0)
  have len: "length (take (unat (text_rows s)) (text_cells s)) = unat (text_rows s)" using assms(1) by (simp add: cells_ok_def)
  note nc = newline_cells [OF assms(1) r0]
  have "cells_ok (fb_newline s) \<and> same_frame s (fb_newline s) \<and> text_x (fb_newline s) = 0 \<and>
    text_y (fb_newline s) < text_rows s \<and> screen_of (fb_newline s) = term_newline (unat (text_cols s)) (screen_of s)"
  proof (cases "text_y s + 1 < text_rows s")
    case True
    then have "fb_newline s = s\<lparr>text_x := 0, text_y := text_y s + 1\<rparr>" by (simp add: fb_newline_def Let_def)
    moreover have "unat (text_y s) + 1 < unat (text_rows s)" using True y by (simp add: word_less_nat_alt)
    ultimately show ?thesis
      using assms(1) True y len by (simp add: cells_ok_def same_frame_def screen_of_def term_newline_def)
  next
    case False
    define cells where "cells = fold (\<lambda>col. set_cell (unat (text_rows s) - 1) col CHR '' '') [0..<unat (text_cols s)]
      (fold (\<lambda>row. fold (\<lambda>col cells. set_cell (row - 1) col (cells ! row ! col) cells) [0..<unat (text_cols s)])
         [1..<unat (text_rows s)] (text_cells s))"
    have nl: "fb_newline s = text_mark_all_dirty (s\<lparr>text_x := 0, text_cells := cells, text_y := text_rows s - 1\<rparr>)"
      using False r0 by (simp add: fb_newline_def Let_def not_less dec cells_def)
    have last: "unat (text_y s) + 1 = unat (text_rows s)"
      using False assms(2) y by (simp add: word_less_nat_alt)
    have "text_rows s - 1 < text_rows s" using dec r0 by (simp add: word_less_nat_alt unat_gt_0)
    then show ?thesis
      unfolding nl using assms(1) nc [folded cells_def] last len dec
      by (simp add: cells_ok_def same_frame_def screen_of_def term_newline_def text_mark_all_dirty_def
          del: mark_all_dirty)
  qed
  then show "cells_ok (fb_newline s)" "same_frame s (fb_newline s)" "text_x (fb_newline s) = 0"
    "text_y (fb_newline s) < text_rows s" "screen_of (fb_newline s) = term_newline (unat (text_cols s)) (screen_of s)"
    by simp_all
qed

lemma same_frame_refl [simp]: "same_frame s s"
  by (simp add: same_frame_def)

lemma same_frame_cells [simp]: "same_frame s (s\<lparr>text_cells := cs\<rparr>)"
  by (simp add: same_frame_def)

lemma same_frame_trans: "same_frame s t \<Longrightarrow> same_frame t u \<Longrightarrow> same_frame s u"
  by (simp add: same_frame_def)

lemma set_cell_ok [simp]: "cells_ok s \<Longrightarrow> cells_ok (s\<lparr>text_cells := set_cell r c v (text_cells s)\<rparr>)"
  by (cases "r < 256") (auto simp: cells_ok_def set_cell_def list_all_length nth_list_update)

lemma set_cell_screen:
  assumes "cells_ok s" "r < text_rows s" "c < text_cols s"
  shows "screen_of (s\<lparr>text_cells := set_cell (unat r) (unat c) v (text_cells s)\<rparr>) =
    (case screen_of s of (ls, x, y) \<Rightarrow> (ls[unat r := (ls ! unat r)[unat c := v]], x, y))"
proof -
  have "unat r < unat (text_rows s)" "unat c < unat (text_cols s)" "unat r < length (text_cells s)"
    using assms by (auto simp: cells_ok_def word_less_nat_alt)
  then show ?thesis
    by (simp add: screen_of_def set_cell_def take_update_swap map_update)
qed

lemma fb_putc_screen:
  assumes "console_ok s" "text_cols s \<noteq> 0" "text_rows s \<noteq> 0"
  shows "console_ok (fb_putc c s)" "same_frame s (fb_putc c s)"
    "screen_of (fb_putc c s) = term_putc (unat (text_cols s)) c (screen_of s)"
proof -
  let ?P = "\<lambda>t. console_ok t \<and> same_frame s t \<and> screen_of t = term_putc (unat (text_cols s)) c (screen_of s)"
  have ok: "cells_ok s" "text_x s < text_cols s" "text_y s < text_rows s" using assms by (simp_all add: console_ok_cells)
  have nl: "console_ok (fb_newline t) \<and> same_frame s (fb_newline t)"
    if "cells_ok t" "text_y t < text_rows t" "same_frame s t" for t
    using fb_newline_screen [OF that(1,2)] that(3) assms(2)
    by (auto simp: console_ok_cells same_frame_def word_gt_0)
  have "?P (fb_putc c s)"
  proof -
    consider "c = CHR 0x0A" | "c = CHR 0x08" | "c \<noteq> CHR 0x0A" "c \<noteq> CHR 0x08" by blast
    then show ?thesis
    proof cases
      case 1
      then show ?thesis
        using nl [OF ok(1,3)] fb_newline_screen(5) [OF ok(1,3)] assms(2,3)
        by (simp add: fb_putc_def term_putc_def screen_of_def)
    next
      case 2
      define t where "t = (if text_x s > 0 then s\<lparr>text_x := text_x s - 1\<rparr>
               else if text_y s > 0 then
                 s\<lparr>text_y := text_y s - 1, text_x := (if text_cols s > 0 then text_cols s - 1 else 0)\<rparr>
               else s)"
      have t: "cells_ok t" "text_x t < text_cols t" "text_y t < text_rows t" "same_frame s t" "text_cols t = text_cols s"
        "text_rows t = text_rows s"
        using ok assms(2) by (auto simp: t_def cells_ok_def same_frame_def word_less_nat_alt unat_dec32 word_gt_0)
      have st: "screen_of t = (case screen_of s of (ls, x, y) \<Rightarrow>
          (ls, if x > 0 then (x - 1, y) else if y > 0 then (unat (text_cols s) - 1, y - 1) else (x, y)))"
        using assms(2) by (auto simp: t_def screen_of_def word_less_nat_alt unat_dec32)
      have "fb_putc c s = text_mark_row_dirty (text_y t) (t\<lparr>text_cells := set_cell (unat (text_y t)) (unat (text_x t)) CHR '' '' (text_cells t)\<rparr>)"
        using 2 assms(2,3) t(2,3) by (simp add: fb_putc_def fb_backspace_def Let_def flip: t_def)
      moreover have "same_frame s (t\<lparr>text_cells := cs\<rparr>)" for cs using t(4) by (simp add: same_frame_def)
      moreover have "unat (text_x t) = fst (snd (screen_of t))" "unat (text_y t) = snd (snd (screen_of t))"
        by (simp_all add: screen_of_def)
      ultimately show ?thesis
        using t(1-3) set_cell_screen [OF t(1,3,2), of "CHR '' ''"] st 2
        by (cases "screen_of s") (auto simp: console_ok_cells term_putc_def)
    next
      case 3
      define t where "t = text_mark_row_dirty (text_y s) (s\<lparr>text_cells := set_cell (unat (text_y s)) (unat (text_x s)) c (text_cells s)\<rparr>)"
      define u where "u = t\<lparr>text_x := text_x t + 1\<rparr>"
      have t: "cells_ok t" "same_frame s t" "text_x t = text_x s" "text_y t = text_y s" "text_cols t = text_cols s"
        using ok(1) by (simp_all add: t_def)
      have tr: "text_rows t = text_rows s" by (simp add: t_def)
      have st: "screen_of t = (case screen_of s of (ls, x, y) \<Rightarrow> (ls[y := (ls ! y)[x := c]], x, y))"
        using set_cell_screen [OF ok(1,3,2), of c] unfolding t_def mark_row_dirty by (simp add: screen_of_def)
      have u: "cells_ok u" "same_frame s u" "text_x u = text_x s + 1" "text_y u = text_y s" "text_cols u = text_cols s"
        "text_rows u = text_rows s" "unat (text_x u) = unat (text_x s) + 1"
        using t tr unat_inc32 [OF ok(2)] by (simp_all add: u_def cells_ok_def same_frame_def)
      have su: "screen_of u = (case screen_of s of (ls, x, y) \<Rightarrow> (ls[y := (ls ! y)[x := c]], x + 1, y))"
        using st u(7) t(3) by (simp add: u_def screen_of_def)
      have f: "fb_putc c s = (if text_x u \<ge> text_cols u then fb_newline u else u)"
        using 3 assms(2,3) ok(2) by (simp add: fb_putc_def Let_def t_def u_def not_le [symmetric] del: not_le)
      show ?thesis
        using nl [OF u(1) _ u(2)] fb_newline_screen(5) [OF u(1)] u su ok 3
        by (auto simp: f console_ok_cells term_putc_def screen_of_def word_less_nat_alt word_le_nat_alt)
    qed
  qed
  then show "console_ok (fb_putc c s)" "same_frame s (fb_putc c s)"
    "screen_of (fb_putc c s) = term_putc (unat (text_cols s)) c (screen_of s)" by simp_all
qed

text \<open>Clearing the text.\<close>

definition blank_screen :: "nat \<Rightarrow> nat \<Rightarrow> screen" where
  "blank_screen w h = (replicate h (replicate w CHR '' ''), 0, 0)"

lemma clear_rows:
  assumes "cells_ok s" "n \<le> unat (text_rows s)"
  shows "let t = fold (\<lambda>row. text_clear_row (of_nat row)) [0..<n] s in
    cells_ok t \<and> same_frame s t \<and> (\<forall>i < 256. text_cells t ! i =
      (if i < n then replicate (unat (text_cols s)) CHR '' '' @ drop (unat (text_cols s)) (text_cells s ! i) else text_cells s ! i))"
  using assms(2)
proof (induction n)
  case (Suc n)
  define t where "t = fold (\<lambda>row. text_clear_row (of_nat row)) [0..<n] s"
  have t: "cells_ok t" "same_frame s t" "text_cols t = text_cols s" "text_rows t = text_rows s"
    using Suc by (simp_all add: t_def Let_def same_frame_def)
  have c: "text_cells t ! i = (if i < n then replicate (unat (text_cols s)) CHR '' '' @ drop (unat (text_cols s)) (text_cells s ! i) else text_cells s ! i)"
      if "i < 256" for i
    using Suc that by (simp_all add: t_def Let_def same_frame_def)
  have n: "n < 256" "n < 4294967296" "n < unat (text_rows s)" "unat (of_nat n :: u32) = n"
    using Suc.prems assms(1) by (simp_all add: cells_ok_def unat_of_nat take_bit_nat_eq_self)
  have len: "length (text_cells t) = 256" "length (text_cells t ! n) = 512" "unat (text_cols s) \<le> 512"
    using t(1) n(1) assms(1) by (simp_all add: cells_ok_def list_all_length)
  let ?u = "t\<lparr>text_cells := (text_cells t)[n := replicate (unat (text_cols s)) CHR '' '' @ drop (unat (text_cols s)) (text_cells t ! n)]\<rparr>"
  have "text_clear_row (of_nat n) t = text_mark_row_dirty (of_nat n) ?u"
    using n len blank_row [of n "text_cells t" "unat (text_cols s)" "CHR '' ''"]
    by (simp add: text_clear_row_def t(3,4) word_le_nat_alt)
  moreover have "cells_ok ?u" using t(1) len n(1) by (auto simp: cells_ok_def list_all_length nth_list_update)
  moreover have "same_frame s ?u" using t(2) by (simp add: same_frame_def)
  moreover have "text_cells (text_mark_row_dirty r u) = text_cells u" for r u by (simp add: text_mark_row_dirty_def)
  ultimately show ?case using c len n(1) by (auto simp: Let_def nth_list_update simp flip: t_def)
qed (simp add: assms(1))

lemma text_clear_screen:
  assumes "cells_ok s"
  shows "cells_ok (text_clear s)" "same_frame s (text_clear s)"
    "screen_of (text_clear s) = blank_screen (unat (text_cols s)) (unat (text_rows s))"
proof -
  define t where "t = fold (\<lambda>row. text_clear_row (of_nat row)) [0..<unat (text_rows s)] s"
  have t: "cells_ok t" "same_frame s t" "text_cols t = text_cols s" "text_rows t = text_rows s"
    and c: "i < unat (text_rows s) \<Longrightarrow> text_cells t ! i = replicate (unat (text_cols s)) CHR '' '' @ drop (unat (text_cols s)) (text_cells s ! i)" for i
    using clear_rows [OF assms order_refl] assms by (auto simp: t_def Let_def same_frame_def cells_ok_def)
  have e: "text_clear s = text_mark_all_dirty (t\<lparr>text_x := 0, text_y := 0\<rparr>)" by (simp add: text_clear_def Let_def t_def)
  show "cells_ok (text_clear s)" "same_frame s (text_clear s)"
    using t by (simp_all add: e cells_ok_def [of "t\<lparr>text_x := 0, text_y := 0\<rparr>"] cells_ok_def [of t] same_frame_def [of s "t\<lparr>text_x := 0, text_y := 0\<rparr>"] same_frame_def [of s t])
  have "map (take (unat (text_cols s))) (take (unat (text_rows s)) (text_cells t)) =
      replicate (unat (text_rows s)) (replicate (unat (text_cols s)) CHR '' '')"
    using c t(1,4) by (intro nth_equalityI) (auto simp: cells_ok_def)
  then show "screen_of (text_clear s) = blank_screen (unat (text_cols s)) (unat (text_rows s))"
    by (simp add: e blank_screen_def) (simp add: screen_of_def t)
qed

text \<open>The whole console: the serial line gets every character, with a carriage return before each line feed; the
  screen follows an abstract terminal, whose state is whether output is enabled and the screen. A form feed enables
  the output and clears the screen.\<close>

definition serial_text :: "string \<Rightarrow> string" where
  "serial_text str = concat (map (\<lambda>c. if c = CHR 0x0A \<or> c = CHR 0x0C then [CHR 0x0D, CHR 0x0A] else [c]) str)"

definition term_step :: "bool \<Rightarrow> nat \<Rightarrow> nat \<Rightarrow> char \<Rightarrow> bool \<times> screen \<Rightarrow> bool \<times> screen" where
  "term_step suppressed w h c t =
     (if c = CHR 0x0C then (True, blank_screen w h)
      else if suppressed \<or> \<not> fst t then t
      else (fst t, term_putc w c (snd t)))"

definition term_state :: "console_state \<Rightarrow> bool \<times> screen" where
  "term_state s = (fb_output_enabled s, screen_of s)"

text \<open>The frame that every operation of the output path keeps, and that cursor and drawing do not touch.\<close>

definition same_size :: "console_state \<Rightarrow> console_state \<Rightarrow> bool" where
  "same_size s t \<longleftrightarrow> text_cols t = text_cols s \<and> text_rows t = text_rows s \<and>
     screen_output_suppressed t = screen_output_suppressed s"

lemma same_text_term: "same_text s t \<Longrightarrow> term_state t = term_state s \<and> same_size s t \<and> serial_out t = serial_out s"
  by (simp add: same_text_def term_state_def same_size_def screen_of_def)

lemma set_enabled_term:
  assumes "console_ok s"
  shows "console_ok (console_set_framebuffer_enabled e s)"
    "term_state (console_set_framebuffer_enabled e s) = (e, screen_of s)"
    "same_size s (console_set_framebuffer_enabled e s)" "serial_out (console_set_framebuffer_enabled e s) = serial_out s"
proof -
  let ?t = "console_set_framebuffer_enabled e s"
  have st: "same_text (s\<lparr>fb_output_enabled := e\<rparr>) ?t"
    by (cases e) (simp_all add: console_set_framebuffer_enabled_def)
  show "console_ok ?t" using assms console_ok_same [OF st] by (simp add: console_ok_def)
  show "term_state ?t = (e, screen_of s)" "same_size s ?t" "serial_out ?t = serial_out s"
    using st by (auto simp: same_text_def term_state_def same_size_def screen_of_def)
qed

lemma clear_framebuffer_term:
  assumes "console_ok s"
  shows "console_ok (console_clear_framebuffer s)"
    "term_state (console_clear_framebuffer s) = (fb_output_enabled s, blank_screen (unat (text_cols s)) (unat (text_rows s)))"
    "same_size s (console_clear_framebuffer s)" "serial_out (console_clear_framebuffer s) = serial_out s"
proof -
  let ?h = "fb_hide_cursor s" and ?t = "console_clear_framebuffer s"
  have h: "same_text s ?h" by simp
  then have "cells_ok ?h" using assms console_ok_same [OF h] by (simp add: console_ok_cells)
  note c = text_clear_screen [OF this]
  have st: "same_text (text_clear ?h) ?t"
  proof -
    have "same_text (text_clear ?h) (fb_clear (text_clear ?h))" by (simp add: same_text_draws)
    then have "same_text (text_clear ?h) ((fb_clear (text_clear ?h))\<lparr>fb_cursor_visible := False\<rparr>)" by (simp add: same_text_def)
    then show ?thesis unfolding console_clear_framebuffer_def by (rule same_text_trans) simp
  qed
  have xy: "text_x (text_clear ?h) = 0" "text_y (text_clear ?h) = 0" by (simp_all add: text_clear_def Let_def)
  have ok: "console_ok (text_clear ?h)" using c(1) xy by (simp add: console_ok_cells word_gt_0)
  then show "console_ok ?t" using console_ok_same [OF st] by simp
  show "term_state ?t = (fb_output_enabled s, blank_screen (unat (text_cols s)) (unat (text_rows s)))"
    "same_size s ?t" "serial_out ?t = serial_out s"
    using same_text_term [OF st] same_text_term [OF h] c(2,3)
    by (simp_all add: term_state_def same_size_def same_frame_def)
qed

lemma write_chars_term:
  assumes "console_ok s" "text_cols s \<noteq> 0" "text_rows s \<noteq> 0"
  shows "let t = snd (console_write_chars str old s) in
    console_ok t \<and> same_size s t \<and> serial_out t = serial_out s @ serial_text str \<and>
    term_state t = fold (term_step (screen_output_suppressed s) (unat (text_cols s)) (unat (text_rows s))) str (term_state s)"
  using assms
proof (induction str arbitrary: old s)
  case Nil
  then show ?case by (simp add: same_size_def serial_text_def)
next
  case (Cons c str)
  let ?step = "term_step (screen_output_suppressed s) (unat (text_cols s)) (unat (text_rows s))"
  have "\<exists>old' s'. console_write_chars (c # str) old s = console_write_chars str old' s' \<and> console_ok s' \<and> same_size s s' \<and>
      serial_out s' = serial_out s @ serial_text [c] \<and> term_state s' = ?step c (term_state s)"
  proof (cases "c = CHR 0x0C")
    case True
    let ?s = "serial_write [CHR 0x0A] s"
    have ok: "console_ok ?s" using Cons.prems(1) by (simp add: serial_putc_def console_ok_def)
    note e = set_enabled_term [OF ok, of True]
    note d = clear_framebuffer_term [OF e(1)]
    show ?thesis
      using True d e by (intro exI [of _ True] exI) (auto simp: same_size_def serial_text_def term_step_def term_state_def serial_putc_def)
  next
    case False
    let ?s = "serial_putc c (if c = CHR 0x0A then serial_putc (CHR 0x0D) s else s)"
    have ok: "console_ok ?s" "text_cols ?s \<noteq> 0" "text_rows ?s \<noteq> 0"
      using Cons.prems by (simp_all add: serial_putc_def console_ok_def)
    have u: "same_size s ?s" "serial_out ?s = serial_out s @ serial_text [c]" "term_state ?s = term_state s"
      using False by (simp_all add: serial_putc_def same_size_def serial_text_def term_state_def screen_of_def)
    note p = fb_putc_screen [OF ok, of c]
    show ?thesis
    proof (cases "screen_output_suppressed s \<or> \<not> fb_output_enabled s")
      case True
      then show ?thesis
        using False ok(1) u by (intro exI [of _ old] exI [of _ ?s]) (auto simp: term_step_def term_state_def same_size_def Let_def)
    next
      case f: False
      then show ?thesis
        using False ok(1) u p
        by (intro exI [of _ old] exI [of _ "fb_putc c ?s"]) (auto simp: term_step_def term_state_def same_size_def same_frame_def Let_def)
    qed
  qed
  then obtain old' s' where s': "console_write_chars (c # str) old s = console_write_chars str old' s'" "console_ok s'" "same_size s s'"
    "serial_out s' = serial_out s @ serial_text [c]" "term_state s' = ?step c (term_state s)" by blast
  have "text_cols s' \<noteq> 0" "text_rows s' \<noteq> 0" using s'(3) Cons.prems by (simp_all add: same_size_def)
  from Cons.IH [OF s'(2) this, of old'] show ?case
    using s' by (simp add: Let_def same_size_def serial_text_def)
qed

lemma write_n_term:
  assumes "console_ok s" "text_cols s \<noteq> 0" "text_rows s \<noteq> 0"
  shows "let t = console_write_n str s in
    console_ok t \<and> same_size s t \<and> serial_out t = serial_out s @ serial_text str \<and>
    term_state t = fold (term_step (screen_output_suppressed s) (unat (text_cols s)) (unat (text_rows s))) str (term_state s)"
proof -
  define a where "a = (if \<not> screen_output_suppressed s then fb_hide_cursor s else s)"
  define b where "b = snd (console_write_chars str (fb_cursor_visible s) a)"
  define old where "old = fst (console_write_chars str (fb_cursor_visible s) a)"
  define d where "d = (if \<not> screen_output_suppressed b then fb_flush_dirty_rows b else b)"
  have a: "same_text s a" by (simp add: a_def)
  have d: "same_text b d" by (simp add: d_def)
  have "console_write_n str s = (if \<not> screen_output_suppressed d \<and> (old \<or> fb_output_enabled d) then fb_show_cursor d else d)"
    unfolding console_write_n_def Let_def case_prod_unfold d_def b_def a_def old_def by (rule refl)
  then have "same_text b (console_write_n str s)"
    using d same_text_trans [OF d same_text_cursor(1)] by simp
  moreover have "console_ok a" "text_cols a \<noteq> 0" "text_rows a \<noteq> 0"
    using assms console_ok_same [OF a] a by (simp_all add: same_text_def)
  from write_chars_term [OF this, of str "fb_cursor_visible s"] same_text_term [OF a]
  have "console_ok b \<and> same_size s b \<and> serial_out b = serial_out s @ serial_text str \<and>
    term_state b = fold (term_step (screen_output_suppressed s) (unat (text_cols s)) (unat (text_rows s))) str (term_state s)"
    by (simp add: Let_def b_def same_size_def)
  ultimately show ?thesis
    using same_text_term [of b "console_write_n str s"] console_ok_same [of b "console_write_n str s"] by (simp add: Let_def same_size_def)
qed

section \<open>The serial line\<close>

lemma serial_mark [simp]: "serial_out (text_mark_row_dirty r s) = serial_out s" "serial_out (text_mark_all_dirty s) = serial_out s"
  by (simp_all add: text_mark_row_dirty_def text_mark_all_dirty_def)

lemma serial_newline [simp]: "serial_out (fb_newline s) = serial_out s"
  by (simp add: fb_newline_def Let_def)

lemma serial_fb_putc [simp]: "serial_out (fb_putc c s) = serial_out s"
  by (simp add: fb_putc_def fb_backspace_def Let_def)

lemma serial_text_clear [simp]: "serial_out (text_clear s) = serial_out s"
proof -
  have "serial_out (fold (\<lambda>row. text_clear_row (of_nat row)) rows t) = serial_out t" for rows t
    by (induction rows arbitrary: t) (simp_all add: text_clear_row_def)
  then show ?thesis by (simp add: text_clear_def Let_def)
qed

lemma same_text_serial: "same_text s t \<Longrightarrow> serial_out t = serial_out s"
  by (simp add: same_text_def)

lemma serial_clear_framebuffer [simp]: "serial_out (console_clear_framebuffer s) = serial_out s"
  by (simp add: console_clear_framebuffer_def same_text_serial [OF same_text_cursor(1)] same_text_serial [OF same_text_cursor(2)]
      same_text_serial [OF same_text_draws [OF draws_clear]])

lemma serial_set_enabled [simp]: "serial_out (console_set_framebuffer_enabled e s) = serial_out s"
  by (simp add: console_set_framebuffer_enabled_def Let_def same_text_serial [OF same_text_cursor(1)]
      same_text_serial [OF same_text_cursor(2)])

lemma serial_write_chars: "serial_out (snd (console_write_chars str old s)) = serial_out s @ serial_text str"
  by (induction str arbitrary: old s) (simp_all add: serial_text_def serial_putc_def Let_def)

lemma serial_write_n [simp]: "serial_out (console_write_n str s) = serial_out s @ serial_text str"
  using serial_write_chars [of str "fb_cursor_visible s"]
  by (simp add: console_write_n_def Let_def case_prod_unfold same_text_serial [OF same_text_cursor(1)]
      same_text_serial [OF same_text_cursor(2)] same_text_serial [OF same_text_flush])

lemma serial_console_write: "nul_free str \<Longrightarrow> serial_out (console_write (Some str) s) = serial_out s @ serial_text str"
  by (simp add: console_write_def nul_free_def string_length_eq)

section \<open>Numbers\<close>

text \<open>The value of the digits printed, and the text of digits on the serial line.\<close>

definition digit_value :: "char \<Rightarrow> nat" where
  "digit_value c = (if of_char c < (58 :: nat) then of_char c - 48 else of_char c - 87)"

definition digits_value :: "nat \<Rightarrow> string \<Rightarrow> nat" where
  "digits_value b ds = foldl (\<lambda>n c. n * b + digit_value c) 0 ds"

definition is_digits :: "nat \<Rightarrow> string \<Rightarrow> bool" where
  "is_digits b ds \<longleftrightarrow> ds \<noteq> [] \<and> list_all (\<lambda>c. c \<in> set (take b ''0123456789abcdef'')) ds"

lemma hex_chars: "n < 16 \<Longrightarrow> digit_value (''0123456789abcdef'' ! n) = n \<and>
    ''0123456789abcdef'' ! n = char_of (if n < 10 then n + 48 else n + 87)"
proof -
  have "\<forall>n \<in> {..<16 :: nat}. digit_value (''0123456789abcdef'' ! n) = n \<and>
      ''0123456789abcdef'' ! n = char_of (if n < 10 then n + 48 else n + 87)" by code_simp
  then show "n < 16 \<Longrightarrow> digit_value (''0123456789abcdef'' ! n) = n \<and>
    ''0123456789abcdef'' ! n = char_of (if n < 10 then n + 48 else n + 87)" by blast
qed

lemma digit_char: "n < 10 \<Longrightarrow> char_of (48 + n) = ''0123456789abcdef'' ! n"
  using hex_chars [of n] by (simp add: add.commute)

lemma digit_value_char: "n < 10 \<Longrightarrow> digit_value (char_of (48 + n)) = n"
  by (simp add: digit_char hex_chars [THEN conjunct1])

lemma digit_in: "n < b \<Longrightarrow> b \<le> 16 \<Longrightarrow> ''0123456789abcdef'' ! n \<in> set (take b ''0123456789abcdef'')"
  using nth_mem [of n "take b ''0123456789abcdef''"] by simp

lemma digits_ok: "is_digits b ds \<Longrightarrow> nul_free ds \<and> serial_text ds = ds"
proof -
  have "\<forall>c \<in> set ''0123456789abcdef''. c \<noteq> NUL \<and> c \<noteq> CHR 0x0A \<and> c \<noteq> CHR 0x0C" by code_simp
  note hex = bspec [OF this in_set_takeD]
  assume "is_digits b ds"
  then have "c \<in> set (take b ''0123456789abcdef'')" if "c \<in> set ds" for c
    using that unfolding is_digits_def list_all_iff by blast
  then have "\<forall>c \<in> set ds. c \<noteq> NUL \<and> c \<noteq> CHR 0x0A \<and> c \<noteq> CHR 0x0C" by (intro ballI hex)
  then have "nul_free ds" "serial_text ds = ds" by (induction ds) (auto simp: nul_free_def serial_text_def)
  then show ?thesis ..
qed

lemma u64_digits_value:
  "unat v < 10 ^ i \<Longrightarrow> foldl (\<lambda>n c. n * 10 + digit_value c) 0 (u64_digits i v buf) = foldl (\<lambda>n c. n * 10 + digit_value c) (unat v) buf"
proof (induction i arbitrary: v buf)
  case (Suc i)
  show ?case
  proof (cases "v > 0")
    case True
    have "unat (v div 10) < 10 ^ i" using Suc.prems by (simp add: unat_div)
    then show ?thesis using Suc.IH True digit_value_char [of "unat v mod 10"] by (simp add: unat_div unat_mod)
  qed (simp add: word_gt_0)
qed (simp add: unat_eq_0)

lemma u64_digits_chars:
  "list_all (\<lambda>c. c \<in> set (take 10 ''0123456789abcdef'')) buf \<Longrightarrow> buf \<noteq> [] \<or> v > 0 \<and> 0 < i \<Longrightarrow> is_digits 10 (u64_digits i v buf)"
proof (induction i arbitrary: v buf)
  case (Suc i)
  have "char_of (48 + unat (v mod 10)) \<in> set (take 10 ''0123456789abcdef'')"
    using digit_in [of "unat (v mod 10)" 10] by (simp add: unat_mod digit_char del: take_Suc_Cons take_Cons_numeral)
  then show ?case using Suc by (auto simp: is_digits_def simp del: take_Suc_Cons take_Cons_numeral)
qed (simp add: is_digits_def)

lemma write_u64_digits:
  "\<exists>ds. serial_out (console_write_u64 v s) = serial_out s @ ds \<and> is_digits 10 ds \<and> digits_value 10 ds = unat v"
proof (cases "v = 0")
  case True
  then show ?thesis
    by (intro exI [of _ "''0''"]) (simp add: console_write_u64_def serial_console_write nul_free_def serial_text_def is_digits_def
        digits_value_def digit_value_def)
next
  case False
  let ?ds = "u64_digits 20 v []"
  have "is_digits 10 ?ds" using False by (intro u64_digits_chars) (simp_all add: word_gt_0)
  moreover have "unat v < 10 ^ 20" by (rule less_trans [OF unsigned_less]) simp
  from u64_digits_value [OF this, of "[]"] have "digits_value 10 ?ds = unat v" by (simp add: digits_value_def)
  moreover from False have "serial_out (console_write_u64 v s) = serial_out s @ ?ds"
    using digits_ok [OF calculation(1)] by (simp add: console_write_u64_def serial_console_write)
  ultimately show ?thesis by blast
qed

text \<open>Signed numbers: the sign and the digits of the absolute value, the least one included.\<close>

lemma abs_i64: "int (unat (if sint v < 0 then - v else v)) = \<bar>sint (v :: 64 word)\<bar>"
proof -
  have b: "- (2 ^ 63) \<le> sint v" "sint v < 2 ^ 63" using sint_greater_eq [of v] sint_less [of v] by simp_all
  have "uint v = sint v mod 2 ^ 64" by (simp add: uint_sint take_bit_eq_mod)
  moreover from this have "uint (- v) = (- sint v) mod 2 ^ 64" by (simp add: uint_word_ariths(4) mod_minus_eq)
  ultimately show ?thesis using b by (simp add: mod_pos_pos_trivial)
qed

lemma write_i64_digits:
  "\<exists>ds. serial_out (console_write_i64 v s) = serial_out s @ (if sint v < 0 then ''-'' else []) @ ds \<and>
     is_digits 10 ds \<and> int (digits_value 10 ds) = \<bar>sint v\<bar>"
proof (cases "sint v < 0")
  case True
  from write_u64_digits [of "- v" "console_write (Some ''-'') s"]
  obtain ds where "serial_out (console_write_u64 (- v) (console_write (Some ''-'') s)) = serial_out s @ ''-'' @ ds"
    "is_digits 10 ds" "digits_value 10 ds = unat (- v)"
    by (auto simp: serial_console_write nul_free_def serial_text_def)
  then show ?thesis using True abs_i64 [of v] by (intro exI [of _ ds]) (simp add: console_write_i64_def word_sless_alt)
next
  case False
  then show ?thesis using write_u64_digits [of v s] abs_i64 [of v] by (auto simp: console_write_i64_def word_sless_alt)
qed

text \<open>Hexadecimal: all sixteen digits, or without leading zeros.\<close>

lemma hex_digit_eq: "hex_digit v = ''0123456789abcdef'' ! (unat v mod 16)"
proof -
  have "(15 :: u64) = mask 4" by (simp add: mask_eq_exp_minus_1)
  then have "unat (v AND 15) = unat v mod 16"
    by (simp only: take_bit_eq_mask [symmetric] unsigned_take_bit_eq) (simp add: take_bit_eq_mod)
  then show ?thesis by (simp add: hex_digit_def)
qed

lemma unat_drop4: "unat (drop_bit 4 (v :: u64)) = unat v div 16"
  unfolding unat_drop_bit_eq by (simp add: drop_bit_eq_div)

lemma hex_digits_value:
  "unat v < 16 ^ i \<Longrightarrow> foldl (\<lambda>n c. n * 16 + digit_value c) 0 (hex_digits i v buf) = foldl (\<lambda>n c. n * 16 + digit_value c) (unat v) buf"
proof (induction i arbitrary: v buf)
  case (Suc i)
  show ?case
  proof (cases "v > 0")
    case True
    have "unat (drop_bit 4 v) < 16 ^ i" using Suc.prems by (simp add: unat_drop4)
    then show ?thesis
      using Suc.IH [of "drop_bit 4 v" "hex_digit v # buf"] True
      by (simp add: unat_drop4 hex_digit_eq hex_chars [THEN conjunct1])
  qed (simp add: word_gt_0)
qed (simp add: unat_eq_0)

lemma hex_digits_chars:
  "list_all (\<lambda>c. c \<in> set (take 16 ''0123456789abcdef'')) buf \<Longrightarrow> buf \<noteq> [] \<or> v > 0 \<and> 0 < i \<Longrightarrow> is_digits 16 (hex_digits i v buf)"
proof (induction i arbitrary: v buf)
  case (Suc i)
  have "hex_digit v \<in> set (take 16 ''0123456789abcdef'')"
    using digit_in [of "unat v mod 16" 16] by (simp add: hex_digit_eq del: take_Suc_Cons take_Cons_numeral)
  then show ?case using Suc by (auto simp: is_digits_def simp del: take_Suc_Cons take_Cons_numeral)
qed (simp add: is_digits_def)

lemma write_hex_compact_digits:
  "\<exists>ds. serial_out (console_write_hex_compact v s) = serial_out s @ ''0x'' @ ds \<and> is_digits 16 ds \<and> digits_value 16 ds = unat v"
proof (cases "v = 0")
  case True
  then show ?thesis
    by (intro exI [of _ "''0''"]) (simp add: console_write_hex_compact_def serial_console_write nul_free_def serial_text_def is_digits_def
        digits_value_def digit_value_def)
next
  case False
  let ?ds = "hex_digits 16 v []"
  have ds: "is_digits 16 ?ds" using False by (intro hex_digits_chars) (simp_all add: word_gt_0)
  have "unat v < 16 ^ 16" by (rule unsigned_less [THEN order_less_le_trans]) simp
  from hex_digits_value [OF this, of "[]"] have "digits_value 16 ?ds = unat v" by (simp add: digits_value_def)
  moreover have "serial_out (console_write_hex_compact v s) = serial_out s @ ''0x'' @ ?ds"
    using digits_ok [OF ds] False serial_console_write [of "''0x''" s]
    by (simp add: console_write_hex_compact_def serial_console_write nul_free_def serial_text_def)
  ultimately show ?thesis using ds by blast
qed

lemma nibbles_value:
  "n \<le> 16 \<Longrightarrow> foldl (\<lambda>n c. n * 16 + digit_value c) 0 (map (\<lambda>i. hex_digit (drop_bit ((15 - i) * 4) v)) [0..<n]) = unat v div 16 ^ (16 - n)"
proof (induction n)
  case 0
  have "unat v < 16 ^ 16" by (rule unsigned_less [THEN order_less_le_trans]) simp
  then show ?case by simp
next
  case (Suc n)
  have e: "16 - n = Suc (15 - n)" "16 - Suc n = 15 - n" using Suc.prems by simp_all
  have "unat (drop_bit ((15 - n) * 4) v) = unat v div 16 ^ (15 - n)"
    unfolding unat_drop_bit_eq by (simp add: drop_bit_eq_div mult.commute power_mult)
  then have "digit_value (hex_digit (drop_bit ((15 - n) * 4) v)) = unat v div 16 ^ (15 - n) mod 16"
    by (simp add: hex_digit_eq hex_chars [THEN conjunct1])
  moreover have "unat v div 16 ^ Suc (15 - n) = unat v div 16 ^ (15 - n) div 16"
    unfolding div_mult2_eq [symmetric] by (simp add: mult.commute)
  ultimately show ?case using Suc by (simp add: e del: power_Suc)
qed

lemma write_hex_digits:
  "\<exists>ds. serial_out (console_write_hex v s) = serial_out s @ ''0x'' @ ds \<and> length ds = 16 \<and> is_digits 16 ds \<and> digits_value 16 ds = unat v"
proof -
  let ?ds = "map (\<lambda>i. hex_digit (drop_bit ((15 - i) * 4) v)) [0..<16]"
  have "hex_digit w \<in> set (take 16 ''0123456789abcdef'')" for w
    using digit_in [of "unat w mod 16" 16] by (simp add: hex_digit_eq del: take_Suc_Cons take_Cons_numeral)
  then have ds: "is_digits 16 ?ds"
    by (simp add: is_digits_def list_all_iff del: upt_rec_numeral take_Suc_Cons take_Cons_numeral)
  moreover have "digits_value 16 ?ds = unat v" using nibbles_value [of 16 v] by (simp add: digits_value_def del: upt_rec_numeral)
  moreover have "serial_out (console_write_hex v s) = serial_out s @ ''0x'' @ ?ds"
    using digits_ok [OF ds] serial_console_write [of "''0x'' @ ?ds" s]
    by (simp add: console_write_hex_def nul_free_def serial_text_def del: upt_rec_numeral)
  ultimately show ?thesis by (intro exI [of _ ?ds]) (simp del: upt_rec_numeral)
qed

section \<open>Properties\<close>

text \<open>C32: Console output reaches both devices. \<^verbatim>\<open>console_write_n\<close> keeps the console's invariant (the cursor on the
  screen), appends the text to the serial line with a carriage return before every line feed, and changes the text
  screen exactly as a terminal of that size does: printable characters with wrap at the right margin, newline with
  scrolling at the bottom, backspace over line starts, form feed enabling and clearing the screen, and nothing while the
  screen is suppressed or disabled.\<close>

theorem console_write_n_terminal:
  assumes "console_ok s" "text_cols s \<noteq> 0" "text_rows s \<noteq> 0"
  shows "let t = console_write_n str s in
    console_ok t \<and> same_size s t \<and> serial_out t = serial_out s @ serial_text str \<and>
    term_state t = fold (term_step (screen_output_suppressed s) (unat (text_cols s)) (unat (text_rows s))) str (term_state s)"
  using assms by (rule write_n_term)

definition console_example :: console_state where
  "console_example = \<lparr>fb = None, text_x = 0, text_y = 0, text_cols = 3, text_rows = 2, fg_color = 0, bg_color = 0,
     fb_cursor_visible = False, fb_output_enabled = True, screen_output_suppressed = False, fb_dirty_all = False,
     text_cells = replicate 256 (replicate 512 CHR '' ''), text_dirty = replicate 256 False, fb_mem = (\<lambda>_. 0), serial_out = []\<rparr>"

theorem console_write_n_terminal_witness:
  "term_state (console_write_n (''ab'' @ [CHR 0x0A] @ ''cdefg'' @ [CHR 0x08]) console_example) = (True, [''cde'', ''f  ''], 1, 1) \<and>
   serial_out (console_write_n [CHR 0x0A] console_example) = [CHR 0x0D, CHR 0x0A]"
proof -
  have ok: "console_ok console_example" "text_cols console_example \<noteq> 0" "text_rows console_example \<noteq> 0"
    by (simp_all add: console_ok_def console_example_def list_all_iff)
  have ex: "unat (text_cols console_example) = 3" "unat (text_rows console_example) = 2"
    "\<not> screen_output_suppressed console_example" "serial_out console_example = []"
    by (simp_all add: console_example_def)
  have st: "term_state console_example = (True, [''   '', ''   ''], 0, 0)"
    by (simp add: term_state_def screen_of_def console_example_def) (simp add: numeral_2_eq_2 numeral_3_eq_3)
  have "fold (term_step False 3 2) (''ab'' @ [CHR 0x0A] @ ''cdefg'' @ [CHR 0x08]) (True, [''   '', ''   ''], 0, 0) =
      (True, [''cde'', ''f  ''], 1, 1)" by code_simp
  then show ?thesis
    using console_write_n_terminal [OF ok, of "''ab'' @ [CHR 0x0A] @ ''cdefg'' @ [CHR 0x08]"]
      console_write_n_terminal [OF ok, of "[CHR 0x0A]"] st
    by (simp add: Let_def serial_text_def ex)
qed

text \<open>C33: What the console prints for a number reads back as that number: decimal digits for \<^verbatim>\<open>%u\<close>, a sign and the digits of
  the absolute value for \<^verbatim>\<open>%d\<close> (\<^verbatim>\<open>INT64_MIN\<close> included), \<^verbatim>\<open>0x\<close> and the digits without leading zeros for \<^verbatim>\<open>%x\<close>, \<^verbatim>\<open>0x\<close> and
  sixteen digits for \<^verbatim>\<open>console_write_hex\<close>; the digit buffers of 20 and 16 characters are always long enough.\<close>

theorem console_numbers_roundtrip:
  "(\<exists>ds. serial_out (console_write_u64 v s) = serial_out s @ ds \<and> is_digits 10 ds \<and> digits_value 10 ds = unat v) \<and>
   (\<exists>ds. serial_out (console_write_i64 v s) = serial_out s @ (if sint v < 0 then ''-'' else []) @ ds \<and>
      is_digits 10 ds \<and> int (digits_value 10 ds) = \<bar>sint v\<bar>) \<and>
   (\<exists>ds. serial_out (console_write_hex_compact v s) = serial_out s @ ''0x'' @ ds \<and> is_digits 16 ds \<and> digits_value 16 ds = unat v) \<and>
   (\<exists>ds. serial_out (console_write_hex v s) = serial_out s @ ''0x'' @ ds \<and> length ds = 16 \<and> is_digits 16 ds \<and>
      digits_value 16 ds = unat v)"
  by (intro conjI write_u64_digits write_i64_digits write_hex_compact_digits write_hex_digits)

end
