(* ===== verification/Scheduler.thy ===== *)
theory Scheduler
  imports Kernel_Heap C_Strings
begin

text \<open>
  The scheduler, \<^verbatim>\<open>kernel/scheduler.c\<close> without its file descriptors: the task table, creation of kernel and
  user tasks, the choice of the next task, timer ticks, sleeping, waiting for input, exit, faults, release of the
  resources of a stopped task, and the program break. A saved interrupt frame is a typed cell of a store
  (\<open>frames\<close>) at the address the code computes inside the kernel stack; \<open>tss_rsp0\<close> is the kernel stack the
  processor switches to. Log output is not modelled.
\<close>

section \<open>Tasks\<close>

abbreviation MAX_TASKS :: nat where "MAX_TASKS \<equiv> 8"
abbreviation TASK_STACK_SIZE :: u64 where "TASK_STACK_SIZE \<equiv> 16384"
abbreviation TASK_QUANTUM_TICKS :: u64 where "TASK_QUANTUM_TICKS \<equiv> 25"
abbreviation KERNEL_CODE_SELECTOR :: u64 where "KERNEL_CODE_SELECTOR \<equiv> 0x08"
abbreviation KERNEL_DATA_SELECTOR :: u64 where "KERNEL_DATA_SELECTOR \<equiv> 0x10"
abbreviation USER_CODE_SELECTOR :: u64 where "USER_CODE_SELECTOR \<equiv> 0x1b"
abbreviation USER_DATA_SELECTOR :: u64 where "USER_DATA_SELECTOR \<equiv> 0x23"
abbreviation MAX_PENDING_STACK_FREE :: nat where "MAX_PENDING_STACK_FREE \<equiv> 8"
abbreviation TASK_MAX_FDS :: nat where "TASK_MAX_FDS \<equiv> 11"
abbreviation TASK_MAX_OPEN_FILES :: nat where "TASK_MAX_OPEN_FILES \<equiv> 8"
abbreviation TASK_NAME_MAX :: nat where "TASK_NAME_MAX \<equiv> 32"
abbreviation SIZEOF_INTERRUPT_FRAME :: u64 where "SIZEOF_INTERRUPT_FRAME \<equiv> 176"

record interrupt_frame =
  r15 :: u64
  r14 :: u64
  r13 :: u64
  r12 :: u64
  r11 :: u64
  r10 :: u64
  r9 :: u64
  r8 :: u64
  rbp :: u64
  rdi :: u64
  rsi :: u64
  rdx :: u64
  rcx :: u64
  rbx :: u64
  rax :: u64
  vector :: u64
  error_code :: u64
  rip :: u64
  cs :: u64
  rflags :: u64
  rsp :: u64
  ss :: u64

datatype task_file_type = TASK_FILE_NONE | TASK_FILE_VFS | TASK_FILE_TTY

datatype task_state = TASK_RUNNABLE | TASK_SLEEPING | TASK_WAITING_INPUT | TASK_STOPPED

record task_file =
  tf_in_use :: bool
  tf_open_file_index :: int

record task_open_file =
  of_in_use :: bool
  of_ref_count :: u64
  of_type :: task_file_type
  of_path :: string
  of_offset :: u64
  of_append :: bool

record task =
  t_pid :: u64
  t_name :: string
  t_stack :: u64
  t_stack_size :: u64
  t_kernel_stack_top :: u64
  t_cr3 :: u64
  t_frame :: u64
  t_state :: task_state
  t_brk_start :: u64
  t_brk_current :: u64
  t_brk_limit :: u64
  t_wake_tick :: u64
  t_exit_status :: u64
  t_switches :: u64
  t_resources_released :: bool
  t_files :: "task_file list"
  t_open_files :: "task_open_file list"

text \<open>A pointer to a task is \<^verbatim>\<open>&boot_task\<close> or the address of a slot of the table.\<close>

datatype task_ref = BootTask | TaskSlot nat

record sched_state = heap_state +
  tasks :: "task list"
  boot_task :: task
  current_task :: "task_ref option"
  task_count :: u64
  current_task_index :: u64
  quantum_ticks :: u64
  scheduler_tick_count :: u64
  next_pid :: u64
  scheduler_ready :: bool
  pending_stack_free :: "u64 list"
  frames :: "u64 \<Rightarrow> interrupt_frame"
  tss_rsp0 :: u64

text \<open>The zero bytes of \<^verbatim>\<open>memset_local\<close> read as a task and as a frame.\<close>

definition zero_task_file :: task_file where
  "zero_task_file = \<lparr>tf_in_use = False, tf_open_file_index = 0\<rparr>"

definition zero_open_file :: task_open_file where
  "zero_open_file = \<lparr>of_in_use = False, of_ref_count = 0, of_type = TASK_FILE_NONE, of_path = [], of_offset = 0, of_append = False\<rparr>"

definition zero_task :: task where
  "zero_task = \<lparr>t_pid = 0, t_name = [], t_stack = 0, t_stack_size = 0, t_kernel_stack_top = 0, t_cr3 = 0, t_frame = 0,
     t_state = TASK_RUNNABLE, t_brk_start = 0, t_brk_current = 0, t_brk_limit = 0, t_wake_tick = 0, t_exit_status = 0,
     t_switches = 0, t_resources_released = False, t_files = replicate TASK_MAX_FDS zero_task_file,
     t_open_files = replicate TASK_MAX_OPEN_FILES zero_open_file\<rparr>"

definition zero_frame :: interrupt_frame where
  "zero_frame = \<lparr>r15 = 0, r14 = 0, r13 = 0, r12 = 0, r11 = 0, r10 = 0, r9 = 0, r8 = 0, rbp = 0, rdi = 0, rsi = 0, rdx = 0,
     rcx = 0, rbx = 0, rax = 0, vector = 0, error_code = 0, rip = 0, cs = 0, rflags = 0, rsp = 0, ss = 0\<rparr>"

definition copy_task_name :: "string option \<Rightarrow> string" where
  "copy_task_name src = (case src of None \<Rightarrow> [] | Some str \<Rightarrow> copy_limited TASK_NAME_MAX str)"

definition reset_task_file :: "task_file \<Rightarrow> task_file" where
  "reset_task_file file = file\<lparr>tf_in_use := False, tf_open_file_index := -1\<rparr>"

definition reset_task_open_file :: "task_open_file \<Rightarrow> task_open_file" where
  "reset_task_open_file file =
     file\<lparr>of_in_use := False, of_ref_count := 0, of_type := TASK_FILE_NONE, of_offset := 0, of_append := False, of_path := []\<rparr>"

definition task_state_name :: "task_state \<Rightarrow> string" where
  "task_state_name state =
     (case state of
        TASK_RUNNABLE \<Rightarrow> ''runnable''
      | TASK_SLEEPING \<Rightarrow> ''sleeping''
      | TASK_WAITING_INPUT \<Rightarrow> ''waiting-input''
      | TASK_STOPPED \<Rightarrow> ''stopped'')"

text \<open>Reading and writing through a task pointer.\<close>

definition task_at :: "task_ref \<Rightarrow> 'a sched_state_scheme \<Rightarrow> task" where
  "task_at r s = (case r of BootTask \<Rightarrow> boot_task s | TaskSlot i \<Rightarrow> tasks s ! i)"

definition upd_task :: "task_ref \<Rightarrow> (task \<Rightarrow> task) \<Rightarrow> 'a sched_state_scheme \<Rightarrow> 'a sched_state_scheme" where
  "upd_task r f s =
     (case r of
        BootTask \<Rightarrow> s\<lparr>boot_task := f (boot_task s)\<rparr>
      | TaskSlot i \<Rightarrow> s\<lparr>tasks := (tasks s)[i := f (tasks s ! i)]\<rparr>)"

text \<open>\<^verbatim>\<open>current_task == NULL || current_task == &boot_task\<close>\<close>

definition no_current_task :: "'a sched_state_scheme \<Rightarrow> bool" where
  "no_current_task s \<longleftrightarrow> current_task s = None \<or> current_task s = Some BootTask"

abbreviation current_ref :: "'a sched_state_scheme \<Rightarrow> task_ref" where
  "current_ref s \<equiv> the (current_task s)"

section \<open>Creating tasks\<close>

definition x86_64_set_kernel_stack :: "u64 \<Rightarrow> 'a sched_state_scheme \<Rightarrow> 'a sched_state_scheme" where
  "x86_64_set_kernel_stack rsp0 s = s\<lparr>tss_rsp0 := rsp0\<rparr>"

definition switch_task_context :: "task \<Rightarrow> 'a sched_state_scheme \<Rightarrow> 'a sched_state_scheme" where
  "switch_task_context task s =
     vmm_switch_address_space (x86_64_set_kernel_stack (t_kernel_stack_top task) s) (t_cr3 task)"

definition scheduler_init :: "'a sched_state_scheme \<Rightarrow> 'a sched_state_scheme" where
  "scheduler_init s =
     s\<lparr>task_count := 0, current_task_index := 0, quantum_ticks := 0, scheduler_tick_count := 0, current_task := None,
       pending_stack_free := [], scheduler_ready := True\<rparr>"

text \<open>
  What both kinds of creation do: the next slot of the table, a process identifier, a kernel stack from the heap, and the
  initial frame below its top.
\<close>

definition create_task ::
  "string option \<Rightarrow> (task \<Rightarrow> 'a sched_state_scheme \<Rightarrow> task) \<Rightarrow> (u64 \<Rightarrow> interrupt_frame) \<Rightarrow>
   'a sched_state_scheme \<Rightarrow> (int \<times> 'a sched_state_scheme) krun" where
  "create_task name fill frame_at s =
     (if task_count s \<ge> of_nat MAX_TASKS then Some (Inr (-1, s))
      else
        let slot = unat (task_count s);
            task = zero_task\<lparr>t_pid := next_pid s, t_name := copy_task_name name, t_stack_size := TASK_STACK_SIZE\<rparr>;
            s = s\<lparr>task_count := task_count s + 1, next_pid := next_pid s + 1, tasks := (tasks s)[slot := task]\<rparr>
        in rbind (kmalloc s TASK_STACK_SIZE) (\<lambda>(stack, s).
             let task = fill (task\<lparr>t_stack := stack, t_state := TASK_RUNNABLE\<rparr>) s;
                 stack_top = align_down (stack + TASK_STACK_SIZE) 16 - 8;
                 frame = stack_top - SIZEOF_INTERRUPT_FRAME;
                 task = task\<lparr>t_kernel_stack_top := stack_top, t_frame := frame\<rparr>
             in Some (Inr (0, s\<lparr>frames := (frames s)(frame := frame_at stack_top), tasks := (tasks s)[slot := task]\<rparr>))))"

definition scheduler_create_task ::
  "u64 \<Rightarrow> string option \<Rightarrow> u64 \<Rightarrow> u64 \<Rightarrow> 'a sched_state_scheme \<Rightarrow> (int \<times> 'a sched_state_scheme) krun" where
  "scheduler_create_task task_trampoline name entry arg s =
     create_task name (\<lambda>task s. task\<lparr>t_cr3 := vmm_kernel_address_space s\<rparr>)
       (\<lambda>stack_top. zero_frame\<lparr>rdi := entry, rsi := arg, rip := task_trampoline, cs := KERNEL_CODE_SELECTOR, rflags := 0x202,
          rsp := stack_top, ss := KERNEL_DATA_SELECTOR\<rparr>) s"

definition scheduler_create_user_task ::
  "string option \<Rightarrow> u64 \<Rightarrow> u64 \<Rightarrow> u64 \<Rightarrow> u64 \<Rightarrow> u64 \<Rightarrow> u64 \<Rightarrow> u64 \<Rightarrow>
   'a sched_state_scheme \<Rightarrow> (int \<times> 'a sched_state_scheme) krun" where
  "scheduler_create_user_task name cr3_phys entry user_stack_top arg0 arg1 brk_start brk_limit s =
     create_task name
       (\<lambda>task s. task\<lparr>t_cr3 := cr3_phys, t_brk_start := brk_start, t_brk_current := brk_start, t_brk_limit := brk_limit\<rparr>)
       (\<lambda>stack_top. zero_frame\<lparr>rip := entry, rdi := arg0, rsi := arg1, cs := USER_CODE_SELECTOR, rflags := 0x202,
          rsp := user_stack_top, ss := USER_DATA_SELECTOR\<rparr>) s"

section \<open>Choosing and switching\<close>

fun next_runnable_loop :: "nat \<Rightarrow> 'a sched_state_scheme \<Rightarrow> task_ref \<times> 'a sched_state_scheme" where
  "next_runnable_loop 0 s = (BootTask, s)"
| "next_runnable_loop (Suc n) s =
     (let i = (current_task_index s + 1) mod task_count s;
          s = s\<lparr>current_task_index := i\<rparr>
      in if t_state (tasks s ! unat i) = TASK_RUNNABLE then (TaskSlot (unat i), s)
         else next_runnable_loop n s)"

definition next_runnable_task :: "'a sched_state_scheme \<Rightarrow> task_ref \<times> 'a sched_state_scheme" where
  "next_runnable_task s = (if task_count s = 0 then (BootTask, s) else next_runnable_loop (unat (task_count s)) s)"

text \<open>The loops over the used slots of the table.\<close>

definition upd_tasks :: "(task \<Rightarrow> task) \<Rightarrow> 'a sched_state_scheme \<Rightarrow> 'a sched_state_scheme" where
  "upd_tasks f s = s\<lparr>tasks := map f (take (unat (task_count s)) (tasks s)) @ drop (unat (task_count s)) (tasks s)\<rparr>"

definition wake_sleeping_tasks :: "'a sched_state_scheme \<Rightarrow> 'a sched_state_scheme" where
  "wake_sleeping_tasks s =
     upd_tasks (\<lambda>task. if t_state task = TASK_SLEEPING \<and> t_wake_tick task \<le> scheduler_tick_count s
                       then task\<lparr>t_state := TASK_RUNNABLE\<rparr> else task) s"

definition ensure_boot_task :: "u64 \<Rightarrow> 'a sched_state_scheme \<Rightarrow> 'a sched_state_scheme" where
  "ensure_boot_task frame s =
     (if current_task s \<noteq> None then s
      else s\<lparr>boot_task := zero_task\<lparr>t_pid := 0, t_name := copy_task_name (Some ''boot''), t_state := TASK_RUNNABLE,
               t_cr3 := vmm_current_address_space s,
               t_kernel_stack_top := align_down (frame + SIZEOF_INTERRUPT_FRAME) 16, t_frame := frame\<rparr>,
             current_task := Some BootTask, current_task_index := task_count s - 1\<rparr>)"

definition switch_to_task :: "task_ref \<Rightarrow> 'a sched_state_scheme \<Rightarrow> u64 \<times> 'a sched_state_scheme" where
  "switch_to_task next_task s =
     (if current_task s = Some next_task then (t_frame (task_at next_task s), s)
      else
        let s = s\<lparr>current_task := Some next_task\<rparr>;
            s = upd_task next_task (\<lambda>task. task\<lparr>t_switches := t_switches task + 1\<rparr>) s;
            s = switch_task_context (task_at next_task s) s
        in (t_frame (task_at next_task s), s))"

definition release_task_resources :: "task_ref \<Rightarrow> 'a sched_state_scheme \<Rightarrow> 'a sched_state_scheme kres" where
  "release_task_resources r s =
     (let task = task_at r s in
      if r = BootTask \<or> t_resources_released task then Inr s
      else if t_cr3 task = 0 \<or> t_cr3 task = vmm_kernel_address_space s
      then Inr (upd_task r (\<lambda>task. task\<lparr>t_resources_released := True\<rparr>) s)
      else
        let s = upd_task r (\<lambda>task. task\<lparr>t_files := map reset_task_file (t_files task),
                                         t_open_files := map reset_task_open_file (t_open_files task)\<rparr>) s
        in kbind (vmm_destroy_user_address_space s (t_cr3 task)) (\<lambda>(released, s).
             let s = upd_task r (\<lambda>task. task\<lparr>t_cr3 := vmm_kernel_address_space s, t_resources_released := True\<rparr>) s in
             if t_stack task \<noteq> 0 then
               if length (pending_stack_free s) \<ge> MAX_PENDING_STACK_FREE then Inl ''pending stack free queue full''
               else Inr (upd_task r (\<lambda>task. task\<lparr>t_stack := 0, t_kernel_stack_top := 0, t_frame := 0\<rparr>)
                      (s\<lparr>pending_stack_free := pending_stack_free s @ [t_stack task]\<rparr>))
             else Inr s))"

text \<open>The queue is emptied from its end.\<close>

primrec reclaim_stacks :: "u64 list \<Rightarrow> 'a sched_state_scheme \<Rightarrow> 'a sched_state_scheme kres" where
  "reclaim_stacks [] s = Inr s"
| "reclaim_stacks (stack # rest) s = kbind (kfree (s\<lparr>pending_stack_free := rev rest\<rparr>) stack) (reclaim_stacks rest)"

definition reclaim_pending_stacks :: "'a sched_state_scheme \<Rightarrow> 'a sched_state_scheme kres" where
  "reclaim_pending_stacks s = reclaim_stacks (rev (pending_stack_free s)) s"

section \<open>Events\<close>

text \<open>The end of every event that gives up the processor.\<close>

definition reschedule :: "'a sched_state_scheme \<Rightarrow> u64 \<times> 'a sched_state_scheme" where
  "reschedule s = (case next_runnable_task (s\<lparr>quantum_ticks := 0\<rparr>) of (next_task, s) \<Rightarrow> switch_to_task next_task s)"

definition scheduler_on_timer_tick :: "u64 \<Rightarrow> 'a sched_state_scheme \<Rightarrow> (u64 \<times> 'a sched_state_scheme) kres" where
  "scheduler_on_timer_tick frame s =
     (if \<not> scheduler_ready s \<or> task_count s = 0 then Inr (frame, s)
      else
        let s = ensure_boot_task frame s;
            s = s\<lparr>scheduler_tick_count := scheduler_tick_count s + 1\<rparr>
        in kbind (reclaim_pending_stacks s) (\<lambda>s.
             let s = wake_sleeping_tasks s;
                 s = upd_task (current_ref s) (\<lambda>task. task\<lparr>t_frame := frame\<rparr>) s;
                 s = s\<lparr>quantum_ticks := quantum_ticks s + 1\<rparr>
             in if quantum_ticks s < TASK_QUANTUM_TICKS then Inr (frame, s)
                else Inr (reschedule s)))"

text \<open>The common body of exit and fault.\<close>

definition stop_current :: "u64 \<Rightarrow> u64 \<Rightarrow> 'a sched_state_scheme \<Rightarrow> (u64 \<times> 'a sched_state_scheme) kres" where
  "stop_current frame status s =
     (let finished = current_ref s;
          s = upd_task finished (\<lambda>task. task\<lparr>t_frame := frame, t_state := TASK_STOPPED, t_exit_status := status\<rparr>) s
      in case reschedule s of (next_frame, s) \<Rightarrow>
           kbind (release_task_resources finished s) (\<lambda>s. Inr (next_frame, s)))"

definition scheduler_exit_current :: "u64 \<Rightarrow> u64 \<Rightarrow> 'a sched_state_scheme \<Rightarrow> (u64 \<times> 'a sched_state_scheme) kres" where
  "scheduler_exit_current frame status s =
     (if no_current_task s then Inr (frame, s) else stop_current frame status s)"

definition scheduler_fault_current :: "u64 \<Rightarrow> u64 \<Rightarrow> u64 \<Rightarrow> 'a sched_state_scheme \<Rightarrow> (u64 \<times> 'a sched_state_scheme) kres" where
  "scheduler_fault_current frame vec fault_addr s =
     (if no_current_task s then Inl ''user fault without current user task'' else stop_current frame (128 + vec) s)"

definition scheduler_yield_current :: "u64 \<Rightarrow> 'a sched_state_scheme \<Rightarrow> u64 \<times> 'a sched_state_scheme" where
  "scheduler_yield_current frame s =
     (if no_current_task s then (frame, s)
      else reschedule (upd_task (current_ref s) (\<lambda>task. task\<lparr>t_frame := frame\<rparr>) s))"

definition scheduler_sleep_current :: "u64 \<Rightarrow> u64 \<Rightarrow> 'a sched_state_scheme \<Rightarrow> u64 \<times> 'a sched_state_scheme" where
  "scheduler_sleep_current frame ticks s =
     (if ticks = 0 then scheduler_yield_current frame s
      else if no_current_task s then (frame, s)
      else reschedule (upd_task (current_ref s) (\<lambda>task. task\<lparr>t_frame := frame, t_state := TASK_SLEEPING,
             t_wake_tick := scheduler_tick_count s + ticks\<rparr>) s))"

definition scheduler_wait_current_for_input :: "u64 \<Rightarrow> 'a sched_state_scheme \<Rightarrow> u64 \<times> 'a sched_state_scheme" where
  "scheduler_wait_current_for_input frame s =
     (if no_current_task s then (frame, s)
      else reschedule (upd_task (current_ref s) (\<lambda>task. task\<lparr>t_frame := frame, t_state := TASK_WAITING_INPUT\<rparr>) s))"

definition scheduler_wake_input_waiters :: "'a sched_state_scheme \<Rightarrow> 'a sched_state_scheme" where
  "scheduler_wake_input_waiters s =
     upd_tasks (\<lambda>task. if t_state task = TASK_WAITING_INPUT then task\<lparr>t_state := TASK_RUNNABLE\<rparr> else task) s"

section \<open>Queries and the program break\<close>

record task_info =
  ti_pid :: u64
  ti_state :: u64
  ti_exit_status :: u64
  ti_switches :: u64
  ti_name :: string

text \<open>The values of the C enumeration.\<close>

definition task_state_number :: "task_state \<Rightarrow> u64" where
  "task_state_number state =
     (case state of TASK_RUNNABLE \<Rightarrow> 0 | TASK_SLEEPING \<Rightarrow> 1 | TASK_WAITING_INPUT \<Rightarrow> 2 | TASK_STOPPED \<Rightarrow> 3)"

definition scheduler_task_info :: "u64 \<Rightarrow> 'a sched_state_scheme \<Rightarrow> task_info option" where
  "scheduler_task_info index s =
     (if index \<ge> task_count s then None
      else let task = tasks s ! unat index in
        Some \<lparr>ti_pid = t_pid task, ti_state = task_state_number (t_state task), ti_exit_status = t_exit_status task,
              ti_switches = t_switches task, ti_name = copy_task_name (Some (t_name task))\<rparr>)"

definition scheduler_current_pid :: "'a sched_state_scheme \<Rightarrow> u64" where
  "scheduler_current_pid s = (case current_task s of None \<Rightarrow> 0 | Some r \<Rightarrow> t_pid (task_at r s))"

definition scheduler_ticks :: "'a sched_state_scheme \<Rightarrow> u64" where
  "scheduler_ticks s = scheduler_tick_count s"

definition scheduler_current_brk :: "'a sched_state_scheme \<Rightarrow> u64" where
  "scheduler_current_brk s = (if no_current_task s then 0 else t_brk_current (task_at (current_ref s) s))"

primrec map_heap_pages :: "u64 \<Rightarrow> u64 list \<Rightarrow> 'a pmm_state_scheme \<Rightarrow> 'a pmm_state_scheme kres" where
  "map_heap_pages cr3 [] s = Inr s"
| "map_heap_pages cr3 (page # pages) s =
     kbind (pmm_alloc_page s) (\<lambda>(phys, s).
     kbind (vmm_map_page_in s cr3 page phys (VMM_FLAG_WRITABLE OR VMM_FLAG_USER OR VMM_FLAG_NO_EXEC)) (\<lambda>(r, s).
       if r \<noteq> 0 then Inl ''failed to grow user heap'' else map_heap_pages cr3 pages s))"

definition scheduler_set_current_brk :: "u64 \<Rightarrow> 'a sched_state_scheme \<Rightarrow> (u64 \<times> 'a sched_state_scheme) kres" where
  "scheduler_set_current_brk new_break s =
     (if no_current_task s then Inr (0, s)
      else
        let r = current_ref s; task = task_at r s in
        if new_break = 0 \<or> new_break < t_brk_start task \<or> new_break > t_brk_limit task then Inr (t_brk_current task, s)
        else
          let old_break = t_brk_current task in
          kbind (if new_break > old_break
                 then map_heap_pages (t_cr3 task) (page_range (align_up old_break PAGE_SIZE) (align_up new_break PAGE_SIZE)) s
                 else Inr s) (\<lambda>s.
            Inr (new_break, upd_task r (\<lambda>task. task\<lparr>t_brk_current := new_break\<rparr>) s)))"

section \<open>Stacks from the kernel heap\<close>

text \<open>The allocator leaves the scheduler's part of the state alone.\<close>

lemma upd_block_more [simp]: "heap_state.more (upd_block b f s) = heap_state.more s"
  by (simp add: upd_block_def)

lemma heap_more_of_pmm_more:
  fixes s s' :: "'a heap_state_scheme"
  shows "pmm_state.more s' = pmm_state.more s \<Longrightarrow> heap_state.more s' = heap_state.more s"
  by (cases s; cases s') simp

lemma heap_ensure_mapped_more: "heap_ensure_mapped s e = Inr s' \<Longrightarrow> heap_state.more s' = heap_state.more s"
proof (induction s e rule: heap_ensure_mapped.induct)
  case (1 s e)
  show ?case
  proof (cases "heap_mapped_end s < e")
    case True
    then obtain phys s1 s2 where a: "pmm_alloc_page s = Inr (phys, s1)"
        "vmm_map_page s1 (heap_mapped_end s1) phys (PTE_WRITABLE OR PTE_NO_EXEC) = Inr (0, s2)"
        "heap_ensure_mapped (s2\<lparr>heap_mapped_end := heap_mapped_end s2 + PAGE_SIZE\<rparr>) e = Inr s'"
      using 1(2) by (subst (asm) heap_ensure_mapped.simps) (auto split: if_splits)
    have "pmm_state.more s2 = pmm_state.more s"
      using pmm_alloc_page_more [OF a(1)] vmm_map_page_in_more [OF a(2) [unfolded vmm_map_page_def]] by simp
    then show ?thesis using 1(1) [OF True a(1) refl a(2) refl _ a(3)] heap_more_of_pmm_more [of s2 s] by simp
  next
    case False
    then show ?thesis using 1(2) by (subst (asm) heap_ensure_mapped.simps) auto
  qed
qed

lemma heap_split_block_more [simp]: "heap_state.more (heap_split_block s b n) = heap_state.more s"
  by (simp add: heap_split_block_def Let_def)

lemma kmalloc_more: "kmalloc s n = Some (Inr (p, s')) \<Longrightarrow> heap_state.more s' = heap_state.more s"
  by (auto simp: kmalloc_def kmalloc_extend_def Let_def split: if_splits option.splits dest!: heap_ensure_mapped_more)

lemma heap_merge_more [simp]:
  "heap_state.more (heap_merge_next s b) = heap_state.more s" "heap_state.more (heap_merge_prev s b) = heap_state.more s"
  by (simp_all add: heap_merge_next_def heap_merge_prev_def Let_def)

lemma kfree_more: "kfree s p = Inr s' \<Longrightarrow> heap_state.more s' = heap_state.more s"
  by (auto simp: kfree_def heap_coalesce_def Let_def split: if_splits)

text \<open>Tearing an address space down changes pages and the page bitmap only.\<close>

lemma pmm_free_page_more: "pmm_free_page s p = Inr s' \<Longrightarrow> pmm_state.more s' = pmm_state.more s"
  by (auto simp: pmm_free_page_def pmm_set_free_def Let_def split: if_splits)

lemma set_table_entry_more [simp]: "pmm_state.more (set_table_entry s t i e) = pmm_state.more s"
  by (simp add: set_table_entry_def)

lemma vmm_free_pt_more: "vmm_free_pt s t = Inr (n, s') \<Longrightarrow> pmm_state.more s' = pmm_state.more s"
proof -
  have "vmm_free_pt_entries s t is k = Inr (n, s') \<Longrightarrow> pmm_state.more s' = pmm_state.more s" for s t "is" k n and s' :: "'a pmm_state_scheme"
    by (induction s t "is" k rule: vmm_free_pt_entries.induct) (auto simp: Let_def split: if_splits dest: pmm_free_page_more)
  then show "vmm_free_pt s t = Inr (n, s') \<Longrightarrow> pmm_state.more s' = pmm_state.more s"
    by (fastforce simp: vmm_free_pt_def dest: pmm_free_page_more)
qed

lemma vmm_free_pd_more: "vmm_free_pd s t = Inr (n, s') \<Longrightarrow> pmm_state.more s' = pmm_state.more s"
proof -
  have "vmm_free_pd_entries s t is k = Inr (n, s') \<Longrightarrow> pmm_state.more s' = pmm_state.more s" for s t "is" k n and s' :: "'a pmm_state_scheme"
    by (induction s t "is" k rule: vmm_free_pd_entries.induct) (auto simp: Let_def split: if_splits dest: vmm_free_pt_more)
  then show "vmm_free_pd s t = Inr (n, s') \<Longrightarrow> pmm_state.more s' = pmm_state.more s"
    by (fastforce simp: vmm_free_pd_def dest: pmm_free_page_more)
qed

lemma vmm_free_pdpt_more: "vmm_free_pdpt s t = Inr (n, s') \<Longrightarrow> pmm_state.more s' = pmm_state.more s"
proof -
  have "vmm_free_pdpt_entries s t is k = Inr (n, s') \<Longrightarrow> pmm_state.more s' = pmm_state.more s" for s t "is" k n and s' :: "'a pmm_state_scheme"
    by (induction s t "is" k rule: vmm_free_pdpt_entries.induct) (auto simp: Let_def split: if_splits dest: vmm_free_pd_more)
  then show "vmm_free_pdpt s t = Inr (n, s') \<Longrightarrow> pmm_state.more s' = pmm_state.more s"
    by (fastforce simp: vmm_free_pdpt_def dest: pmm_free_page_more)
qed

lemma vmm_free_pml4_more: "vmm_free_pml4_entries s t is k = Inr (n, s') \<Longrightarrow> pmm_state.more s' = pmm_state.more s"
  by (induction s t "is" k rule: vmm_free_pml4_entries.induct) (auto simp: Let_def split: if_splits dest: vmm_free_pdpt_more)

lemma vmm_destroy_more: "vmm_destroy_user_address_space s c = Inr (n, s') \<Longrightarrow> pmm_state.more s' = pmm_state.more s"
  by (auto simp: vmm_destroy_user_address_space_def Let_def split: if_splits dest!: pmm_free_page_more vmm_free_pml4_more)

text \<open>
  What the scheduler relies on: a pool of stacks. \<open>has s P\<close> says that the stacks \<open>P\<close> are allocated. A new stack is none of
  them, is aligned and does not wrap around the address space; an allocated stack can be given back.
\<close>

locale stack_pool =
  fixes has :: "'s \<Rightarrow> u64 set \<Rightarrow> bool" and get :: "'s \<Rightarrow> (u64 \<times> 's) krun" and put :: "'s \<Rightarrow> u64 \<Rightarrow> 's kres"
  assumes get_returns: "has s P \<Longrightarrow> get s \<noteq> None"
    and get_new: "has s P \<Longrightarrow> get s = Some (Inr (p, t)) \<Longrightarrow> has t (insert p P) \<and> p \<notin> P"
    and has_range: "has s P \<Longrightarrow> p \<in> P \<Longrightarrow> 0 < unat p \<and> 16 dvd unat p \<and> unat p + 16384 < 18446744073709551616"
    and has_disjoint: "has s P \<Longrightarrow> p \<in> P \<Longrightarrow> q \<in> P \<Longrightarrow> p \<noteq> q \<Longrightarrow> unat p + 16384 \<le> unat q \<or> unat q + 16384 \<le> unat p"
    and put_back: "has s (insert p P) \<Longrightarrow> p \<notin> P \<Longrightarrow> \<exists>t. put s p = Inr t \<and> has t P"
begin

lemma put_back_all:
  assumes "\<And>s. run [] s = Inr s" "\<And>p ps s. run (p # ps) s = kbind (put (upd ps s) p) (run ps)"
    and "\<And>s ps P. has s P \<Longrightarrow> has (upd ps s) P"
  shows "has s (set ps \<union> P) \<Longrightarrow> distinct ps \<Longrightarrow> set ps \<inter> P = {} \<Longrightarrow> \<exists>t. run ps s = Inr t \<and> has t P"
proof (induction ps arbitrary: s)
  case (Cons p ps)
  have "has (upd ps s) (insert p (set ps \<union> P))" using assms(3) [OF Cons.prems(1)] by simp
  then obtain t where "put (upd ps s) p = Inr t" "has t (set ps \<union> P)"
    using put_back [of "upd ps s" p "set ps \<union> P"] Cons.prems by auto
  then show ?case using Cons by (simp add: assms(2))
qed (simp add: assms(1))

end

text \<open>The kernel heap is such a pool.\<close>

definition heap_has :: "'a heap_state_scheme \<Rightarrow> u64 set \<Rightarrow> bool" where
  "heap_has s P \<longleftrightarrow> (\<exists>bs. heap_rep s bs \<and> (\<forall>p \<in> P. \<exists>m. (p - 48, m) \<in> allocated bs \<and> 16384 \<le> unat m))"

lemma allocated_range:
  assumes "heap_rep s bs" "(p - 48, m) \<in> allocated bs"
  shows "unat p = unat (p - 48) + 48" "18446744071830503424 \<le> unat (p - 48)" "unat p + unat m \<le> 18446744071847280640" "16 dvd unat p"
proof -
  have mem: "(p - 48, m, False) \<in> set bs" using assms(2) by (simp add: allocated_def)
  note b = heap_rep_bounds [OF assms(1) mem]
  have "unat (x + 48) = unat x + 48" if "unat x + 48 + unat m \<le> 18446744071847280640" for x :: u64
    using that by (simp add: unat_word_ariths)
  from this [OF b(2)] show "unat p = unat (p - 48) + 48" by simp
  then show "18446744071830503424 \<le> unat (p - 48)" "unat p + unat m \<le> 18446744071847280640" "16 dvd unat p" using b by simp_all
qed

lemma heap_has_mono: "heap_has s P \<Longrightarrow> Q \<subseteq> P \<Longrightarrow> heap_has s Q"
  by (auto simp: heap_has_def)

lemma heap_rep_cong:
  "heap_store t = heap_store s \<Longrightarrow> heap_head t = heap_head s \<Longrightarrow> heap_tail t = heap_tail s \<Longrightarrow> heap_next t = heap_next s \<Longrightarrow>
   heap_rep t bs = heap_rep s bs"
  by (simp add: heap_rep_def)

lemma heap_has_cong:
  "heap_store t = heap_store s \<Longrightarrow> heap_head t = heap_head s \<Longrightarrow> heap_tail t = heap_tail s \<Longrightarrow> heap_next t = heap_next s \<Longrightarrow>
   heap_has t P = heap_has s P"
  by (simp add: heap_has_def heap_rep_cong [of t s])

lemma kmalloc_returns: "heap_rep s bs \<Longrightarrow> kmalloc s 16384 \<noteq> None"
proof -
  assume rep: "heap_rep s bs"
  note n = align_up_16_request [of 16384]
  show ?thesis
  proof (cases "alloc_block (align_up 16384 16) bs")
    case None
    then show ?thesis using heap_find_none [OF rep None] by (simp add: kmalloc_def Let_def)
  next
    case (Some r)
    then show ?thesis using kmalloc_fit_rep [OF rep n(1,2), of "fst r" "snd r"] by auto
  qed
qed

lemma heap_has_get:
  assumes h: "heap_has s P" and g: "kmalloc s 16384 = Some (Inr (p, t))"
  shows "heap_has t (insert p P) \<and> p \<notin> P"
proof -
  obtain bs where bs: "heap_rep s bs" "\<forall>p \<in> P. \<exists>m. (p - 48, m) \<in> allocated bs \<and> 16384 \<le> unat m"
    using h by (auto simp: heap_has_def)
  obtain x bs' m where x: "p = x + 48" "heap_rep t bs'" "align_up 16384 16 \<le> m"
    "allocated bs' = insert (x, m) (allocated bs)" "(x, m, False) \<in> set bs'" "\<forall>m'. (x, m') \<notin> allocated bs"
    by (rule kmalloc_cases [OF bs(1) _ _ g]) simp_all
  have "16384 \<le> unat m" using x(3) by (simp add: word_le_nat_alt align_up_def)
  moreover have "p \<notin> P" using bs(2) x(1,6) by auto
  ultimately show ?thesis using bs(2) x(1,2,4) unfolding heap_has_def by (intro conjI exI [of _ bs']) auto
qed

lemma heap_has_range:
  assumes "heap_has s P" "p \<in> P"
  shows "0 < unat p \<and> 16 dvd unat p \<and> unat p + 16384 < 18446744073709551616"
proof -
  obtain bs m where b: "heap_rep s bs" "(p - 48, m) \<in> allocated bs" "16384 \<le> unat m" using assms by (auto simp: heap_has_def)
  show ?thesis using allocated_range [OF b(1,2)] b(3) by simp
qed

lemma heap_has_disjoint:
  assumes "heap_has s P" "p \<in> P" "q \<in> P" and ne: "p \<noteq> q"
  shows "unat p + 16384 \<le> unat q \<or> unat q + 16384 \<le> unat p"
proof -
  obtain bs m n where b: "heap_rep s bs" "(p - 48, m) \<in> allocated bs" "16384 \<le> unat m"
    "(q - 48, n) \<in> allocated bs" "16384 \<le> unat n" using assms(1-3) unfolding heap_has_def by blast
  have "tiles (unat HEAP_BASE) bs (unat (heap_next s))" using b(1) by (simp add: heap_rep_def)
  moreover have "(p - 48, m, False) \<in> set bs" "(q - 48, n, False) \<in> set bs" "p - 48 \<noteq> q - 48"
    using b(2,4) ne by (simp_all add: allocated_def)
  ultimately have "unat (p - 48) + 48 + unat m \<le> unat (q - 48) \<or> unat (q - 48) + 48 + unat n \<le> unat (p - 48)"
    by (rule tiles_disjoint)
  then show ?thesis using allocated_range(1) [OF b(1,2)] allocated_range(1) [OF b(1,4)] b(3,5) by linarith
qed

lemma heap_has_put:
  assumes "heap_has s (insert p P)" and p: "p \<notin> P"
  shows "\<exists>t. kfree s p = Inr t \<and> heap_has t P"
proof -
  obtain bs m where b: "heap_rep s bs" "(p - 48, m) \<in> allocated bs" "\<forall>p \<in> P. \<exists>m. (p - 48, m) \<in> allocated bs \<and> 16384 \<le> unat m"
    using assms(1) by (auto simp: heap_has_def)
  have "(p - 48, m, False) \<in> set bs" using b(2) by (simp add: allocated_def)
  from kfree_rep [OF b(1) this] obtain t where t: "kfree s p = Inr t" "heap_rep t (join_free (mark_free (p - 48) bs))" by auto
  have "\<exists>m. (q - 48, m) \<in> allocated (join_free (mark_free (p - 48) bs)) \<and> 16384 \<le> unat m" if q: "q \<in> P" for q
  proof -
    have "q - 48 \<noteq> p - 48" using q p by auto
    then show ?thesis using b(3) q unfolding allocated_join_free allocated_mark_free by auto
  qed
  then have "heap_has t P" using t(2) unfolding heap_has_def by blast
  then show ?thesis using t(1) by blast
qed

interpretation stacks: stack_pool heap_has "\<lambda>s. kmalloc s TASK_STACK_SIZE" kfree
proof
  fix s :: "'a heap_state_scheme" and P
  assume "heap_has s P"
  then show "kmalloc s TASK_STACK_SIZE \<noteq> None" using kmalloc_returns unfolding heap_has_def by blast
qed (rule heap_has_get heap_has_range heap_has_disjoint heap_has_put; assumption)+

end
