(* ===== verification/Scheduler_Invariant.thy ===== *)
theory Scheduler_Invariant
  imports Scheduler
begin

text \<open>
  The scheduler's invariant: the task table, the kernel stacks it owns on the heap, and the task that runs, whose stack and
  address space are the active ones. Every event keeps it; the choice of the next task is fair.
\<close>

section \<open>The invariant of the scheduler\<close>

text \<open>Parts of the state that the allocator and the teardown of address spaces keep.\<close>

definition same_sched :: "'a sched_state_scheme \<Rightarrow> 'a sched_state_scheme \<Rightarrow> bool" where
  "same_sched s t \<longleftrightarrow> heap_state.more t = heap_state.more s \<and> cr3_reg t = cr3_reg s \<and> kernel_cr3 t = kernel_cr3 s"

lemma same_sched_fields:
  assumes "same_sched s t"
  shows "tasks t = tasks s" "boot_task t = boot_task s" "current_task t = current_task s" "task_count t = task_count s"
    "current_task_index t = current_task_index s" "quantum_ticks t = quantum_ticks s" "next_pid t = next_pid s"
    "scheduler_tick_count t = scheduler_tick_count s" "scheduler_ready t = scheduler_ready s"
    "pending_stack_free t = pending_stack_free s" "frames t = frames s" "tss_rsp0 t = tss_rsp0 s" "cr3_reg t = cr3_reg s"
    "kernel_cr3 t = kernel_cr3 s"
  using assms by (cases s; cases t; simp add: same_sched_def)+

lemma vmm_fields_more:
  fixes s t :: "'a vmm_state_scheme"
  assumes "pmm_state.more t = pmm_state.more s"
  shows "cr3_reg t = cr3_reg s" "kernel_cr3 t = kernel_cr3 s"
  using assms by (cases s; cases t; simp)+

lemma upd_block_vmm [simp]: "cr3_reg (upd_block b f s) = cr3_reg s" "kernel_cr3 (upd_block b f s) = kernel_cr3 s"
  by (simp_all add: upd_block_def)

lemma heap_ensure_mapped_vmm: "heap_ensure_mapped s e = Inr s' \<Longrightarrow> cr3_reg s' = cr3_reg s \<and> kernel_cr3 s' = kernel_cr3 s"
proof (induction s e rule: heap_ensure_mapped.induct)
  case (1 s e)
  show ?case
  proof (cases "heap_mapped_end s < e")
    case True
    then obtain phys s1 s2 where a: "pmm_alloc_page s = Inr (phys, s1)"
        "vmm_map_page s1 (heap_mapped_end s1) phys (PTE_WRITABLE OR PTE_NO_EXEC) = Inr (0, s2)"
        "heap_ensure_mapped (s2\<lparr>heap_mapped_end := heap_mapped_end s2 + PAGE_SIZE\<rparr>) e = Inr s'"
      using 1(2) by (subst (asm) heap_ensure_mapped.simps) (auto split: if_splits)
    have "pmm_state.more s2 = pmm_state.more s"
      using pmm_alloc_page_more [OF a(1)] vmm_map_page_in_more [OF a(2) [unfolded vmm_map_page_def]] by simp
    then show ?thesis using 1(1) [OF True a(1) refl a(2) refl _ a(3)] vmm_fields_more [of s2 s] by simp
  next
    case False
    then show ?thesis using 1(2) by (subst (asm) heap_ensure_mapped.simps) auto
  qed
qed

lemma kmalloc_same_sched: "kmalloc s n = Some (Inr (p, t)) \<Longrightarrow> same_sched s t"
proof -
  assume k: "kmalloc s n = Some (Inr (p, t))"
  then have "cr3_reg t = cr3_reg s \<and> kernel_cr3 t = kernel_cr3 s"
    by (auto simp: kmalloc_def kmalloc_extend_def heap_split_block_def Let_def split: if_splits option.splits dest!: heap_ensure_mapped_vmm)
  then show ?thesis using kmalloc_more [OF k] by (simp add: same_sched_def)
qed

lemma heap_merge_vmm [simp]:
  "cr3_reg (heap_merge_next s b) = cr3_reg s" "kernel_cr3 (heap_merge_next s b) = kernel_cr3 s"
  "cr3_reg (heap_merge_prev s b) = cr3_reg s" "kernel_cr3 (heap_merge_prev s b) = kernel_cr3 s"
  by (simp_all add: heap_merge_next_def heap_merge_prev_def Let_def)

lemma kfree_same_sched: "kfree s p = Inr t \<Longrightarrow> same_sched s t"
proof -
  assume k: "kfree s p = Inr t"
  then have "cr3_reg t = cr3_reg s \<and> kernel_cr3 t = kernel_cr3 s"
    by (auto simp: kfree_def heap_coalesce_def Let_def split: if_splits)
  then show ?thesis using kfree_more [OF k] by (simp add: same_sched_def)
qed

lemma vmm_destroy_same_sched:
  fixes s t :: "'a sched_state_scheme"
  assumes "vmm_destroy_user_address_space s c = Inr (n, t)"
  shows "same_sched s t" "heap_has t P = heap_has s P"
proof -
  have m: "pmm_state.more t = pmm_state.more s" by (rule vmm_destroy_more [OF assms])
  show "same_sched s t" using heap_more_of_pmm_more [OF m] vmm_fields_more [OF m] by (simp add: same_sched_def)
  show "heap_has t P = heap_has s P" using heap_fields_more [OF m] by (intro heap_has_cong)
qed

text \<open>The stacks the scheduler holds: those of its tasks, and those waiting to be freed.\<close>

abbreviation ntasks :: "'a sched_state_scheme \<Rightarrow> nat" where
  "ntasks s \<equiv> unat (task_count s)"

definition task_stacks :: "'a sched_state_scheme \<Rightarrow> u64 list" where
  "task_stacks s = filter (\<lambda>p. p \<noteq> 0) (map t_stack (take (ntasks s) (tasks s)))"

definition owned_stacks :: "'a sched_state_scheme \<Rightarrow> u64 list" where
  "owned_stacks s = task_stacks s @ pending_stack_free s"

text \<open>A frame inside the kernel stack of a task.\<close>

definition frame_in :: "task \<Rightarrow> u64 \<Rightarrow> bool" where
  "frame_in task frame \<longleftrightarrow> unat (t_stack task) \<le> unat frame \<and> unat frame + 176 \<le> unat (t_stack task) + 16376"

definition task_ok :: "task \<Rightarrow> bool" where
  "task_ok task \<longleftrightarrow>
     (if t_state task = TASK_STOPPED then t_resources_released task
      else \<not> t_resources_released task \<and> t_stack task \<noteq> 0 \<and> t_kernel_stack_top task = t_stack task + 16376 \<and>
           frame_in task (t_frame task))"

text \<open>The task that runs does so on its own kernel stack and its own address space.\<close>

definition current_ok :: "'a sched_state_scheme \<Rightarrow> bool" where
  "current_ok s \<longleftrightarrow>
     (case current_task s of
        None \<Rightarrow> True
      | Some BootTask \<Rightarrow> cr3_reg s AND PTE_ADDR_MASK = t_cr3 (boot_task s) AND PTE_ADDR_MASK
      | Some (TaskSlot i) \<Rightarrow>
          i < ntasks s \<and> t_state (tasks s ! i) = TASK_RUNNABLE \<and> tss_rsp0 s = t_kernel_stack_top (tasks s ! i) \<and>
          cr3_reg s AND PTE_ADDR_MASK = t_cr3 (tasks s ! i) AND PTE_ADDR_MASK)"

text \<open>The table, except for the tasks \<open>X\<close> that are being stopped.\<close>

definition table_ok :: "nat set \<Rightarrow> 'a sched_state_scheme \<Rightarrow> bool" where
  "table_ok X s \<longleftrightarrow>
     length (tasks s) = MAX_TASKS \<and> ntasks s \<le> MAX_TASKS \<and>
     (task_count s = 0 \<and> current_task_index s = 0 \<or> current_task_index s < task_count s) \<and>
     next_pid s = task_count s + 1 \<and>
     (\<forall>i < ntasks s. t_pid (tasks s ! i) = of_nat i + 1 \<and> (i \<notin> X \<longrightarrow> task_ok (tasks s ! i))) \<and>
     distinct (owned_stacks s) \<and> length (owned_stacks s) \<le> ntasks s \<and> heap_has s (set (owned_stacks s))"

definition sched_inv :: "'a sched_state_scheme \<Rightarrow> bool" where
  "sched_inv s \<longleftrightarrow> table_ok {} s \<and> current_ok s"

section \<open>Choosing the next task\<close>

text \<open>The slots in the order in which the search visits them.\<close>

definition rr_slot :: "'a sched_state_scheme \<Rightarrow> nat \<Rightarrow> nat" where
  "rr_slot s k = (unat (current_task_index s) + 1 + k) mod ntasks s"

definition runnable :: "'a sched_state_scheme \<Rightarrow> nat \<Rightarrow> bool" where
  "runnable s i \<longleftrightarrow> t_state (tasks s ! i) = TASK_RUNNABLE"

lemma next_runnable_loop_spec:
  assumes "0 < ntasks s" "unat (current_task_index s) < ntasks s"
  shows "(\<exists>k < n. next_runnable_loop n s = (TaskSlot (rr_slot s k), s\<lparr>current_task_index := of_nat (rr_slot s k)\<rparr>) \<and>
            runnable s (rr_slot s k) \<and> (\<forall>j < k. \<not> runnable s (rr_slot s j))) \<or>
         (\<exists>i < ntasks s. next_runnable_loop n s = (BootTask, s\<lparr>current_task_index := of_nat i\<rparr>)) \<and> (\<forall>j < n. \<not> runnable s (rr_slot s j))"
  using assms
proof (induction n arbitrary: s)
  case 0
  then show ?case by (intro disjI2 conjI exI [of _ "unat (current_task_index s)"]) simp_all
next
  case (Suc n)
  define i where "i = (current_task_index s + 1) mod task_count s"
  define s' where "s' = s\<lparr>current_task_index := i\<rparr>"
  have c: "unat (current_task_index s + 1) = unat (current_task_index s) + 1"
    using Suc.prems(2) by (intro unat_inc [of _ "task_count s", THEN trans]) (simp_all add: word_less_nat_alt)
  have i: "unat i = rr_slot s 0" by (simp add: i_def unat_mod c rr_slot_def)
  have oi: "of_nat (rr_slot s 0) = i" by (simp flip: i)
  have p: "0 < ntasks s'" "unat (current_task_index s') < ntasks s'" using Suc.prems by (simp_all add: s'_def i rr_slot_def)
  have sh: "Suc (a mod m + j) mod m = Suc (a + j) mod m" for a j m :: nat
    using mod_add_left_eq [of a m "Suc j"] by simp
  have s': "rr_slot s' j = rr_slot s (Suc j)" "runnable s' = runnable s" "ntasks s' = ntasks s" for j
    using i by (simp_all add: s'_def rr_slot_def runnable_def fun_eq_iff sh)
  show ?case
  proof (cases "runnable s (rr_slot s 0)")
    case True
    then have "next_runnable_loop (Suc n) s = (TaskSlot (rr_slot s 0), s\<lparr>current_task_index := of_nat (rr_slot s 0)\<rparr>)"
      by (simp add: Let_def i_def [symmetric] i oi runnable_def)
    then show ?thesis using True by blast
  next
    case False
    have step: "next_runnable_loop (Suc n) s = next_runnable_loop n s'" 
      using False by (simp add: Let_def s'_def i_def [symmetric] i runnable_def)
    have all: "(\<forall>j < Suc k. \<not> runnable s (rr_slot s j)) \<longleftrightarrow> (\<forall>j < k. \<not> runnable s (rr_slot s (Suc j)))" for k
      using False by (auto simp: less_Suc_eq_0_disj)
    have upd: "s'\<lparr>current_task_index := x\<rparr> = s\<lparr>current_task_index := x\<rparr>" for x by (simp add: s'_def)
    from Suc.IH [OF p] consider
        k where "k < n" "next_runnable_loop n s' = (TaskSlot (rr_slot s (Suc k)), s\<lparr>current_task_index := of_nat (rr_slot s (Suc k))\<rparr>)"
          "runnable s (rr_slot s (Suc k))" "\<forall>j < k. \<not> runnable s (rr_slot s (Suc j))"
      | k where "k < ntasks s" "next_runnable_loop n s' = (BootTask, s\<lparr>current_task_index := of_nat k\<rparr>)"
          "\<forall>j < n. \<not> runnable s (rr_slot s (Suc j))"
      unfolding s' upd by blast
    then show ?thesis
    proof cases
      case 1
      then show ?thesis using all [of k] unfolding step by (intro disjI1 exI [of _ "Suc k"]) simp
    next
      case 2
      then show ?thesis using all [of n] unfolding step by blast
    qed
  qed
qed

text \<open>How far a slot is from being visited.\<close>

definition rr_dist :: "'a sched_state_scheme \<Rightarrow> nat \<Rightarrow> nat" where
  "rr_dist s i = (if unat (current_task_index s) < i then i - unat (current_task_index s) - 1
                  else i + ntasks s - unat (current_task_index s) - 1)"

lemma rr_slot_eq:
  assumes "unat (current_task_index s) < ntasks s" "k < ntasks s"
  shows "rr_slot s k = (if unat (current_task_index s) + 1 + k < ntasks s then unat (current_task_index s) + 1 + k
                        else unat (current_task_index s) + 1 + k - ntasks s)"
  using assms by (simp add: rr_slot_def mod_if)

lemma rr_dist_slot:
  assumes "unat (current_task_index s) < ntasks s" "i < ntasks s"
  shows "rr_dist s i < ntasks s" "rr_slot s (rr_dist s i) = i"
proof -
  show l: "rr_dist s i < ntasks s" using assms by (auto simp: rr_dist_def)
  show "rr_slot s (rr_dist s i) = i" unfolding rr_slot_eq [OF assms(1) l] using assms by (auto simp: rr_dist_def)
qed

lemma next_runnable_task_cases:
  assumes "current_task_index s < task_count s"
  obtains (run) k where "k < ntasks s" "next_runnable_task s = (TaskSlot (rr_slot s k), s\<lparr>current_task_index := of_nat (rr_slot s k)\<rparr>)"
      "runnable s (rr_slot s k)" "rr_slot s k < ntasks s" "\<forall>i < ntasks s. runnable s i \<longrightarrow> k \<le> rr_dist s i"
  | (idle) i where "i < ntasks s" "next_runnable_task s = (BootTask, s\<lparr>current_task_index := of_nat i\<rparr>)" "\<forall>i < ntasks s. \<not> runnable s i"
proof -
  have l: "unat (current_task_index s) < ntasks s" using assms by (simp add: word_less_nat_alt)
  have nz: "task_count s \<noteq> 0" using assms by auto
  have d: "\<forall>i < ntasks s. runnable s i \<longrightarrow> k \<le> rr_dist s i" if "\<forall>j < k. \<not> runnable s (rr_slot s j)" for k
  proof (intro allI impI)
    fix i assume "i < ntasks s" "runnable s i"
    then show "k \<le> rr_dist s i" using that [rule_format, of "rr_dist s i"] rr_dist_slot(2) [OF l] by (cases "rr_dist s i < k") simp_all
  qed
  show thesis
  proof (cases "\<exists>k < ntasks s. next_runnable_loop (ntasks s) s = (TaskSlot (rr_slot s k), s\<lparr>current_task_index := of_nat (rr_slot s k)\<rparr>) \<and>
            runnable s (rr_slot s k) \<and> (\<forall>j < k. \<not> runnable s (rr_slot s j))")
    case True
    then obtain k where k: "k < ntasks s" "next_runnable_loop (ntasks s) s = (TaskSlot (rr_slot s k), s\<lparr>current_task_index := of_nat (rr_slot s k)\<rparr>)"
      "runnable s (rr_slot s k)" "\<forall>j < k. \<not> runnable s (rr_slot s j)" by blast
    have "rr_slot s k < ntasks s" using l by (simp add: rr_slot_def)
    from run [OF k(1) _ k(3) this d [OF k(4)]] show thesis using k(2) nz by (simp add: next_runnable_task_def)
  next
    case False
    have "0 < ntasks s" using l by simp
    from next_runnable_loop_spec [OF this l, of "ntasks s"] False
    obtain i where i: "i < ntasks s" "next_runnable_loop (ntasks s) s = (BootTask, s\<lparr>current_task_index := of_nat i\<rparr>)"
      "\<forall>j < ntasks s. \<not> runnable s (rr_slot s j)" by blast
    have "\<forall>i < ntasks s. \<not> runnable s i" using d [OF i(3)] rr_dist_slot(1) [OF l] by (auto simp: not_le [symmetric])
    from idle [OF i(1) _ this] show thesis using i(2) nz by (simp add: next_runnable_task_def)
  qed
qed

lemma rr_dist_less:
  fixes a i j k n :: nat
  assumes "a < n" "i < n" "k < n" "k < (if a < i then i - a - 1 else i + n - a - 1)"
    and "j = (if a + 1 + k < n then a + 1 + k else a + 1 + k - n)"
  shows "(if j < i then i - j - 1 else i + n - j - 1) < (if a < i then i - a - 1 else i + n - a - 1)"
  using assms by (auto split: if_splits)

text \<open>Every choice of another task brings a runnable task closer.\<close>

lemma next_runnable_task_progress:
  assumes idx: "current_task_index s < task_count s" and i: "i < ntasks s" "runnable s i"
    and n: "next_runnable_task s = (r, t)"
  shows "r = TaskSlot i \<or> rr_dist t i < rr_dist s i" "current_task_index t < task_count t" "task_count t = task_count s"
proof -
  have l: "unat (current_task_index s) < ntasks s" using idx by (simp add: word_less_nat_alt)
  note d = rr_dist_slot [OF l i(1)]
  from idx have "(r = TaskSlot i \<or> rr_dist t i < rr_dist s i) \<and> current_task_index t < task_count t \<and> task_count t = task_count s"
  proof (cases rule: next_runnable_task_cases)
    case (run k)
    have r: "r = TaskSlot (rr_slot s k)" and t: "t = s\<lparr>current_task_index := of_nat (rr_slot s k)\<rparr>" using run(2) n by simp_all
    have u: "unat (of_nat (rr_slot s k) :: u64) = rr_slot s k"
      using run(4) less_trans [OF run(4) unat_u64_less] by (simp add: unat_of_nat take_bit_nat_eq_self)
    have "r = TaskSlot i \<or> rr_dist t i < rr_dist s i"
    proof (cases "k = rr_dist s i")
      case True
      then show ?thesis using d(2) by (simp add: r)
    next
      case False
      then have "k < rr_dist s i" using run(5) i by (simp add: order_le_neq_trans)
      moreover have "rr_dist t i = (if rr_slot s k < i then i - rr_slot s k - 1 else i + ntasks s - rr_slot s k - 1)"
        by (simp add: t rr_dist_def u)
      ultimately show ?thesis
        using rr_dist_less [OF l i(1) run(1) _ rr_slot_eq [OF l run(1)]] unfolding rr_dist_def [of s] by simp
    qed
    then show ?thesis using run(4) by (simp add: t word_less_nat_alt u)
  next
    case (idle j)
    then show ?thesis using i by simp
  qed
  then show "r = TaskSlot i \<or> rr_dist t i < rr_dist s i" "current_task_index t < task_count t" "task_count t = task_count s"
    by blast+
qed

section \<open>The invariant is kept\<close>

lemma heap_has_upd [simp]:
  fixes s :: "'a sched_state_scheme"
  shows "heap_has (s\<lparr>tasks := a\<rparr>) P = heap_has s P" "heap_has (s\<lparr>boot_task := b\<rparr>) P = heap_has s P"
    "heap_has (s\<lparr>current_task := c\<rparr>) P = heap_has s P" "heap_has (s\<lparr>task_count := d\<rparr>) P = heap_has s P"
    "heap_has (s\<lparr>current_task_index := d\<rparr>) P = heap_has s P" "heap_has (s\<lparr>quantum_ticks := d\<rparr>) P = heap_has s P"
    "heap_has (s\<lparr>scheduler_tick_count := d\<rparr>) P = heap_has s P" "heap_has (s\<lparr>next_pid := d\<rparr>) P = heap_has s P"
    "heap_has (s\<lparr>scheduler_ready := e\<rparr>) P = heap_has s P" "heap_has (s\<lparr>pending_stack_free := f\<rparr>) P = heap_has s P"
    "heap_has (s\<lparr>frames := g\<rparr>) P = heap_has s P" "heap_has (s\<lparr>tss_rsp0 := d\<rparr>) P = heap_has s P"
    "heap_has (s\<lparr>cr3_reg := d\<rparr>) P = heap_has s P"
  by (rule heap_has_cong; simp)+

lemma table_ok_upd [simp]:
  "table_ok X (s\<lparr>boot_task := b\<rparr>) = table_ok X s" "table_ok X (s\<lparr>current_task := c\<rparr>) = table_ok X s"
  "table_ok X (s\<lparr>quantum_ticks := d\<rparr>) = table_ok X s" "table_ok X (s\<lparr>scheduler_tick_count := d\<rparr>) = table_ok X s"
  "table_ok X (s\<lparr>tss_rsp0 := d\<rparr>) = table_ok X s" "table_ok X (s\<lparr>cr3_reg := d\<rparr>) = table_ok X s"
  by (simp_all add: table_ok_def owned_stacks_def task_stacks_def)

lemma table_ok_same_sched:
  assumes "same_sched s t" "heap_has t (set (owned_stacks s))"
  shows "table_ok X s \<Longrightarrow> table_ok X t"
  using assms(2) by (simp add: table_ok_def owned_stacks_def task_stacks_def same_sched_fields [OF assms(1)])

lemma current_ok_same_sched:
  assumes "same_sched s t"
  shows "current_ok t = current_ok s"
  unfolding current_ok_def same_sched_fields [OF assms] ..

text \<open>Updating one task.\<close>

lemma upd_task_slot [simp]:
  "task_count (upd_task r f s) = task_count s" "current_task (upd_task r f s) = current_task s"
  "current_task_index (upd_task r f s) = current_task_index s" "pending_stack_free (upd_task r f s) = pending_stack_free s"
  "tss_rsp0 (upd_task r f s) = tss_rsp0 s" "cr3_reg (upd_task r f s) = cr3_reg s" "next_pid (upd_task r f s) = next_pid s"
  "kernel_cr3 (upd_task r f s) = kernel_cr3 s" "heap_has (upd_task r f s) P = heap_has s P"
  "length (tasks (upd_task r f s)) = length (tasks s)" "scheduler_tick_count (upd_task r f s) = scheduler_tick_count s"
  by (simp_all add: upd_task_def split: task_ref.split)

lemma tasks_upd_task: "tasks (upd_task (TaskSlot i) f s) = (tasks s)[i := f (tasks s ! i)]"
  by (simp add: upd_task_def)

lemma tasks_upd_boot [simp]: "tasks (upd_task BootTask f s) = tasks s"
  by (simp add: upd_task_def)

lemma boot_upd_slot [simp]: "boot_task (upd_task (TaskSlot i) f s) = boot_task s"
  by (simp add: upd_task_def)

lemma task_stacks_upd:
  assumes "t_stack (f (tasks s ! i)) = t_stack (tasks s ! i)" "i < length (tasks s)"
  shows "task_stacks (upd_task (TaskSlot i) f s) = task_stacks s"
proof -
  have "map t_stack ((tasks s)[i := f (tasks s ! i)]) = map t_stack (tasks s)"
    using assms by (simp add: map_update list_update_same_conv)
  then have "map t_stack (take n ((tasks s)[i := f (tasks s ! i)])) = map t_stack (take n (tasks s))" for n
    by (simp add: take_map [symmetric])
  then show ?thesis by (simp add: task_stacks_def tasks_upd_task)
qed

lemma table_ok_upd_task:
  assumes "table_ok X s" "i < ntasks s" "t_pid (f (tasks s ! i)) = t_pid (tasks s ! i)"
    "t_stack (f (tasks s ! i)) = t_stack (tasks s ! i)" "i \<notin> Y \<Longrightarrow> task_ok (f (tasks s ! i))" "X \<subseteq> insert i Y"
  shows "table_ok Y (upd_task (TaskSlot i) f s)"
proof -
  have l: "i < length (tasks s)" using assms(1,2) by (simp add: table_ok_def)
  have "owned_stacks (upd_task (TaskSlot i) f s) = owned_stacks s"
    by (simp add: owned_stacks_def task_stacks_upd [of f s i, OF assms(4) l])
  moreover have "\<forall>j < ntasks s. t_pid (tasks (upd_task (TaskSlot i) f s) ! j) = of_nat j + 1 \<and>
      (j \<notin> Y \<longrightarrow> task_ok (tasks (upd_task (TaskSlot i) f s) ! j))"
    using assms l by (auto simp: tasks_upd_task nth_list_update table_ok_def)
  ultimately show ?thesis using assms(1) unfolding table_ok_def by simp
qed

lemma table_ok_boot [simp]: "table_ok X (upd_task BootTask f s) = table_ok X s"
  by (simp add: upd_task_def)

text \<open>Switching.\<close>

definition switch_target :: "task_ref \<Rightarrow> 'a sched_state_scheme \<Rightarrow> bool" where
  "switch_target r s \<longleftrightarrow> (case r of BootTask \<Rightarrow> True | TaskSlot i \<Rightarrow> i < ntasks s \<and> runnable s i)"

lemma vmm_switch_fields [simp]:
  fixes s :: "'a sched_state_scheme"
  shows "tasks (vmm_switch_address_space s c) = tasks s" "boot_task (vmm_switch_address_space s c) = boot_task s"
    "task_count (vmm_switch_address_space s c) = task_count s" "current_task (vmm_switch_address_space s c) = current_task s"
    "current_task_index (vmm_switch_address_space s c) = current_task_index s"
    "tss_rsp0 (vmm_switch_address_space s c) = tss_rsp0 s" "table_ok X (vmm_switch_address_space s c) = table_ok X s"
    "cr3_reg (vmm_switch_address_space s c) AND PTE_ADDR_MASK = c AND PTE_ADDR_MASK"
    "pending_stack_free (vmm_switch_address_space s c) = pending_stack_free s"
    "kernel_cr3 (vmm_switch_address_space s c) = kernel_cr3 s"
  by (simp_all add: vmm_switch_address_space_def Let_def)

lemma switch_to_task_inv:
  assumes t: "table_ok X s" and r: "switch_target r s" and X: "\<And>i. r = TaskSlot i \<Longrightarrow> i \<notin> X"
    and cur: "current_task s = Some r \<Longrightarrow> current_ok s" and sw: "switch_to_task r s = (f, u)"
  shows "table_ok X u" "current_ok u" "current_task u = Some r" "f = t_frame (task_at r u)" "task_count u = task_count s"
    "\<And>i. \<not> runnable s i \<Longrightarrow> tasks u ! i = tasks s ! i" "kernel_cr3 u = kernel_cr3 s"
proof -
  let ?g = "\<lambda>task. task\<lparr>t_switches := t_switches task + 1\<rparr>"
  have "table_ok X u \<and> current_ok u \<and> current_task u = Some r \<and> f = t_frame (task_at r u) \<and> task_count u = task_count s \<and>
    (\<forall>i. \<not> runnable s i \<longrightarrow> tasks u ! i = tasks s ! i) \<and> kernel_cr3 u = kernel_cr3 s"
  proof (cases "current_task s = Some r")
    case True
    then show ?thesis using sw t cur by (auto simp: switch_to_task_def)
  next
    case False
    define v where "v = upd_task r ?g (s\<lparr>current_task := Some r\<rparr>)"
    have u: "u = switch_task_context (task_at r v) v" and f: "f = t_frame (task_at r u)"
      using sw False by (auto simp: switch_to_task_def v_def Let_def)
    have v: "table_ok X v \<and> task_count v = task_count s \<and> current_task v = Some r \<and> kernel_cr3 v = kernel_cr3 s \<and>
        (\<forall>i. \<not> runnable s i \<longrightarrow> tasks v ! i = tasks s ! i)"
    proof (cases r)
      case BootTask
      then show ?thesis using t by (simp add: v_def)
    next
      case (TaskSlot i)
      have i: "i < ntasks s" "runnable s i" "i \<notin> X" using r X TaskSlot by (simp_all add: switch_target_def)
      have ok: "task_ok (tasks s ! i)" using t i by (simp add: table_ok_def)
      have "table_ok X v" unfolding v_def TaskSlot
        using t i ok by (intro table_ok_upd_task [of X]) (auto simp: task_ok_def frame_in_def)
      moreover have "\<forall>j. \<not> runnable s j \<longrightarrow> tasks v ! j = tasks s ! j"
      proof (intro allI impI)
        fix j assume "\<not> runnable s j"
        then have "i \<noteq> j" using i(2) by auto
        then show "tasks v ! j = tasks s ! j" by (simp add: v_def TaskSlot tasks_upd_task)
      qed
      ultimately show ?thesis by (simp add: v_def)
    qed
    have "current_ok u"
    proof (cases r)
      case BootTask
      then show ?thesis using v by (simp add: current_ok_def u switch_task_context_def x86_64_set_kernel_stack_def task_at_def)
    next
      case (TaskSlot i)
      have i: "i < ntasks s" "runnable s i" using r TaskSlot by (simp_all add: switch_target_def)
      have "i < length (tasks s)" using t i(1) by (simp add: table_ok_def)
      then have "t_state (tasks v ! i) = TASK_RUNNABLE" using i(2) by (simp add: v_def TaskSlot tasks_upd_task runnable_def)
      then show ?thesis
        using v i(1) TaskSlot by (simp add: current_ok_def u switch_task_context_def x86_64_set_kernel_stack_def task_at_def)
    qed
    then show ?thesis using v f by (simp add: u switch_task_context_def x86_64_set_kernel_stack_def)
  qed
  then show "table_ok X u" "current_ok u" "current_task u = Some r" "f = t_frame (task_at r u)" "task_count u = task_count s"
    "\<And>i. \<not> runnable s i \<Longrightarrow> tasks u ! i = tasks s ! i" "kernel_cr3 u = kernel_cr3 s" by simp_all
qed

lemma table_ok_index:
  "table_ok X s \<Longrightarrow> i < ntasks s \<Longrightarrow> table_ok X (s\<lparr>current_task_index := of_nat i\<rparr>)"
proof -
  assume a: "table_ok X s" "i < ntasks s"
  then have "unat (of_nat i :: u64) = i" by (simp add: table_ok_def unat_of_nat take_bit_nat_eq_self)
  then have "(of_nat i :: u64) < task_count s" using a(2) by (simp add: word_less_nat_alt)
  then show ?thesis using a(1) by (simp add: table_ok_def owned_stacks_def task_stacks_def)
qed

lemma next_runnable_task_target:
  assumes "current_task_index s < task_count s"
  shows "\<exists>r i. next_runnable_task s = (r, s\<lparr>current_task_index := of_nat i\<rparr>) \<and> i < ntasks s \<and> switch_target r s"
  using assms
proof (cases rule: next_runnable_task_cases)
  case (run k)
  then show ?thesis by (intro exI [of _ "TaskSlot (rr_slot s k)"] exI [of _ "rr_slot s k"]) (simp add: switch_target_def)
next
  case (idle i)
  then show ?thesis by (intro exI [of _ BootTask] exI [of _ i]) (simp add: switch_target_def)
qed

text \<open>Choosing the next task and switching to it; \<open>X\<close> are stopped tasks.\<close>

lemma reschedule_inv:
  assumes t: "table_ok X s" and nz: "task_count s \<noteq> 0" and X: "\<forall>i \<in> X. \<not> runnable s i"
    and cur: "(\<exists>r. current_task s = Some r \<and> switch_target r s) \<longrightarrow> current_ok s" and rs: "reschedule s = (f, u)"
  shows "table_ok X u" "current_ok u" "task_count u = task_count s" "\<And>i. \<not> runnable s i \<Longrightarrow> tasks u ! i = tasks s ! i"
    "\<exists>r. current_task u = Some r \<and> switch_target r s \<and> f = t_frame (task_at r u)" "kernel_cr3 u = kernel_cr3 s"
proof -
  let ?s = "s\<lparr>quantum_ticks := 0\<rparr>"
  have idx: "current_task_index ?s < task_count ?s" using t nz by (auto simp: table_ok_def)
  have st: "switch_target r ?s = switch_target r s" for r by (cases r) (simp_all add: switch_target_def runnable_def)
  obtain r i where n: "next_runnable_task ?s = (r, ?s\<lparr>current_task_index := of_nat i\<rparr>)" "i < ntasks s" "switch_target r s"
    using next_runnable_task_target [OF idx] unfolding st by auto
  let ?n = "?s\<lparr>current_task_index := of_nat i\<rparr>"
  have run: "runnable ?n = runnable s" by (simp add: runnable_def fun_eq_iff)
  have tn: "table_ok X ?n" using table_ok_index [of X ?s i] t n(2) by simp
  have rn: "switch_target r ?n" using n(3) by (cases r) (simp_all add: switch_target_def run)
  have Xn: "r = TaskSlot j \<Longrightarrow> j \<notin> X" for j using n(3) X by (auto simp: switch_target_def)
  have cn: "current_task ?n = Some r \<Longrightarrow> current_ok ?n" using cur n(3) by (cases r) (auto simp: current_ok_def)
  have "switch_to_task r ?n = (f, u)" using rs n(1) by (simp add: reschedule_def)
  note sw = switch_to_task_inv [OF tn rn Xn cn this, unfolded run]
  show "table_ok X u" by (rule sw(1))
  show "current_ok u" by (rule sw(2))
  show "task_count u = task_count s" "kernel_cr3 u = kernel_cr3 s" using sw(5,7) by simp_all
  show "\<not> runnable s i \<Longrightarrow> tasks u ! i = tasks s ! i" for i using sw(6) by simp
  show "\<exists>r. current_task u = Some r \<and> switch_target r s \<and> f = t_frame (task_at r u)" using sw(3,4) n(3) by blast
qed

text \<open>Giving the stack of a stopped task to the queue.\<close>

lemma task_stacks_split:
  assumes "i < ntasks s" "ntasks s \<le> length (tasks s)"
  obtains A B where "take (ntasks s) (tasks s) = A @ (tasks s ! i) # B" "\<And>t. take (ntasks s) ((tasks s)[i := t]) = A @ t # B"
proof
  let ?l = "take (ntasks s) (tasks s)"
  have i: "i < length ?l" "?l ! i = tasks s ! i" using assms by simp_all
  show "?l = take i ?l @ (tasks s ! i) # drop (Suc i) ?l" using id_take_nth_drop [OF i(1)] i(2) by simp
  show "take (ntasks s) ((tasks s)[i := t]) = take i ?l @ t # drop (Suc i) ?l" for t
    using upd_conv_take_nth_drop [OF i(1), of t] by (simp add: take_update_swap)
qed

lemma queue_stack_inv:
  assumes t: "table_ok {i} s" and i: "i < ntasks s" and p: "t_stack (tasks s ! i) \<noteq> 0"
    and st: "t_state (tasks s ! i) = TASK_STOPPED" "t_resources_released (tasks s ! i)"
  defines "u \<equiv> upd_task (TaskSlot i) (\<lambda>task. task\<lparr>t_stack := 0, t_kernel_stack_top := 0, t_frame := 0\<rparr>)
    (s\<lparr>pending_stack_free := pending_stack_free s @ [t_stack (tasks s ! i)]\<rparr>)"
  shows "table_ok {} u" "length (pending_stack_free s) < 8"
proof -
  let ?p = "t_stack (tasks s ! i)"
  have l: "length (tasks s) = 8" "ntasks s \<le> 8" using t by (simp_all add: table_ok_def)
  obtain A B where AB: "take (ntasks s) (tasks s) = A @ (tasks s ! i) # B" "\<And>t. take (ntasks s) ((tasks s)[i := t]) = A @ t # B"
    using task_stacks_split [OF i] l by metis
  let ?f = "filter (\<lambda>p. p \<noteq> 0) \<circ> map t_stack"
  have s: "owned_stacks s = ?f A @ ?p # ?f B @ pending_stack_free s"
    using p by (simp add: owned_stacks_def task_stacks_def AB(1))
  have u: "owned_stacks u = ?f A @ ?f B @ pending_stack_free s @ [?p]"
    by (simp add: owned_stacks_def task_stacks_def u_def tasks_upd_task AB(2))
  have o: "distinct (owned_stacks s)" "length (owned_stacks s) \<le> ntasks s" "heap_has s (set (owned_stacks s))"
    using t by (simp_all add: table_ok_def)
  show "length (pending_stack_free s) < 8" using o(2) l unfolding s by simp
  have "set (owned_stacks u) = set (owned_stacks s)" unfolding s u by auto
  then have h: "heap_has u (set (owned_stacks u))" using o(3) by (simp add: u_def)
  have "distinct (owned_stacks u)" "length (owned_stacks u) \<le> ntasks s" using o(1,2) unfolding s u by auto
  moreover have "\<forall>j < ntasks s. t_pid (tasks u ! j) = of_nat j + 1 \<and> task_ok (tasks u ! j)"
    using t i l st by (auto simp: u_def tasks_upd_task nth_list_update table_ok_def task_ok_def)
  moreover have "task_count u = task_count s" "current_task_index u = current_task_index s" "next_pid u = next_pid s" "length (tasks u) = 8"
    using l by (simp_all add: u_def)
  ultimately show "table_ok {} u" using t h by (simp add: table_ok_def)
qed

lemma table_ok_done: "table_ok {i} s \<Longrightarrow> task_ok (tasks s ! i) \<Longrightarrow> table_ok {} s"
  unfolding table_ok_def by blast

lemma current_ok_upd_task:
  "current_ok s \<Longrightarrow> current_task s \<noteq> Some (TaskSlot i) \<Longrightarrow> current_ok (upd_task (TaskSlot i) f s)"
  by (auto simp: current_ok_def tasks_upd_task split: option.splits task_ref.splits)

text \<open>The state in which the address space is torn down, and the state after it.\<close>

definition reset_files :: "nat \<Rightarrow> 'a sched_state_scheme \<Rightarrow> 'a sched_state_scheme" where
  "reset_files i s = upd_task (TaskSlot i) (\<lambda>task. task\<lparr>t_files := map reset_task_file (t_files task),
      t_open_files := map reset_task_open_file (t_open_files task)\<rparr>) s"

definition mark_released :: "nat \<Rightarrow> 'a sched_state_scheme \<Rightarrow> 'a sched_state_scheme" where
  "mark_released i s = upd_task (TaskSlot i) (\<lambda>task. task\<lparr>t_cr3 := kernel_cr3 s, t_resources_released := True\<rparr>) s"

lemma release_eq:
  assumes "\<not> t_resources_released (tasks s ! i)" "i < length (tasks s)"
  shows "release_task_resources (TaskSlot i) s =
    (if t_cr3 (tasks s ! i) = 0 \<or> t_cr3 (tasks s ! i) = kernel_cr3 s
     then Inr (upd_task (TaskSlot i) (\<lambda>task. task\<lparr>t_resources_released := True\<rparr>) s)
     else kbind (vmm_destroy_user_address_space (reset_files i s) (t_cr3 (tasks s ! i))) (\<lambda>(n, v).
       let v = mark_released i v in
       if t_stack (tasks s ! i) \<noteq> 0 then
         if length (pending_stack_free v) \<ge> MAX_PENDING_STACK_FREE then Inl ''pending stack free queue full''
         else Inr (upd_task (TaskSlot i) (\<lambda>task. task\<lparr>t_stack := 0, t_kernel_stack_top := 0, t_frame := 0\<rparr>)
                (v\<lparr>pending_stack_free := pending_stack_free v @ [t_stack (tasks s ! i)]\<rparr>))
       else Inr v))"
  using assms by (simp add: release_task_resources_def Let_def task_at_def reset_files_def mark_released_def vmm_kernel_address_space_def)

lemma mark_released_inv:
  assumes t: "table_ok {i} s" and c: "current_ok s" "current_task s \<noteq> Some (TaskSlot i)" and i: "i < ntasks s"
    and d: "vmm_destroy_user_address_space (reset_files i s) c3 = Inr (n, v)"
  shows "table_ok {i} (mark_released i v)" "current_ok (mark_released i v)" "current_task (mark_released i v) = current_task s"
    "task_count (mark_released i v) = task_count s" "boot_task (mark_released i v) = boot_task s"
    "\<And>j. j \<noteq> i \<Longrightarrow> tasks (mark_released i v) ! j = tasks s ! j"
    "t_stack (tasks (mark_released i v) ! i) = t_stack (tasks s ! i)" "t_state (tasks (mark_released i v) ! i) = t_state (tasks s ! i)"
    "t_resources_released (tasks (mark_released i v) ! i)"
proof -
  have l: "i < length (tasks s)" using t i by (simp add: table_ok_def)
  have s1: "table_ok {i} (reset_files i s)" unfolding reset_files_def using t i by (intro table_ok_upd_task [of "{i}"]) simp_all
  have ss: "same_sched (reset_files i s) v" by (rule vmm_destroy_same_sched(1) [OF d])
  note f = same_sched_fields [OF ss]
  have "heap_has v (set (owned_stacks (reset_files i s)))" using vmm_destroy_same_sched(2) [OF d] s1 by (simp add: table_ok_def)
  then have v: "table_ok {i} v" using table_ok_same_sched [OF ss] s1 by blast
  have iv: "i < ntasks v" using f(4) i by (simp add: reset_files_def)
  show "table_ok {i} (mark_released i v)" unfolding mark_released_def using v iv by (intro table_ok_upd_task [of "{i}"]) simp_all
  have "current_ok v" using current_ok_same_sched [OF ss] current_ok_upd_task [OF c] by (simp add: reset_files_def)
  then show "current_ok (mark_released i v)" unfolding mark_released_def
    using c(2) f(3) by (intro current_ok_upd_task) (simp_all add: reset_files_def)
  show "current_task (mark_released i v) = current_task s" "task_count (mark_released i v) = task_count s"
    "boot_task (mark_released i v) = boot_task s" using f by (simp_all add: mark_released_def reset_files_def)
  show "tasks (mark_released i v) ! j = tasks s ! j" if "j \<noteq> i" for j
    using that f(1) by (simp add: mark_released_def reset_files_def tasks_upd_task)
  show "t_stack (tasks (mark_released i v) ! i) = t_stack (tasks s ! i)" "t_state (tasks (mark_released i v) ! i) = t_state (tasks s ! i)"
    "t_resources_released (tasks (mark_released i v) ! i)"
    using f(1) l by (simp_all add: mark_released_def reset_files_def tasks_upd_task)
qed

lemma release_inv:
  assumes t: "table_ok {i} s" and c: "current_ok s" "current_task s \<noteq> Some (TaskSlot i)" and i: "i < ntasks s"
    and st: "t_state (tasks s ! i) = TASK_STOPPED" "\<not> t_resources_released (tasks s ! i)"
  shows "release_task_resources (TaskSlot i) s = Inr u \<Longrightarrow> table_ok {} u \<and> current_ok u \<and> current_task u = current_task s \<and>
      task_count u = task_count s \<and> (\<forall>j. j \<noteq> i \<longrightarrow> tasks u ! j = tasks s ! j) \<and> boot_task u = boot_task s"
    and "release_task_resources (TaskSlot i) s = Inl e \<Longrightarrow>
      vmm_destroy_user_address_space (reset_files i s) (t_cr3 (tasks s ! i)) = Inl e"
proof -
  have l: "i < length (tasks s)" using t i by (simp add: table_ok_def)
  note rel = release_eq [OF st(2) l]
  have q: "length (pending_stack_free (mark_released i v)) < 8" "table_ok {} (upd_task (TaskSlot i)
      (\<lambda>task. task\<lparr>t_stack := 0, t_kernel_stack_top := 0, t_frame := 0\<rparr>) ((mark_released i v)\<lparr>pending_stack_free :=
         pending_stack_free (mark_released i v) @ [t_stack (tasks s ! i)]\<rparr>))"
    if d: "vmm_destroy_user_address_space (reset_files i s) c3 = Inr (n, v)" "t_stack (tasks s ! i) \<noteq> 0" for c3 n v
  proof -
    note m = mark_released_inv [OF t c i d(1)]
    note qs = queue_stack_inv [OF m(1)]
    show "length (pending_stack_free (mark_released i v)) < 8" using qs(2) m d(2) i st(1) by simp
    show "table_ok {} (upd_task (TaskSlot i) (\<lambda>task. task\<lparr>t_stack := 0, t_kernel_stack_top := 0, t_frame := 0\<rparr>)
        ((mark_released i v)\<lparr>pending_stack_free := pending_stack_free (mark_released i v) @ [t_stack (tasks s ! i)]\<rparr>))"
      using qs(1) m d(2) i st(1) by simp
  qed
  show "vmm_destroy_user_address_space (reset_files i s) (t_cr3 (tasks s ! i)) = Inl e" if "release_task_resources (TaskSlot i) s = Inl e"
    using that q unfolding rel by (auto simp: kbind_eq_Inl Let_def not_less [symmetric] split: if_splits)
  assume r: "release_task_resources (TaskSlot i) s = Inr u"
  show "table_ok {} u \<and> current_ok u \<and> current_task u = current_task s \<and>
      task_count u = task_count s \<and> (\<forall>j. j \<noteq> i \<longrightarrow> tasks u ! j = tasks s ! j) \<and> boot_task u = boot_task s"
  proof (cases "t_cr3 (tasks s ! i) = 0 \<or> t_cr3 (tasks s ! i) = kernel_cr3 s")
    case True
    then have u: "u = upd_task (TaskSlot i) (\<lambda>task. task\<lparr>t_resources_released := True\<rparr>) s" using r by (simp add: rel)
    have "table_ok {} u" unfolding u using t i st(1) by (intro table_ok_upd_task [of "{i}"]) (simp_all add: task_ok_def)
    then show ?thesis using current_ok_upd_task [OF c] by (simp add: u tasks_upd_task)
  next
    case False
    then obtain n v where d: "vmm_destroy_user_address_space (reset_files i s) (t_cr3 (tasks s ! i)) = Inr (n, v)"
      using r unfolding rel by auto
    note m = mark_released_inv [OF t c i d]
    show ?thesis
    proof (cases "t_stack (tasks s ! i) = 0")
      case True
      then have u: "u = mark_released i v" using r False d by (simp add: rel Let_def)
      have "table_ok {} u" unfolding u using m st(1) by (intro table_ok_done [OF m(1)]) (simp add: task_ok_def)
      then show ?thesis using m by (simp add: u)
    next
      case nz: False
      let ?w = "(mark_released i v)\<lparr>pending_stack_free := pending_stack_free (mark_released i v) @ [t_stack (tasks s ! i)]\<rparr>"
      have u: "u = upd_task (TaskSlot i) (\<lambda>task. task\<lparr>t_stack := 0, t_kernel_stack_top := 0, t_frame := 0\<rparr>) ?w"
        using r False d nz q(1) [OF d nz] by (simp add: rel Let_def)
      have "current_ok ?w" using m(2) by (simp add: current_ok_def split: option.splits task_ref.splits)
      then have "current_ok u" unfolding u using m(3) c(2) by (intro current_ok_upd_task) simp_all
      then show ?thesis using q(2) [OF d nz] m by (simp add: u tasks_upd_task)
    qed
  qed
qed

text \<open>Freeing the stacks in the queue always succeeds.\<close>

lemma reclaim_stacks_same: "reclaim_stacks ps s = Inr t \<Longrightarrow>
    same_sched (s\<lparr>pending_stack_free := pending_stack_free t\<rparr>) t \<and> pending_stack_free t = (if ps = [] then pending_stack_free s else [])"
proof (induction ps arbitrary: s)
  case Nil
  then show ?case by (simp add: same_sched_def)
next
  case (Cons p ps)
  then obtain v where v: "kfree (s\<lparr>pending_stack_free := rev ps\<rparr>) p = Inr v" "reclaim_stacks ps v = Inr t" by auto
  have vs: "same_sched (s\<lparr>pending_stack_free := rev ps\<rparr>) v" by (rule kfree_same_sched [OF v(1)])
  note ih = Cons.IH [OF v(2)]
  have "pending_stack_free t = []" using ih same_sched_fields(10) [OF vs] by simp
  moreover have "same_sched (s\<lparr>pending_stack_free := x\<rparr>) (v\<lparr>pending_stack_free := x\<rparr>)" for x
    using vs by (cases s; cases v) (auto simp: same_sched_def)
  ultimately show ?case using ih by (auto simp: same_sched_def)
qed

lemma reclaim_inv:
  assumes t: "table_ok X s"
  shows "\<exists>u. reclaim_pending_stacks s = Inr u \<and> table_ok X u \<and> same_sched (s\<lparr>pending_stack_free := []\<rparr>) u"
proof -
  let ?ps = "rev (pending_stack_free s)"
  have o: "distinct (owned_stacks s)" "heap_has s (set (owned_stacks s))" using t by (simp_all add: table_ok_def)
  have "\<exists>u. reclaim_stacks ?ps s = Inr u \<and> heap_has u (set (task_stacks s))"
  proof (rule stacks.put_back_all [where upd = "\<lambda>ps s. s\<lparr>pending_stack_free := rev ps\<rparr>"])
    show "heap_has s (set ?ps \<union> set (task_stacks s))" using o(2) by (simp add: owned_stacks_def Un_commute)
    show "distinct ?ps" "set ?ps \<inter> set (task_stacks s) = {}" using o(1) by (auto simp: owned_stacks_def)
  qed simp_all
  then obtain u where u: "reclaim_stacks ?ps s = Inr u" "heap_has u (set (task_stacks s))" by blast
  have p: "pending_stack_free u = []" "same_sched (s\<lparr>pending_stack_free := []\<rparr>) u" using reclaim_stacks_same [OF u(1)] by (auto split: if_splits)
  note f = same_sched_fields [OF p(2)]
  have ts: "owned_stacks u = task_stacks s" by (simp add: owned_stacks_def task_stacks_def f)
  have "table_ok X u" using t u(2) o(1) unfolding table_ok_def ts by (simp add: f owned_stacks_def)
  then show ?thesis using u(1) p(2) by (simp add: reclaim_pending_stacks_def)
qed

text \<open>Waking tasks.\<close>

lemma upd_tasks_nth:
  "i < length (tasks s) \<Longrightarrow> tasks (upd_tasks f s) ! i = (if i < ntasks s then f (tasks s ! i) else tasks s ! i)"
  by (auto simp: upd_tasks_def nth_append)

lemma upd_tasks_inv:
  assumes f: "\<And>t. t_pid (f t) = t_pid t \<and> t_stack (f t) = t_stack t \<and> (task_ok t \<longrightarrow> task_ok (f t)) \<and>
      t_cr3 (f t) = t_cr3 t \<and> t_kernel_stack_top (f t) = t_kernel_stack_top t \<and> (t_state t = TASK_RUNNABLE \<longrightarrow> t_state (f t) = TASK_RUNNABLE)"
  shows "table_ok X s \<Longrightarrow> table_ok X (upd_tasks f s)" "table_ok X s \<Longrightarrow> current_ok s \<Longrightarrow> current_ok (upd_tasks f s)"
proof -
  assume t: "table_ok X s"
  have l: "length (tasks s) = 8" "ntasks s \<le> 8" using t by (simp_all add: table_ok_def)
  have n: "tasks (upd_tasks f s) ! i = f (tasks s ! i)" if "i < ntasks s" for i using that l by (simp add: upd_tasks_nth)
  have "map t_stack (take (ntasks s) (tasks (upd_tasks f s))) = map t_stack (take (ntasks s) (tasks s))"
    using l f by (simp add: upd_tasks_def)
  then have o: "owned_stacks (upd_tasks f s) = owned_stacks s" by (simp add: owned_stacks_def task_stacks_def upd_tasks_def)
  show "table_ok X (upd_tasks f s)"
    using t n f unfolding table_ok_def o by (simp add: upd_tasks_def)
  show "current_ok (upd_tasks f s)" if "current_ok s"
    using that n f by (auto simp: current_ok_def upd_tasks_def split: option.splits task_ref.splits)
qed

lemma wake_sleeping_inv:
  "table_ok X s \<Longrightarrow> table_ok X (wake_sleeping_tasks s)" "table_ok X s \<Longrightarrow> current_ok s \<Longrightarrow> current_ok (wake_sleeping_tasks s)"
  unfolding wake_sleeping_tasks_def by (rule upd_tasks_inv; auto simp: task_ok_def frame_in_def)+

lemma wake_input_inv: "sched_inv s \<Longrightarrow> sched_inv (scheduler_wake_input_waiters s)"
  unfolding sched_inv_def scheduler_wake_input_waiters_def
  by (intro conjI; elim conjE; rule upd_tasks_inv) (auto simp: task_ok_def frame_in_def)

text \<open>The frame of an event lies in the kernel stack of the task it interrupts.\<close>

definition frame_ok :: "'a sched_state_scheme \<Rightarrow> u64 \<Rightarrow> bool" where
  "frame_ok s f \<longleftrightarrow> (case current_task s of Some (TaskSlot i) \<Rightarrow> frame_in (tasks s ! i) f | _ \<Rightarrow> True)"

lemma current_slot:
  assumes "sched_inv s" "\<not> no_current_task s"
  obtains i where "current_task s = Some (TaskSlot i)" "i < ntasks s" "runnable s i" "task_count s \<noteq> 0"
    "task_ok (tasks s ! i)" "i < length (tasks s)"
proof -
  obtain i where i: "current_task s = Some (TaskSlot i)"
    using assms(2) by (auto simp: no_current_task_def) (metis option.exhaust task_ref.exhaust)
  then have "i < ntasks s" "runnable s i" using assms(1) by (simp_all add: sched_inv_def current_ok_def runnable_def)
  moreover from this(1) have "task_count s \<noteq> 0" by auto
  ultimately show thesis using that [OF i] assms(1) by (simp add: sched_inv_def table_ok_def)
qed

lemma frame_current:
  assumes "sched_inv u" "\<exists>r. current_task u = Some r \<and> f = t_frame (task_at r u)"
  shows "frame_ok u f"
proof -
  have "frame_in (tasks u ! i) (t_frame (tasks u ! i))" if "current_task u = Some (TaskSlot i)" for i
    using assms(1) that by (auto simp: sched_inv_def current_ok_def table_ok_def task_ok_def)
  then show ?thesis using assms(2) by (auto simp: frame_ok_def task_at_def split: task_ref.split)
qed

lemma sched_inv_switch:
  assumes "table_ok {} s" "task_count s \<noteq> 0" "(\<exists>r. current_task s = Some r \<and> switch_target r s) \<longrightarrow> current_ok s" "reschedule s = (f, u)"
  shows "sched_inv u" "frame_ok u f"
proof -
  have "\<forall>i \<in> {}. \<not> runnable s i" by simp
  note r = reschedule_inv [OF assms(1,2) this assms(3,4)]
  show "sched_inv u" using r(1,2) by (simp add: sched_inv_def)
  then show "frame_ok u f" using r(5) by (intro frame_current) auto
qed

text \<open>Events that suspend the current task: its frame is saved and its state set.\<close>

lemma suspend_inv:
  assumes s: "sched_inv s" and c: "\<not> no_current_task s" and f: "frame_ok s frame"
    and g: "\<And>t. t_state t = TASK_RUNNABLE \<Longrightarrow> t_pid (g t) = t_pid t \<and> t_stack (g t) = t_stack t \<and>
      t_kernel_stack_top (g t) = t_kernel_stack_top t \<and> t_cr3 (g t) = t_cr3 t \<and> t_frame (g t) = frame \<and>
      t_resources_released (g t) = t_resources_released t \<and> t_state (g t) \<noteq> TASK_STOPPED"
    and r: "reschedule (upd_task (current_ref s) g s) = (h, u)"
  shows "sched_inv u \<and> frame_ok u h"
proof -
  obtain i where i: "current_task s = Some (TaskSlot i)" "i < ntasks s" "runnable s i" "task_count s \<noteq> 0" "task_ok (tasks s ! i)"
    "i < length (tasks s)" by (rule current_slot [OF s c])
  let ?t = "upd_task (TaskSlot i) g s"
  have fr: "frame_in (tasks s ! i) frame" using f i(1) by (simp add: frame_ok_def)
  note gi = g [of "tasks s ! i", OF i(3) [unfolded runnable_def]]
  have "task_ok (g (tasks s ! i))" using i(3,5) fr gi by (simp add: task_ok_def runnable_def frame_in_def)
  then have t: "table_ok {} ?t" using s i(2) gi by (intro table_ok_upd_task [of "{}"]) (simp_all add: sched_inv_def)
  have "current_ok ?t" if "runnable ?t i"
    using s that i gi by (simp add: sched_inv_def current_ok_def tasks_upd_task runnable_def)
  then have cur: "(\<exists>r. current_task ?t = Some r \<and> switch_target r ?t) \<longrightarrow> current_ok ?t" using i(1) by (auto simp: switch_target_def)
  have nz: "task_count ?t \<noteq> 0" using i(4) by simp
  have "reschedule ?t = (h, u)" using r i(1) by simp
  then show ?thesis using sched_inv_switch [OF t nz cur] by blast
qed

lemma yield_inv:
  assumes "sched_inv s" "frame_ok s frame" "scheduler_yield_current frame s = (h, u)"
  shows "sched_inv u \<and> frame_ok u h"
proof (cases "no_current_task s")
  case False
  then have "reschedule (upd_task (current_ref s) (\<lambda>task. task\<lparr>t_frame := frame\<rparr>) s) = (h, u)"
    using assms(3) by (simp add: scheduler_yield_current_def)
  from suspend_inv [OF assms(1) False assms(2) _ this] show ?thesis by simp
qed (use assms in \<open>simp add: scheduler_yield_current_def\<close>)

lemma sleep_inv:
  assumes "sched_inv s" "frame_ok s frame" "scheduler_sleep_current frame ticks s = (h, u)"
  shows "sched_inv u \<and> frame_ok u h"
proof (cases "ticks = 0 \<or> no_current_task s")
  case True
  then show ?thesis using assms yield_inv [OF assms(1,2)] by (auto simp: scheduler_sleep_current_def split: if_splits)
next
  case False
  then have "reschedule (upd_task (current_ref s) (\<lambda>task. task\<lparr>t_frame := frame, t_state := TASK_SLEEPING,
      t_wake_tick := scheduler_tick_count s + ticks\<rparr>) s) = (h, u)"
    using assms(3) by (simp add: scheduler_sleep_current_def)
  from suspend_inv [OF assms(1) _ assms(2) _ this] False show ?thesis by simp
qed

lemma wait_input_inv:
  assumes "sched_inv s" "frame_ok s frame" "scheduler_wait_current_for_input frame s = (h, u)"
  shows "sched_inv u \<and> frame_ok u h"
proof (cases "no_current_task s")
  case False
  then have "reschedule (upd_task (current_ref s) (\<lambda>task. task\<lparr>t_frame := frame, t_state := TASK_WAITING_INPUT\<rparr>) s) = (h, u)"
    using assms(3) by (simp add: scheduler_wait_current_for_input_def)
  from suspend_inv [OF assms(1) False assms(2) _ this] show ?thesis by simp
qed (use assms in \<open>simp add: scheduler_wait_current_for_input_def\<close>)

text \<open>Stopping the current task; a failure can only come from the teardown of its page tables.\<close>

lemma stop_inv:
  fixes s :: "'a sched_state_scheme"
  assumes s: "sched_inv s" and c: "\<not> no_current_task s"
  shows "stop_current frame status s = Inr (h, u) \<Longrightarrow> sched_inv u \<and> frame_ok u h"
    "stop_current frame status s = Inl e \<Longrightarrow> \<exists>v. vmm_destroy_user_address_space (v :: 'a sched_state_scheme) (t_cr3 (task_at (current_ref s) s)) = Inl e"
proof -
  obtain i where i: "current_task s = Some (TaskSlot i)" "i < ntasks s" "runnable s i" "task_count s \<noteq> 0" "task_ok (tasks s ! i)"
    "i < length (tasks s)" by (rule current_slot [OF s c])
  define t where "t = upd_task (TaskSlot i) (\<lambda>task. task\<lparr>t_frame := frame, t_state := TASK_STOPPED, t_exit_status := status\<rparr>) s"
  obtain h' w where w: "reschedule t = (h', w)" by (cases "reschedule t")
  have tt: "table_ok {i} t" unfolding t_def using s i(2) by (intro table_ok_upd_task [of "{}"]) (simp_all add: sched_inv_def)
  have ti: "t_state (tasks t ! i) = TASK_STOPPED" "\<not> t_resources_released (tasks t ! i)" "t_cr3 (tasks t ! i) = t_cr3 (tasks s ! i)"
    using i(3,5,6) by (simp_all add: t_def tasks_upd_task task_ok_def runnable_def split: if_splits)
  have nr: "\<not> runnable t i" using ti(1) by (simp add: runnable_def)
  have "task_count t \<noteq> 0" "\<forall>j \<in> {i}. \<not> runnable t j" using i(4) nr by (simp_all add: t_def)
  moreover have "(\<exists>r. current_task t = Some r \<and> switch_target r t) \<longrightarrow> current_ok t" using i(1) nr by (auto simp: t_def switch_target_def)
  ultimately have r: "table_ok {i} w" "current_ok w" "task_count w = task_count t" "\<And>j. \<not> runnable t j \<Longrightarrow> tasks w ! j = tasks t ! j"
    "\<exists>r. current_task w = Some r \<and> switch_target r t \<and> h' = t_frame (task_at r w)"
    using reschedule_inv [OF tt _ _ _ w] by blast+
  have wi: "tasks w ! i = tasks t ! i" by (rule r(4) [OF nr])
  have cw: "current_task w \<noteq> Some (TaskSlot i)" using r(5) nr by (auto simp: switch_target_def)
  have iw: "i < ntasks w" using r(3) i(2) by (simp add: t_def)
  have stop: "stop_current frame status s = kbind (release_task_resources (TaskSlot i) w) (\<lambda>s. Inr (h', s))"
    using w i(1) by (simp add: stop_current_def t_def Let_def)
  note rel = release_inv [OF r(1,2) cw iw, unfolded wi, OF ti(1,2)]
  show "\<exists>v. vmm_destroy_user_address_space (v :: 'a sched_state_scheme) (t_cr3 (task_at (current_ref s) s)) = Inl e"
    if "stop_current frame status s = Inl e"
    using that rel(2) i(1) ti(3) unfolding stop kbind_eq_Inl by (auto simp: task_at_def)
  assume "stop_current frame status s = Inr (h, u)"
  then have u: "release_task_resources (TaskSlot i) w = Inr u" "h = h'" unfolding stop by auto
  note ru = rel(1) [OF u(1)]
  have inv: "sched_inv u" using ru by (simp add: sched_inv_def)
  obtain r where rr: "current_task w = Some r" "h' = t_frame (task_at r w)" using r(5) by blast
  have "task_at r u = task_at r w" using ru rr(1) cw by (cases r) (auto simp: task_at_def)
  then show "sched_inv u \<and> frame_ok u h" using inv rr ru u(2) by (intro conjI frame_current) auto
qed

lemma tick_inv:
  assumes s: "sched_inv s" and f: "frame_ok s frame"
  shows "\<exists>h u. scheduler_on_timer_tick frame s = Inr (h, u) \<and> sched_inv u \<and> frame_ok u h"
proof (cases "\<not> scheduler_ready s \<or> task_count s = 0")
  case True
  then show ?thesis using s f by (simp add: scheduler_on_timer_tick_def)
next
  case False
  define a where "a = (ensure_boot_task frame s)\<lparr>scheduler_tick_count := scheduler_tick_count (ensure_boot_task frame s) + 1\<rparr>"
  have nz: "task_count s \<noteq> 0" using False by simp
  have idx: "task_count s - 1 < task_count s" using nz by (simp add: word_less_nat_alt unat_minus_one unat_gt_0)
  have a: "table_ok {} a" "current_ok a" "current_task a \<noteq> None" "frame_ok a frame" "task_count a = task_count s"
  proof -
    show "table_ok {} a" using s idx
      by (simp add: a_def ensure_boot_task_def sched_inv_def table_ok_def owned_stacks_def task_stacks_def)
    show "current_ok a" using s by (auto simp: a_def ensure_boot_task_def sched_inv_def current_ok_def vmm_current_address_space_def split: option.splits task_ref.splits)
    show "current_task a \<noteq> None" "frame_ok a frame" "task_count a = task_count s"
      using f by (auto simp: a_def ensure_boot_task_def frame_ok_def split: option.splits task_ref.splits)
  qed
  obtain b where b: "reclaim_pending_stacks a = Inr b" "table_ok {} b" "same_sched (a\<lparr>pending_stack_free := []\<rparr>) b"
    using reclaim_inv [OF a(1)] by blast
  note bf = same_sched_fields [OF b(3)]
  have cb: "current_ok b" using current_ok_same_sched [OF b(3)] a(2) by (simp add: current_ok_def split: option.splits task_ref.splits)
  define c where "c = wake_sleeping_tasks b"
  have c: "table_ok {} c" "current_ok c" using wake_sleeping_inv [OF b(2)] cb by (simp_all add: c_def)
  have cf: "current_task c = current_task a" "task_count c = task_count s" using bf a(5) by (simp_all add: c_def wake_sleeping_tasks_def upd_tasks_def)
  have stk: "t_stack (tasks c ! i) = t_stack (tasks a ! i)" if "i < ntasks s" for i
    using that b(2) bf a(5) by (simp add: c_def wake_sleeping_tasks_def upd_tasks_nth table_ok_def)
  define d where "d = (upd_task (current_ref c) (\<lambda>task. task\<lparr>t_frame := frame\<rparr>) c)\<lparr>quantum_ticks :=
      quantum_ticks (upd_task (current_ref c) (\<lambda>task. task\<lparr>t_frame := frame\<rparr>) c) + 1\<rparr>"
  have tick: "scheduler_on_timer_tick frame s = (if quantum_ticks d < TASK_QUANTUM_TICKS then Inr (frame, d) else Inr (reschedule d))"
    using False b(1) by (simp add: scheduler_on_timer_tick_def Let_def a_def c_def d_def)
  have d: "table_ok {} d \<and> current_ok d \<and> frame_ok d frame \<and> task_count d = task_count s"
  proof (cases "current_ref c")
    case BootTask
    then have "current_task c = Some BootTask" using cf(1) a(3) by auto
    then show ?thesis using c cf by (simp add: d_def current_ok_def frame_ok_def upd_task_def)
  next
    case (TaskSlot i)
    then have ci: "current_task c = Some (TaskSlot i)" using cf(1) a(3) by auto
    have i: "i < ntasks c" "runnable c i" using c(2) ci by (simp_all add: current_ok_def runnable_def)
    have l: "i < length (tasks c)" using c(1) i(1) by (simp add: table_ok_def)
    have fi: "frame_in (tasks c ! i) frame" using a(4) ci cf stk i(1) by (simp add: frame_ok_def frame_in_def)
    have ok: "task_ok (tasks c ! i)" using c(1) i(1) by (simp add: table_ok_def)
    have "table_ok {} (upd_task (TaskSlot i) (\<lambda>task. task\<lparr>t_frame := frame\<rparr>) c)"
      using c(1) i ok fi by (intro table_ok_upd_task [of "{}"]) (auto simp: task_ok_def runnable_def frame_in_def)
    then show ?thesis using c(2) ci cf fi l by (simp add: d_def current_ok_def frame_ok_def tasks_upd_task frame_in_def)
  qed
  show ?thesis
  proof (cases "quantum_ticks d < TASK_QUANTUM_TICKS")
    case True
    then show ?thesis using d by (simp add: tick sched_inv_def)
  next
    case False
    obtain h u where hu: "reschedule d = (h, u)" by (cases "reschedule d")
    have "sched_inv u" "frame_ok u h" using sched_inv_switch [OF _ _ _ hu] d nz by auto
    then show ?thesis using False hu by (simp add: tick)
  qed
qed

lemma create_inv:
  assumes s: "sched_inv s" and r: "create_task name fill frame_at s = Some (Inr (c, u))"
    and fill: "\<And>t v. t_pid (fill t v) = t_pid t \<and> t_stack (fill t v) = t_stack t \<and> t_state (fill t v) = t_state t \<and>
      t_resources_released (fill t v) = t_resources_released t"
  shows "sched_inv u"
proof (cases "task_count s \<ge> of_nat MAX_TASKS")
  case True
  then show ?thesis using s r by (simp add: create_task_def)
next
  case False
  let ?n = "ntasks s"
  have t: "table_ok {} s" "current_ok s" using s by (simp_all add: sched_inv_def)
  have n: "?n < 8" using False by (simp add: word_le_nat_alt not_le)
  have n1: "unat (task_count s + 1) = ?n + 1" using n by (simp add: unat_word_ariths)
  define z where "z = zero_task\<lparr>t_pid := next_pid s, t_name := copy_task_name name, t_stack_size := TASK_STACK_SIZE\<rparr>"
  define s1 where "s1 = s\<lparr>task_count := task_count s + 1, next_pid := next_pid s + 1, tasks := (tasks s)[?n := z]\<rparr>"
  obtain p s2 where k: "kmalloc s1 TASK_STACK_SIZE = Some (Inr (p, s2))"
    using r False by (auto simp: create_task_def Let_def s1_def z_def rbind_eq_Some_Inr)
  define q where "q = align_down (p + TASK_STACK_SIZE) 16 - 8"
  define v where "v = (fill (z\<lparr>t_stack := p, t_state := TASK_RUNNABLE\<rparr>) s2)\<lparr>t_kernel_stack_top := q, t_frame := q - SIZEOF_INTERRUPT_FRAME\<rparr>"
  have u: "u = s2\<lparr>frames := (frames s2)(q - SIZEOF_INTERRUPT_FRAME := frame_at q), tasks := (tasks s2)[?n := v]\<rparr>"
    using r False k by (simp add: create_task_def Let_def s1_def z_def v_def q_def)
  have ss: "same_sched s1 s2" by (rule kmalloc_same_sched [OF k])
  note f = same_sched_fields [OF ss]
  have l: "length (tasks s) = 8" using t(1) by (simp add: table_ok_def)
  have o: "heap_has s1 (set (owned_stacks s))" using t(1) by (simp add: table_ok_def s1_def)
  have h: "heap_has s2 (insert p (set (owned_stacks s)))" "p \<notin> set (owned_stacks s)" using stacks.get_new [OF o k] by simp_all
  note rg = stacks.has_range [OF h(1), of p]
  have p0: "p \<noteq> 0" using rg by auto
  have pu: "unat (p + 16384) = unat p + 16384" using rg by (simp add: unat_word_ariths)
  have "unat (align_down (p + 16384) 16) = unat p + 16384" using rg pu by (simp add: unat_align_down_16)
  then have "align_down (p + 16384) 16 = p + 16384" using pu by (intro word_unat_eq_iff [THEN iffD2]) simp
  then have q: "q = p + 16376" by (simp add: q_def)
  have "unat (16200 + p) = unat p + 16200" using rg by (simp add: unat_word_ariths)
  moreover have "q - SIZEOF_INTERRUPT_FRAME = p + 16200" by (simp add: q)
  ultimately have ok: "task_ok v" "t_pid v = next_pid s" "t_stack v = p"
    using fill rg q by (auto simp: v_def z_def task_ok_def frame_in_def zero_task_def)
  have tu: "tasks u = (tasks s)[?n := v]" by (simp add: u f s1_def)
  have cu: "task_count u = task_count s + 1" "current_task_index u = current_task_index s" "next_pid u = next_pid s + 1"
    "pending_stack_free u = pending_stack_free s" "current_task u = current_task s" "boot_task u = boot_task s" "cr3_reg u = cr3_reg s"
    "tss_rsp0 u = tss_rsp0 s" by (simp_all add: u f s1_def)
  have "task_stacks u = task_stacks s @ [p]"
    using n l p0 ok(3) by (simp add: task_stacks_def tu cu n1 take_Suc_conv_app_nth)
  then have ou: "owned_stacks u = task_stacks s @ p # pending_stack_free s" by (simp add: owned_stacks_def cu)
  have "set (owned_stacks u) = insert p (set (owned_stacks s))" unfolding ou owned_stacks_def [of s] by auto
  then have hu: "heap_has u (set (owned_stacks u))" using h(1) by (simp add: u)
  have du: "distinct (owned_stacks u)" "length (owned_stacks u) \<le> ?n + 1"
    using t(1) h(2) unfolding table_ok_def ou by (auto simp: owned_stacks_def)
  have pid: "next_pid s = of_nat ?n + 1" using t(1) by (simp add: table_ok_def)
  have tk: "t_pid (tasks u ! i) = of_nat i + 1 \<and> task_ok (tasks u ! i)" if "i < ?n + 1" for i
    using that t(1) ok l n pid unfolding tu table_ok_def by (cases "i = ?n") auto
  have idx: "current_task_index s < task_count s + 1"
    using t(1) n1 by (auto simp: table_ok_def word_less_nat_alt)
  have "table_ok {} u" using l n hu du tk idx pid by (simp add: table_ok_def cu n1 tu)
  moreover have "current_ok u"
    using t(2) unfolding current_ok_def cu n1 tu by (auto split: option.splits task_ref.splits)
  ultimately show ?thesis by (simp add: sched_inv_def)
qed

section \<open>Reachable states\<close>

text \<open>
  Between two events the rest of the kernel runs: it allocates and frees other memory, changes page tables, the program break
  and the open files of a task, but not the scheduler's part of a task and not the stacks it owns.
\<close>

definition sched_part :: "task \<Rightarrow> u64 \<times> u64 \<times> u64 \<times> u64 \<times> u64 \<times> task_state \<times> bool" where
  "sched_part task = (t_pid task, t_stack task, t_kernel_stack_top task, t_cr3 task, t_frame task, t_state task, t_resources_released task)"

definition other_work :: "'a sched_state_scheme \<Rightarrow> 'a sched_state_scheme \<Rightarrow> bool" where
  "other_work s t \<longleftrightarrow> map sched_part (tasks t) = map sched_part (tasks s) \<and> boot_task t = boot_task s \<and>
     current_task t = current_task s \<and> task_count t = task_count s \<and> current_task_index t = current_task_index s \<and>
     next_pid t = next_pid s \<and> pending_stack_free t = pending_stack_free s \<and> tss_rsp0 t = tss_rsp0 s \<and> cr3_reg t = cr3_reg s \<and>
     (heap_has s (set (owned_stacks s)) \<longrightarrow> heap_has t (set (owned_stacks s)))"

inductive sched_step :: "'a sched_state_scheme \<Rightarrow> 'a sched_state_scheme \<Rightarrow> bool" where
  tick: "frame_ok s f \<Longrightarrow> scheduler_on_timer_tick f s = Inr (g, t) \<Longrightarrow> sched_step s t"
| exit: "frame_ok s f \<Longrightarrow> scheduler_exit_current f status s = Inr (g, t) \<Longrightarrow> sched_step s t"
| fault: "frame_ok s f \<Longrightarrow> scheduler_fault_current f vec addr s = Inr (g, t) \<Longrightarrow> sched_step s t"
| yield: "frame_ok s f \<Longrightarrow> scheduler_yield_current f s = (g, t) \<Longrightarrow> sched_step s t"
| sleep: "frame_ok s f \<Longrightarrow> scheduler_sleep_current f ticks s = (g, t) \<Longrightarrow> sched_step s t"
| wait: "frame_ok s f \<Longrightarrow> scheduler_wait_current_for_input f s = (g, t) \<Longrightarrow> sched_step s t"
| wake: "sched_step s (scheduler_wake_input_waiters s)"
| kernel_task: "scheduler_create_task tramp name entry arg s = Some (Inr (r, t)) \<Longrightarrow> sched_step s t"
| user_task: "scheduler_create_user_task name cr3 entry stack a0 a1 brk lim s = Some (Inr (r, t)) \<Longrightarrow> sched_step s t"
| other: "other_work s t \<Longrightarrow> sched_step s t"

text \<open>Start-up: \<^verbatim>\<open>scheduler_init\<close> on the zeroed table, when the kernel heap is up and \<^verbatim>\<open>next_pid\<close> has its initial value.\<close>

inductive sched_reach :: "'a sched_state_scheme \<Rightarrow> bool" where
  init: "heap_rep s bs \<Longrightarrow> length (tasks s) = MAX_TASKS \<Longrightarrow> next_pid s = 1 \<Longrightarrow> sched_reach (scheduler_init s)"
| step: "sched_reach s \<Longrightarrow> sched_step s t \<Longrightarrow> sched_reach t"

lemma other_work_inv:
  assumes "other_work s t" "sched_inv s"
  shows "sched_inv t"
proof -
  note o = assms(1) [unfolded other_work_def]
  have len: "length (tasks t) = length (tasks s)" using o map_eq_imp_length_eq by blast
  have nth: "sched_part (tasks t ! i) = sched_part (tasks s ! i)" if "i < length (tasks s)" for i
    using o that len by (metis nth_map)
  have ok: "task_ok (tasks t ! i) = task_ok (tasks s ! i)" if "i < length (tasks s)" for i
    using nth [OF that] by (simp add: sched_part_def task_ok_def frame_in_def)
  have "map t_stack (tasks t) = map t_stack (tasks s)" using nth len by (intro nth_equalityI) (auto simp: sched_part_def)
  then have "map t_stack (take n (tasks t)) = map t_stack (take n (tasks s))" for n by (simp flip: take_map)
  then have own: "owned_stacks t = owned_stacks s" using o by (simp add: owned_stacks_def task_stacks_def)
  have l: "length (tasks s) = 8" "ntasks s \<le> 8" using assms(2) by (simp_all add: sched_inv_def table_ok_def)
  have "\<forall>i < ntasks s. t_pid (tasks t ! i) = of_nat i + 1 \<and> task_ok (tasks t ! i)"
    using assms(2) nth ok l by (auto simp: sched_inv_def table_ok_def sched_part_def)
  then have "table_ok {} t" using assms(2) o own len by (simp add: sched_inv_def table_ok_def)
  moreover have "current_ok t"
    using assms(2) o nth l by (auto simp: sched_inv_def current_ok_def sched_part_def split: option.splits task_ref.splits)
  ultimately show ?thesis by (simp add: sched_inv_def)
qed

lemma exit_fault_inv:
  assumes "sched_inv s" "frame_ok s f"
  shows "scheduler_exit_current f status s = Inr (g, t) \<Longrightarrow> sched_inv t \<and> frame_ok t g"
    "scheduler_fault_current f vec addr s = Inr (g, t) \<Longrightarrow> sched_inv t \<and> frame_ok t g"
  using assms stop_inv(1) [OF assms(1)]
  by (auto simp: scheduler_exit_current_def scheduler_fault_current_def split: if_splits)

lemma sched_step_inv:
  assumes "sched_step s t" "sched_inv s"
  shows "sched_inv t"
  using assms
proof cases
  case (tick f g)
  then show ?thesis using tick_inv [OF assms(2), of f] by auto
next
  case (kernel_task tramp name entry arg r)
  then show ?thesis using assms(2) unfolding scheduler_create_task_def by (elim create_inv [rotated]) simp_all
next
  case (user_task name cr3 entry stack a0 a1 brk lim r)
  then show ?thesis using assms(2) unfolding scheduler_create_user_task_def by (elim create_inv [rotated]) simp_all
qed (use assms(2) in \<open>auto dest: exit_fault_inv yield_inv sleep_inv wait_input_inv other_work_inv intro: wake_input_inv\<close>)

lemma sched_reach_inv: "sched_reach s \<Longrightarrow> sched_inv s"
proof (induction rule: sched_reach.induct)
  case (init s bs)
  have h: "heap_has s {}" using init(1) unfolding heap_has_def by blast
  have "heap_has (scheduler_init s) {}" using h by (simp add: scheduler_init_def)
  moreover have "owned_stacks (scheduler_init s) = []" by (simp add: owned_stacks_def task_stacks_def scheduler_init_def)
  moreover have "length (tasks (scheduler_init s)) = 8" "task_count (scheduler_init s) = 0" "current_task_index (scheduler_init s) = 0"
    "next_pid (scheduler_init s) = 1" "current_task (scheduler_init s) = None"
    using init(2,3) by (simp_all add: scheduler_init_def)
  ultimately show ?case by (simp add: sched_inv_def table_ok_def current_ok_def)
next
  case (step s t)
  show ?case by (rule sched_step_inv [OF step.hyps(2) step.IH])
qed

text \<open>The ways in which the teardown of an address space can fail.\<close>

definition teardown_error :: "string \<Rightarrow> bool" where
  "teardown_error e \<longleftrightarrow> e = ''attempted to free unaligned physical page'' \<or> e = ''attempted to free out-of-range physical page'' \<or>
     e = ''cannot free huge user PD mapping'' \<or> e = ''cannot free huge user PDPT mapping''"

lemma teardown_huge: "teardown_error ''cannot free huge user PD mapping''" "teardown_error ''cannot free huge user PDPT mapping''"
  by (simp_all add: teardown_error_def)

lemma pmm_free_page_error: "pmm_free_page s p = Inl e \<Longrightarrow> teardown_error e"
  by (auto simp: pmm_free_page_def teardown_error_def Let_def split: if_splits)

lemma vmm_free_pt_error: "vmm_free_pt s t = Inl e \<Longrightarrow> teardown_error e"
proof -
  have "vmm_free_pt_entries s t is k = Inl e \<Longrightarrow> teardown_error e" for s :: "'a pmm_state_scheme" and t "is" k
    by (induction s t "is" k rule: vmm_free_pt_entries.induct) (auto simp: Let_def kbind_eq_Inl split: if_splits dest: pmm_free_page_error)
  then show "vmm_free_pt s t = Inl e \<Longrightarrow> teardown_error e"
    by (auto simp: vmm_free_pt_def kbind_eq_Inl dest: pmm_free_page_error)
qed

lemma vmm_free_pd_error: "vmm_free_pd s t = Inl e \<Longrightarrow> teardown_error e"
proof -
  have "vmm_free_pd_entries s t is k = Inl e \<Longrightarrow> teardown_error e" for s :: "'a pmm_state_scheme" and t "is" k
    by (induction s t "is" k rule: vmm_free_pd_entries.induct) (auto simp: Let_def kbind_eq_Inl teardown_huge split: if_splits dest: vmm_free_pt_error)
  then show "vmm_free_pd s t = Inl e \<Longrightarrow> teardown_error e"
    by (auto simp: vmm_free_pd_def kbind_eq_Inl dest: pmm_free_page_error)
qed

lemma vmm_free_pdpt_error: "vmm_free_pdpt s t = Inl e \<Longrightarrow> teardown_error e"
proof -
  have "vmm_free_pdpt_entries s t is k = Inl e \<Longrightarrow> teardown_error e" for s :: "'a pmm_state_scheme" and t "is" k
    by (induction s t "is" k rule: vmm_free_pdpt_entries.induct) (auto simp: Let_def kbind_eq_Inl teardown_huge split: if_splits dest: vmm_free_pd_error)
  then show "vmm_free_pdpt s t = Inl e \<Longrightarrow> teardown_error e"
    by (auto simp: vmm_free_pdpt_def kbind_eq_Inl dest: pmm_free_page_error)
qed

lemma vmm_free_pml4_error: "vmm_free_pml4_entries s t is k = Inl e \<Longrightarrow> teardown_error e"
  by (induction s t "is" k rule: vmm_free_pml4_entries.induct) (auto simp: Let_def kbind_eq_Inl split: if_splits dest: vmm_free_pdpt_error)

lemma vmm_destroy_error: "vmm_destroy_user_address_space s c = Inl e \<Longrightarrow> teardown_error e"
  by (auto simp: vmm_destroy_user_address_space_def Let_def kbind_eq_Inl split: if_splits dest: pmm_free_page_error vmm_free_pml4_error)

lemma stop_error: "sched_inv s \<Longrightarrow> \<not> no_current_task s \<Longrightarrow> stop_current f status s = Inl e \<Longrightarrow> teardown_error e"
  using stop_inv(2) vmm_destroy_error by blast

lemma distinct_filter_nth:
  assumes "distinct (filter P xs)" "i < length xs" "j < length xs" "i < j" "P (xs ! i)" "P (xs ! j)"
  shows "xs ! i \<noteq> xs ! j"
proof -
  have xs: "xs = take i xs @ xs ! i # drop (Suc i) xs" by (rule id_take_nth_drop [OF assms(2)])
  have "xs ! j = drop (Suc i) xs ! (j - Suc i)" "j - Suc i < length (drop (Suc i) xs)" using assms(3,4) by simp_all
  then have "xs ! j \<in> set (drop (Suc i) xs)" by (metis nth_mem)
  moreover have "xs ! i \<notin> set (filter P (drop (Suc i) xs))" using assms(1,5) by (subst (asm) xs) simp
  ultimately show ?thesis using assms(6) by auto
qed

lemma stacks_disjoint:
  assumes inv: "sched_inv s" and ij: "i < ntasks s" "j < ntasks s" "i \<noteq> j" "t_stack (tasks s ! i) \<noteq> 0" "t_stack (tasks s ! j) \<noteq> 0"
  shows "unat (t_stack (tasks s ! i)) + 16384 \<le> unat (t_stack (tasks s ! j)) \<or>
    unat (t_stack (tasks s ! j)) + 16384 \<le> unat (t_stack (tasks s ! i))"
proof -
  let ?l = "map t_stack (take (ntasks s) (tasks s))"
  have l: "length ?l = ntasks s" "ntasks s \<le> length (tasks s)" using inv by (simp_all add: sched_inv_def table_ok_def)
  have n: "?l ! k = t_stack (tasks s ! k)" if "k < ntasks s" for k using that l by simp
  have d: "distinct (filter (\<lambda>p. p \<noteq> 0) ?l)" and h: "heap_has s (set (owned_stacks s))"
    using inv by (simp_all add: sched_inv_def table_ok_def owned_stacks_def task_stacks_def)
  have "?l ! i \<noteq> ?l ! j"
    using distinct_filter_nth [OF d, of i j] distinct_filter_nth [OF d, of j i] ij n l by (cases "i < j") auto
  moreover have "t_stack (tasks s ! k) \<in> set (owned_stacks s)" if "k < ntasks s" "t_stack (tasks s ! k) \<noteq> 0" for k
    using that n [of k] l nth_mem [of k ?l] by (simp add: owned_stacks_def task_stacks_def del: nth_mem nth_map)
  ultimately show ?thesis using stacks.has_disjoint [OF h] ij n by simp
qed

lemma pids_distinct:
  assumes "sched_inv s"
  shows "distinct (map t_pid (take (ntasks s) (tasks s)))"
proof -
  have l: "length (tasks s) = 8" "ntasks s \<le> 8" and p: "\<forall>i < ntasks s. t_pid (tasks s ! i) = of_nat i + 1"
    using assms by (simp_all add: sched_inv_def table_ok_def)
  have e: "map t_pid (take (ntasks s) (tasks s)) = map (\<lambda>i. of_nat i + 1) [0..<ntasks s]"
    using l p by (intro nth_equalityI) auto
  have "inj_on (\<lambda>i. of_nat i + 1 :: u64) (set [0..<ntasks s])"
  proof (rule inj_onI)
    fix x y assume xy: "x \<in> set [0..<ntasks s]" "y \<in> set [0..<ntasks s]" "of_nat x + 1 = (of_nat y + 1 :: u64)"
    have "unat (of_nat k :: u64) = k" if "k \<in> set [0..<ntasks s]" for k using that l by (simp add: unat_of_nat take_bit_nat_eq_self)
    then show "x = y" using xy by (metis add_right_cancel)
  qed
  then show ?thesis by (simp add: e distinct_map)
qed

section \<open>Properties\<close>


definition sched_example :: sched_state where
  "sched_example = \<lparr>pmm_bitmap = (\<lambda>_. -1), pmm_max_page_index = 16,
     pmm_managed_page_count = 16, pmm_free_page_count = 0, pmm_next_hint = 0, phys_mem = (\<lambda>_. 0),
     hhdm_base = 0, kernel_cr3 = 0, mmio_next = MMIO_BASE, cr3_reg = 0, ia32_pat = 0,
     heap_next = HEAP_BASE + 65584, heap_mapped_end = HEAP_BASE + 0x20000,
     heap_head = HEAP_BASE, heap_tail = HEAP_BASE,
     heap_store = (\<lambda>_. \<lparr>hb_size = 65536, hb_free = True, hb_magic = HEAP_MAGIC, hb_prev = 0, hb_next = 0\<rparr>),
     heap_data = (\<lambda>_. 0), tasks = replicate 8 zero_task, boot_task = zero_task, current_task = None, task_count = 0,
     current_task_index = 0, quantum_ticks = 0, scheduler_tick_count = 0, next_pid = 1, scheduler_ready = False,
     pending_stack_free = [], frames = (\<lambda>_. zero_frame), tss_rsp0 = 0\<rparr>"

lemma sched_example_rep: "heap_rep (scheduler_init sched_example) [(HEAP_BASE, 65536, True)]"
  by (simp add: heap_rep_def sched_example_def scheduler_init_def)

lemma sched_example_create:
  "\<exists>t. scheduler_create_user_task (Some ''init'') 0x5000 0x400000 0x800000 0 0 0 0 (scheduler_init sched_example) = Some (Inr (0, t)) \<and>
     task_count t = 1 \<and> current_task t = None"
proof -
  let ?s = "scheduler_init sched_example"
  define z where "z = zero_task\<lparr>t_pid := 1, t_name := copy_task_name (Some ''init''), t_stack_size := TASK_STACK_SIZE\<rparr>"
  let ?s1 = "?s\<lparr>task_count := 1, next_pid := 2, tasks := (tasks ?s)[0 := z]\<rparr>"
  have rep: "heap_rep ?s1 [(HEAP_BASE, 65536, True)]" using sched_example_rep by (subst heap_rep_cong [of _ ?s]) simp_all
  obtain s2 where k: "kmalloc ?s1 TASK_STACK_SIZE = Some (Inr (HEAP_BASE + 48, s2))"
    using kmalloc_fit_rep [OF rep, of TASK_STACK_SIZE] by (auto simp: align_up_def)
  note f = same_sched_fields [OF kmalloc_same_sched [OF k]]
  have c: "task_count ?s = 0" "next_pid ?s = 1" by (simp_all add: scheduler_init_def sched_example_def)
  show ?thesis
    using k f by (simp add: scheduler_create_user_task_def create_task_def c z_def Let_def) (simp add: scheduler_init_def)
qed


text \<open>
  C35: Scheduling is fair. Over any sequence of choices of the next task, between which tasks may sleep, wake, stop and start
  waiting, a task that stays runnable is chosen after at most as many choices as there are tasks.
\<close>

theorem round_robin_fair:
  assumes "current_task_index (st 0) < task_count (st 0)" "i < ntasks (st 0)"
    and "\<forall>k. runnable (st k) i \<and> task_count (st (Suc k)) = task_count (st k) \<and>
      current_task_index (st (Suc k)) = current_task_index (snd (next_runnable_task (st k)))"
  shows "\<exists>k < ntasks (st 0). fst (next_runnable_task (st k)) = TaskSlot i"
proof (rule ccontr)
  assume no: "\<not> ?thesis"
  have "current_task_index (st k) < task_count (st k) \<and> task_count (st k) = task_count (st 0) \<and> rr_dist (st k) i + k \<le> rr_dist (st 0) i"
    if "k \<le> ntasks (st 0)" for k
    using that
  proof (induction k)
    case (Suc k)
    obtain r t where rt: "next_runnable_task (st k) = (r, t)" by (cases "next_runnable_task (st k)")
    have ih: "current_task_index (st k) < task_count (st k)" "task_count (st k) = task_count (st 0)" "rr_dist (st k) i + k \<le> rr_dist (st 0) i"
      using Suc.IH Suc.prems by (meson Suc_leD)+
    have k: "runnable (st k) i" "task_count (st (Suc k)) = task_count (st k)" "current_task_index (st (Suc k)) = current_task_index t"
      using assms(3) rt by (metis, metis, metis snd_conv)
    have i: "i < ntasks (st k)" using assms(2) ih(2) by simp
    note p = next_runnable_task_progress [OF ih(1) i k(1) rt]
    have "r \<noteq> TaskSlot i" using no rt Suc.prems by (metis Suc_le_eq fst_conv)
    then have "rr_dist t i < rr_dist (st k) i" using p(1) by blast
    moreover have "rr_dist (st (Suc k)) i = rr_dist t i" using k p(3) by (simp add: rr_dist_def)
    ultimately show ?case using ih k p by simp
  qed (use assms in simp)
  from this [OF order_refl] show False
    using rr_dist_slot(1) [of "st 0" i] assms(1,2) by (simp add: word_less_nat_alt)
qed

theorem round_robin_fair_witness:
  "\<exists>k < 2. fst (next_runnable_task (((\<lambda>s. snd (next_runnable_task s)) ^^ k)
     (sched_example\<lparr>task_count := 2, tasks := replicate 8 zero_task\<rparr>))) = TaskSlot 0"
proof -
  define st where "st k = ((\<lambda>s. snd (next_runnable_task s)) ^^ k) (sched_example\<lparr>task_count := 2, tasks := replicate 8 zero_task\<rparr>)" for k
  have keep: "\<exists>x. snd (next_runnable_task s) = s\<lparr>current_task_index := x\<rparr>" if "current_task_index s < task_count s" for s :: sched_state
    using next_runnable_task_target [OF that] by auto
  have inv: "task_count (st k) = 2 \<and> tasks (st k) = replicate 8 zero_task \<and> current_task_index (st k) < 2" for k
  proof (induction k)
    case 0
    then show ?case by (simp add: st_def sched_example_def)
  next
    case (Suc k)
    have idx: "current_task_index (st k) < task_count (st k)" using Suc by simp
    obtain r i where n: "next_runnable_task (st k) = (r, (st k)\<lparr>current_task_index := of_nat i\<rparr>)" "i < ntasks (st k)"
      using next_runnable_task_target [OF idx] by blast
    have "i = 0 \<or> i = 1" using n(2) Suc by auto
    then have "(of_nat i :: u64) < 2" by auto
    then show ?case using n Suc by (simp add: st_def)
  qed
  have z: "t_state zero_task = TASK_RUNNABLE" by (simp add: zero_task_def)
  have "\<exists>k < ntasks (st 0). fst (next_runnable_task (st k)) = TaskSlot 0"
    using inv z by (intro round_robin_fair) (simp_all add: runnable_def, simp add: st_def)
  then show ?thesis using inv [of 0] by (simp add: st_def)
qed

end
