(* ===== verification/Task_Files.thy ===== *)
theory Task_Files
  imports Scheduler_Invariant Devfs
begin

text \<open>
  The file descriptors of a task (kernel/scheduler.c): every task has 11 descriptors that refer to its 8 open files, each with a
  reference count, a path and an offset. Opening, reading, writing, seeking, closing and duplicating work on the descriptors of
  the current task and on the files of the VFS.
\<close>

section \<open>The code\<close>

text \<open>The file systems join the state: the mount table and what the mounted file systems work on.\<close>

record 's kernel_state = sched_state +
  mounts :: "'s mount_table"
  fs :: 's

abbreviation TASK_FIRST_FILE_FD :: nat where "TASK_FIRST_FILE_FD \<equiv> 3"
abbreviation TASK_PATH_MAX :: nat where "TASK_PATH_MAX \<equiv> 128"
abbreviation OPEN_CREATE :: u64 where "OPEN_CREATE \<equiv> 1"
abbreviation OPEN_TRUNC :: u64 where "OPEN_TRUNC \<equiv> 2"
abbreviation OPEN_APPEND :: u64 where "OPEN_APPEND \<equiv> 4"
abbreviation SEEK_SET :: u64 where "SEEK_SET \<equiv> 0"
abbreviation SEEK_CUR :: u64 where "SEEK_CUR \<equiv> 1"
abbreviation SEEK_END :: u64 where "SEEK_END \<equiv> 2"

abbreviation current :: "('s, 'a) kernel_state_scheme \<Rightarrow> task" where
  "current s \<equiv> task_at (current_ref s) s"

abbreviation upd_current :: "(task \<Rightarrow> task) \<Rightarrow> ('s, 'a) kernel_state_scheme \<Rightarrow> ('s, 'a) kernel_state_scheme" where
  "upd_current f s \<equiv> upd_task (current_ref s) f s"

definition copy_file_path :: "string option \<Rightarrow> string" where
  "copy_file_path src = (case src of None \<Rightarrow> [] | Some src \<Rightarrow> copy_limited TASK_PATH_MAX src)"

definition fd_is_valid :: "int \<Rightarrow> bool" where
  "fd_is_valid fd \<longleftrightarrow> fd \<ge> 0 \<and> fd < int TASK_MAX_FDS"

text \<open>A pointer to an open file of a task is its index in the table of open files.\<close>

definition fd_slot :: "int \<Rightarrow> task \<Rightarrow> nat option" where
  "fd_slot fd task =
     (let file = t_files task ! nat fd in
      if \<not> tf_in_use file \<or> tf_open_file_index file < 0 \<or> tf_open_file_index file \<ge> int TASK_MAX_OPEN_FILES then None
      else Some (nat (tf_open_file_index file)))"

definition open_file_for_fd :: "int \<Rightarrow> task \<Rightarrow> nat option" where
  "open_file_for_fd fd task =
     (case fd_slot fd task of None \<Rightarrow> None | Some i \<Rightarrow> if of_in_use (t_open_files task ! i) then Some i else None)"

definition current_open_file_for_fd :: "int \<Rightarrow> ('s, 'a) kernel_state_scheme \<Rightarrow> nat option" where
  "current_open_file_for_fd fd s =
     (if no_current_task s \<or> \<not> fd_is_valid fd then None else open_file_for_fd fd (current s))"

definition upd_open_file :: "nat \<Rightarrow> (task_open_file \<Rightarrow> task_open_file) \<Rightarrow> task \<Rightarrow> task" where
  "upd_open_file i f task = task\<lparr>t_open_files := (t_open_files task)[i := f (t_open_files task ! i)]\<rparr>"

definition upd_file :: "nat \<Rightarrow> (task_file \<Rightarrow> task_file) \<Rightarrow> task \<Rightarrow> task" where
  "upd_file i f task = task\<lparr>t_files := (t_files task)[i := f (t_files task ! i)]\<rparr>"

definition allocate_open_file :: "task_file_type \<Rightarrow> string option \<Rightarrow> bool \<Rightarrow> task \<Rightarrow> nat option \<times> task" where
  "allocate_open_file type path app task =
     (case find (\<lambda>i. \<not> of_in_use (t_open_files task ! i)) [0..<TASK_MAX_OPEN_FILES] of
        None \<Rightarrow> (None, task)
      | Some i \<Rightarrow> (Some i, upd_open_file i (\<lambda>_. \<lparr>of_in_use = True, of_ref_count = 0, of_type = type,
                     of_path = copy_file_path path, of_offset = 0, of_append = app\<rparr>) task))"

definition allocate_current_open_file ::
  "task_file_type \<Rightarrow> string option \<Rightarrow> bool \<Rightarrow> ('s, 'a) kernel_state_scheme \<Rightarrow> nat option \<times> ('s, 'a) kernel_state_scheme" where
  "allocate_current_open_file type path app s =
     (case allocate_open_file type path app (current s) of (i, task) \<Rightarrow> (i, upd_current (\<lambda>_. task) s))"

definition close_fd_slot :: "int \<Rightarrow> task \<Rightarrow> task" where
  "close_fd_slot fd task =
     (case fd_slot fd task of
        None \<Rightarrow> upd_file (nat fd) reset_task_file task
      | Some i \<Rightarrow>
          let open_file = t_open_files task ! i;
              task = (if of_in_use open_file \<and> of_ref_count open_file > 0
                      then if of_ref_count open_file - 1 = 0 then upd_open_file i reset_task_open_file task
                           else upd_open_file i (\<lambda>f. f\<lparr>of_ref_count := of_ref_count f - 1\<rparr>) task
                      else task)
          in upd_file (nat fd) reset_task_file task)"

definition close_current_fd_slot :: "int \<Rightarrow> ('s, 'a) kernel_state_scheme \<Rightarrow> ('s, 'a) kernel_state_scheme" where
  "close_current_fd_slot fd s =
     (if no_current_task s \<or> \<not> fd_is_valid fd then s else upd_current (close_fd_slot fd) s)"

text \<open>A descriptor of a task is made to refer to an open file.\<close>

definition bind_fd :: "nat \<Rightarrow> nat \<Rightarrow> task \<Rightarrow> task" where
  "bind_fd fd i task =
     upd_open_file i (\<lambda>f. f\<lparr>of_ref_count := of_ref_count f + 1\<rparr>)
       (upd_file fd (\<lambda>_. \<lparr>tf_in_use = True, tf_open_file_index = int i\<rparr>) task)"

text \<open>Looking the path up: the file is found, created or truncated, as the flags say.\<close>

definition open_path :: "string \<Rightarrow> u64 \<Rightarrow> ('s, 'a) kernel_state_scheme \<Rightarrow> bool \<times> ('s, 'a) kernel_state_scheme" where
  "open_path path flags s =
     (case vfs_file_exists (mounts s) (Some path) (fs s) of (found, f) \<Rightarrow>
        let s = s\<lparr>fs := f\<rparr> in
        if \<not> found then
          if flags AND OPEN_CREATE = 0 then (False, s)
          else case vfs_create_file (mounts s) (Some path) (fs s) of (r, f) \<Rightarrow> (r = 0, s\<lparr>fs := f\<rparr>)
        else if flags AND OPEN_TRUNC \<noteq> 0 then
          case vfs_truncate_file (mounts s) (Some path) 0 (fs s) of (r, f) \<Rightarrow> (r = 0, s\<lparr>fs := f\<rparr>)
        else (True, s))"

definition start_offset :: "task_file_type \<Rightarrow> bool \<Rightarrow> string \<Rightarrow> ('s, 'a) kernel_state_scheme \<Rightarrow> u64 option \<times> ('s, 'a) kernel_state_scheme" where
  "start_offset type app path s =
     (if type = TASK_FILE_VFS \<and> app then
        case vfs_file_size (mounts s) (Some path) (fs s) of (size', f) \<Rightarrow>
          (if size' = U64_FAIL then None else Some size', s\<lparr>fs := f\<rparr>)
      else (Some 0, s))"

definition scheduler_open_current_file ::
  "string option \<Rightarrow> u64 \<Rightarrow> ('s, 'a) kernel_state_scheme \<Rightarrow> int \<times> ('s, 'a) kernel_state_scheme" where
  "scheduler_open_current_file path flags s =
     (if no_current_task s then (-1, s)
      else case path of
        None \<Rightarrow> (-1, s)
      | Some path \<Rightarrow>
          let type = (if tty_is_path (Some path) then TASK_FILE_TTY else TASK_FILE_VFS);
              app = (type \<noteq> TASK_FILE_TTY \<and> flags AND OPEN_APPEND \<noteq> 0);
              flags = (if type = TASK_FILE_TTY then 0 else flags)
          in case open_path path flags s of (ok, s) \<Rightarrow>
               if \<not> ok then (-1, s)
               else case allocate_current_open_file type (Some path) app s of
                 (None, s) \<Rightarrow> (-1, s)
               | (Some i, s) \<Rightarrow>
                   case start_offset type app path s of
                     (None, s) \<Rightarrow> (-1, upd_current (upd_open_file i reset_task_open_file) s)
                   | (Some off, s) \<Rightarrow>
                       let s = upd_current (upd_open_file i (\<lambda>f. f\<lparr>of_offset := off\<rparr>)) s in
                       case find (\<lambda>fd. \<not> tf_in_use (t_files (current s) ! fd)) [TASK_FIRST_FILE_FD..<TASK_MAX_FDS] of
                         None \<Rightarrow> (-1, upd_current (upd_open_file i reset_task_open_file) s)
                       | Some fd \<Rightarrow> (int fd, upd_current (bind_fd fd i) s))"

definition scheduler_current_fd_is_tty :: "int \<Rightarrow> ('s, 'a) kernel_state_scheme \<Rightarrow> bool" where
  "scheduler_current_fd_is_tty fd s \<longleftrightarrow>
     (if no_current_task s then False
      else if fd < 0 \<or> fd \<ge> int TASK_MAX_FDS then False
      else if \<not> tf_in_use (t_files (current s) ! nat fd) \<and> fd \<ge> 0 \<and> fd \<le> 2 then True
      else case current_open_file_for_fd fd s of
             None \<Rightarrow> False
           | Some i \<Rightarrow> of_type (t_open_files (current s) ! i) = TASK_FILE_TTY)"

text \<open>The open file behind a descriptor, when it is a file of the VFS.\<close>

definition vfs_file_for_fd :: "int \<Rightarrow> ('s, 'a) kernel_state_scheme \<Rightarrow> nat option" where
  "vfs_file_for_fd fd s =
     (if no_current_task s then None
      else if fd < 0 \<or> fd \<ge> int TASK_MAX_FDS then None
      else case current_open_file_for_fd fd s of
             None \<Rightarrow> None
           | Some i \<Rightarrow> if of_type (t_open_files (current s) ! i) \<noteq> TASK_FILE_VFS then None else Some i)"

definition scheduler_read_current_file ::
  "int \<Rightarrow> u8 list option \<Rightarrow> u64 \<Rightarrow> ('s, 'a) kernel_state_scheme \<Rightarrow> u64 \<times> u8 list option \<times> ('s, 'a) kernel_state_scheme" where
  "scheduler_read_current_file fd buffer len s =
     (if buffer = None then (U64_FAIL, buffer, s)
      else case vfs_file_for_fd fd s of
        None \<Rightarrow> (U64_FAIL, buffer, s)
      | Some i \<Rightarrow>
          let file = t_open_files (current s) ! i in
          case vfs_read_file (mounts s) (Some (of_path file)) (of_offset file) buffer len (fs s) of (read, buffer, f) \<Rightarrow>
            let s = s\<lparr>fs := f\<rparr> in
            (read, buffer,
             if read \<noteq> U64_FAIL then upd_current (upd_open_file i (\<lambda>file. file\<lparr>of_offset := of_offset file + read\<rparr>)) s else s))"

definition scheduler_write_current_file ::
  "int \<Rightarrow> u8 list option \<Rightarrow> u64 \<Rightarrow> ('s, 'a) kernel_state_scheme \<Rightarrow> u64 \<times> ('s, 'a) kernel_state_scheme" where
  "scheduler_write_current_file fd buffer len s =
     (if buffer = None then (U64_FAIL, s)
      else case vfs_file_for_fd fd s of
        None \<Rightarrow> (U64_FAIL, s)
      | Some i \<Rightarrow>
          let file = t_open_files (current s) ! i in
          case (if of_append file then vfs_file_size (mounts s) (Some (of_path file)) (fs s) else (of_offset file, fs s)) of
            (write_offset, f) \<Rightarrow>
              let s = s\<lparr>fs := f\<rparr> in
              if of_append file \<and> write_offset = U64_FAIL then (U64_FAIL, s)
              else case vfs_write_existing_file (mounts s) (Some (of_path file)) write_offset buffer len (fs s) of (written, f) \<Rightarrow>
                let s = s\<lparr>fs := f\<rparr> in
                (written,
                 if written \<noteq> U64_FAIL then upd_current (upd_open_file i (\<lambda>file. file\<lparr>of_offset := write_offset + written\<rparr>)) s
                 else s))"

definition seek_base :: "task_open_file \<Rightarrow> u64 \<Rightarrow> ('s, 'a) kernel_state_scheme \<Rightarrow> u64 option \<times> ('s, 'a) kernel_state_scheme" where
  "seek_base file whence s =
     (if whence = SEEK_SET then (Some 0, s)
      else if whence = SEEK_CUR then (Some (of_offset file), s)
      else if whence = SEEK_END then
        case vfs_file_size (mounts s) (Some (of_path file)) (fs s) of (size', f) \<Rightarrow>
          (if size' = U64_FAIL then None else Some size', s\<lparr>fs := f\<rparr>)
      else (None, s))"

text \<open>The new offset; \<open>INT64_MIN\<close> has no negation.\<close>

definition seek_offset :: "u64 \<Rightarrow> u64 \<Rightarrow> u64 option" where
  "seek_offset from offset =
     (if sint offset < 0 then
        if sint offset = - (2 ^ 63) then None
        else let delta = - offset in if delta > from then None else Some (from - delta)
      else if - 1 - from < offset then None else Some (from + offset))"

definition scheduler_seek_current_file ::
  "int \<Rightarrow> u64 \<Rightarrow> u64 \<Rightarrow> ('s, 'a) kernel_state_scheme \<Rightarrow> u64 \<times> ('s, 'a) kernel_state_scheme" where
  "scheduler_seek_current_file fd offset whence s =
     (case vfs_file_for_fd fd s of
        None \<Rightarrow> (U64_FAIL, s)
      | Some i \<Rightarrow>
          case seek_base (t_open_files (current s) ! i) whence s of
            (None, s) \<Rightarrow> (U64_FAIL, s)
          | (Some from, s) \<Rightarrow>
              case seek_offset from offset of
                None \<Rightarrow> (U64_FAIL, s)
              | Some new_offset \<Rightarrow> (new_offset, upd_current (upd_open_file i (\<lambda>file. file\<lparr>of_offset := new_offset\<rparr>)) s))"

definition scheduler_close_current_file :: "int \<Rightarrow> ('s, 'a) kernel_state_scheme \<Rightarrow> int \<times> ('s, 'a) kernel_state_scheme" where
  "scheduler_close_current_file fd s =
     (if no_current_task s then (-1, s)
      else if fd < 0 \<or> fd \<ge> int TASK_MAX_FDS then (-1, s)
      else if current_open_file_for_fd fd s = None then (-1, s)
      else (0, close_current_fd_slot fd s))"

definition scheduler_dup2_current_file ::
  "int \<Rightarrow> int \<Rightarrow> ('s, 'a) kernel_state_scheme \<Rightarrow> int \<times> ('s, 'a) kernel_state_scheme" where
  "scheduler_dup2_current_file old_fd new_fd s =
     (if no_current_task s then (-1, s)
      else if \<not> fd_is_valid old_fd \<or> \<not> fd_is_valid new_fd then (-1, s)
      else if old_fd = new_fd then
        (if scheduler_current_fd_is_tty old_fd s \<or> current_open_file_for_fd old_fd s \<noteq> None then new_fd else -1, s)
      else
        case (case current_open_file_for_fd old_fd s of
                None \<Rightarrow> if old_fd \<ge> 0 \<and> old_fd \<le> 2 then allocate_current_open_file TASK_FILE_TTY (Some ''/dev/tty'') False s
                        else (None, s)
              | Some i \<Rightarrow> (Some i, s)) of
          (None, s) \<Rightarrow> (-1, s)
        | (Some i, s) \<Rightarrow> (new_fd, upd_current (bind_fd (nat new_fd) i) (close_current_fd_slot new_fd s)))"

end
