(* ===== verification/User_Memory.thy ===== *)
theory User_Memory
  imports Usercopy
begin

text \<open>
  The building block of program images and of the program break (kernel/user.c map_elf_segment and map_user_stack,
  kernel/scheduler.c scheduler_set_current_brk): a physical page is taken, filled, and mapped at one user page. The lemmas
  say what the user bytes of every address space are afterwards.
\<close>

section \<open>A fresh page\<close>

text \<open>Taking a page from the allocator leaves every address space alone.\<close>

lemma alloc_page_upt:
  assumes inv: "upt_inv s lv" "pmm_inv s" and a: "pmm_alloc_page s = Inr (f, s1)"
  shows "upt_inv s1 lv" "pmm_inv s1" "mappable_frame s1 lv f" "pt_grow s lv s1 lv" "\<And>x. page_of x = f \<Longrightarrow> phys_mem s1 x = 0"
    "is_frame f" "\<not> frame_used s f"
proof -
  note al = pmm_alloc_frame [OF inv(2) a]
  have tab: "frame_used s t \<and> 1 \<le> k \<and> k \<le> 4" if "lv t = Some k" for t k using upt_inv_table [OF inv(1) that] by simp
  have lf: "lv f = None" using tab [of f] al(2) by (cases "lv f") auto
  have te: "table_entry s1 t i = table_entry s t i" if "lv t \<noteq> None" "i < 512" for t i
    using that tab [of t] lf by (intro al(6)) (auto simp: frame_used_def)
  have child: "pt_child s1 lv t k i c = pt_child s lv t k i c" for t k i c by (rule pt_child_cong) (rule te)
  have te': "table_entry s1 t i = table_entry s t i" if "pt_child s lv t k i c" for t k i c
    using that te [of t i] user_slot_512 by (auto simp: pt_child_def)
  show "upt_inv s1 lv"
  proof (rule upt_invI, unfold child)
    show "1 \<le> k \<and> k \<le> 4 \<and> frame_used s1 t" if "lv t = Some k" for t k using tab [OF that] al(5) by simp
    show "frame_used s1 c" if "pt_child s lv t k i c" for t k i c using upt_inv_child [OF inv(1) that] al(5) by simp
    show "lv c = None" if "pt_child s lv t 1 i c" for t i c using upt_inv_leaf [OF inv(1) that] .
    show "lv c = Some (k - 1) \<and> bit (table_entry s1 t i) 1 \<and> bit (table_entry s1 t i) 2 \<and> \<not> bit (table_entry s1 t i) 7"
      if "pt_child s lv t k i c" "k \<noteq> 1" for t k i c using upt_inv_inner [OF inv(1) that] te' [OF that(1)] by simp
    show "t = t' \<and> i = i'" if "pt_child s lv t k i c" "pt_child s lv t' k' i' c" for t k i t' k' i' c
      using upt_inv_unique [OF inv(1) that] .
  qed
  show "pmm_inv s1" by (rule al(4))
  show "is_frame f" "\<not> frame_used s f" using al(1,2) by simp_all
  have "\<not> pt_child s lv t k i f" for t k i using upt_inv_child [OF inv(1)] al(2) by blast
  then show "mappable_frame s1 lv f" using al(3) lf by (simp add: mappable_frame_def child)
  have m: "phys_mem s1 x = phys_mem s x" if "page_of x div PAGE_SIZE \<notin> free_page_set s" for x
    using that al(10) by (intro al(12)) auto
  show "pt_grow s lv s1 lv"
    unfolding pt_grow_def child using al(5,8,9,11) te te' m by auto
  show "phys_mem s1 x = 0" if "page_of x = f" for x
  proof -
    obtain page where "pmm_take_page s page = (f, s1)" using pmm_alloc_page_takes [OF inv(2) a] .
    from pmm_take_page_sel(3) [OF this] show ?thesis using that by (simp add: zero_page_def)
  qed
qed

text \<open>
  Mapping a page whose frame has just been taken: in the address space the page reads as zeros, every other byte of every
  address space stays, and so do the invariants. Together with the writes below this is all a program image is built from.
\<close>

lemma user_byte_cong:
  assumes "vmm_translate_user_addr s' t v False = vmm_translate_user_addr s t v False"
    and "\<And>p x. vmm_translate_user_addr s t v False = Some p \<Longrightarrow> page_of x = page_of p \<Longrightarrow> phys_mem s' x = phys_mem s x"
  shows "user_byte s' t v = user_byte s t v"
  using assms by (cases "vmm_translate_user_addr s t v False") (simp_all add: user_byte_def mem_read8_def page_of_align_8)

lemma translate_page:
  assumes "vmm_translate_user_addr s t v w = Some p"
  shows "user_frame s t w (page_of v) = Some (page_of p)" "is_frame (page_of p)"
proof -
  obtain f where f: "user_frame s t w (page_of v) = Some f" "p = f + (v AND 4095)" using assms by (auto simp: translate_user_frame)
  have fr: "is_frame f" by (rule user_frame_is_frame [OF f(1)])
  have "page_of p = f"
    unfolding f(2) using page_of_add [of f "v AND 4095"] frame_aligned [OF fr] low12_less [of v] by (simp add: word_less_nat_alt)
  then show "user_frame s t w (page_of v) = Some (page_of p)" "is_frame (page_of p)" using f(1) fr by simp_all
qed

text \<open>The same after the new page has been filled.\<close>

lemma fill_page_upt:
  assumes inv: "upt_inv s lv" "pmm_inv s" and a: "pmm_alloc_page s = Inr (f, s0)"
    and s1: "s1 = s0\<lparr>phys_mem := mem\<rparr>" "\<And>x. page_of x \<noteq> f \<Longrightarrow> mem x = phys_mem s0 x"
  shows "upt_inv s1 lv" "pmm_inv s1" "mappable_frame s1 lv f" "pt_grow s lv s1 lv" "is_frame f"
proof -
  note al = alloc_page_upt [OF inv a]
  have lf: "lv f = None" using al(3) by (simp add: mappable_frame_def)
  have te: "table_entry s1 t i = table_entry s0 t i" if "lv t \<noteq> None" "i < 512" for t i
  proof -
    have "is_frame t" "t \<noteq> f" using that(1) lf upt_inv_table [OF al(1)] by (auto simp: frame_used_def)
    then show ?thesis using page_of_slot [of t i] that(2) s1 by (simp add: table_entry_def)
  qed
  have fu: "frame_used s1 g = frame_used s0 g" for g by (simp add: frame_used_def s1(1) pmm_test_bit_def)
  have child: "pt_child s1 lv t k i c = pt_child s0 lv t k i c" for t k i c by (rule pt_child_cong) (rule te)
  show "upt_inv s1 lv" by (rule upt_inv_cong [OF te fu al(1)])
  have free: "free_page_set s1 = free_page_set s0" by (simp add: free_page_set_def s1(1) pmm_test_bit_def)
  show "pmm_inv s1" using al(2) free by (simp add: pmm_inv_def s1(1))
  show "mappable_frame s1 lv f" using al(3) by (simp add: mappable_frame_def fu child)
  show "is_frame f" by (rule al(6))
  have nf: "f div PAGE_SIZE \<in> free_page_set s" using pmm_alloc_frame(10) [OF inv(2) a] .
  have te': "table_entry s1 t i = table_entry s0 t i" if "pt_child s0 lv t k i c" for t k i c
    using that te [of t i] user_slot_512 by (auto simp: pt_child_def)
  have m: "phys_mem s1 x = phys_mem s x" if "page_of x div PAGE_SIZE \<notin> free_page_set s" "lv (page_of x) = None" for x
  proof -
    have "page_of x \<noteq> f" using that nf by auto
    then have "phys_mem s1 x = phys_mem s0 x" using s1 by simp
    then show ?thesis using al(4) that unfolding pt_grow_def by metis
  qed
  have hi: "table_entry s1 t i = table_entry s t i" if "lv t = Some 4" "256 \<le> i" "i < 512" for t i
    using te [of t i] al(4) that unfolding pt_grow_def by auto
  note g = al(4) [unfolded pt_grow_def]
  show "pt_grow s lv s1 lv"
    unfolding pt_grow_def child fu free
  proof (intro conjI allI impI)
    show "table_entry s1 t i = table_entry s t i" if "pt_child s lv t k i c" for t k i c
      using g that te' [of t k i c] by metis
    show "pmm_max_page_index s1 = pmm_max_page_index s" "pmm_state.more s1 = pmm_state.more s" using g by (simp_all add: s1(1))
  qed (use g in blast | rule m hi; blast)+
qed

section \<open>Filling an address space\<close>

text \<open>
  What a run of the loops does to the user memory of every address space: in the one they work on, the addresses in \<open>new\<close> get a
  byte and are writable or not; every other byte stays.
\<close>

definition user_writable :: "'a pmm_state_scheme \<Rightarrow> u64 \<Rightarrow> u64 \<Rightarrow> bool" where
  "user_writable s t v \<longleftrightarrow> vmm_translate_user_addr s t v True \<noteq> None"

definition user_mapped ::
  "'a pmm_state_scheme \<Rightarrow> level_map \<Rightarrow> 'a pmm_state_scheme \<Rightarrow> level_map \<Rightarrow> u64 \<Rightarrow> (u64 \<rightharpoonup> u8 \<times> bool) \<Rightarrow> bool" where
  "user_mapped s lv s' lv' cr3 new \<longleftrightarrow>
     upt_inv s' lv' \<and> pmm_inv s' \<and> lv \<subseteq>\<^sub>m lv' \<and> pmm_state.more s' = pmm_state.more s \<and>
     (\<forall>t v. lv (t AND PTE_ADDR_MASK) = Some 4 \<longrightarrow>
        user_byte s' t v = (if t AND PTE_ADDR_MASK = cr3 AND PTE_ADDR_MASK \<and> new v \<noteq> None then Some (fst (the (new v)))
                            else user_byte s t v) \<and>
        user_writable s' t v = (if t AND PTE_ADDR_MASK = cr3 AND PTE_ADDR_MASK \<and> new v \<noteq> None then snd (the (new v))
                                else user_writable s t v))"

lemma user_mapped_refl: "upt_inv s lv \<Longrightarrow> pmm_inv s \<Longrightarrow> user_mapped s lv s lv cr3 Map.empty"
  by (simp add: user_mapped_def)

lemma user_mapped_trans:
  assumes a: "user_mapped s lv s1 lv1 cr3 n1" and b: "user_mapped s1 lv1 s2 lv2 cr3 n2"
  shows "user_mapped s lv s2 lv2 cr3 (n1 ++ n2)"
proof -
  have lv1: "lv1 t = Some 4" if "lv t = Some 4" for t
    using a that unfolding user_mapped_def map_le_def by (metis domI)
  have sub: "lv \<subseteq>\<^sub>m lv2" using a b unfolding user_mapped_def by (meson map_le_trans)
  note a' = a [unfolded user_mapped_def] and b' = b [unfolded user_mapped_def]
  have "user_byte s2 t v = (if t AND PTE_ADDR_MASK = cr3 AND PTE_ADDR_MASK \<and> (n1 ++ n2) v \<noteq> None
          then Some (fst (the ((n1 ++ n2) v))) else user_byte s t v) \<and>
        user_writable s2 t v = (if t AND PTE_ADDR_MASK = cr3 AND PTE_ADDR_MASK \<and> (n1 ++ n2) v \<noteq> None
          then snd (the ((n1 ++ n2) v)) else user_writable s t v)"
    if "lv (t AND PTE_ADDR_MASK) = Some 4" for t v
  proof -
    have 1: "user_byte s1 t v = (if t AND PTE_ADDR_MASK = cr3 AND PTE_ADDR_MASK \<and> n1 v \<noteq> None then Some (fst (the (n1 v))) else user_byte s t v)"
      "user_writable s1 t v = (if t AND PTE_ADDR_MASK = cr3 AND PTE_ADDR_MASK \<and> n1 v \<noteq> None then snd (the (n1 v)) else user_writable s t v)"
      using a' that by blast+
    have 2: "user_byte s2 t v = (if t AND PTE_ADDR_MASK = cr3 AND PTE_ADDR_MASK \<and> n2 v \<noteq> None then Some (fst (the (n2 v))) else user_byte s1 t v)"
      "user_writable s2 t v = (if t AND PTE_ADDR_MASK = cr3 AND PTE_ADDR_MASK \<and> n2 v \<noteq> None then snd (the (n2 v)) else user_writable s1 t v)"
      using b' lv1 [OF that] by blast+
    show ?thesis unfolding 2 1 by (cases "n2 v"; cases "n1 v") (auto simp: map_add_def)
  qed
  moreover have "pmm_state.more s2 = pmm_state.more s" using a' b' by simp
  ultimately show ?thesis using b' sub unfolding user_mapped_def by blast
qed

lemma user_mapped_inv:
  assumes "user_mapped s lv s' lv' cr3 new"
  shows "upt_inv s' lv'" "pmm_inv s'" "lv t = Some 4 \<Longrightarrow> lv' t = Some 4"
  using assms unfolding user_mapped_def map_le_def by (auto simp: domI) (metis domI)

definition page_content :: "u64 \<Rightarrow> (u64 \<Rightarrow> u8 \<times> bool) \<Rightarrow> (u64 \<rightharpoonup> u8 \<times> bool)" where
  "page_content page g v = (if page_of v = page then Some (g v) else None)"

lemma user_mapped_pageI:
  assumes "upt_inv s' lv'" "pmm_inv s'" "lv \<subseteq>\<^sub>m lv'" "pmm_state.more s' = pmm_state.more s"
    and ub: "\<And>t v. lv (t AND PTE_ADDR_MASK) = Some 4 \<Longrightarrow> user_byte s' t v =
      (if t AND PTE_ADDR_MASK = cr3 AND PTE_ADDR_MASK \<and> page_of v = page then Some (fst (g v)) else user_byte s t v)"
    and uw: "\<And>t v. lv (t AND PTE_ADDR_MASK) = Some 4 \<Longrightarrow> user_writable s' t v =
      (if t AND PTE_ADDR_MASK = cr3 AND PTE_ADDR_MASK \<and> page_of v = page then snd (g v) else user_writable s t v)"
  shows "user_mapped s lv s' lv' cr3 (page_content page g)"
  unfolding user_mapped_def
proof (intro conjI allI impI)
  fix t v assume t: "lv (t AND PTE_ADDR_MASK) = Some 4"
  show "user_byte s' t v = (if t AND PTE_ADDR_MASK = cr3 AND PTE_ADDR_MASK \<and> page_content page g v \<noteq> None
      then Some (fst (the (page_content page g v))) else user_byte s t v)"
    unfolding ub [OF t] by (cases "page_of v = page") (simp_all add: page_content_def)
  show "user_writable s' t v = (if t AND PTE_ADDR_MASK = cr3 AND PTE_ADDR_MASK \<and> page_content page g v \<noteq> None
      then snd (the (page_content page g v)) else user_writable s t v)"
    unfolding uw [OF t] by (cases "page_of v = page") (simp_all add: page_content_def)
qed (rule assms)+

lemma map_fresh_page:
  assumes inv: "upt_inv s lv" "pmm_inv s" and cr3: "lv (cr3 AND PTE_ADDR_MASK) = Some 4"
    and virt: "virt < USER_VIRT_MAX" "virt mod PAGE_SIZE = 0" and fl: "bit flags 2" "flags AND PTE_ADDR_MASK = 0"
    and a: "pmm_alloc_page s = Inr (f, s0)" and s1: "s1 = s0\<lparr>phys_mem := mem\<rparr>" "\<And>x. page_of x \<noteq> f \<Longrightarrow> mem x = phys_mem s0 x"
    and m: "vmm_map_page_in s1 cr3 virt f flags = Inr (r, s2)"
  obtains lv2 where "r = 0"
    "user_mapped s lv s2 lv2 cr3 (page_content virt (\<lambda>v. (mem_read8 mem (f OR (v AND 4095)), bit flags 1)))"
proof -
  note al = fill_page_upt [OF inv a s1]
  obtain s3 lv2 pt e where u: "r = 0" "pt_grow s1 lv s3 lv2" "upt_inv s3 lv2" "pmm_inv s3"
    "pt_path s3 lv2 (cr3 AND PTE_ADDR_MASK) [pml4_index virt, pdpt_index virt, pd_index virt] pt"
    "lv2 pt = Some 1" "lv2 (cr3 AND PTE_ADDR_MASK) = Some 4" "s2 = set_table_entry s3 pt (pt_index virt) e"
    "bit e 0" "bit e 1 = bit flags 1" "bit e 2" "e AND PTE_ADDR_MASK = f" "upt_inv s2 lv2"
    by (rule vmm_map_page_in_user [OF al(1,2) cr3 virt al(3) fl m])
  have tr: "vmm_translate_user_addr s2 t v w =
     (if t AND PTE_ADDR_MASK = cr3 AND PTE_ADDR_MASK \<and> page_of v = virt
      then if w \<and> \<not> bit flags 1 then None else Some (f OR (v AND 4095)) else vmm_translate_user_addr s t v w)"
    if "lv (t AND PTE_ADDR_MASK) = Some 4" for t v w
    using vmm_map_page_in_translate [OF al(1,2) cr3 virt al(3) fl m that] pt_grow_translate [OF inv(1) al(1,4) that] by simp
  have ptf: "is_frame pt" using upt_inv_table [OF u(3,6)] by (simp add: frame_used_def)
  have ptp: "page_of (pt + 8 * pt_index virt) = pt" using ptf low9_less by (intro page_of_slot) (simp_all add: pt_index_def)
  have keep: "phys_mem s2 x = phys_mem s1 x" if "frame_used s1 (page_of x)" "lv (page_of x) = None" for x
  proof -
    have nf: "page_of x div PAGE_SIZE \<notin> free_page_set s1" by (rule frame_used_not_free [OF that(1)])
    have "phys_mem s3 x = phys_mem s1 x" using u(2) nf that(2) unfolding pt_grow_def by blast
    moreover have "lv2 (page_of x) = None" using u(2) nf that(2) unfolding pt_grow_def by metis
    then have "x \<noteq> pt + 8 * pt_index virt" using ptp u(6) by auto
    ultimately show ?thesis by (simp add: u(8) set_table_entry_def)
  qed
  have ff: "frame_used s1 f" "lv f = None" using al(3) by (simp_all add: mappable_frame_def)
  have ub: "user_byte s2 t v = (if t AND PTE_ADDR_MASK = cr3 AND PTE_ADDR_MASK \<and> page_of v = virt
      then Some (mem_read8 mem (f OR (v AND 4095))) else user_byte s t v)"
    if t: "lv (t AND PTE_ADDR_MASK) = Some 4" for t v
  proof (cases "t AND PTE_ADDR_MASK = cr3 AND PTE_ADDR_MASK \<and> page_of v = virt")
    case True
    have "f OR (v AND 4095) = f + (v AND 4095)" using frame_or_offset [OF al(5) low12_less, of v] by (simp add: and.assoc)
    then have "page_of (f OR (v AND 4095)) = f"
      using page_of_add [of f "v AND 4095"] frame_aligned [OF al(5)] low12_less [of v] by (simp add: word_less_nat_alt)
    then have p: "page_of (align_down (f OR (v AND 4095)) 8) = f" by (simp add: page_of_align_8)
    then have "phys_mem s2 (align_down (f OR (v AND 4095)) 8) = mem (align_down (f OR (v AND 4095)) 8)"
      using keep ff by (simp add: s1(1))
    then have "mem_read8 (phys_mem s2) (f OR (v AND 4095)) = mem_read8 mem (f OR (v AND 4095))" by (simp add: mem_read8_def)
    then show ?thesis using True tr [OF t, of v False] by (simp add: user_byte_def)
  next
    case False
    then have tv: "vmm_translate_user_addr s2 t v False = vmm_translate_user_addr s t v False" unfolding tr [OF t] by auto
    have "user_byte s2 t v = user_byte s t v"
    proof (rule user_byte_cong [OF tv])
      fix p x assume p: "vmm_translate_user_addr s t v False = Some p" "page_of x = page_of p"
      have nt: "lv (page_of x) = None" "frame_used s (page_of x)"
        using user_frame_not_table [OF inv(1) t translate_page(1) [OF p(1)]] p(2) by simp_all
      have "frame_used s1 (page_of x)" using al(4) nt(2) unfolding pt_grow_def by blast
      then have "phys_mem s2 x = phys_mem s1 x" using keep nt(1) by blast
      also have "\<dots> = phys_mem s x" using al(4) nt(1) frame_used_not_free [OF nt(2)] unfolding pt_grow_def by blast
      finally show "phys_mem s2 x = phys_mem s x" .
    qed
    then show ?thesis using False by (simp only: if_False)
  qed
  have mo: "pmm_state.more s2 = pmm_state.more s" "lv \<subseteq>\<^sub>m lv2" using u(2) al(4) unfolding pt_grow_def by (simp_all add: u(8))
  have "pmm_inv s2" using u(4) by (simp add: u(8))
  moreover have "user_writable s2 t v = (if t AND PTE_ADDR_MASK = cr3 AND PTE_ADDR_MASK \<and> page_of v = virt then bit flags 1
      else user_writable s t v)" if "lv (t AND PTE_ADDR_MASK) = Some 4" for t v
    using tr [OF that, of v True] by (simp add: user_writable_def)
  ultimately have "user_mapped s lv s2 lv2 cr3 (page_content virt (\<lambda>v. (mem_read8 mem (f OR (v AND 4095)), bit flags 1)))"
    using u(13) mo ub by (intro user_mapped_pageI) auto
  then show thesis by (rule that [OF u(1)])
qed

text \<open>Four free pages are enough for one page of user memory.\<close>

lemma vmm_map_page_in_count:
  assumes inv: "pmm_inv s" and n: "n + 3 \<le> card (free_page_set s)"
    and al: "virt mod PAGE_SIZE = 0" "phys mod PAGE_SIZE = 0"
  shows "\<exists>s'. vmm_map_page_in s cr3 virt phys flags = Inr (0, s') \<and> pmm_inv s' \<and> n \<le> card (free_page_set s')"
proof -
  obtain r1 s1 where 1: "vmm_next_level s (cr3 AND PTE_ADDR_MASK) (pml4_index virt) True flags = Inr (r1, s1)"
      "pmm_inv s1" "n + 2 \<le> card (free_page_set s1)"
    using vmm_next_level_total [OF inv, of "n + 2"] n by fastforce
  obtain r2 s2 where 2: "vmm_next_level s1 (the r1) (pdpt_index virt) True flags = Inr (r2, s2)"
      "pmm_inv s2" "n + 1 \<le> card (free_page_set s2)"
    using vmm_next_level_total [OF 1(2), of "n + 1"] 1(3) by fastforce
  obtain r3 s3 where 3: "vmm_next_level s2 (the r2) (pd_index virt) True flags = Inr (r3, s3)"
      "pmm_inv s3" "n \<le> card (free_page_set s3)"
    using vmm_next_level_total [OF 2(2), of n] 2(3) by fastforce
  show ?thesis using al 1 2 3 by (simp add: vmm_map_page_in_def)
qed

lemma free_page_set_mem [simp]: "free_page_set (s\<lparr>phys_mem := m\<rparr>) = free_page_set s"
  by (simp add: free_page_set_def pmm_test_bit_def)

lemma pmm_inv_mem [simp]: "pmm_inv (s\<lparr>phys_mem := m\<rparr>) = pmm_inv s"
  by (simp add: pmm_inv_def)

lemma map_fresh_page_total:
  assumes inv: "pmm_inv s" and n: "n + 4 \<le> card (free_page_set s)" and al: "page_aligned virt"
  obtains f s0 where "pmm_alloc_page s = Inr (f, s0)"
    "\<And>mem. \<exists>s2. vmm_map_page_in (s0\<lparr>phys_mem := mem\<rparr>) cr3 virt f flags = Inr (0, s2) \<and> pmm_inv s2 \<and> n \<le> card (free_page_set s2)"
proof -
  have "free_page_set s \<noteq> {}" using n by auto
  then obtain f s0 where a: "pmm_alloc_page s = Inr (f, s0)"
    using pmm_alloc_page_panics_iff [OF inv] by (metis surj_pair sum.exhaust)
  note fr = pmm_alloc_frame [OF inv a]
  have "card (free_page_set s) = Suc (card (free_page_set s0))"
    using fr(10,11) card_Suc_Diff1 [of "free_page_set s" "f div PAGE_SIZE"] by (simp add: finite)
  then have c: "n + 3 \<le> card (free_page_set s0)" using n by simp
  have fa: "f mod PAGE_SIZE = 0" using frame_aligned [OF fr(1)] by (simp add: page_aligned_def)
  have "\<exists>s2. vmm_map_page_in (s0\<lparr>phys_mem := mem\<rparr>) cr3 virt f flags = Inr (0, s2) \<and> pmm_inv s2 \<and> n \<le> card (free_page_set s2)" for mem
    using vmm_map_page_in_count [of "s0\<lparr>phys_mem := mem\<rparr>" n virt f] c fr(4) al fa by (simp add: page_aligned_def)
  then show thesis using that [OF a] by blast
qed

section \<open>Loops over pages\<close>

text \<open>
  The loops of the ELF loader, the user stack and the program break have one shape. What they need of the step that fills a page:
  it stays inside the page's frame, and from a frame of zeros it makes the bytes \<open>content\<close>.
\<close>

definition pages_content :: "(u64 \<Rightarrow> u8) \<Rightarrow> bool \<Rightarrow> u64 list \<Rightarrow> (u64 \<rightharpoonup> u8 \<times> bool)" where
  "pages_content g w pages v = (if page_of v \<in> set pages then Some (g v, w) else None)"

lemma pages_content_Nil: "pages_content g w [] = Map.empty"
  by (rule ext) (simp add: pages_content_def)

lemma pages_content_Cons: "page_content page (\<lambda>v. (g v, w)) ++ pages_content g w pages = pages_content g w (page # pages)"
  by (rule ext) (simp add: pages_content_def page_content_def map_add_def)

locale page_loop =
  fixes loop :: "u64 list \<Rightarrow> 'a pmm_state_scheme \<Rightarrow> 'a pmm_state_scheme kres"
    and fill :: "u64 \<Rightarrow> u64 \<Rightarrow> (u64 \<Rightarrow> u64) \<Rightarrow> (u64 \<Rightarrow> u64)"
    and content :: "u64 \<Rightarrow> u8"
    and cr3 flags :: u64
    and msg :: string
  assumes loop_Nil: "loop [] s = Inr s"
    and loop_Cons: "loop (page # pages) s = kbind (pmm_alloc_page s) (\<lambda>(phys, s).
      kbind (vmm_map_page_in (s\<lparr>phys_mem := fill page phys (phys_mem s)\<rparr>) cr3 page phys flags) (\<lambda>(r, s).
        if r \<noteq> 0 then Inl msg else loop pages s))"
    and fill_confined: "is_frame phys \<Longrightarrow> page_aligned page \<Longrightarrow> page < USER_VIRT_MAX \<Longrightarrow> page_of x \<noteq> phys \<Longrightarrow>
      fill page phys m x = m x"
    and fill_content: "is_frame phys \<Longrightarrow> page_aligned page \<Longrightarrow> page < USER_VIRT_MAX \<Longrightarrow> (\<And>x. page_of x = phys \<Longrightarrow> m x = 0) \<Longrightarrow>
      page_of v = page \<Longrightarrow> mem_read8 (fill page phys m) (phys + (v AND 4095)) = content v"
    and flags_ok: "bit flags 2" "flags AND PTE_ADDR_MASK = 0"
begin

lemma loop_mapped:
  assumes "upt_inv s lv" "pmm_inv s" "lv (cr3 AND PTE_ADDR_MASK) = Some 4"
    and "\<forall>p \<in> set pages. page_aligned p \<and> p < USER_VIRT_MAX" and "loop pages s = Inr s'"
  shows "\<exists>lv'. user_mapped s lv s' lv' cr3 (pages_content content (bit flags 1) pages)"
  using assms
proof (induction pages arbitrary: s lv)
  case Nil
  then show ?case using user_mapped_refl [OF Nil(1,2), of cr3] by (auto simp: loop_Nil pages_content_Nil)
next
  case (Cons page pages)
  have p: "page_aligned page" "page < USER_VIRT_MAX" using Cons.prems(4) by simp_all
  obtain f s0 r s2 where run: "pmm_alloc_page s = Inr (f, s0)"
      "vmm_map_page_in (s0\<lparr>phys_mem := fill page f (phys_mem s0)\<rparr>) cr3 page f flags = Inr (r, s2)"
      "r = 0" "loop pages s2 = Inr s'"
    using Cons.prems(5) by (auto simp: loop_Cons split: if_splits)
  note fr = pmm_alloc_frame [OF Cons.prems(2) run(1)]
  obtain lv2 where m: "user_mapped s lv s2 lv2 cr3
      (page_content page (\<lambda>v. (mem_read8 (fill page f (phys_mem s0)) (f OR (v AND 4095)), bit flags 1)))"
    by (rule map_fresh_page [OF Cons.prems(1-3) p(2) _ flags_ok run(1) refl _ run(2)])
      (use p fill_confined [OF fr(1) p] in \<open>simp_all add: page_aligned_def\<close>)
  have "mem_read8 (fill page f (phys_mem s0)) (f OR (v AND 4095)) = content v" if "page_of v = page" for v
    using fill_content [OF fr(1) p _ that, of "phys_mem s0"] fr(13) frame_or_offset [OF fr(1) low12_less, of v] by (simp add: and.assoc)
  then have "page_content page (\<lambda>v. (mem_read8 (fill page f (phys_mem s0)) (f OR (v AND 4095)), bit flags 1)) =
      page_content page (\<lambda>v. (content v, bit flags 1))"
    by (auto simp: page_content_def)
  then have m: "user_mapped s lv s2 lv2 cr3 (page_content page (\<lambda>v. (content v, bit flags 1)))" using m by simp
  obtain lv' where "user_mapped s2 lv2 s' lv' cr3 (pages_content content (bit flags 1) pages)"
    using Cons.IH [OF user_mapped_inv(1,2) [OF m] user_mapped_inv(3) [OF m Cons.prems(3)] _ run(4)] Cons.prems(4) by auto
  from user_mapped_trans [OF m this]
  have "user_mapped s lv s' lv' cr3 (pages_content content (bit flags 1) (page # pages))"
    unfolding pages_content_Cons .
  then show ?case by blast
qed

lemma loop_total:
  assumes "pmm_inv s" "n + 4 * length pages \<le> card (free_page_set s)" "\<forall>p \<in> set pages. page_aligned p"
  shows "\<exists>s'. loop pages s = Inr s' \<and> pmm_inv s' \<and> n \<le> card (free_page_set s')"
  using assms
proof (induction pages arbitrary: s)
  case Nil
  then show ?case by (simp add: loop_Nil)
next
  case (Cons page pages)
  have "(n + 4 * length pages) + 4 \<le> card (free_page_set s)" using Cons.prems(2) by simp
  then obtain f s0 where a: "pmm_alloc_page s = Inr (f, s0)"
    and m: "\<And>mem. \<exists>s2. vmm_map_page_in (s0\<lparr>phys_mem := mem\<rparr>) cr3 page f flags = Inr (0, s2) \<and> pmm_inv s2 \<and>
      n + 4 * length pages \<le> card (free_page_set s2)"
    using map_fresh_page_total [OF Cons.prems(1)] Cons.prems(3) by (metis list.set_intros(1))
  obtain s2 where "vmm_map_page_in (s0\<lparr>phys_mem := fill page f (phys_mem s0)\<rparr>) cr3 page f flags = Inr (0, s2)" "pmm_inv s2"
      "n + 4 * length pages \<le> card (free_page_set s2)" using m by blast
  then show ?case using Cons.IH [of s2] Cons.prems(3) a by (simp add: loop_Cons)
qed

end

text \<open>The pages of a loop from one page boundary to another.\<close>

lemma unat_page_step: "unat a + 4096 < 18446744073709551616 \<Longrightarrow> unat (a + PAGE_SIZE) = unat a + 4096"
  by (simp add: unat_word_ariths)

lemma page_range_mem:
  assumes "page_aligned start" "page_aligned p" "start \<le> p" "p < end"
  shows "p \<in> set (page_range start end)"
  using assms
proof (induction start "end" rule: page_range.induct)
  case (1 start "end")
  have lt: "start < end" using "1.prems" by simp
  show ?case
  proof (cases "p = start")
    case True
    then show ?thesis using lt by (simp add: page_range.simps)
  next
    case False
    have "unat start mod 4096 = 0" "unat p mod 4096 = 0" "unat start < unat p" "unat p < unat end"
      using "1.prems" False by (simp_all add: page_aligned_unat word_less_nat_alt word_le_nat_alt order_less_le word_unat_eq_iff)
    then obtain i j where "unat start = 4096 * i" "unat p = 4096 * j" "i < j" by (auto elim!: dvdE dest!: mod_0_imp_dvd)
    then have le: "unat start + 4096 \<le> unat p" by simp
    have u: "unat (start + PAGE_SIZE) = unat start + 4096"
      using le unat_u64_less [of p] by (intro unat_page_step) linarith
    have "\<not> end - start \<le> PAGE_SIZE"
      using le \<open>unat p < unat end\<close> lt by (simp add: word_le_nat_alt unat_sub less_imp_le)
    moreover have "page_aligned (start + PAGE_SIZE)" using "1.prems"(1) u by (simp add: page_aligned_unat)
    ultimately show ?thesis
      using "1.IH" lt "1.prems" le u by (simp add: page_range.simps [of start] word_le_nat_alt)
  qed
qed

lemma page_of_range:
  assumes "page_aligned start" "page_aligned end"
  shows "page_of v \<in> set (page_range start end) \<longleftrightarrow> start \<le> v \<and> v < end"
proof -
  have d: "unat (page_of v) = unat v div 4096 * 4096" by (rule unat_align_down_page)
  have al: "page_aligned (page_of v)" by (simp add: page_aligned_unat d)
  obtain i j where ij: "unat start = i * 4096" "unat end = j * 4096"
    using assms by (metis page_aligned_unat mod_0_imp_dvd dvd_def mult.commute)
  have "start \<le> page_of v \<longleftrightarrow> start \<le> v"
    unfolding word_le_nat_alt d ij by (simp add: less_eq_div_iff_mult_less_eq)
  moreover have "page_of v < end \<longleftrightarrow> v < end"
    unfolding word_less_nat_alt d ij by (simp add: div_less_iff_less_mult)
  ultimately have "start \<le> page_of v \<and> page_of v < end \<longleftrightarrow> start \<le> v \<and> v < end" by simp
  then show ?thesis using page_range_mem [OF assms(1) al] page_range_bounds by blast
qed

lemma length_page_range:
  assumes "page_aligned start" "page_aligned end"
  shows "length (page_range start end) = (unat end - unat start) div 4096"
  using assms
proof (induction start "end" rule: page_range.induct)
  case (1 start "end")
  have m: "unat start mod 4096 = 0" "unat end mod 4096 = 0" using "1.prems" by (simp_all add: page_aligned_unat)
  then obtain i j where ij: "unat start = 4096 * i" "unat end = 4096 * j" by (auto elim!: dvdE dest!: mod_0_imp_dvd)
  show ?case
  proof (cases "start < end")
    case True
    have s: "unat (end - start) = unat end - unat start" using True by (intro unat_sub) simp
    have lt: "unat start < unat end" using True by (simp add: word_less_nat_alt)
    show ?thesis
    proof (cases "end - start \<le> PAGE_SIZE")
      case small: True
      then have "unat end - unat start \<le> 4096" using s by (simp add: word_le_nat_alt)
      then have "unat end - unat start = 4096" using lt by (simp add: ij)
      then show ?thesis using True small by (simp add: page_range.simps [of start])
    next
      case False
      then have big: "4096 < unat end - unat start" using s by (simp add: word_le_nat_alt)
      then have u: "unat (start + PAGE_SIZE) = unat start + 4096" using unat_u64_less [of "end"] by (intro unat_page_step) linarith
      then have "page_aligned (start + PAGE_SIZE)" using m by (simp add: page_aligned_unat)
      then have "length (page_range start end) = Suc ((unat end - (unat start + 4096)) div 4096)"
        using True False "1.IH" "1.prems" u by (simp add: page_range.simps [of start])
      then show ?thesis using big by (simp add: le_div_geq)
    qed
  next
    case False
    then show ?thesis by (simp add: word_less_nat_alt)
  qed
qed

end
