(* ===== verification/User_Program.thy ===== *)
theory User_Program
  imports Task_Files User_Memory Initrd
begin

text \<open>
  Starting user programs (kernel/user.c): an ELF image is checked and its segments are mapped into a new address space, the stack
  is mapped and filled with the arguments, and the scheduler gets a new task. An image is a list of bytes; the image of a spawned
  program is read into a block of the kernel heap first.
\<close>

section \<open>The code\<close>

abbreviation USER_ADDRESS_MIN :: u64 where "USER_ADDRESS_MIN \<equiv> 0x10000"
abbreviation USER_ADDRESS_MAX :: u64 where "USER_ADDRESS_MAX \<equiv> 0x800000000000"
abbreviation USER_STACK_TOP :: u64 where "USER_STACK_TOP \<equiv> 0x400010000000"
abbreviation USER_STACK_SIZE :: u64 where "USER_STACK_SIZE \<equiv> 0x10000"
abbreviation USER_HEAP_SIZE :: u64 where "USER_HEAP_SIZE \<equiv> 0x1000000"
abbreviation USER_SPAWN_IMAGE_MAX :: u64 where "USER_SPAWN_IMAGE_MAX \<equiv> 0x100000"
abbreviation USER_TASK_NAME_MAX :: nat where "USER_TASK_NAME_MAX \<equiv> 32"
abbreviation USER_ARGV_MAX :: nat where "USER_ARGV_MAX \<equiv> 8"
abbreviation USER_ARG_MAX :: nat where "USER_ARG_MAX \<equiv> 64"
abbreviation ET_EXEC :: u16 where "ET_EXEC \<equiv> 2"
abbreviation EM_X86_64 :: u16 where "EM_X86_64 \<equiv> 62"
abbreviation EV_CURRENT :: u32 where "EV_CURRENT \<equiv> 1"
abbreviation PT_LOAD :: u32 where "PT_LOAD \<equiv> 1"
abbreviation PF_X :: u32 where "PF_X \<equiv> 1"
abbreviation PF_W :: u32 where "PF_W \<equiv> 2"

record elf64_ehdr =
  e_ident :: "u8 list"
  e_type :: u16
  e_machine :: u16
  e_version :: u32
  e_entry :: u64
  e_phoff :: u64
  e_shoff :: u64
  e_flags :: u32
  e_ehsize :: u16
  e_phentsize :: u16
  e_phnum :: u16
  e_shentsize :: u16
  e_shnum :: u16
  e_shstrndx :: u16

record elf64_phdr =
  p_type :: u32
  p_flags :: u32
  p_offset :: u64
  p_vaddr :: u64
  p_paddr :: u64
  p_filesz :: u64
  p_memsz :: u64
  p_align :: u64

record user_image =
  ui_entry :: u64
  ui_brk_start :: u64

text \<open>The packed structures as they lie in the bytes of an image, little endian.\<close>

primrec le_value :: "u8 list \<Rightarrow> u64" where
  "le_value [] = 0"
| "le_value (b # bs) = ucast b OR push_bit 8 (le_value bs)"

definition le_field :: "u8 list \<Rightarrow> nat \<Rightarrow> nat \<Rightarrow> u64" where
  "le_field img off n = le_value (take n (drop off img))"

definition ehdr_of :: "u8 list \<Rightarrow> elf64_ehdr" where
  "ehdr_of img =
     \<lparr>e_ident = take 16 img, e_type = ucast (le_field img 16 2), e_machine = ucast (le_field img 18 2),
      e_version = ucast (le_field img 20 4), e_entry = le_field img 24 8, e_phoff = le_field img 32 8,
      e_shoff = le_field img 40 8, e_flags = ucast (le_field img 48 4), e_ehsize = ucast (le_field img 52 2),
      e_phentsize = ucast (le_field img 54 2), e_phnum = ucast (le_field img 56 2),
      e_shentsize = ucast (le_field img 58 2), e_shnum = ucast (le_field img 60 2), e_shstrndx = ucast (le_field img 62 2)\<rparr>"

definition phdr_at :: "u8 list \<Rightarrow> nat \<Rightarrow> elf64_phdr" where
  "phdr_at img off =
     \<lparr>p_type = ucast (le_field img off 4), p_flags = ucast (le_field img (off + 4) 4), p_offset = le_field img (off + 8) 8,
      p_vaddr = le_field img (off + 16) 8, p_paddr = le_field img (off + 24) 8, p_filesz = le_field img (off + 32) 8,
      p_memsz = le_field img (off + 40) 8, p_align = le_field img (off + 48) 8\<rparr>"

definition phdrs_of :: "u8 list \<Rightarrow> elf64_phdr list" where
  "phdrs_of img =
     map (\<lambda>i. phdr_at img (unat (e_phoff (ehdr_of img)) + 56 * i)) [0..<unat (e_phnum (ehdr_of img))]"

definition max_u64 :: "u64 \<Rightarrow> u64 \<Rightarrow> u64" where
  "max_u64 a b = (if a > b then a else b)"

definition user_range_valid :: "u64 \<Rightarrow> u64 \<Rightarrow> bool" where
  "user_range_valid start size' \<longleftrightarrow>
     (if size' = 0 then True
      else if start < USER_ADDRESS_MIN \<or> start \<ge> USER_ADDRESS_MAX then False
      else if size' > USER_ADDRESS_MAX - start then False
      else True)"

definition range_overlaps_stack :: "u64 \<Rightarrow> u64 \<Rightarrow> bool" where
  "range_overlaps_stack start end \<longleftrightarrow>
     (let stack_start = USER_STACK_TOP - USER_STACK_SIZE in start < USER_STACK_TOP \<and> end > stack_start)"

subsection \<open>The arguments of a program\<close>

text \<open>The part of the path after the last slash that is not at its end.\<close>

primrec base_name :: "string \<Rightarrow> string \<Rightarrow> string" where
  "base_name name [] = name"
| "base_name name (c # rest) =
     (if c = NUL then name else base_name (if c = CHR ''/'' \<and> deref rest \<noteq> NUL then rest else name) rest)"

definition user_copy_task_name :: "string option \<Rightarrow> string" where
  "user_copy_task_name path =
     (case path of None \<Rightarrow> [] | Some path \<Rightarrow> copy_limited USER_TASK_NAME_MAX (base_name path path))"

definition copy_to_user_in_space ::
  "'a vmm_state_scheme \<Rightarrow> u64 \<Rightarrow> u64 \<Rightarrow> u8 list option \<Rightarrow> u64 \<Rightarrow> int \<times> 'a vmm_state_scheme" where
  "copy_to_user_in_space s cr3_phys user_dst src len =
     (if len = 0 then (0, s)
      else case src of
        None \<Rightarrow> (-1, s)
      | Some inp \<Rightarrow>
          if \<not> user_range_valid user_dst len then (-1, s)
          else copy_to_user_loop s cr3_phys user_dst len inp 0)"

definition copy_arg :: "string \<Rightarrow> nat \<Rightarrow> string option" where
  "copy_arg src len = (if len + 1 > USER_ARG_MAX then None else Some (take len src))"

definition arg_length :: "string \<Rightarrow> nat" where
  "arg_length p = length (takeWhile (\<lambda>c. c \<noteq> NUL \<and> c \<noteq> CHR '' '') p)"

function parse_args_loop :: "string \<Rightarrow> string list \<Rightarrow> string list option" where
  "parse_args_loop p values =
     (if deref p = NUL then Some values
      else let start = dropWhile (\<lambda>c. c = CHR '' '') p in
        if deref start = NUL then Some values
        else if length values \<ge> USER_ARGV_MAX then None
        else case copy_arg start (arg_length start) of
               None \<Rightarrow> None
             | Some v \<Rightarrow> parse_args_loop (drop (arg_length start) start) (values @ [v]))"
  by pat_completeness auto

lemma drop_arg_less:
  assumes "deref (dropWhile (\<lambda>c. c = CHR '' '') p) \<noteq> NUL"
  shows "length (drop (arg_length (dropWhile (\<lambda>c. c = CHR '' '') p)) (dropWhile (\<lambda>c. c = CHR '' '') p)) < length p"
proof -
  let ?q = "dropWhile (\<lambda>c. c = CHR '' '') p"
  obtain c q where q: "?q = c # q" "c \<noteq> NUL" using assms by (cases ?q) auto
  have "c \<noteq> CHR '' ''" using q(1) hd_dropWhile [of "\<lambda>c. c = CHR '' ''" p] by auto
  then have "arg_length ?q > 0" using q by (simp add: arg_length_def)
  moreover have "length ?q > 0" "length ?q \<le> length p" using length_dropWhile_le [of "\<lambda>c. c = CHR '' ''" p] q(1) by simp_all
  ultimately show ?thesis by (simp only: length_drop)
qed

termination parse_args_loop
  by (relation "measure (\<lambda>(p, values). length p)") (use drop_arg_less in auto)

definition parse_spawn_args :: "string \<Rightarrow> string option \<Rightarrow> string list option" where
  "parse_spawn_args path args =
     (let p = (case args of None \<Rightarrow> [] | Some args \<Rightarrow> args) in
      case copy_arg path (string_length path) of None \<Rightarrow> None | Some v \<Rightarrow> parse_args_loop p [v])"

definition string_bytes :: "string \<Rightarrow> u8 list" where
  "string_bytes v = map (\<lambda>c. of_nat (of_char c)) v"

definition u64_bytes :: "u64 \<Rightarrow> u8 list" where
  "u64_bytes v = map (\<lambda>i. ucast (drop_bit (8 * i) v)) [0..<8]"

text \<open>Strings and then pointers are pushed from the last to the first.\<close>

primrec push_strings ::
  "u64 \<Rightarrow> string list \<Rightarrow> u64 \<Rightarrow> u64 list \<Rightarrow> 'a vmm_state_scheme \<Rightarrow> (u64 \<times> u64 list) option \<times> 'a vmm_state_scheme" where
  "push_strings cr3 [] sp ptrs s = (Some (sp, ptrs), s)"
| "push_strings cr3 (v # vs) sp ptrs s =
     (let len = of_nat (string_length v) + 1;
          sp = sp - len
      in case copy_to_user_in_space s cr3 sp (Some (string_bytes v @ [0])) len of (r, s) \<Rightarrow>
           if r \<noteq> 0 then (None, s) else push_strings cr3 vs sp (sp # ptrs) s)"

primrec push_words :: "u64 \<Rightarrow> u64 list \<Rightarrow> u64 \<Rightarrow> 'a vmm_state_scheme \<Rightarrow> u64 option \<times> 'a vmm_state_scheme" where
  "push_words cr3 [] sp s = (Some sp, s)"
| "push_words cr3 (w # ws) sp s =
     (case copy_to_user_in_space s cr3 (sp - 8) (Some (u64_bytes w)) 8 of (r, s) \<Rightarrow>
        if r \<noteq> 0 then (None, s) else push_words cr3 ws (sp - 8) s)"

definition build_initial_user_stack ::
  "'a vmm_state_scheme \<Rightarrow> u64 \<Rightarrow> string \<Rightarrow> string option \<Rightarrow> (u64 \<times> u64 \<times> u64) option \<times> 'a vmm_state_scheme" where
  "build_initial_user_stack s cr3_phys path args =
     (case parse_spawn_args path args of
        None \<Rightarrow> (None, s)
      | Some values \<Rightarrow>
          case push_strings cr3_phys (rev values) USER_STACK_TOP [] s of
            (None, s) \<Rightarrow> (None, s)
          | (Some (sp, argv_ptrs), s) \<Rightarrow>
              case push_words cr3_phys (0 # rev argv_ptrs) (sp AND NOT 0xf) s of
                (None, s) \<Rightarrow> (None, s)
              | (Some sp, s) \<Rightarrow> (Some (sp, of_nat (length values), sp), s))"

subsection \<open>The program image\<close>

definition find_init_module :: "limine_file list option \<Rightarrow> limine_file kres" where
  "find_init_module modules =
     (case modules of
        None \<Rightarrow> Inl ''no module response from bootloader''
      | Some modules \<Rightarrow>
          case find (\<lambda>m. strings_equal (lf_string m) (Some ''init'') \<or> ends_with (lf_path m) ''/init.elf'') modules of
            None \<Rightarrow> Inl ''init.elf module not found''
          | Some m \<Rightarrow> Inr m)"

definition validate_elf_header :: "elf64_ehdr \<Rightarrow> u64 \<Rightarrow> unit kres" where
  "validate_elf_header ehdr image_size =
     (if image_size < 64 then Inl ''init module too small for ELF header''
      else if e_ident ehdr ! 0 \<noteq> 0x7f \<or> e_ident ehdr ! 1 \<noteq> 0x45 \<or> e_ident ehdr ! 2 \<noteq> 0x4c \<or> e_ident ehdr ! 3 \<noteq> 0x46
      then Inl ''init module is not an ELF file''
      else if e_ident ehdr ! 4 \<noteq> 2 \<or> e_ident ehdr ! 5 \<noteq> 1 \<or> e_ident ehdr ! 6 \<noteq> 1 then Inl ''unsupported init ELF format''
      else if e_type ehdr \<noteq> ET_EXEC \<or> e_machine ehdr \<noteq> EM_X86_64 \<or> e_version ehdr \<noteq> EV_CURRENT
      then Inl ''init ELF is not an x86_64 executable''
      else if e_ehsize ehdr \<noteq> 64 \<or> e_phentsize ehdr \<noteq> 56 \<or> e_phnum ehdr = 0
      then Inl ''invalid init ELF program header table''
      else
        let phdr_size = ucast (e_phentsize ehdr) * ucast (e_phnum ehdr) in
        if e_phoff ehdr > image_size \<or> phdr_size > image_size - e_phoff ehdr then Inl ''init ELF program headers out of range''
        else if \<not> user_range_valid (e_entry ehdr) 1 then Inl ''init ELF entry is outside userspace''
        else Inr ())"

definition segment_vmm_flags :: "elf64_phdr \<Rightarrow> u64" where
  "segment_vmm_flags phdr =
     (let flags = VMM_FLAG_USER;
          flags = (if p_flags phdr AND PF_W \<noteq> 0 then flags OR VMM_FLAG_WRITABLE else flags)
      in if p_flags phdr AND PF_X = 0 then flags OR VMM_FLAG_NO_EXEC else flags)"

text \<open>The part of the file that belongs on one page of the segment is copied into the page's frame.\<close>

definition fill_elf_page :: "u8 list \<Rightarrow> elf64_phdr \<Rightarrow> u64 \<Rightarrow> u64 \<Rightarrow> (u64 \<Rightarrow> u64) \<Rightarrow> (u64 \<Rightarrow> u64)" where
  "fill_elf_page img phdr page phys mem =
     (let file_end = p_vaddr phdr + p_filesz phdr;
          copy_start = max_u64 page (p_vaddr phdr);
          copy_end = min_u64 (page + PAGE_SIZE) file_end
      in if copy_end > copy_start then
           let dst_offset = copy_start - page;
               src_offset = p_offset phdr + (copy_start - p_vaddr phdr)
           in mem_write_bytes mem (phys + dst_offset) (take (unat (copy_end - copy_start)) (drop (unat src_offset) img))
         else mem)"

primrec map_elf_pages :: "u64 \<Rightarrow> u8 list \<Rightarrow> elf64_phdr \<Rightarrow> u64 list \<Rightarrow> 'a pmm_state_scheme \<Rightarrow> 'a pmm_state_scheme kres" where
  "map_elf_pages cr3 img phdr [] s = Inr s"
| "map_elf_pages cr3 img phdr (page # pages) s =
     kbind (pmm_alloc_page s) (\<lambda>(phys, s).
       let s = s\<lparr>phys_mem := fill_elf_page img phdr page phys (phys_mem s)\<rparr>
       in kbind (vmm_map_page_in s cr3 page phys (segment_vmm_flags phdr)) (\<lambda>(r, s).
            if r \<noteq> 0 then Inl ''failed to map init ELF segment page'' else map_elf_pages cr3 img phdr pages s))"

definition map_elf_segment :: "u64 \<Rightarrow> u8 list \<Rightarrow> u64 \<Rightarrow> elf64_phdr \<Rightarrow> 'a pmm_state_scheme \<Rightarrow> 'a pmm_state_scheme kres" where
  "map_elf_segment cr3_phys img image_size phdr s =
     (if p_memsz phdr = 0 then Inr s
      else if p_filesz phdr > p_memsz phdr then Inl ''init ELF segment filesz exceeds memsz''
      else if p_offset phdr > image_size \<or> p_filesz phdr > image_size - p_offset phdr
      then Inl ''init ELF segment file range out of bounds''
      else if \<not> user_range_valid (p_vaddr phdr) (p_memsz phdr) then Inl ''init ELF segment is outside userspace''
      else if p_vaddr phdr AND (PAGE_SIZE - 1) \<noteq> p_offset phdr AND (PAGE_SIZE - 1)
      then Inl ''init ELF segment has incompatible alignment''
      else
        let mem_end = p_vaddr phdr + p_memsz phdr;
            seg_start = align_down (p_vaddr phdr) PAGE_SIZE;
            seg_end = align_up mem_end PAGE_SIZE
        in if range_overlaps_stack seg_start seg_end then Inl ''init ELF segment overlaps user stack''
           else map_elf_pages cr3_phys img phdr (page_range seg_start seg_end) s)"

primrec map_stack_pages :: "u64 \<Rightarrow> u64 list \<Rightarrow> 'a pmm_state_scheme \<Rightarrow> 'a pmm_state_scheme kres" where
  "map_stack_pages cr3 [] s = Inr s"
| "map_stack_pages cr3 (page # pages) s =
     kbind (pmm_alloc_page s) (\<lambda>(phys, s).
     kbind (vmm_map_page_in s cr3 page phys (VMM_FLAG_WRITABLE OR VMM_FLAG_USER OR VMM_FLAG_NO_EXEC)) (\<lambda>(r, s).
       if r \<noteq> 0 then Inl ''failed to map init user stack'' else map_stack_pages cr3 pages s))"

definition map_user_stack :: "u64 \<Rightarrow> 'a pmm_state_scheme \<Rightarrow> 'a pmm_state_scheme kres" where
  "map_user_stack cr3_phys s = map_stack_pages cr3_phys (page_range (USER_STACK_TOP - USER_STACK_SIZE) USER_STACK_TOP) s"

primrec load_segments ::
  "u64 \<Rightarrow> u8 list \<Rightarrow> u64 \<Rightarrow> elf64_phdr list \<Rightarrow> u64 \<Rightarrow> 'a pmm_state_scheme \<Rightarrow> (u64 \<times> 'a pmm_state_scheme) kres" where
  "load_segments cr3 img image_size [] image_end s = Inr (image_end, s)"
| "load_segments cr3 img image_size (phdr # phdrs) image_end s =
     (if p_type phdr = PT_LOAD then
        kbind (map_elf_segment cr3 img image_size phdr s)
          (load_segments cr3 img image_size phdrs (max_u64 image_end (p_vaddr phdr + p_memsz phdr)))
      else load_segments cr3 img image_size phdrs image_end s)"

definition load_elf_image ::
  "u8 list \<Rightarrow> u64 \<Rightarrow> u64 \<Rightarrow> 'a pmm_state_scheme \<Rightarrow> (user_image \<times> 'a pmm_state_scheme) kres" where
  "load_elf_image img image_size cr3_phys s =
     (let ehdr = ehdr_of img in
      kbind (validate_elf_header ehdr image_size) (\<lambda>_.
      kbind (load_segments cr3_phys img image_size (phdrs_of img) 0 s) (\<lambda>(image_end, s).
        Inr (\<lparr>ui_entry = e_entry ehdr, ui_brk_start = align_up image_end PAGE_SIZE\<rparr>, s))))"

subsection \<open>Starting programs\<close>

definition user_heap_limit :: "u64 \<Rightarrow> u64" where
  "user_heap_limit brk_start =
     (let heap_limit = brk_start + USER_HEAP_SIZE;
          stack_start = USER_STACK_TOP - USER_STACK_SIZE
      in if heap_limit > stack_start - PAGE_SIZE then stack_start - PAGE_SIZE else heap_limit)"

definition user_init_from_modules ::
  "(u64 \<Rightarrow> u8) \<Rightarrow> limine_file list option \<Rightarrow> 'a sched_state_scheme \<Rightarrow> 'a sched_state_scheme krun" where
  "user_init_from_modules boot_memory modules s =
     rbind (Some (find_init_module modules)) (\<lambda>init_module.
     rbind (Some (vmm_create_address_space s)) (\<lambda>(cr3_phys, s).
     rbind (Some (load_elf_image (map (\<lambda>i. boot_memory (lf_address init_module + of_nat i)) [0..<unat (lf_size init_module)])
                    (lf_size init_module) cr3_phys s)) (\<lambda>(img, s).
     rbind (Some (map_user_stack cr3_phys s)) (\<lambda>s.
     rbind (scheduler_create_user_task (Some ''init'') cr3_phys (ui_entry img) USER_STACK_TOP 0 0
              (ui_brk_start img) (user_heap_limit (ui_brk_start img)) s) (\<lambda>(result, s).
       if result \<noteq> 0 then Some (Inl ''failed to create init task'') else Some (Inr s))))))"

text \<open>The bytes of a heap block.\<close>

definition heap_bytes :: "u64 \<Rightarrow> nat \<Rightarrow> 'a heap_state_scheme \<Rightarrow> u8 list" where
  "heap_bytes p n s = map (\<lambda>i. heap_data s (p + of_nat i)) [0..<n]"

definition heap_put_bytes :: "u64 \<Rightarrow> u8 list \<Rightarrow> 'a heap_state_scheme \<Rightarrow> 'a heap_state_scheme" where
  "heap_put_bytes p bs s = s\<lparr>heap_data := (\<lambda>a. if unat (a - p) < length bs then bs ! unat (a - p) else heap_data s a)\<rparr>"

text \<open>The last part of spawning: the task is created, or the new address space given up.\<close>

definition spawn_task ::
  "string \<Rightarrow> string option \<Rightarrow> u64 \<Rightarrow> u64 \<Rightarrow> user_image \<Rightarrow> ('s, 'a) kernel_state_scheme \<Rightarrow>
   (int \<times> ('s, 'a) kernel_state_scheme) krun" where
  "spawn_task path args image_buffer cr3_phys img s =
     (case build_initial_user_stack s cr3_phys path args of
        (None, s) \<Rightarrow>
          rbind (Some (kfree s image_buffer)) (\<lambda>s.
          rbind (Some (vmm_destroy_user_address_space s cr3_phys)) (\<lambda>(_, s). Some (Inr (-1, s))))
      | (Some (user_stack_top, argc, argv), s) \<Rightarrow>
          rbind (scheduler_create_user_task (Some (user_copy_task_name (Some path))) cr3_phys (ui_entry img) user_stack_top
                   argc argv (ui_brk_start img) (user_heap_limit (ui_brk_start img)) s) (\<lambda>(result, s).
          rbind (Some (kfree s image_buffer)) (\<lambda>s.
            if result \<noteq> 0
            then rbind (Some (vmm_destroy_user_address_space s cr3_phys)) (\<lambda>(_, s). Some (Inr (-1, s)))
            else Some (Inr (0, s)))))"

definition user_spawn_from_vfs_with_args ::
  "string option \<Rightarrow> string option \<Rightarrow> ('s, 'a) kernel_state_scheme \<Rightarrow> (int \<times> ('s, 'a) kernel_state_scheme) krun" where
  "user_spawn_from_vfs_with_args path args s =
     (case path of
        None \<Rightarrow> Some (Inr (-1, s))
      | Some p \<Rightarrow>
          case vfs_file_size (mounts s) path (fs s) of (image_size, f) \<Rightarrow>
            let s = s\<lparr>fs := f\<rparr> in
            if image_size = U64_FAIL \<or> image_size = 0 \<or> image_size > USER_SPAWN_IMAGE_MAX then Some (Inr (-1, s))
            else
              rbind (kmalloc s image_size) (\<lambda>(image_buffer, s).
                if image_buffer = 0 then Some (Inr (-1, s))
                else case vfs_read_file (mounts s) path 0 (Some (heap_bytes image_buffer (unat image_size) s)) image_size (fs s) of
                  (read, buffer, f) \<Rightarrow>
                    let s = heap_put_bytes image_buffer (case buffer of None \<Rightarrow> [] | Some bs \<Rightarrow> bs) (s\<lparr>fs := f\<rparr>) in
                    if read \<noteq> image_size
                    then rbind (Some (kfree s image_buffer)) (\<lambda>s. Some (Inr (-1, s)))
                    else
                      rbind (Some (vmm_create_address_space s)) (\<lambda>(cr3_phys, s).
                      rbind (Some (load_elf_image (heap_bytes image_buffer (unat image_size) s) image_size cr3_phys s)) (\<lambda>(img, s).
                      rbind (Some (map_user_stack cr3_phys s)) (\<lambda>s.
                        spawn_task p args image_buffer cr3_phys img s)))))"

definition user_spawn_from_vfs :: "string option \<Rightarrow> ('s, 'a) kernel_state_scheme \<Rightarrow> (int \<times> ('s, 'a) kernel_state_scheme) krun" where
  "user_spawn_from_vfs path s = user_spawn_from_vfs_with_args path (Some '''') s"

end
