(* ===== verification/Syscall.thy ===== *)
theory Syscall
  imports User_Program Input Console Block_Device
begin

text \<open>
  The system calls (kernel/syscall.c) and the terminal behind descriptors 0 to 2 (kernel/tty.c). A call reads its number and
  arguments from the interrupt frame, moves data between user memory and the kernel through bounded local buffers, and leaves its
  result in the frame.
\<close>

section \<open>The code\<close>

subsection \<open>The terminal\<close>

text \<open>The whole system: the kernel's state with the keyboard buffer and the console.\<close>

record 's system_state = "'s kernel_state" +
  keyboard :: input_state
  console :: console_state

definition tty_on_key :: "char \<Rightarrow> ('s, 'a) system_state_scheme \<Rightarrow> ('s, 'a) system_state_scheme" where
  "tty_on_key c s =
     (let s = s\<lparr>keyboard := input_push_key c (keyboard s)\<rparr>;
          s = scheduler_wake_input_waiters s
      in if c = CHR 0x0A then s\<lparr>console := console_write (Some [CHR 0x0A]) (console s)\<rparr>
         else if c = CHR 0x08 then s\<lparr>console := console_write (Some [CHR 0x08, CHR '' '', CHR 0x08]) (console s)\<rparr>
         else s\<lparr>console := console_write (Some [c]) (console s)\<rparr>)"

definition tty_read :: "char list \<Rightarrow> u64 \<Rightarrow> ('s, 'a) system_state_scheme \<Rightarrow> u64 \<times> char list \<times> ('s, 'a) system_state_scheme" where
  "tty_read buffer len s = (case input_read buffer len (keyboard s) of (r, buffer, k) \<Rightarrow> (r, buffer, s\<lparr>keyboard := k\<rparr>))"

definition tty_write :: "string \<Rightarrow> u64 \<Rightarrow> ('s, 'a) system_state_scheme \<Rightarrow> u64 \<times> ('s, 'a) system_state_scheme" where
  "tty_write buffer len s = (len, s\<lparr>console := console_write_n (take (unat len) buffer) (console s)\<rparr>)"

subsection \<open>Data in the kernel's stack\<close>

text \<open>
  The calls copy through local buffers and structures. What they hold before they are written is unknown: \<open>stack\<close> gives those
  bytes.
\<close>

type_synonym stack = "nat \<Rightarrow> u8"

abbreviation SYSCALL_WRITE_CHUNK_SIZE :: nat where "SYSCALL_WRITE_CHUNK_SIZE \<equiv> 128"
abbreviation SYSCALL_PATH_MAX :: nat where "SYSCALL_PATH_MAX \<equiv> 128"
abbreviation SYSCALL_READ_CHUNK_SIZE :: nat where "SYSCALL_READ_CHUNK_SIZE \<equiv> 512"
abbreviation SYSCALL_BLOCK_MAX_COUNT :: u64 where "SYSCALL_BLOCK_MAX_COUNT \<equiv> 8"

definition local_buffer :: "stack \<Rightarrow> nat \<Rightarrow> u8 list" where
  "local_buffer stack n = map stack [0..<n]"

definition bytes_string :: "u8 list \<Rightarrow> string" where
  "bytes_string bs = map (\<lambda>b. char_of (unat b)) bs"

definition as_int :: "u64 \<Rightarrow> int" where
  "as_int v = sint (ucast v :: u32)"

text \<open>A character array of a structure: the string, its terminator and what the array held behind it.\<close>

definition chars_field :: "stack \<Rightarrow> nat \<Rightarrow> nat \<Rightarrow> string \<Rightarrow> u8 list" where
  "chars_field stack off n str = string_bytes str @ [0] @ map (\<lambda>i. stack (off + i)) [length str + 1..<n]"

definition dirent_bytes :: "stack \<Rightarrow> vfs_dirent \<Rightarrow> u8 list" where
  "dirent_bytes stack d = chars_field stack 0 64 (de_name d) @ u64_bytes (de_type d) @ u64_bytes (de_size d)"

definition mount_info_bytes :: "stack \<Rightarrow> vfs_mount_info \<Rightarrow> u8 list" where
  "mount_info_bytes stack m =
     chars_field stack 0 32 (mi_name m) @ chars_field stack 32 64 (mi_path m) @ chars_field stack 96 64 (mi_source m) @
     u64_bytes (mi_writable m)"

definition task_info_bytes :: "stack \<Rightarrow> task_info \<Rightarrow> u8 list" where
  "task_info_bytes stack t =
     u64_bytes (ti_pid t) @ u64_bytes (ti_state t) @ u64_bytes (ti_exit_status t) @ u64_bytes (ti_switches t) @
     chars_field stack 32 32 (ti_name t)"

definition block_info_bytes :: "stack \<Rightarrow> block_device_info \<Rightarrow> u8 list" where
  "block_info_bytes stack b =
     chars_field stack 0 32 (bi_name b) @ u64_bytes (bi_block_size b) @ u64_bytes (bi_block_count b) @ u64_bytes (bi_writable b)"

record sys_meminfo =
  total_pages :: u64
  free_pages :: u64
  used_pages :: u64
  page_size :: u64

definition sysinfo_get_meminfo :: "'a pmm_state_scheme \<Rightarrow> sys_meminfo" where
  "sysinfo_get_meminfo s =
     \<lparr>total_pages = pmm_total_pages s, free_pages = pmm_free_pages s, used_pages = pmm_total_pages s - pmm_free_pages s,
      page_size = PAGE_SIZE\<rparr>"

definition meminfo_bytes :: "sys_meminfo \<Rightarrow> u8 list" where
  "meminfo_bytes m = u64_bytes (total_pages m) @ u64_bytes (free_pages m) @ u64_bytes (used_pages m) @ u64_bytes (page_size m)"

text \<open>A path argument.\<close>

definition user_path :: "stack \<Rightarrow> 'a vmm_state_scheme \<Rightarrow> u64 \<Rightarrow> string option" where
  "user_path stack s path =
     (case copy_string_from_user s (Some (local_buffer stack SYSCALL_PATH_MAX)) path (of_nat SYSCALL_PATH_MAX) of
        (r, kernel_path) \<Rightarrow>
          if r \<noteq> 0 then None else map_option (\<lambda>bs. cstr (bytes_string bs)) kernel_path)"

text \<open>Every call that fills a structure ends by copying it out.\<close>

definition copy_struct_out :: "'a vmm_state_scheme \<Rightarrow> u64 \<Rightarrow> u8 list \<Rightarrow> u64 \<Rightarrow> u64 \<times> 'a vmm_state_scheme" where
  "copy_struct_out s buffer bytes result =
     (case copy_to_user s buffer (Some bytes) (of_nat (length bytes)) of (r, s) \<Rightarrow> (if r \<noteq> 0 then U64_FAIL else result, s))"

subsection \<open>The calls\<close>

lemma min_u64_chunk:
  assumes "written < len" "0 < n"
  shows "unat (min_u64 n (len - written)) = min (unat n) (unat len - unat written)"
    "unat (written + min_u64 n (len - written)) = unat written + unat (min_u64 n (len - written))"
    "0 < unat (min_u64 n (len - written))"
proof -
  have l: "unat written < unat len" "0 < unat n" using assms by (simp_all add: word_less_nat_alt)
  have "unat (len - written) = unat len - unat written" using assms(1) by (intro unat_sub) simp
  then show eq: "unat (min_u64 n (len - written)) = min (unat n) (unat len - unat written)"
    by (simp add: min_u64_def word_less_nat_alt)
  show "0 < unat (min_u64 n (len - written))" unfolding eq using l by simp
  have "unat written + unat (min_u64 n (len - written)) \<le> unat len" unfolding eq using l by simp
  then have "unat written + unat (min_u64 n (len - written)) < 18446744073709551616"
    using unat_u64_less [of len] by linarith
  then show "unat (written + min_u64 n (len - written)) = unat written + unat (min_u64 n (len - written))"
    by (simp add: unat_word_ariths)
qed

lemma chunk_measure:
  "written < len \<Longrightarrow> 0 < n \<Longrightarrow> unat len - unat (written + min_u64 n (len - written)) < unat len - unat written"
  using min_u64_chunk(2,3) [of written len n] by (simp add: word_less_nat_alt)

function write_tty_chunks ::
  "u64 \<Rightarrow> u64 \<Rightarrow> u8 list \<Rightarrow> u64 \<Rightarrow> ('s, 'a) system_state_scheme \<Rightarrow> u64 \<times> ('s, 'a) system_state_scheme" where
  "write_tty_chunks buf len chunk written s =
     (if written < len then
        let to_copy = min_u64 (of_nat SYSCALL_WRITE_CHUNK_SIZE) (len - written) in
        case copy_from_user s (Some chunk) (buf + written) to_copy of (r, chunk') \<Rightarrow>
          if r \<noteq> 0 then (U64_FAIL, s)
          else write_tty_chunks buf len (the chunk') (written + to_copy) (snd (tty_write (bytes_string (the chunk')) to_copy s))
      else (len, s))"
  by pat_completeness auto
termination
  by (relation "measure (\<lambda>(buf, len, chunk, written, s). unat len - unat written)") (auto intro: chunk_measure)

definition syscall_write_buffer :: "stack \<Rightarrow> u64 \<Rightarrow> u64 \<Rightarrow> ('s, 'a) system_state_scheme \<Rightarrow> u64 \<times> ('s, 'a) system_state_scheme" where
  "syscall_write_buffer stack buf len s =
     (if usercopy_validate_range s buf len False \<noteq> 0 then (U64_FAIL, s)
      else write_tty_chunks buf len (local_buffer stack SYSCALL_WRITE_CHUNK_SIZE) 0 s)"

function write_fd_chunks ::
  "u64 \<Rightarrow> u64 \<Rightarrow> u64 \<Rightarrow> u8 list \<Rightarrow> u64 \<Rightarrow> ('s, 'a) system_state_scheme \<Rightarrow> u64 \<times> ('s, 'a) system_state_scheme" where
  "write_fd_chunks fd buf len chunk written s =
     (if written < len then
        let to_copy = min_u64 (of_nat SYSCALL_WRITE_CHUNK_SIZE) (len - written) in
        case copy_from_user s (Some chunk) (buf + written) to_copy of (r, chunk') \<Rightarrow>
          if r \<noteq> 0 then (U64_FAIL, s)
          else case scheduler_write_current_file (as_int fd) chunk' to_copy s of (result, s) \<Rightarrow>
            if result = U64_FAIL \<or> result \<noteq> to_copy then (U64_FAIL, s)
            else write_fd_chunks fd buf len (the chunk') (written + to_copy) s
      else (written, s))"
  by pat_completeness auto
termination
  by (relation "measure (\<lambda>(fd, buf, len, chunk, written, s). unat len - unat written)") (auto intro: chunk_measure)

definition syscall_write :: "stack \<Rightarrow> u64 \<Rightarrow> u64 \<Rightarrow> u64 \<Rightarrow> ('s, 'a) system_state_scheme \<Rightarrow> u64 \<times> ('s, 'a) system_state_scheme" where
  "syscall_write stack fd buf len s =
     (if scheduler_current_fd_is_tty (as_int fd) s then syscall_write_buffer stack buf len s
      else if usercopy_validate_range s buf len False \<noteq> 0 then (U64_FAIL, s)
      else write_fd_chunks fd buf len (local_buffer stack SYSCALL_WRITE_CHUNK_SIZE) 0 s)"

definition syscall_read_file ::
  "stack \<Rightarrow> u64 \<Rightarrow> u64 \<Rightarrow> u64 \<Rightarrow> u64 \<Rightarrow> ('s, 'a) system_state_scheme \<Rightarrow> u64 \<times> ('s, 'a) system_state_scheme" where
  "syscall_read_file stack path offset buffer len s =
     (let to_read = min_u64 len (of_nat SYSCALL_READ_CHUNK_SIZE) in
      case user_path stack s path of
        None \<Rightarrow> (U64_FAIL, s)
      | Some kernel_path \<Rightarrow>
          if usercopy_validate_range s buffer to_read True \<noteq> 0 then (U64_FAIL, s)
          else case vfs_read_file (mounts s) (Some kernel_path) offset (Some (local_buffer stack SYSCALL_READ_CHUNK_SIZE)) to_read (fs s) of
            (read, kernel_buffer, f) \<Rightarrow>
              let s = s\<lparr>fs := f\<rparr> in
              if read = U64_FAIL then (read, s)
              else case copy_to_user s buffer kernel_buffer read of (r, s) \<Rightarrow> (if r \<noteq> 0 then U64_FAIL else read, s))"

definition syscall_open :: "stack \<Rightarrow> u64 \<Rightarrow> u64 \<Rightarrow> ('s, 'a) system_state_scheme \<Rightarrow> u64 \<times> ('s, 'a) system_state_scheme" where
  "syscall_open stack path flags s =
     (case user_path stack s path of
        None \<Rightarrow> (U64_FAIL, s)
      | Some kernel_path \<Rightarrow> case scheduler_open_current_file (Some kernel_path) flags s of (r, s) \<Rightarrow> (word_of_int r, s))"

text \<open>The third result says whether the call would block.\<close>

definition syscall_read ::
  "stack \<Rightarrow> u64 \<Rightarrow> u64 \<Rightarrow> u64 \<Rightarrow> ('s, 'a) system_state_scheme \<Rightarrow> u64 \<times> bool \<times> ('s, 'a) system_state_scheme" where
  "syscall_read stack fd buffer len s =
     (let to_read = min_u64 len (of_nat SYSCALL_READ_CHUNK_SIZE) in
      if usercopy_validate_range s buffer to_read True \<noteq> 0 then (U64_FAIL, False, s)
      else
        let kernel_buffer = local_buffer stack SYSCALL_READ_CHUNK_SIZE;
            is_tty = scheduler_current_fd_is_tty (as_int fd) s
        in case (if is_tty
                 then case tty_read (bytes_string kernel_buffer) to_read s of (r, b, s) \<Rightarrow> (r, Some (string_bytes b), s)
                 else scheduler_read_current_file (as_int fd) (Some kernel_buffer) to_read s) of
             (read, kernel_buffer, s) \<Rightarrow>
               if is_tty \<and> read = 0 \<and> to_read > 0 then (0, True, s)
               else if read = U64_FAIL then (read, False, s)
               else case copy_to_user s buffer kernel_buffer read of (r, s) \<Rightarrow> (if r \<noteq> 0 then U64_FAIL else read, False, s))"

definition syscall_close :: "u64 \<Rightarrow> ('s, 'a) system_state_scheme \<Rightarrow> u64 \<times> ('s, 'a) system_state_scheme" where
  "syscall_close fd s =
     (case scheduler_close_current_file (as_int fd) s of (r, s) \<Rightarrow> (if r = 0 then 0 else U64_FAIL, s))"

definition syscall_getdents ::
  "stack \<Rightarrow> u64 \<Rightarrow> u64 \<Rightarrow> u64 \<Rightarrow> u64 \<Rightarrow> ('s, 'a) system_state_scheme \<Rightarrow> u64 \<times> ('s, 'a) system_state_scheme" where
  "syscall_getdents stack path index buffer len s =
     (if len < 80 then (U64_FAIL, s)
      else case user_path stack s path of
        None \<Rightarrow> (U64_FAIL, s)
      | Some kernel_path \<Rightarrow>
          if usercopy_validate_range s buffer 80 True \<noteq> 0 then (U64_FAIL, s)
          else case vfs_list_dir (mounts s) (Some kernel_path) index (fs s) of (result, dirent, f) \<Rightarrow>
            let s = s\<lparr>fs := f\<rparr> in
            if result \<le> 0 then (if result = 0 then 0 else U64_FAIL, s)
            else copy_struct_out s buffer (dirent_bytes stack (the dirent)) 1)"

function write_file_chunks ::
  "string \<Rightarrow> u64 \<Rightarrow> u64 \<Rightarrow> u64 \<Rightarrow> u8 list \<Rightarrow> u64 \<Rightarrow> ('s, 'a) system_state_scheme \<Rightarrow> u64 \<times> ('s, 'a) system_state_scheme" where
  "write_file_chunks path offset buffer len kernel_buffer written s =
     (if written < len then
        let to_copy = min_u64 (of_nat SYSCALL_READ_CHUNK_SIZE) (len - written) in
        case copy_from_user s (Some kernel_buffer) (buffer + written) to_copy of (r, kernel_buffer') \<Rightarrow>
          if r \<noteq> 0 then (U64_FAIL, s)
          else case vfs_write_file (mounts s) (Some path) (offset + written) kernel_buffer' to_copy (fs s) of (result, f) \<Rightarrow>
            let s = s\<lparr>fs := f\<rparr> in
            if result = U64_FAIL \<or> result \<noteq> to_copy then (U64_FAIL, s)
            else write_file_chunks path offset buffer len (the kernel_buffer') (written + to_copy) s
      else (written, s))"
  by pat_completeness auto
termination
  by (relation "measure (\<lambda>(path, offset, buffer, len, kernel_buffer, written, s). unat len - unat written)")
    (auto intro: chunk_measure)

definition syscall_write_file ::
  "stack \<Rightarrow> u64 \<Rightarrow> u64 \<Rightarrow> u64 \<Rightarrow> u64 \<Rightarrow> ('s, 'a) system_state_scheme \<Rightarrow> u64 \<times> ('s, 'a) system_state_scheme" where
  "syscall_write_file stack path offset buffer len s =
     (case user_path stack s path of
        None \<Rightarrow> (U64_FAIL, s)
      | Some kernel_path \<Rightarrow>
          if usercopy_validate_range s buffer len False \<noteq> 0 then (U64_FAIL, s)
          else write_file_chunks kernel_path offset buffer len (local_buffer stack SYSCALL_READ_CHUNK_SIZE) 0 s)"

definition syscall_lseek :: "u64 \<Rightarrow> u64 \<Rightarrow> u64 \<Rightarrow> ('s, 'a) system_state_scheme \<Rightarrow> u64 \<times> ('s, 'a) system_state_scheme" where
  "syscall_lseek fd offset whence s = scheduler_seek_current_file (as_int fd) offset whence s"

definition syscall_unlink :: "stack \<Rightarrow> u64 \<Rightarrow> ('s, 'a) system_state_scheme \<Rightarrow> u64 \<times> ('s, 'a) system_state_scheme" where
  "syscall_unlink stack path s =
     (case user_path stack s path of
        None \<Rightarrow> (U64_FAIL, s)
      | Some kernel_path \<Rightarrow>
          case vfs_unlink_file (mounts s) (Some kernel_path) (fs s) of (r, f) \<Rightarrow> (if r = 0 then 0 else U64_FAIL, s\<lparr>fs := f\<rparr>))"

definition syscall_spawn :: "stack \<Rightarrow> u64 \<Rightarrow> u64 \<Rightarrow> ('s, 'a) system_state_scheme \<Rightarrow> (u64 \<times> ('s, 'a) system_state_scheme) krun" where
  "syscall_spawn stack path args s =
     (case user_path stack s path of
        None \<Rightarrow> Some (Inr (U64_FAIL, s))
      | Some kernel_path \<Rightarrow>
          case (if args = 0 then Some [] else user_path stack s args) of
            None \<Rightarrow> Some (Inr (U64_FAIL, s))
          | Some kernel_args \<Rightarrow>
              rbind (user_spawn_from_vfs_with_args (Some kernel_path) (Some kernel_args) s) (\<lambda>(r, s).
                Some (Inr (if r = 0 then 0 else U64_FAIL, s))))"

definition syscall_task_info :: "stack \<Rightarrow> u64 \<Rightarrow> u64 \<Rightarrow> u64 \<Rightarrow> ('s, 'a) system_state_scheme \<Rightarrow> u64 \<times> ('s, 'a) system_state_scheme" where
  "syscall_task_info stack index buffer len s =
     (if len < 64 \<or> usercopy_validate_range s buffer 64 True \<noteq> 0 then (U64_FAIL, s)
      else case scheduler_task_info index s of
        None \<Rightarrow> (0, s)
      | Some info \<Rightarrow> copy_struct_out s buffer (task_info_bytes stack info) 1)"

definition syscall_meminfo :: "u64 \<Rightarrow> u64 \<Rightarrow> ('s, 'a) system_state_scheme \<Rightarrow> u64 \<times> ('s, 'a) system_state_scheme" where
  "syscall_meminfo buffer len s =
     (if len < 32 \<or> usercopy_validate_range s buffer 32 True \<noteq> 0 then (U64_FAIL, s)
      else copy_struct_out s buffer (meminfo_bytes (sysinfo_get_meminfo s)) 0)"

text \<open>The report of \<^verbatim>\<open>sysinfo_get_system_info\<close> is a parameter: the bytes of the structure in a state.\<close>

definition syscall_sysinfo ::
  "(('s, 'a) system_state_scheme \<Rightarrow> u8 list) \<Rightarrow> u64 \<Rightarrow> u64 \<Rightarrow> ('s, 'a) system_state_scheme \<Rightarrow> u64 \<times> ('s, 'a) system_state_scheme" where
  "syscall_sysinfo system_info buffer len s =
     (let info = system_info s in
      if len < of_nat (length info) \<or> usercopy_validate_range s buffer (of_nat (length info)) True \<noteq> 0 then (U64_FAIL, s)
      else copy_struct_out s buffer info 0)"

definition syscall_block_info ::
  "stack \<Rightarrow> u64 \<Rightarrow> u64 \<Rightarrow> u64 \<Rightarrow> ('b block_state_scheme, 'a) system_state_scheme \<Rightarrow> u64 \<times> ('b block_state_scheme, 'a) system_state_scheme" where
  "syscall_block_info stack index buffer len s =
     (if len < 56 \<or> usercopy_validate_range s buffer 56 True \<noteq> 0 then (U64_FAIL, s)
      else case block_get_info index (fs s) of
        None \<Rightarrow> (U64_FAIL, s)
      | Some info \<Rightarrow> copy_struct_out s buffer (block_info_bytes stack info) 0)"

text \<open>\<open>None\<close> stands for a device access that does not return.\<close>

primrec block_read_loop ::
  "'b block_state_scheme other_drivers \<Rightarrow> u64 \<Rightarrow> u64 \<Rightarrow> u64 \<Rightarrow> u64 \<Rightarrow> u64 list \<Rightarrow> u8 list \<Rightarrow>
   ('b block_state_scheme, 'a) system_state_scheme \<Rightarrow> (u64 \<times> ('b block_state_scheme, 'a) system_state_scheme) option" where
  "block_read_loop drv index lba buffer count [] sector s = Some (count, s)"
| "block_read_loop drv index lba buffer count (i # is) sector s =
     (case block_read drv index (lba + i) 1 (Some sector) (fs s) of
        None \<Rightarrow> None
      | Some (r, sector', f) \<Rightarrow>
          let s = s\<lparr>fs := f\<rparr> in
          if r \<noteq> 0 then Some (U64_FAIL, s)
          else case copy_to_user s (buffer + i * 512) sector' 512 of (r, s) \<Rightarrow>
            if r \<noteq> 0 then Some (U64_FAIL, s) else block_read_loop drv index lba buffer count is (the sector') s)"

definition syscall_block_read ::
  "stack \<Rightarrow> 'b block_state_scheme other_drivers \<Rightarrow> u64 \<Rightarrow> u64 \<Rightarrow> u64 \<Rightarrow> u64 \<Rightarrow>
   ('b block_state_scheme, 'a) system_state_scheme \<Rightarrow> (u64 \<times> ('b block_state_scheme, 'a) system_state_scheme) option" where
  "syscall_block_read stack drv index lba buffer count s =
     (if count = 0 \<or> count > SYSCALL_BLOCK_MAX_COUNT then Some (U64_FAIL, s)
      else if usercopy_validate_range s buffer (count * 512) True \<noteq> 0 then Some (U64_FAIL, s)
      else block_read_loop drv index lba buffer count (map of_nat [0..<unat count]) (local_buffer stack 512) s)"

primrec block_write_loop ::
  "'b block_state_scheme other_drivers \<Rightarrow> u64 \<Rightarrow> u64 \<Rightarrow> u64 \<Rightarrow> u64 \<Rightarrow> u64 list \<Rightarrow> u8 list \<Rightarrow>
   ('b block_state_scheme, 'a) system_state_scheme \<Rightarrow> (u64 \<times> ('b block_state_scheme, 'a) system_state_scheme) option" where
  "block_write_loop drv index lba buffer count [] sector s = Some (count, s)"
| "block_write_loop drv index lba buffer count (i # is) sector s =
     (case copy_from_user s (Some sector) (buffer + i * 512) 512 of (r, sector') \<Rightarrow>
        if r \<noteq> 0 then Some (U64_FAIL, s)
        else case block_write drv index (lba + i) 1 sector' (fs s) of
               None \<Rightarrow> None
             | Some (r, f) \<Rightarrow>
                 let s = s\<lparr>fs := f\<rparr> in
                 if r \<noteq> 0 then Some (U64_FAIL, s) else block_write_loop drv index lba buffer count is (the sector') s)"

definition syscall_block_write ::
  "stack \<Rightarrow> 'b block_state_scheme other_drivers \<Rightarrow> u64 \<Rightarrow> u64 \<Rightarrow> u64 \<Rightarrow> u64 \<Rightarrow>
   ('b block_state_scheme, 'a) system_state_scheme \<Rightarrow> (u64 \<times> ('b block_state_scheme, 'a) system_state_scheme) option" where
  "syscall_block_write stack drv index lba buffer count s =
     (if count = 0 \<or> count > SYSCALL_BLOCK_MAX_COUNT then Some (U64_FAIL, s)
      else if usercopy_validate_range s buffer (count * 512) False \<noteq> 0 then Some (U64_FAIL, s)
      else block_write_loop drv index lba buffer count (map of_nat [0..<unat count]) (local_buffer stack 512) s)"

definition syscall_mount_info :: "stack \<Rightarrow> u64 \<Rightarrow> u64 \<Rightarrow> u64 \<Rightarrow> ('s, 'a) system_state_scheme \<Rightarrow> u64 \<times> ('s, 'a) system_state_scheme" where
  "syscall_mount_info stack index buffer len s =
     (if len < 168 \<or> usercopy_validate_range s buffer 168 True \<noteq> 0 then (U64_FAIL, s)
      else case vfs_mount_info (mounts s) index of
        None \<Rightarrow> (U64_FAIL, s)
      | Some info \<Rightarrow> copy_struct_out s buffer (mount_info_bytes stack info) 0)"

subsection \<open>Dispatch\<close>

definition upd_frame :: "u64 \<Rightarrow> (interrupt_frame \<Rightarrow> interrupt_frame) \<Rightarrow> 'a sched_state_scheme \<Rightarrow> 'a sched_state_scheme" where
  "upd_frame f g s = s\<lparr>frames := (frames s)(f := g (frames s f))\<rparr>"

abbreviation set_rax :: "u64 \<Rightarrow> u64 \<Rightarrow> 'a sched_state_scheme \<Rightarrow> 'a sched_state_scheme" where
  "set_rax f v s \<equiv> upd_frame f (\<lambda>frame. frame\<lparr>rax := v\<rparr>) s"

text \<open>Most calls put their result in \<^verbatim>\<open>rax\<close> and return to the frame they came from.\<close>

definition returns :: "u64 \<Rightarrow> u64 \<times> 'a sched_state_scheme \<Rightarrow> (u64 \<times> 'a sched_state_scheme) krun" where
  "returns f result = (case result of (v, s) \<Rightarrow> Some (Inr (f, set_rax f v s)))"

definition syscall_dispatch ::
  "stack \<Rightarrow> 'b block_state_scheme other_drivers \<Rightarrow> (('b block_state_scheme, 'a) system_state_scheme \<Rightarrow> u8 list) \<Rightarrow> u64 \<Rightarrow>
   ('b block_state_scheme, 'a) system_state_scheme \<Rightarrow> (u64 \<times> ('b block_state_scheme, 'a) system_state_scheme) krun" where
  "syscall_dispatch stack drv system_info f s =
     (let frame = frames s f; a1 = rdi frame; a2 = rsi frame; a3 = rdx frame; a4 = rcx frame; call = rax frame in
      if call = 1 then returns f (syscall_write stack a1 a2 a3 s)
      else if call = 2 then Some (scheduler_exit_current f a1 s)
      else if call = 3 then returns f (scheduler_current_pid s, s)
      else if call = 4 then Some (Inr (scheduler_yield_current f (set_rax f 0 s)))
      else if call = 5 then Some (Inr (scheduler_sleep_current f a1 (set_rax f 0 s)))
      else if call = 6 then rbind (Some (scheduler_set_current_brk a1 s)) (returns f)
      else if call = 7 then returns f (syscall_read_file stack a1 a2 a3 a4 s)
      else if call = 8 then returns f (syscall_open stack a1 a2 s)
      else if call = 9 then
        case syscall_read stack a1 a2 a3 s of (result, would_block, s) \<Rightarrow>
          if would_block
          then Some (Inr (scheduler_wait_current_for_input f (upd_frame f (\<lambda>frame. frame\<lparr>rax := 9, rip := rip frame - 2\<rparr>) s)))
          else returns f (result, s)
      else if call = 10 then returns f (syscall_close a1 s)
      else if call = 11 then returns f (syscall_getdents stack a1 a2 a3 a4 s)
      else if call = 12 then returns f (syscall_write stack a1 a2 a3 s)
      else if call = 13 then
        case scheduler_dup2_current_file (as_int a1) (as_int a2) s of (r, s) \<Rightarrow> returns f (word_of_int r, s)
      else if call = 14 then returns f (syscall_write_file stack a1 a2 a3 a4 s)
      else if call = 15 then returns f (syscall_lseek a1 a2 a3 s)
      else if call = 16 then returns f (syscall_unlink stack a1 s)
      else if call = 17 then rbind (syscall_spawn stack a1 a2 s) (returns f)
      else if call = 18 then returns f (syscall_task_info stack a1 a2 a3 s)
      else if call = 19 then returns f (syscall_meminfo a1 a2 s)
      else if call = 20 then returns f (syscall_sysinfo system_info a1 a2 s)
      else if call = 21 then returns f (scheduler_ticks s, s)
      else if call = 22 then returns f (syscall_block_info stack a1 a2 a3 s)
      else if call = 23 then Option.bind (syscall_block_read stack drv a1 a2 a3 a4 s) (returns f)
      else if call = 24 then Option.bind (syscall_block_write stack drv a1 a2 a3 a4 s) (returns f)
      else if call = 25 then returns f (syscall_mount_info stack a1 a2 a3 s)
      else returns f (U64_FAIL, s))"

end
