(* ===== verification/Interrupts.thy ===== *)
theory Interrupts
  imports Syscall
begin

text \<open>
  Interrupt handling (kernel/arch/x86_64/interrupts.c): the descriptor tables, the interrupt controller, the timer and the
  keyboard, and the handler that every interrupt, exception and system call enters through.
\<close>

section \<open>The code\<close>

abbreviation GDT_KERNEL_CODE :: u16 where "GDT_KERNEL_CODE \<equiv> 0x08"
abbreviation GDT_TSS :: u16 where "GDT_TSS \<equiv> 0x28"
abbreviation TSS_STACK_SIZE :: u64 where "TSS_STACK_SIZE \<equiv> 16384"
abbreviation IDT_PRESENT :: u8 where "IDT_PRESENT \<equiv> 0x80"
abbreviation IDT_INTERRUPT_GATE :: u8 where "IDT_INTERRUPT_GATE \<equiv> 0x0e"
abbreviation PIC1_COMMAND :: u16 where "PIC1_COMMAND \<equiv> 0x20"
abbreviation PIC1_DATA :: u16 where "PIC1_DATA \<equiv> 0x21"
abbreviation PIC2_COMMAND :: u16 where "PIC2_COMMAND \<equiv> 0xa0"
abbreviation PIC2_DATA :: u16 where "PIC2_DATA \<equiv> 0xa1"
abbreviation PIC_EOI :: u8 where "PIC_EOI \<equiv> 0x20"
abbreviation PIT_CHANNEL0 :: u16 where "PIT_CHANNEL0 \<equiv> 0x40"
abbreviation PIT_COMMAND :: u16 where "PIT_COMMAND \<equiv> 0x43"
abbreviation PIT_BASE_HZ :: u32 where "PIT_BASE_HZ \<equiv> 1193182"

record idt_entry =
  offset_low :: u16
  selector :: u16
  ist :: u8
  type_attr :: u8
  offset_mid :: u16
  offset_high :: u32
  idt_zero :: u32

text \<open>
  The machine: the system with the descriptor tables, the clock, the shift key and the port writes so far, latest last. What a
  port read yields may depend on everything written before; \<open>inb\<close> stands for the devices.
\<close>

record 's machine_state = "'s system_state" +
  gdt :: "u64 list"
  idt :: "idt_entry list"
  gdt_loaded :: bool
  idt_loaded :: bool
  tss_selector :: u16
  timer_ticks :: u64
  shift_down :: bool
  port_writes :: "(u16 \<times> u8) list"

type_synonym ports = "(u16 \<times> u8) list \<Rightarrow> u16 \<Rightarrow> u8"

definition outb :: "u16 \<Rightarrow> u8 \<Rightarrow> ('s, 'a) machine_state_scheme \<Rightarrow> ('s, 'a) machine_state_scheme" where
  "outb port v s = s\<lparr>port_writes := port_writes s @ [(port, v)]\<rparr>"

definition exception_names :: "string list" where
  "exception_names =
     [''divide by zero'', ''debug'', ''non-maskable interrupt'', ''breakpoint'', ''overflow'', ''bound range exceeded'',
      ''invalid opcode'', ''device not available'', ''double fault'', ''coprocessor segment overrun'', ''invalid tss'',
      ''segment not present'', ''stack segment fault'', ''general protection fault'', ''page fault'', ''reserved'',
      ''x87 floating-point exception'', ''alignment check'', ''machine check'', ''simd floating-point exception'',
      ''virtualization exception'', ''control protection exception'', ''reserved'', ''reserved'', ''reserved'', ''reserved'',
      ''reserved'', ''reserved'', ''hypervisor injection exception'', ''vmm communication exception'', ''security exception'',
      ''reserved'']"

subsection \<open>Descriptor tables\<close>

definition gdt_code_data_descriptor :: "u8 \<Rightarrow> u64" where
  "gdt_code_data_descriptor acc = 0xffff OR push_bit 40 (ucast acc) OR push_bit 48 0xf OR push_bit 52 0xa"

definition gdt_set_tss :: "u64 \<Rightarrow> u32 \<Rightarrow> u64 list \<Rightarrow> u64 list" where
  "gdt_set_tss addr limit table =
     table[5 := ucast (limit AND 0xffff) OR push_bit 16 (addr AND 0xffffff) OR push_bit 40 0x89 OR
                push_bit 48 (ucast (drop_bit 16 limit) AND 0xf) OR push_bit 56 (drop_bit 24 addr AND 0xff),
           6 := drop_bit 32 addr]"

text \<open>The task state segment lies at \<open>tss\<close> and has 104 bytes; of its fields only the kernel stack pointer is ever changed.\<close>

definition gdt_init :: "u64 \<Rightarrow> ('s, 'a) machine_state_scheme \<Rightarrow> ('s, 'a) machine_state_scheme krun" where
  "gdt_init tss s =
     rbind (kmalloc s TSS_STACK_SIZE) (\<lambda>(tss_stack, s).
       let s = s\<lparr>tss_rsp0 := (tss_stack + TSS_STACK_SIZE) AND NOT 0xf\<rparr>;
           table = (gdt s)[0 := 0, 1 := gdt_code_data_descriptor 0x9a, 2 := gdt_code_data_descriptor 0x92,
                           3 := gdt_code_data_descriptor 0xfa, 4 := gdt_code_data_descriptor 0xf2]
       in Some (Inr (s\<lparr>gdt := gdt_set_tss tss (104 - 1) table, gdt_loaded := True, tss_selector := GDT_TSS\<rparr>)))"

definition idt_set_gate :: "u8 \<Rightarrow> u64 \<Rightarrow> u8 \<Rightarrow> idt_entry list \<Rightarrow> idt_entry list" where
  "idt_set_gate vec addr dpl table =
     table[unat vec := \<lparr>offset_low = ucast (addr AND 0xffff), selector = GDT_KERNEL_CODE, ist = 0,
             type_attr = IDT_PRESENT OR IDT_INTERRUPT_GATE OR push_bit 5 (dpl AND 0x3),
             offset_mid = ucast (drop_bit 16 addr AND 0xffff), offset_high = ucast (drop_bit 32 addr AND 0xffffffff), idt_zero = 0\<rparr>]"

text \<open>The addresses of the assembly stubs: \<open>isr i\<close> is that of the stub for vector \<open>i\<close>.\<close>

definition idt_init :: "(nat \<Rightarrow> u64) \<Rightarrow> ('s, 'a) machine_state_scheme \<Rightarrow> ('s, 'a) machine_state_scheme" where
  "idt_init isr s =
     s\<lparr>idt := idt_set_gate 0x80 (isr 128) 3 (fold (\<lambda>i. idt_set_gate (of_nat i) (isr i) 0) [0..<48] (idt s)), idt_loaded := True\<rparr>"

subsection \<open>Interrupt controller, timer and keyboard\<close>

text \<open>\<^verbatim>\<open>io_wait\<close> only passes time.\<close>

definition pic_remap :: "ports \<Rightarrow> ('s, 'a) machine_state_scheme \<Rightarrow> ('s, 'a) machine_state_scheme" where
  "pic_remap inb s =
     (let mask1 = inb (port_writes s) PIC1_DATA;
          mask2 = inb (port_writes s) PIC2_DATA
      in fold (\<lambda>(port, v). outb port v)
           [(PIC1_COMMAND, 0x11), (PIC2_COMMAND, 0x11), (PIC1_DATA, 0x20), (PIC2_DATA, 0x28), (PIC1_DATA, 0x04), (PIC2_DATA, 0x02),
            (PIC1_DATA, 0x01), (PIC2_DATA, 0x01), (PIC1_DATA, mask1), (PIC2_DATA, mask2)] s)"

definition pic_set_mask :: "ports \<Rightarrow> u8 \<Rightarrow> bool \<Rightarrow> ('s, 'a) machine_state_scheme \<Rightarrow> ('s, 'a) machine_state_scheme" where
  "pic_set_mask inb irq masked s =
     (let port = (if irq < 8 then PIC1_DATA else PIC2_DATA);
          n = (if irq < 8 then unat irq else unat (irq - 8));
          v = inb (port_writes s) port
      in outb port (if masked then v OR push_bit n 1 else v AND NOT (push_bit n 1)) s)"

definition pic_send_eoi :: "u8 \<Rightarrow> ('s, 'a) machine_state_scheme \<Rightarrow> ('s, 'a) machine_state_scheme" where
  "pic_send_eoi irq s = outb PIC1_COMMAND PIC_EOI (if irq \<ge> 8 then outb PIC2_COMMAND PIC_EOI s else s)"

definition pit_init :: "u32 \<Rightarrow> ('s, 'a) machine_state_scheme \<Rightarrow> ('s, 'a) machine_state_scheme" where
  "pit_init hz s =
     (let divisor = PIT_BASE_HZ div hz
      in outb PIT_CHANNEL0 (ucast (drop_bit 8 divisor AND 0xff)) (outb PIT_CHANNEL0 (ucast (divisor AND 0xff)) (outb PIT_COMMAND 0x36 s)))"

text \<open>The scan code tables; codes without an entry hold \<^verbatim>\<open>'\0'\<close>.\<close>

definition normal_keys :: "(u8 \<times> char) list" where
  "normal_keys =
     zip (map of_nat [0x02..<0x1d]) (''1234567890-='' @ [CHR 0x08, CHR 0x09] @ ''qwertyuiop[]'' @ [CHR 0x0A]) @
     zip (map of_nat [0x1e..<0x2a]) (''asdfghjkl;'' @ [CHR 0x27, CHR 0x60]) @
     zip (map of_nat [0x2b..<0x36]) (CHR 0x5C # ''zxcvbnm,./'') @
     [(0x39, CHR '' '')]"

definition shifted_keys :: "(u8 \<times> char) list" where
  "shifted_keys =
     zip (map of_nat [0x02..<0x1d]) (''!@#$%^&*()_+'' @ [CHR 0x08, CHR 0x09] @ ''QWERTYUIOP{}'' @ [CHR 0x0A]) @
     zip (map of_nat [0x1e..<0x2a]) (''ASDFGHJKL:'' @ [CHR 0x22, CHR 0x7E]) @
     zip (map of_nat [0x2b..<0x36]) (''|ZXCVBNM<>?'') @
     [(0x39, CHR '' '')]"

definition key_char :: "(u8 \<times> char) list \<Rightarrow> u8 \<Rightarrow> char" where
  "key_char keys code = (case map_of keys code of None \<Rightarrow> NUL | Some c \<Rightarrow> c)"

definition keyboard_handle :: "ports \<Rightarrow> ('s, 'a) machine_state_scheme \<Rightarrow> ('s, 'a) machine_state_scheme" where
  "keyboard_handle inb s =
     (let scancode = inb (port_writes s) 0x60 in
      if scancode = 0x2a \<or> scancode = 0x36 then s\<lparr>shift_down := True\<rparr>
      else if scancode = 0xaa \<or> scancode = 0xb6 then s\<lparr>shift_down := False\<rparr>
      else if scancode AND 0x80 \<noteq> 0 then s
      else let c = key_char (if shift_down s then shifted_keys else normal_keys) scancode in
        if c = NUL then s else tty_on_key c s)"

subsection \<open>The handler\<close>

definition frame_from_user :: "interrupt_frame \<Rightarrow> bool" where
  "frame_from_user frame \<longleftrightarrow> cs frame AND 0x3 = 0x3"

definition report_exception :: "interrupt_frame \<Rightarrow> u64 \<Rightarrow> console_state \<Rightarrow> console_state" where
  "report_exception frame fault_addr c =
     (let nl = [CHR 0x0A];
          c = console_printf (nl @ ''EXCEPTION %u: %s'' @ nl)
                [ArgU64 (vector frame), ArgString (Some (exception_names ! unat (vector frame)))] c;
          c = (if vector frame = 14 then console_printf (''cr2=%x'' @ nl) [ArgU64 fault_addr] c else c)
      in console_printf (''error=%x rip=%x cs=%x rflags=%x rsp=%x ss=%x'' @ nl)
           [ArgU64 (error_code frame), ArgU64 (rip frame), ArgU64 (cs frame), ArgU64 (rflags frame), ArgU64 (rsp frame), ArgU64 (ss frame)] c)"

definition x86_64_interrupt_handler ::
  "stack \<Rightarrow> 'b block_state_scheme other_drivers \<Rightarrow> (('b block_state_scheme, 'a) machine_state_scheme \<Rightarrow> u8 list) \<Rightarrow> ports \<Rightarrow> u64 \<Rightarrow>
   u64 \<Rightarrow> ('b block_state_scheme, 'a) machine_state_scheme \<Rightarrow> (u64 \<times> ('b block_state_scheme, 'a) machine_state_scheme) krun" where
  "x86_64_interrupt_handler stack drv system_info inb cr2 f s =
     (let frame = frames s f; v = vector frame in
      if v < 32 then
        let fault_addr = (if v = 14 then cr2 else 0);
            s = s\<lparr>console := report_exception frame fault_addr (console s)\<rparr>
        in if frame_from_user frame then Some (scheduler_fault_current f v fault_addr s)
           else Some (Inl ''unhandled CPU exception'')
      else if v \<ge> 32 \<and> v \<le> 47 then
        let irq = ucast (v - 32) :: u8 in
        rbind (if irq = 0 then Some (scheduler_on_timer_tick f (s\<lparr>timer_ticks := timer_ticks s + 1\<rparr>))
               else if irq = 1 then Some (Inr (f, keyboard_handle inb s))
               else Some (Inr (f, s))) (\<lambda>(f, s).
          Some (Inr (f, pic_send_eoi irq s)))
      else if v = 0x80 then syscall_dispatch stack drv system_info f s
      else Some (Inr (f, s)))"

definition x86_64_interrupts_init ::
  "ports \<Rightarrow> (nat \<Rightarrow> u64) \<Rightarrow> u64 \<Rightarrow> ('s, 'a) machine_state_scheme \<Rightarrow> ('s, 'a) machine_state_scheme krun" where
  "x86_64_interrupts_init inb isr tss s =
     rbind (gdt_init tss s) (\<lambda>s.
       let s = pic_remap inb (idt_init isr s);
           s = fold (\<lambda>irq. pic_set_mask inb irq True) (map of_nat [0..<16]) s;
           s = pic_set_mask inb 1 False (pic_set_mask inb 0 False s)
       in Some (Inr (pit_init 100 s)))"

end
