(* ===== verification/Terminal_Input.thy ===== *)
theory Terminal_Input
  imports Interrupts Scheduler_Invariant
begin

text \<open>
  Reading the terminal, across the interrupt handler, the system call, the scheduler, the keyboard buffer and user memory: a read
  blocks until a key is pressed and is then repeated.
\<close>

section \<open>Copying out\<close>

lemma range_wraps_mono: "\<not> range_wraps p n \<Longrightarrow> m \<le> n \<Longrightarrow> m \<noteq> 0 \<Longrightarrow> \<not> range_wraps p m"
  unfolding range_wraps_def by unat_arith

lemma copy_to_user_valid:
  fixes s :: "'a vmm_state_scheme"
  assumes u: "upt_inv s lv" "lv (vmm_current_address_space s) = Some 4" and p: "p \<noteq> 0"
    and v: "usercopy_validate_range s p n True = 0" and m: "m \<noteq> 0" "m \<le> n" "unat m \<le> length src"
  shows "\<exists>t. copy_to_user s p (Some src) m = (0, t) \<and> t = s\<lparr>phys_mem := phys_mem t\<rparr> \<and>
    (\<forall>c v. lv (c AND PTE_ADDR_MASK) = Some 4 \<longrightarrow> user_byte t c v =
       (if c AND PTE_ADDR_MASK = vmm_current_address_space s \<and> unat (v - p) < unat m then Some (src ! unat (v - p)) else user_byte s c v))"
proof -
  let ?cr3 = "vmm_current_address_space s"
  have n: "n \<noteq> 0" using m(1,2) by auto
  have w: "\<not> range_wraps p n" and tr: "\<forall>j < unat n. vmm_translate_user_addr s ?cr3 (p + word_of_nat j) True \<noteq> None"
    using v n by (auto simp: usercopy_validate_range_def usercopy_validate_loop_iff split: if_splits)
  have wm: "\<not> range_wraps p m" using range_wraps_mono [OF w m(2,1)] .
  have k: "?cr3 AND PTE_ADDR_MASK = ?cr3" by (simp add: vmm_current_address_space_def and.assoc)
  obtain r t where run: "copy_to_user_loop s ?cr3 p m src 0 = (r, t)" by (cases "copy_to_user_loop s ?cr3 p m src 0")
  have "lv (?cr3 AND PTE_ADDR_MASK) = Some 4" using u(2) by (simp only: k)
  note spec = copy_to_user_loop_spec [OF u(1) this m(3) run, unfolded k unat_0 le0 simp_thms]
  have r: "r = 0" using spec [THEN conjunct1] tr m(2) by (simp add: word_le_nat_alt)
  have "copy_to_user s p (Some src) m = (0, t)" using run r m(1) p wm by (simp add: copy_to_user_def)
  moreover have "t = s\<lparr>phys_mem := phys_mem t\<rparr>" by (rule spec [THEN conjunct2, THEN conjunct2, THEN conjunct1])
  moreover have "\<forall>c v. lv (c AND PTE_ADDR_MASK) = Some 4 \<longrightarrow> user_byte t c v =
       (if c AND PTE_ADDR_MASK = ?cr3 \<and> unat (v - p) < unat m then Some (src ! unat (v - p)) else user_byte s c v)"
    using spec [THEN conjunct2, THEN conjunct2, THEN conjunct2, THEN conjunct2, THEN conjunct1] r by (simp only: simp_thms le0)
  ultimately show ?thesis by blast
qed

text \<open>User memory is a matter of the physical memory and the page-table root alone.\<close>

lemma user_walk_mem: "phys_mem t = phys_mem s \<Longrightarrow> user_walk t w v c ix = user_walk s w v c ix"
proof (induction ix arbitrary: c)
  case (Cons i ix)
  have "table_entry t c i = table_entry s c i" using Cons.prems by (simp add: table_entry_def)
  then show ?case by (simp only: user_walk.simps Cons.IH [OF Cons.prems])
qed simp

lemma same_user_memory:
  assumes "phys_mem t = phys_mem s"
  shows "vmm_translate_user_addr t c v w = vmm_translate_user_addr s c v w" "user_byte t c v = user_byte s c v"
  by (simp_all add: vmm_translate_user_addr_def user_byte_def user_walk_mem [OF assms] assms)

lemma same_upt_inv:
  assumes "phys_mem t = phys_mem s" "pmm_bitmap t = pmm_bitmap s" "pmm_max_page_index t = pmm_max_page_index s" "upt_inv s lv"
  shows "upt_inv t lv"
  by (rule upt_inv_cong [OF _ _ assms(4)]) (simp_all add: assms table_entry_def frame_used_def pmm_test_bit_def)

lemma keyboard_validate:
  "usercopy_validate_range (s\<lparr>keyboard := k\<rparr>) p n w = usercopy_validate_range s p n w"
  "vmm_current_address_space (s\<lparr>keyboard := k\<rparr>) = vmm_current_address_space s"
proof -
  have "vmm_translate_user_addr (s\<lparr>keyboard := k\<rparr>) c v w = vmm_translate_user_addr s c v w" for c v
    by (rule same_user_memory) simp
  then show "usercopy_validate_range (s\<lparr>keyboard := k\<rparr>) p n w = usercopy_validate_range s p n w"
    by (simp add: usercopy_validate_range_def usercopy_validate_loop_iff vmm_current_address_space_def)
qed (simp add: vmm_current_address_space_def)

section \<open>Reading the terminal\<close>

text \<open>The number of characters a read delivers: the request, the chunk and the characters that wait bound it.\<close>

definition tty_count :: "u64 \<Rightarrow> 'a input_state_scheme \<Rightarrow> nat" where
  "tty_count len k = min (unat (min_u64 len 512)) (ring_used k)"

lemma tty_count_zero: "len \<noteq> 0 \<Longrightarrow> tty_count len k = 0 \<longleftrightarrow> ring_contents k = []"
proof -
  assume "len \<noteq> 0"
  then have "unat (min_u64 len 512) \<noteq> 0" by (auto simp: min_u64_def unat_eq_0)
  moreover have "ring_used k = 0 \<longleftrightarrow> ring_contents k = []" using length_ring_contents [of k] by (metis length_0_conv)
  ultimately show ?thesis by (auto simp: tty_count_def)
qed

lemma syscall_read_tty_eq:
  assumes "scheduler_current_fd_is_tty (as_int fd) s" "usercopy_validate_range s p (min_u64 len 512) True = 0"
    and "input_read (bytes_string (local_buffer stack 512)) (min_u64 len 512) (keyboard s) = (r, b, k)"
  shows "syscall_read stack fd p len s =
      (if r = 0 \<and> min_u64 len 512 > 0 then (0, True, s\<lparr>keyboard := k\<rparr>)
       else if r = U64_FAIL then (r, False, s\<lparr>keyboard := k\<rparr>)
       else case copy_to_user (s\<lparr>keyboard := k\<rparr>) p (Some (string_bytes b)) r of
              (q, s) \<Rightarrow> (if q \<noteq> 0 then U64_FAIL else r, False, s))"
  using assms by (simp add: syscall_read_def Let_def tty_read_def)

lemma syscall_read_tty:
  assumes tty: "scheduler_current_fd_is_tty (as_int fd) s" and v: "usercopy_validate_range s p (min_u64 len 512) True = 0"
    and ring: "ring_ok (keyboard s)" and len: "len \<noteq> 0"
  shows "\<exists>k. ring_ok k \<and> ring_contents k = drop (unat (min_u64 len 512)) (ring_contents (keyboard s)) \<and>
    (\<exists>buf. length buf = 512 \<and> take (tty_count len (keyboard s)) buf = string_bytes (take (tty_count len (keyboard s)) (ring_contents (keyboard s))) \<and>
    syscall_read stack fd p len s =
      (if tty_count len (keyboard s) = 0 then (0, True, s\<lparr>keyboard := k\<rparr>)
       else case copy_to_user (s\<lparr>keyboard := k\<rparr>) p (Some buf) (of_nat (tty_count len (keyboard s))) of
              (r, t) \<Rightarrow> (if r \<noteq> 0 then U64_FAIL else of_nat (tty_count len (keyboard s)), False, t)))"
proof -
  let ?n = "min_u64 len 512" and ?b = "bytes_string (local_buffer stack 512)"
  let ?m = "tty_count len (keyboard s)"
  have n: "unat ?n \<le> 512" by (auto simp: min_u64_def word_less_nat_alt)
  have "unat ?n \<le> length ?b" using n by (simp add: bytes_string_def local_buffer_def)
  from input_read_ring [OF ring this] obtain k where k: "ring_ok k" "ring_contents k = drop (unat ?n) (ring_contents (keyboard s))"
    "input_read ?b ?n (keyboard s) = (of_nat ?m, take (unat ?n) (ring_contents (keyboard s)) @ drop ?m ?b, k)"
    unfolding tty_count_def by auto
  let ?buf = "string_bytes (take (unat ?n) (ring_contents (keyboard s)) @ drop ?m ?b)"
  have l: "length (take (unat ?n) (ring_contents (keyboard s))) = ?m" by (simp add: tty_count_def)
  have m: "?m \<le> 512" using n by (simp add: tty_count_def)
  have "length ?buf = 512" using m l by (simp add: string_bytes_def bytes_string_def local_buffer_def tty_count_def)
  moreover have "take ?m ?buf = string_bytes (take ?m (ring_contents (keyboard s)))"
    using l by (simp add: string_bytes_def take_map)
  moreover have "(of_nat ?m :: u64) = 0 \<longleftrightarrow> ?m = 0" using m by (simp add: word_unat_eq_iff unat_of_nat)
  moreover have "(of_nat ?m :: u64) \<noteq> U64_FAIL" using m by (intro of_nat_not_fail) simp
  moreover have "?n > 0" using len by (auto simp: min_u64_def word_neq_0_conv word_less_nat_alt)
  moreover note syscall_read_tty_eq [OF tty v k(3)]
  ultimately show ?thesis using k(1,2) by (intro exI [of _ k] conjI exI [of _ ?buf]) simp_all
qed

lemma reschedule_skips:
  fixes s :: "('s, 'a) system_state_scheme"
  assumes idx: "current_task_index s < task_count s" and i: "i < ntasks s" "\<not> runnable s i" and rs: "reschedule s = (g, t)"
  shows "current_task t \<noteq> Some (TaskSlot i)" "tasks t ! i = tasks s ! i" "frames t = frames s" "phys_mem t = phys_mem s"
    "keyboard t = keyboard s"
proof -
  let ?s = "s\<lparr>quantum_ticks := 0\<rparr>"
  have idx': "current_task_index ?s < task_count ?s" using idx by simp
  obtain r j where n: "next_runnable_task ?s = (r, ?s\<lparr>current_task_index := j\<rparr>)" and r: "r \<noteq> TaskSlot i"
    using idx'
  proof (cases rule: next_runnable_task_cases)
    case (run k)
    have "TaskSlot (rr_slot ?s k) \<noteq> TaskSlot i" using run(3) i(2) by (auto simp: runnable_def)
    then show ?thesis by (rule that [OF run(2)])
  next
    case (idle j)
    show ?thesis by (rule that [OF idle(2)]) simp
  qed
  have sw: "switch_to_task r (?s\<lparr>current_task_index := j\<rparr>) = (g, t)" using rs by (simp add: reschedule_def n)
  show "current_task t \<noteq> Some (TaskSlot i)"
    using sw r by (cases r) (auto simp: switch_to_task_def Let_def switch_task_context_def upd_task_def vmm_switch_address_space_def x86_64_set_kernel_stack_def split: if_splits)
  show "tasks t ! i = tasks s ! i" "frames t = frames s" "phys_mem t = phys_mem s" "keyboard t = keyboard s"
    using sw r by (cases r; auto simp: switch_to_task_def Let_def switch_task_context_def upd_task_def vmm_switch_address_space_def x86_64_set_kernel_stack_def split: if_splits)+
qed

lemma wait_for_input:
  fixes s :: "('s, 'a) system_state_scheme"
  assumes cur: "current_task s = Some (TaskSlot i)" and idx: "current_task_index s < task_count s" and i: "i < ntasks s" "i < length (tasks s)"
    and w: "scheduler_wait_current_for_input f s = (g, t)"
  shows "current_task t \<noteq> Some (TaskSlot i)" "tasks t ! i = (tasks s ! i)\<lparr>t_frame := f, t_state := TASK_WAITING_INPUT\<rparr>" "frames t = frames s"
    "phys_mem t = phys_mem s" "keyboard t = keyboard s"
proof -
  let ?s = "s\<lparr>tasks := (tasks s)[i := (tasks s ! i)\<lparr>t_frame := f, t_state := TASK_WAITING_INPUT\<rparr>]\<rparr>"
  have rs: "reschedule ?s = (g, t)"
    using w cur by (simp add: scheduler_wait_current_for_input_def no_current_task_def upd_task_def)
  have "\<not> runnable ?s i" using i(2) by (simp add: runnable_def)
  note sk = reschedule_skips [of ?s i g t, OF _ _ this rs]
  show "current_task t \<noteq> Some (TaskSlot i)" "frames t = frames s" "phys_mem t = phys_mem s" "keyboard t = keyboard s"
    using sk idx i(1) by simp_all
  show "tasks t ! i = (tasks s ! i)\<lparr>t_frame := f, t_state := TASK_WAITING_INPUT\<rparr>" using sk(2) idx i by simp
qed

section \<open>Key presses\<close>

lemma tty_on_key_wakes:
  assumes "ring_ok (keyboard s)" "i < ntasks s" "i < length (tasks s)"
  shows "t_state (tasks (tty_on_key c s) ! i) = (if t_state (tasks s ! i) = TASK_WAITING_INPUT then TASK_RUNNABLE else t_state (tasks s ! i))"
    "ring_ok (keyboard (tty_on_key c s))"
    "ring_contents (keyboard (tty_on_key c s)) =
       (if length (ring_contents (keyboard s)) < 255 then ring_contents (keyboard s) @ [c] else ring_contents (keyboard s))"
  using assms input_push_key_ring [OF assms(1), of c]
  by (auto simp: tty_on_key_def Let_def scheduler_wake_input_waiters_def upd_tasks_def nth_append)

lemma keyboard_irq:
  fixes u :: "('b block_state_scheme, 'a) machine_state_scheme"
  assumes v: "vector (frames u h) = 33" and u: "ring_ok (keyboard u)" "i < ntasks u" "i < length (tasks u)"
    and key: "code = inb (port_writes u) 0x60" "code AND 0x80 = 0" "code \<notin> {0x2a, 0x36}"
      "c = key_char (if shift_down u then shifted_keys else normal_keys) code" "c \<noteq> NUL"
  shows "\<exists>t. x86_64_interrupt_handler stack drv system_info inb cr2 h u = Some (Inr (h, t)) \<and>
      t_state (tasks t ! i) = (if t_state (tasks u ! i) = TASK_WAITING_INPUT then TASK_RUNNABLE else t_state (tasks u ! i)) \<and>
      ring_contents (keyboard t) =
        (if length (ring_contents (keyboard u)) < 255 then ring_contents (keyboard u) @ [c] else ring_contents (keyboard u))"
proof -
  have "code \<noteq> 0xaa" "code \<noteq> 0xb6" using key(2) by auto
  then have kh: "keyboard_handle inb u = tty_on_key c u" using key by (simp add: keyboard_handle_def Let_def)
  have "x86_64_interrupt_handler stack drv system_info inb cr2 h u = Some (Inr (h, outb PIC1_COMMAND PIC_EOI (tty_on_key c u)))"
    using v by (simp add: x86_64_interrupt_handler_def Let_def rbind_def kh pic_send_eoi_def word_le_nat_alt)
  then show ?thesis using tty_on_key_wakes [OF u, of c] by (simp add: outb_def)
qed

section \<open>The read call\<close>

lemma read_trap:
  fixes s :: "('b block_state_scheme, 'a) machine_state_scheme"
  assumes "frames s f = frame" "vector frame = 0x80" "rax frame = 9"
  shows "x86_64_interrupt_handler stack drv system_info inb cr2 f s =
      (case syscall_read stack (rdi frame) (rsi frame) (rdx frame) s of (result, would_block, s) \<Rightarrow>
        if would_block then Some (Inr (scheduler_wait_current_for_input f (upd_frame f (\<lambda>frame. frame\<lparr>rax := 9, rip := rip frame - 2\<rparr>) s)))
        else returns f (result, s))"
  using assms by (simp add: x86_64_interrupt_handler_def syscall_dispatch_def Let_def)

lemma read_blocks:
  fixes s :: "('b block_state_scheme, 'a) machine_state_scheme"
  assumes f: "frames s f = frame" "vector frame = 0x80" "rax frame = 9" "rdx frame \<noteq> 0"
    and r: "scheduler_current_fd_is_tty (as_int (rdi frame)) s" "usercopy_validate_range s (rsi frame) (min_u64 (rdx frame) 512) True = 0"
      "ring_ok (keyboard s)" "ring_contents (keyboard s) = []"
    and i: "current_task s = Some (TaskSlot i)" "current_task_index s < task_count s" "i < ntasks s" "i < length (tasks s)"
  shows "\<exists>g t. x86_64_interrupt_handler stack drv system_info inb cr2 f s = Some (Inr (g, t)) \<and> current_task t \<noteq> Some (TaskSlot i) \<and>
       tasks t ! i = (tasks s ! i)\<lparr>t_frame := f, t_state := TASK_WAITING_INPUT\<rparr> \<and>
       frames t = (frames s)(f := frame\<lparr>rax := 9, rip := rip frame - 2\<rparr>) \<and> phys_mem t = phys_mem s \<and> ring_contents (keyboard t) = []"
proof -
  have n: "tty_count (rdx frame) (keyboard s) = 0" using tty_count_zero [OF f(4)] r(4) by blast
  obtain k where k: "ring_contents k = []" "syscall_read stack (rdi frame) (rsi frame) (rdx frame) s = (0, True, s\<lparr>keyboard := k\<rparr>)"
    using syscall_read_tty [OF r(1-3) f(4), of stack] n r(4) by auto
  let ?s = "upd_frame f (\<lambda>frame. frame\<lparr>rax := 9, rip := rip frame - 2\<rparr>) (s\<lparr>keyboard := k\<rparr>)"
  obtain g t where w: "scheduler_wait_current_for_input f ?s = (g, t)" by (cases "scheduler_wait_current_for_input f ?s")
  have "x86_64_interrupt_handler stack drv system_info inb cr2 f s = Some (Inr (g, t))" by (simp add: read_trap [OF f(1-3)] k(2) w)
  then show ?thesis using wait_for_input [OF _ _ _ _ w, of i] f(1) i k(1) by (simp add: upd_frame_def)
qed

lemma read_delivers:
  fixes s :: "('b block_state_scheme, 'a) machine_state_scheme"
  assumes f: "frames s f = frame" "vector frame = 0x80" "rax frame = 9" "rdx frame \<noteq> 0" "rsi frame \<noteq> 0"
    and r: "scheduler_current_fd_is_tty (as_int (rdi frame)) s" "usercopy_validate_range s (rsi frame) (min_u64 (rdx frame) 512) True = 0"
      "ring_ok (keyboard s)" "ring_contents (keyboard s) \<noteq> []"
    and u: "upt_inv s lv" "lv (vmm_current_address_space s) = Some 4" and nn: "n = tty_count (rdx frame) (keyboard s)"
  shows "\<exists>t. x86_64_interrupt_handler stack drv system_info inb cr2 f s = Some (Inr (f, t)) \<and> 0 < n \<and>
       current_task t = current_task s \<and> tasks t = tasks s \<and> frames t = (frames s)(f := frame\<lparr>rax := of_nat n\<rparr>) \<and>
       ring_contents (keyboard t) = drop n (ring_contents (keyboard s)) \<and>
       (\<forall>cr3 v. lv (cr3 AND PTE_ADDR_MASK) = Some 4 \<longrightarrow> user_byte t cr3 v =
          (if cr3 AND PTE_ADDR_MASK = vmm_current_address_space s \<and> unat (v - rsi frame) < n
           then Some (of_nat (of_char (ring_contents (keyboard s) ! unat (v - rsi frame)))) else user_byte s cr3 v))"
proof -
  let ?m = "of_nat n :: u64"
  have le: "n \<le> unat (min_u64 (rdx frame) 512)" "n \<le> ring_used (keyboard s)" unfolding nn tty_count_def by simp_all
  have "unat ?m = n" using le(2) ring_used_lt [of "keyboard s"] by (simp add: unat_of_nat)
  moreover have "n \<noteq> 0" using tty_count_zero [OF f(4)] r(4) nn by blast
  ultimately have n: "n \<noteq> 0" "unat ?m = n" "n \<le> unat (min_u64 (rdx frame) 512)" "n \<le> length (ring_contents (keyboard s))"
    using le by simp_all
  obtain k buf where k: "ring_contents k = drop (unat (min_u64 (rdx frame) 512)) (ring_contents (keyboard s))"
    "length buf = 512" "take n buf = string_bytes (take n (ring_contents (keyboard s)))"
    and run: "syscall_read stack (rdi frame) (rsi frame) (rdx frame) s =
       (case copy_to_user (s\<lparr>keyboard := k\<rparr>) (rsi frame) (Some buf) ?m of (r, t) \<Rightarrow> (if r \<noteq> 0 then U64_FAIL else ?m, False, t))"
    using syscall_read_tty [OF r(1-3) f(4), of stack] n(1) unfolding nn [symmetric] if_not_P [OF n(1)] by blast
  let ?s = "s\<lparr>keyboard := k\<rparr>"
  have us: "upt_inv ?s lv" by (rule same_upt_inv [OF _ _ _ u(1)]) simp_all
  have m: "?m \<noteq> 0" "?m \<le> min_u64 (rdx frame) 512" "unat ?m \<le> length buf" proof -
    show "?m \<noteq> 0" using n(1,2) by (metis unat_0)
    show "?m \<le> min_u64 (rdx frame) 512" using n(2,3) by (simp add: word_le_nat_alt)
    show "unat ?m \<le> length buf" using n(2) le(2) ring_used_lt [of "keyboard s"] k(2) by simp
  qed
  obtain t where cp: "copy_to_user ?s (rsi frame) (Some buf) ?m = (0, t)" "t = ?s\<lparr>phys_mem := phys_mem t\<rparr>"
    "\<forall>c v. lv (c AND PTE_ADDR_MASK) = Some 4 \<longrightarrow> user_byte t c v =
       (if c AND PTE_ADDR_MASK = vmm_current_address_space ?s \<and> unat (v - rsi frame) < unat ?m then Some (buf ! unat (v - rsi frame)) else user_byte ?s c v)"
    using copy_to_user_valid [OF us _ f(5) _ m] r(2) u(2) unfolding keyboard_validate by blast
  let ?t = "set_rax f ?m t"
  have h: "x86_64_interrupt_handler stack drv system_info inb cr2 f s = Some (Inr (f, ?t))"
    by (simp add: read_trap [OF f(1-3)] run cp(1) returns_def)
  have mem: "user_byte ?t c v = user_byte t c v" "user_byte ?s c v = user_byte s c v" for c v
    by (rule same_user_memory, simp add: upd_frame_def)+
  have b: "buf ! j = of_nat (of_char (ring_contents (keyboard s) ! j))" if "j < n" for j
    using arg_cong [OF k(3), of "\<lambda>x. x ! j"] that n(4) by (simp add: string_bytes_def)
  have bytes: "\<forall>cr3 v. lv (cr3 AND PTE_ADDR_MASK) = Some 4 \<longrightarrow> user_byte ?t cr3 v =
        (if cr3 AND PTE_ADDR_MASK = vmm_current_address_space s \<and> unat (v - rsi frame) < n
         then Some (of_nat (of_char (ring_contents (keyboard s) ! unat (v - rsi frame)))) else user_byte s cr3 v)"
    using cp(3) b unfolding mem keyboard_validate n(2) by simp
  have "frames t = frames s" "tasks t = tasks s" "current_task t = current_task s" "keyboard t = k" by (subst cp(2), simp)+
  moreover have "drop (unat (min_u64 (rdx frame) 512)) (ring_contents (keyboard s)) = drop n (ring_contents (keyboard s))"
    by (simp add: nn tty_count_def min_def)
  ultimately show ?thesis using h n(1) f(1) k(1) by (intro exI [of _ ?t] conjI bytes) (simp_all add: upd_frame_def)
qed

section \<open>Properties\<close>

text \<open>
  C40: A read from the terminal, from the trap to the data in the buffer of the program. When no characters wait, the task is put to
  sleep in the waiting state, another task runs, and the saved frame is set back to the trap instruction with the call number in
  place, so that the call is repeated when the task runs again; nothing else of user memory or of the buffer changes. A key press, whenever
  it comes, adds its character and makes every task that waits for input runnable. When characters wait, the call delivers as many of
  them as the request allows (at most 512), in order, into the buffer of the caller, removes exactly these from the queue, returns their number, and
  changes no other byte of any address space.
\<close>

theorem terminal_read:
  fixes s u :: "('b block_state_scheme, 'a) machine_state_scheme"
  assumes "frames s f = frame" "vector frame = 0x80" "rax frame = 9" "rdx frame \<noteq> 0" "rsi frame \<noteq> 0"
    and "scheduler_current_fd_is_tty (as_int (rdi frame)) s" "usercopy_validate_range s (rsi frame) (min_u64 (rdx frame) 512) True = 0"
    and "upt_inv s lv" "lv (vmm_current_address_space s) = Some 4" "ring_ok (keyboard s)"
    and "current_task s = Some (TaskSlot i)" "current_task_index s < task_count s" "i < ntasks s" "i < length (tasks s)"
    and "vector (frames u h) = 33" "ring_ok (keyboard u)" "i < ntasks u" "i < length (tasks u)"
    and "code = inb (port_writes u) 0x60" "code AND 0x80 = 0" "code \<notin> {0x2a, 0x36}"
      "c = key_char (if shift_down u then shifted_keys else normal_keys) code" "c \<noteq> NUL"
    and "n = tty_count (rdx frame) (keyboard s)"
  shows "(if ring_contents (keyboard s) = []
     then \<exists>g t. x86_64_interrupt_handler stack drv system_info inb cr2 f s = Some (Inr (g, t)) \<and> current_task t \<noteq> Some (TaskSlot i) \<and>
       tasks t ! i = (tasks s ! i)\<lparr>t_frame := f, t_state := TASK_WAITING_INPUT\<rparr> \<and>
       frames t = (frames s)(f := frame\<lparr>rax := 9, rip := rip frame - 2\<rparr>) \<and> phys_mem t = phys_mem s \<and> ring_contents (keyboard t) = []
     else \<exists>t. x86_64_interrupt_handler stack drv system_info inb cr2 f s = Some (Inr (f, t)) \<and> 0 < n \<and>
       current_task t = current_task s \<and> tasks t = tasks s \<and> frames t = (frames s)(f := frame\<lparr>rax := of_nat n\<rparr>) \<and>
       ring_contents (keyboard t) = drop n (ring_contents (keyboard s)) \<and>
       (\<forall>cr3 v. lv (cr3 AND PTE_ADDR_MASK) = Some 4 \<longrightarrow> user_byte t cr3 v =
          (if cr3 AND PTE_ADDR_MASK = vmm_current_address_space s \<and> unat (v - rsi frame) < n
           then Some (of_nat (of_char (ring_contents (keyboard s) ! unat (v - rsi frame)))) else user_byte s cr3 v))) \<and>
    (\<exists>t. x86_64_interrupt_handler stack drv system_info inb cr2 h u = Some (Inr (h, t)) \<and>
       t_state (tasks t ! i) = (if t_state (tasks u ! i) = TASK_WAITING_INPUT then TASK_RUNNABLE else t_state (tasks u ! i)) \<and>
       ring_contents (keyboard t) =
         (if length (ring_contents (keyboard u)) < 255 then ring_contents (keyboard u) @ [c] else ring_contents (keyboard u)))"
  (is "(if _ then ?empty else ?ready) \<and> ?key")
proof
  show "if ring_contents (keyboard s) = [] then ?empty else ?ready"
    using read_blocks [OF assms(1-4,6,7,10) _ assms(11-14)] read_delivers [OF assms(1-7,10) _ assms(8,9,24)] by simp
  show ?key by (rule keyboard_irq [where u = u and inb = inb]) (fact assms)+
qed

definition tty_machine :: "vmm_state \<Rightarrow> block_state machine_state" where
  "tty_machine v = sched_state.extend (sched_example\<lparr>pmm_bitmap := pmm_bitmap v, pmm_max_page_index := pmm_max_page_index v,
       phys_mem := phys_mem v, cr3_reg := cr3_reg v, task_count := 1, current_task := Some (TaskSlot 0),
       frames := (\<lambda>p. if p = 0x100 then zero_frame\<lparr>vector := 0x80, rax := 9, rsi := 0x400000, rdx := 4\<rparr> else zero_frame\<lparr>vector := 33\<rparr>)\<rparr>)
     \<lparr>mounts = [], fs = \<lparr>block_devices = [], ramdisk = [], partition_count = 0\<rparr>,
      keyboard = input_push_key (CHR ''b'') \<lparr>input_buffer = replicate 256 NUL, input_read_pos = 0, input_write_pos = 0\<rparr>,
      console = console_example, gdt = [], idt = [], gdt_loaded = True, idt_loaded = True, tss_selector = 0, timer_ticks = 0,
      shift_down = False, port_writes = []\<rparr>"

lemma tty_machine_fields:
  "frames (tty_machine v) 0x100 = zero_frame\<lparr>vector := 0x80, rax := 9, rsi := 0x400000, rdx := 4\<rparr>"
  "frames (tty_machine v) 0x200 = zero_frame\<lparr>vector := 33\<rparr>" "current_task (tty_machine v) = Some (TaskSlot 0)"
  "task_count (tty_machine v) = 1" "current_task_index (tty_machine v) = 0" "tasks (tty_machine v) = replicate 8 zero_task"
  "shift_down (tty_machine v) = False" "phys_mem (tty_machine v) = phys_mem v" "cr3_reg (tty_machine v) = cr3_reg v"
  "pmm_bitmap (tty_machine v) = pmm_bitmap v" "pmm_max_page_index (tty_machine v) = pmm_max_page_index v"
  by (simp_all add: tty_machine_def sched_state.defs sched_example_def)

lemma tty_machine_keyboard: "ring_ok (keyboard (tty_machine v))" "ring_contents (keyboard (tty_machine v)) = ''b''"
proof -
  let ?k = "\<lparr>input_buffer = replicate 256 NUL, input_read_pos = 0, input_write_pos = 0\<rparr> :: input_state"
  have "ring_ok ?k" "ring_contents ?k = []" "ring_used ?k = 0" by (simp_all add: ring_ok_def ring_contents_def ring_used_def)
  then show "ring_ok (keyboard (tty_machine v))" "ring_contents (keyboard (tty_machine v)) = ''b''"
    using input_push_key_ring [of ?k "CHR ''b''"] by (simp_all add: tty_machine_def sched_state.defs)
qed

lemma tty_machine_user:
  assumes "user_example v lv"
  shows "upt_inv (tty_machine v) lv" "lv (vmm_current_address_space (tty_machine v)) = Some 4"
    "vmm_current_address_space (tty_machine v) = 0x1000" "usercopy_validate_range (tty_machine v) 0x400000 4 True = 0"
proof -
  show "upt_inv (tty_machine v) lv"
    by (rule same_upt_inv [of _ v]) (use assms in \<open>simp_all add: tty_machine_fields user_example_def\<close>)
  show c: "vmm_current_address_space (tty_machine v) = 0x1000"
    using assms by (simp add: vmm_current_address_space_def tty_machine_fields user_example_def)
  show "lv (vmm_current_address_space (tty_machine v)) = Some 4"
    unfolding c using assms by (auto simp: user_example_def)
  have "vmm_translate_user_addr (tty_machine v) 0x1000 (0x400000 + word_of_nat j) True \<noteq> None" if "j < 4" for j
  proof -
    have "(word_of_nat j :: u64) < PAGE_SIZE" using that by (simp add: word_less_nat_alt unat_of_nat)
    then have "vmm_translate_user_addr v 0x1000 (0x400000 + word_of_nat j) True \<noteq> None"
      using assms by (simp add: user_example_def)
    then show ?thesis using same_user_memory(1) [of "tty_machine v" v] by (simp add: tty_machine_fields)
  qed
  then show "usercopy_validate_range (tty_machine v) 0x400000 4 True = 0"
    by (simp add: usercopy_validate_range_def usercopy_validate_loop_iff c range_wraps_def)
qed

theorem terminal_read_witness:
  "\<exists>s. \<forall>stack drv system_info. \<exists>t u.
     x86_64_interrupt_handler stack drv system_info (\<lambda>_ _. 0x1e) 0 0x100 (s :: block_state machine_state) = Some (Inr (0x100, t)) \<and>
     rax (frames t 0x100) = 1 \<and> user_byte t 0x1000 0x400000 = Some 0x62 \<and>
     x86_64_interrupt_handler stack drv system_info (\<lambda>_ _. 0x1e) 0 0x200 s = Some (Inr (0x200, u)) \<and> ring_contents (keyboard u) = ''ba''"
proof -
  obtain v :: vmm_state and lv where v: "user_example v lv" using user_example_exists by blast
  let ?s = "tty_machine v" and ?f = "zero_frame\<lparr>vector := 0x80, rax := 9, rsi := 0x400000, rdx := 4\<rparr>"
  have f: "vector ?f = 0x80" "rax ?f = 9" "rdx ?f = 4" "rsi ?f = 0x400000" "rdi ?f = 0" by (simp_all add: zero_frame_def)
  have tty: "scheduler_current_fd_is_tty (as_int (rdi ?f)) ?s"
    by (simp add: f as_int_def scheduler_current_fd_is_tty_def no_current_task_def tty_machine_fields task_at_def zero_task_def zero_task_file_def)
  have c: "CHR ''a'' = key_char (if shift_down ?s then shifted_keys else normal_keys) 0x1e"
    by (simp add: tty_machine_fields) code_simp
  have used: "ring_used (keyboard ?s) = 1" using length_ring_contents [of "keyboard ?s"] tty_machine_keyboard(2) [of v] by simp
  have m: "min_u64 (rdx ?f) 512 = 4" by (simp add: f min_u64_def)
  have n: "1 = tty_count (rdx ?f) (keyboard ?s)" unfolding tty_count_def m used by simp
  have lv: "lv (0x1000 AND PTE_ADDR_MASK) = Some 4" using tty_machine_user(2,3) [OF v] by simp
  have p: "rdx ?f \<noteq> 0" "rsi ?f \<noteq> 0" "usercopy_validate_range ?s (rsi ?f) (min_u64 (rdx ?f) 512) True = 0"
    "current_task_index ?s < task_count ?s" "0 < ntasks ?s" "0 < length (tasks ?s)" "vector (frames ?s 0x200) = 33"
    unfolding m unfolding f using tty_machine_user(4) [OF v] by (simp_all add: tty_machine_fields zero_frame_def)
  note r = terminal_read [where s = ?s and u = ?s and f = "0x100" and frame = ?f and lv = lv and i = 0 and h = "0x200" and code = "0x1e"
    and inb = "\<lambda>_ _. 0x1e" and c = "CHR ''a''" and n = 1 and ?cr2.0 = 0,
    OF tty_machine_fields(1) f(1,2) p(1,2) tty p(3) tty_machine_user(1,2) [OF v] tty_machine_keyboard(1) tty_machine_fields(3) p(4-7)
      tty_machine_keyboard(1) p(5,6) refl _ _ c _ n]
  show ?thesis
  proof (rule exI [of _ ?s], intro allI)
    fix stack drv system_info
    from r [of stack drv system_info] lv
    show "\<exists>t u. x86_64_interrupt_handler stack drv system_info (\<lambda>_ _. 0x1e) 0 0x100 ?s = Some (Inr (0x100, t)) \<and>
       rax (frames t 0x100) = 1 \<and> user_byte t 0x1000 0x400000 = Some 0x62 \<and>
       x86_64_interrupt_handler stack drv system_info (\<lambda>_ _. 0x1e) 0 0x200 ?s = Some (Inr (0x200, u)) \<and> ring_contents (keyboard u) = ''ba''"
      by (auto simp: f tty_machine_keyboard tty_machine_user(3) [OF v])
  qed
qed

end
