(* ===== verification/Program_Break.thy ===== *)
theory Program_Break
  imports User_Memory Scheduler_Invariant
begin

text \<open>
  The program break (kernel/scheduler.c, scheduler_set_current_brk): what growing and shrinking the heap of the current task
  does to its memory and to everybody else's.
\<close>

section \<open>Growing the heap\<close>

abbreviation HEAP_FLAGS :: u64 where
  "HEAP_FLAGS \<equiv> VMM_FLAG_WRITABLE OR VMM_FLAG_USER OR VMM_FLAG_NO_EXEC"

lemma user_data_flags: "bit HEAP_FLAGS 1" "bit HEAP_FLAGS 2" "HEAP_FLAGS AND PTE_ADDR_MASK = 0"
  by code_simp+

lemma zero_page_byte:
  assumes "is_frame phys" "\<And>x. page_of x = phys \<Longrightarrow> m x = 0"
  shows "mem_read8 m (phys + (v AND 4095)) = 0"
proof -
  have "page_of (phys + (v AND 4095)) = phys"
    using page_of_add [of phys "v AND 4095"] frame_aligned [OF assms(1)] low12_less [of v] by (simp add: word_less_nat_alt)
  then show ?thesis using assms(2) by (simp add: mem_read8_def page_of_align_8)
qed

lemma phys_mem_same: "s\<lparr>phys_mem := phys_mem s\<rparr> = s"
  by simp

interpretation heap_loop: page_loop "map_heap_pages cr3" "\<lambda>page phys m. m" "\<lambda>v. 0" cr3 HEAP_FLAGS "''failed to grow user heap''"
  for cr3
  by unfold_locales (simp_all only: map_heap_pages.simps user_data_flags(2,3) zero_page_byte phys_mem_same)

lemma page_aligned_align_up: "page_aligned (align_up v PAGE_SIZE)"
  by (simp add: align_up_down page_aligned_unat unat_align_down_page)

text \<open>
  C36: The program break is moved exactly as asked when the request lies between the start of the heap and its limit, and refused
  with the old break, nothing changed, otherwise. With four free pages for every page to add, growing succeeds: the pages between
  the old and the new break, both rounded up, then read as zeros and are writable, every other byte of every address space is as
  before, the page-table and allocator invariants stay, and the caller's task is changed in the break alone.
\<close>

theorem set_brk_correct:
  assumes "\<not> no_current_task s" "task_at (current_ref s) s = task" "t_brk_current task = old"
    and "upt_inv s lv" "pmm_inv s" "lv (t_cr3 task AND PTE_ADDR_MASK) = Some 4"
    and "t_brk_limit task \<le> 0x7FFFFFFFF000" "old \<le> t_brk_limit task"
    and "4 * ((unat (align_up new PAGE_SIZE) - unat (align_up old PAGE_SIZE)) div 4096) \<le> unat (pmm_free_pages s)"
  shows "if new = 0 \<or> new < t_brk_start task \<or> t_brk_limit task < new then scheduler_set_current_brk new s = Inr (old, s)
    else \<exists>s1 lv1. scheduler_set_current_brk new s = Inr (new, upd_task (current_ref s) (\<lambda>task. task\<lparr>t_brk_current := new\<rparr>) s1) \<and>
      user_mapped s lv s1 lv1 (t_cr3 task)
        (\<lambda>v. if align_up old PAGE_SIZE \<le> v \<and> v < align_up new PAGE_SIZE then Some (0, True) else None)"
proof (cases "new = 0 \<or> new < t_brk_start task \<or> t_brk_limit task < new")
  case True
  then show ?thesis using assms(1-3) by (auto simp: scheduler_set_current_brk_def Let_def)
next
  case False
  let ?a = "align_up old PAGE_SIZE" and ?b = "align_up new PAGE_SIZE"
  let ?new = "\<lambda>v. if ?a \<le> v \<and> v < ?b then Some (0 :: u8, True) else None"
  have al: "page_aligned ?a" "page_aligned ?b" by (rule page_aligned_align_up)+
  have lim: "unat new \<le> 0x7FFFFFFFF000" "unat old \<le> 0x7FFFFFFFF000"
    using assms(7,8) False by (simp_all add: word_le_nat_alt word_less_nat_alt)
  have un: "unat ?b = (unat new + 4095) div 4096 * 4096" "unat ?a = (unat old + 4095) div 4096 * 4096"
    using lim by (simp_all add: unat_align_up_page)
  have cont: "pages_content (\<lambda>v. 0) True (page_range ?a ?b) = ?new"
    by (rule ext) (simp add: pages_content_def page_of_range [OF al])
  define pages where "pages = page_range ?a ?b"
  have pg: "page_aligned p \<and> p < USER_VIRT_MAX" if "p \<in> set pages" for p
  proof -
    have "unat p < unat ?b" using page_range_bounds that by (auto simp: pages_def word_less_nat_alt)
    also have "\<dots> \<le> 0x800000000000" using lim un(1) by simp
    finally show ?thesis using page_range_aligned [OF al(1)] that by (simp add: pages_def word_less_nat_alt)
  qed
  have "0 + 4 * length pages \<le> card (free_page_set s)"
    using assms(5,9) by (simp add: pages_def length_page_range [OF al] pmm_inv_def pmm_free_pages_def)
  then obtain s1 where s1: "map_heap_pages (t_cr3 task) pages s = Inr s1"
    using heap_loop.loop_total [OF assms(5)] pg by blast
  obtain lv1 where "user_mapped s lv s1 lv1 (t_cr3 task) (pages_content (\<lambda>v. 0) (bit HEAP_FLAGS 1) pages)"
    using heap_loop.loop_mapped [OF assms(4-6) _ s1] pg by blast
  then have m: "user_mapped s lv s1 lv1 (t_cr3 task) ?new" unfolding user_data_flags(1) pages_def using cont by simp
  have "scheduler_set_current_brk new s = Inr (new, upd_task (current_ref s) (\<lambda>task. task\<lparr>t_brk_current := new\<rparr>) s1)"
  proof (cases "new > old")
    case True
    then show ?thesis using assms(1-3) False s1 unfolding pages_def by (auto simp: scheduler_set_current_brk_def Let_def)
  next
    case le: False
    then have "?b \<le> ?a" unfolding word_le_nat_alt un by (intro mult_le_mono1 div_le_mono) (simp add: word_le_nat_alt not_less)
    then have "pages = []" by (simp add: pages_def)
    then show ?thesis using assms(1-3) False s1 le by (auto simp: scheduler_set_current_brk_def Let_def)
  qed
  then show ?thesis using False m by auto
qed

text \<open>A task whose heap starts at 4 MiB, with 13 free pages.\<close>

definition brk_example :: sched_state where
  "brk_example = sched_example\<lparr>pmm_bitmap := pmm_bitmap vmm_example, pmm_max_page_index := 16, pmm_managed_page_count := 16,
     pmm_free_page_count := 13, pmm_next_hint := 3, task_count := 1, current_task := Some (TaskSlot 0),
     tasks := zero_task\<lparr>t_pid := 1, t_cr3 := 0x1000, t_brk_start := 0x400000, t_brk_current := 0x400000,
       t_brk_limit := 0x1400000\<rparr> # replicate 7 zero_task\<rparr>"

lemma brk_example_pmm:
  "pmm_inv brk_example" "upt_inv brk_example [0x1000 \<mapsto> 4]" "pmm_free_pages brk_example = 13"
proof -
  have mem: "phys_mem brk_example = phys_mem vmm_example" "pmm_bitmap brk_example = pmm_bitmap vmm_example"
    "pmm_max_page_index brk_example = pmm_max_page_index vmm_example"
    "pmm_managed_page_count brk_example = pmm_managed_page_count vmm_example"
    "pmm_free_page_count brk_example = pmm_free_page_count vmm_example" "pmm_next_hint brk_example = pmm_next_hint vmm_example"
    by (simp_all add: brk_example_def sched_example_def vmm_example_def)
  have tb: "pmm_test_bit brk_example i = pmm_test_bit vmm_example i" for i by (simp add: pmm_test_bit_def mem)
  have "free_page_set brk_example = free_page_set vmm_example" by (simp add: free_page_set_def tb mem)
  then show "pmm_inv brk_example" using vmm_example_inv by (simp add: pmm_inv_def mem)
  show "upt_inv brk_example [0x1000 \<mapsto> 4]"
    by (rule upt_inv_cong [OF _ _ vmm_example_upt(1)]) (simp_all add: table_entry_def frame_used_def tb mem)
  show "pmm_free_pages brk_example = 13" by (simp add: pmm_free_pages_def mem) (simp add: vmm_example_def)
qed

theorem set_brk_correct_witness:
  "\<exists>s1 lv1. scheduler_set_current_brk 0x402800 brk_example =
      Inr (0x402800, upd_task (TaskSlot 0) (\<lambda>task. task\<lparr>t_brk_current := 0x402800\<rparr>) s1) \<and>
    user_mapped brk_example [0x1000 \<mapsto> 4] s1 lv1 0x1000 (\<lambda>v. if 0x400000 \<le> v \<and> v < 0x403000 then Some (0, True) else None)"
proof -
  let ?task = "zero_task\<lparr>t_pid := 1, t_cr3 := 0x1000, t_brk_start := 0x400000, t_brk_current := 0x400000, t_brk_limit := 0x1400000\<rparr>"
  have t: "current_task brk_example = Some (TaskSlot 0)" "task_at (TaskSlot 0) brk_example = ?task"
    by (simp_all add: brk_example_def task_at_def)
  have al: "align_up 0x402800 PAGE_SIZE = 0x403000" "align_up 0x400000 PAGE_SIZE = 0x400000" by (code_simp, code_simp)
  show ?thesis
    using set_brk_correct [where s = brk_example and lv = "[0x1000 \<mapsto> 4]" and task = ?task and old = "0x400000" and new = "0x402800"] t al brk_example_pmm
    by (simp add: no_current_task_def)
qed

end
