(* ===== verification/Elf_Loading.thy ===== *)
theory Elf_Loading
  imports User_Program Program_Break
begin

text \<open>
  Correctness of the ELF loader (kernel/user.c): which images it accepts, and that the address space it fills is the memory image
  that the program headers describe.
\<close>

section \<open>What an image puts into memory\<close>

text \<open>
  The byte of a segment at an address of its pages: from the file where the file part of the segment covers it, zero elsewhere.
\<close>

definition segment_byte :: "u8 list \<Rightarrow> elf64_phdr \<Rightarrow> u64 \<Rightarrow> u8" where
  "segment_byte img phdr v =
     (if p_vaddr phdr \<le> v \<and> v < p_vaddr phdr + p_filesz phdr then img ! unat (p_offset phdr + (v - p_vaddr phdr)) else 0)"

text \<open>What \<^verbatim>\<open>map_elf_segment\<close> checks.\<close>

definition segment_ok :: "u64 \<Rightarrow> elf64_phdr \<Rightarrow> bool" where
  "segment_ok image_size phdr \<longleftrightarrow>
     p_filesz phdr \<le> p_memsz phdr \<and> p_offset phdr \<le> image_size \<and> p_filesz phdr \<le> image_size - p_offset phdr \<and>
     user_range_valid (p_vaddr phdr) (p_memsz phdr) \<and>
     p_vaddr phdr AND (PAGE_SIZE - 1) = p_offset phdr AND (PAGE_SIZE - 1) \<and>
     \<not> range_overlaps_stack (page_of (p_vaddr phdr)) (align_up (p_vaddr phdr + p_memsz phdr) PAGE_SIZE)"

lemma user_range_valid_nat:
  "size' \<noteq> 0 \<Longrightarrow> user_range_valid start size' \<longleftrightarrow> 0x10000 \<le> unat start \<and> unat start + unat size' \<le> 0x800000000000"
proof (cases "start < USER_ADDRESS_MAX")
  case True
  moreover assume s: "size' \<noteq> 0"
  have "unat (USER_ADDRESS_MAX - start) = 0x800000000000 - unat start"
    using True by (subst unat_sub) (simp_all add: word_less_nat_alt word_le_nat_alt)
  moreover have "unat start < 0x800000000000" using True by (simp add: word_less_nat_alt)
  ultimately show ?thesis using s by (auto simp: user_range_valid_def word_less_nat_alt word_le_nat_alt)
next
  case False
  moreover assume s: "size' \<noteq> 0"
  ultimately have "unat start \<ge> 0x800000000000" "0 < unat size'" by (simp_all add: word_less_nat_alt unat_gt_0)
  then show ?thesis using s by (auto simp: user_range_valid_def word_less_nat_alt word_le_nat_alt)
qed

text \<open>The sizes of a segment as numbers: none of the sums in the loader wraps.\<close>

lemma segment_nat:
  assumes "segment_ok image_size phdr" "p_memsz phdr \<noteq> 0"
  shows "unat (p_vaddr phdr) + unat (p_memsz phdr) \<le> 0x800000000000" "unat (p_filesz phdr) \<le> unat (p_memsz phdr)"
    "unat (p_vaddr phdr + p_memsz phdr) = unat (p_vaddr phdr) + unat (p_memsz phdr)"
    "unat (p_vaddr phdr + p_filesz phdr) = unat (p_vaddr phdr) + unat (p_filesz phdr)"
    "unat (p_offset phdr) + unat (p_filesz phdr) \<le> unat image_size"
proof -
  show a: "unat (p_vaddr phdr) + unat (p_memsz phdr) \<le> 0x800000000000" "unat (p_filesz phdr) \<le> unat (p_memsz phdr)"
    using assms user_range_valid_nat [OF assms(2)] by (simp_all add: segment_ok_def word_le_nat_alt)
  show "unat (p_vaddr phdr + p_memsz phdr) = unat (p_vaddr phdr) + unat (p_memsz phdr)"
    "unat (p_vaddr phdr + p_filesz phdr) = unat (p_vaddr phdr) + unat (p_filesz phdr)"
    using a by (simp_all add: unat_word_ariths)
  have "p_offset phdr \<le> image_size" using assms(1) by (simp add: segment_ok_def)
  then have "unat (image_size - p_offset phdr) = unat image_size - unat (p_offset phdr)" "unat (p_offset phdr) \<le> unat image_size"
    by (simp_all add: unat_sub word_le_nat_alt)
  then show "unat (p_offset phdr) + unat (p_filesz phdr) \<le> unat image_size"
    using assms(1) by (simp add: segment_ok_def word_le_nat_alt) linarith
qed

section \<open>Filling a page\<close>

definition elf_chunk :: "u8 list \<Rightarrow> elf64_phdr \<Rightarrow> u64 \<Rightarrow> u64 \<times> u8 list" where
  "elf_chunk img phdr page =
     (let copy_start = max_u64 page (p_vaddr phdr);
          copy_end = min_u64 (page + PAGE_SIZE) (p_vaddr phdr + p_filesz phdr)
      in (copy_start, if copy_end > copy_start
                      then take (unat (copy_end - copy_start)) (drop (unat (p_offset phdr + (copy_start - p_vaddr phdr))) img)
                      else []))"

lemma fill_elf_page_chunk:
  "fill_elf_page img phdr page phys mem =
     mem_write_bytes mem (phys + (fst (elf_chunk img phdr page) - page)) (snd (elf_chunk img phdr page))"
  by (simp add: fill_elf_page_def elf_chunk_def Let_def)

lemma elf_chunk:
  assumes ok: "segment_ok image_size phdr" "p_memsz phdr \<noteq> 0" "unat image_size \<le> length img"
    and page: "page_aligned page" "page < USER_VIRT_MAX"
    and ch: "elf_chunk img phdr page = (start, bs)"
  shows "unat start = max (unat page) (unat (p_vaddr phdr))"
    "length bs = min (unat page + 4096) (unat (p_vaddr phdr) + unat (p_filesz phdr)) - unat start"
    "i < length bs \<Longrightarrow> bs ! i = img ! (unat (p_offset phdr) + (unat start - unat (p_vaddr phdr)) + i)"
proof -
  note n = segment_nat [OF ok(1,2)]
  let ?e = "min_u64 (page + PAGE_SIZE) (p_vaddr phdr + p_filesz phdr)"
  have st: "start = max_u64 page (p_vaddr phdr)" using ch by (simp add: elf_chunk_def Let_def)
  have bs: "bs = (if start < ?e then take (unat (?e - start)) (drop (unat (p_offset phdr + (start - p_vaddr phdr))) img) else [])"
    using ch by (auto simp: elf_chunk_def Let_def)
  show s: "unat start = max (unat page) (unat (p_vaddr phdr))" by (simp add: st max_u64_def word_less_nat_alt)
  have pl: "unat page < 0x800000000000" using page(2) by (simp add: word_less_nat_alt)
  have "unat (page + PAGE_SIZE) = unat page + 4096" using pl by (intro unat_page_step) simp
  then have e: "unat ?e = min (unat page + 4096) (unat (p_vaddr phdr) + unat (p_filesz phdr))"
    using n(4) by (simp add: min_u64_def word_less_nat_alt)
  have vs: "unat (start - p_vaddr phdr) = unat start - unat (p_vaddr phdr)"
    using s by (subst unat_sub) (simp_all add: word_le_nat_alt)
  have so: "unat (p_offset phdr + (start - p_vaddr phdr)) = unat (p_offset phdr) + (unat start - unat (p_vaddr phdr))" if "start < ?e"
  proof -
    have "unat start \<le> unat (p_vaddr phdr) + unat (p_filesz phdr)" using that e by (simp add: word_less_nat_alt)
    then have "unat (p_offset phdr) + unat (start - p_vaddr phdr) < 18446744073709551616"
      using vs n(5) unat_u64_less [of image_size] by linarith
    then show ?thesis using vs by (simp add: unat_word_ariths)
  qed
  show len: "length bs = min (unat page + 4096) (unat (p_vaddr phdr) + unat (p_filesz phdr)) - unat start"
  proof (cases "start < ?e")
    case True
    have se: "unat (?e - start) = unat ?e - unat start" using True by (intro unat_sub) simp
    note so = so [OF True]
    have "unat ?e - unat start \<le> length img - unat (p_offset phdr + (start - p_vaddr phdr))"
      unfolding so using e n(5) ok(3) s by simp
    then have "length bs = unat ?e - unat start" using True se by (simp add: bs)
    then show ?thesis unfolding e .
  next
    case False
    then have "unat ?e \<le> unat start" by (simp add: word_less_nat_alt)
    then show ?thesis using False unfolding e by (simp add: bs)
  qed
  show "bs ! i = img ! (unat (p_offset phdr) + (unat start - unat (p_vaddr phdr)) + i)" if i: "i < length bs"
  proof -
    have lt: "start < ?e" using i by (auto simp: bs split: if_splits)
    note so = so [OF lt]
    have "i < length (drop (unat (p_offset phdr) + (unat start - unat (p_vaddr phdr))) img)" using i lt so by (simp add: bs)
    then have "unat (p_offset phdr) + (unat start - unat (p_vaddr phdr)) \<le> length img" by simp
    then show ?thesis using i lt so by (simp add: bs)
  qed
qed

lemma low12_id: "unat (x :: u64) < 4096 \<Longrightarrow> x AND 4095 = x"
proof -
  assume "unat x < 4096"
  moreover have "x AND 4095 = take_bit 12 x" by (simp add: take_bit_eq_mask mask_eq_exp_minus_1)
  ultimately show ?thesis by (simp add: word_unat_eq_iff take_bit_eq_mod unat_mod_distrib)
qed

lemma unat_word_of_nat_u64: "n < 18446744073709551616 \<Longrightarrow> unat (word_of_nat n :: u64) = n"
  by (simp add: unat_of_nat)

lemma fill_elf_page_confined:
  assumes ok: "segment_ok image_size phdr" "p_memsz phdr \<noteq> 0" "unat image_size \<le> length img"
    and page: "page_aligned page" "page < USER_VIRT_MAX" and f: "is_frame phys" and x: "page_of x \<noteq> phys"
  shows "fill_elf_page img phdr page phys m x = m x"
proof (cases "snd (elf_chunk img phdr page) = []")
  case True
  then show ?thesis by (simp add: fill_elf_page_chunk)
next
  case False
  obtain start bs where ch: "elf_chunk img phdr page = (start, bs)" by (cases "elf_chunk img phdr page")
  note c = elf_chunk [OF ok page ch]
  have "length bs > 0" using False ch by simp
  then have s: "unat page \<le> unat start" "unat start + length bs \<le> unat page + 4096" "unat start < unat page + 4096"
    using c(1,2) by linarith+
  have d: "unat (start - page) = unat start - unat page" using s(1) by (intro unat_sub) (simp add: word_le_nat_alt)
  have "unat (start - page) < 4096" using d s by simp
  then have p: "page_of (phys + (start - page)) = phys" "(phys + (start - page)) AND 4095 = start - page"
    using page_of_add [OF frame_aligned [OF f]] and_offset [OF frame_aligned [OF f], of "start - page"]
    by (simp_all add: word_less_nat_alt low12_id)
  have "unat ((phys + (start - page)) AND 4095) + length bs \<le> 4096" unfolding p d using s by simp
  then show ?thesis using mem_write_bytes_page [of "phys + (start - page)" bs x m] p(1) x ch by (simp add: fill_elf_page_chunk)
qed

lemma fill_elf_page_content:
  assumes ok: "segment_ok image_size phdr" "p_memsz phdr \<noteq> 0" "unat image_size \<le> length img"
    and page: "page_aligned page" "page < USER_VIRT_MAX" and f: "is_frame phys" and m: "\<And>x. page_of x = phys \<Longrightarrow> m x = 0"
    and v: "page_of v = page"
  shows "mem_read8 (fill_elf_page img phdr page phys m) (phys + (v AND 4095)) = segment_byte img phdr v"
proof -
  obtain start bs where ch: "elf_chunk img phdr page = (start, bs)" by (cases "elf_chunk img phdr page")
  note c = elf_chunk [OF ok page ch] and n = segment_nat [OF ok(1,2)]
  have vo: "v = page + (v AND 4095)" using page_of_offset(1) [of v] v by simp
  have low: "unat (v AND 4095) < 4096" using low12_less [of v] by (simp add: word_less_nat_alt)
  have pl: "unat page < 0x800000000000" using page(2) by (simp add: word_less_nat_alt)
  have vn: "unat v = unat page + unat (v AND 4095)"
    by (subst vo) (use low pl in \<open>simp add: unat_word_ariths\<close>)
  have ad: "phys + (v AND 4095) - (phys + (start - page)) = v - start"
  proof -
    have "phys + (v AND 4095) - (phys + (start - page)) = (page + (v AND 4095)) - start" by simp
    then show ?thesis using vo [symmetric] by simp
  qed
  have len: "length bs \<le> 4096" using c(1,2) by linarith
  have sl: "unat start \<le> 0x800000000000" using c(1) pl n(1) by linarith
  have lt: "unat (v - start) < length bs \<longleftrightarrow> unat start \<le> unat v \<and> unat v < unat start + length bs"
    using sub_less_iff(1) [of start "word_of_nat (length bs)" v] sl len by (simp add: unat_word_of_nat_u64)
  have zb: "mem_read8 m (phys + (v AND 4095)) = 0" by (rule zero_page_byte [OF f m])
  have read: "mem_read8 (fill_elf_page img phdr page phys m) (phys + (v AND 4095)) =
      (if unat start \<le> unat v \<and> unat v < unat start + length bs then bs ! unat (v - start) else 0)"
    unfolding fill_elf_page_chunk ch fst_conv snd_conv mem_read8_write_bytes [OF len] ad lt zb ..
  have cov: "unat start \<le> unat v \<and> unat v < unat start + length bs \<longleftrightarrow>
      unat (p_vaddr phdr) \<le> unat v \<and> unat v < unat (p_vaddr phdr) + unat (p_filesz phdr)"
    using c(1,2) vn low by linarith
  show ?thesis
  proof (cases "unat start \<le> unat v \<and> unat v < unat start + length bs")
    case True
    have vs: "unat (v - start) = unat v - unat start" using True by (intro unat_sub) (simp add: word_le_nat_alt)
    have "unat (v - p_vaddr phdr) = unat v - unat (p_vaddr phdr)" using True cov by (intro unat_sub) (simp add: word_le_nat_alt)
    moreover have "unat (p_offset phdr) + (unat v - unat (p_vaddr phdr)) < 18446744073709551616"
      using True cov n(5) unat_u64_less [of image_size] by linarith
    ultimately have "unat (p_offset phdr + (v - p_vaddr phdr)) = unat (p_offset phdr) + (unat v - unat (p_vaddr phdr))"
      by (simp add: unat_word_ariths)
    moreover have "unat (p_offset phdr) + (unat start - unat (p_vaddr phdr)) + (unat v - unat start) =
        unat (p_offset phdr) + (unat v - unat (p_vaddr phdr))" using True c(1) by linarith
    ultimately show ?thesis
      unfolding read using True cov c(3) [of "unat v - unat start"] vs
      by (auto simp: segment_byte_def word_le_nat_alt word_less_nat_alt n(4))
  next
    case False
    then show ?thesis unfolding read using cov by (auto simp: segment_byte_def word_le_nat_alt word_less_nat_alt n(4))
  qed
qed

lemma segment_flags: "bit (segment_vmm_flags phdr) 2" "segment_vmm_flags phdr AND PTE_ADDR_MASK = 0"
    "bit (segment_vmm_flags phdr) 1 \<longleftrightarrow> p_flags phdr AND PF_W \<noteq> 0"
  unfolding segment_vmm_flags_def Let_def by (cases "p_flags phdr AND PF_W = 0"; cases "p_flags phdr AND PF_X = 0"; simp; code_simp)+

lemma elf_loop:
  assumes "segment_ok image_size phdr" "p_memsz phdr \<noteq> 0" "unat image_size \<le> length img"
  shows "page_loop (map_elf_pages cr3 img phdr) (fill_elf_page img phdr) (segment_byte img phdr) cr3 (segment_vmm_flags phdr)
    ''failed to map init ELF segment page''"
  by unfold_locales
    (simp_all add: fill_elf_page_confined [OF assms] fill_elf_page_content [OF assms] segment_flags(1,2) Let_def)

text \<open>The pages of the stack are filled with zeros, as those of the heap.\<close>

interpretation stack_loop: page_loop "map_stack_pages cr3" "\<lambda>page phys m. m" "\<lambda>v. 0" cr3 HEAP_FLAGS "''failed to map init user stack''"
  for cr3
  by unfold_locales (simp_all only: map_stack_pages.simps user_data_flags(2,3) zero_page_byte phys_mem_same)

lemma map_user_stack_mapped:
  assumes "upt_inv s lv" "pmm_inv s" "lv (cr3 AND PTE_ADDR_MASK) = Some 4" "64 \<le> card (free_page_set s)"
  shows "\<exists>s' lv'. map_user_stack cr3 s = Inr s' \<and> user_mapped s lv s' lv' cr3
    (\<lambda>v. if USER_STACK_TOP - USER_STACK_SIZE \<le> v \<and> v < USER_STACK_TOP then Some (0, True) else None)"
proof -
  let ?p = "page_range (USER_STACK_TOP - USER_STACK_SIZE) USER_STACK_TOP"
  have al: "page_aligned (USER_STACK_TOP - USER_STACK_SIZE)" "page_aligned USER_STACK_TOP" by (simp_all add: page_aligned_unat)
  have len: "length ?p = 16" using length_page_range [OF al] by simp
  have pg: "\<forall>p \<in> set ?p. page_aligned p \<and> p < USER_VIRT_MAX"
    using page_range_aligned [OF al(1)] page_range_bounds [of _ "USER_STACK_TOP - USER_STACK_SIZE" USER_STACK_TOP]
    by (fastforce simp: word_less_nat_alt)
  obtain s' where s': "map_stack_pages cr3 ?p s = Inr s'"
    using stack_loop.loop_total [OF assms(2), of 0 ?p cr3] len pg assms(4) by auto
  obtain lv' where "user_mapped s lv s' lv' cr3 (pages_content (\<lambda>v. 0) (bit HEAP_FLAGS 1) ?p)"
    using stack_loop.loop_mapped [OF assms(1-3) pg s'] by blast
  moreover have "pages_content (\<lambda>v. 0) True ?p =
      (\<lambda>v. if USER_STACK_TOP - USER_STACK_SIZE \<le> v \<and> v < USER_STACK_TOP then Some (0, True) else None)"
    by (rule ext) (simp only: pages_content_def page_of_range [OF al])
  ultimately show ?thesis using s' unfolding map_user_stack_def user_data_flags(1) by auto
qed

section \<open>Loading\<close>

definition segment_pages :: "elf64_phdr \<Rightarrow> u64 list" where
  "segment_pages phdr = page_range (page_of (p_vaddr phdr)) (align_up (p_vaddr phdr + p_memsz phdr) PAGE_SIZE)"

definition loaded :: "elf64_phdr \<Rightarrow> bool" where
  "loaded phdr \<longleftrightarrow> p_type phdr = PT_LOAD \<and> p_memsz phdr \<noteq> 0"

definition segment_map :: "u8 list \<Rightarrow> elf64_phdr \<Rightarrow> (u64 \<rightharpoonup> u8 \<times> bool)" where
  "segment_map img phdr =
     (if loaded phdr then pages_content (segment_byte img phdr) (p_flags phdr AND PF_W \<noteq> 0) (segment_pages phdr) else Map.empty)"

text \<open>The memory image: a later segment covers an earlier one.\<close>

primrec image_map :: "u8 list \<Rightarrow> elf64_phdr list \<Rightarrow> (u64 \<rightharpoonup> u8 \<times> bool)" where
  "image_map img [] = Map.empty"
| "image_map img (phdr # phdrs) = segment_map img phdr ++ image_map img phdrs"

definition image_end :: "elf64_phdr list \<Rightarrow> u64 \<Rightarrow> u64" where
  "image_end phdrs e = fold (\<lambda>phdr e. if p_type phdr = PT_LOAD then max_u64 e (p_vaddr phdr + p_memsz phdr) else e) phdrs e"

definition image_pages :: "elf64_phdr list \<Rightarrow> nat" where
  "image_pages phdrs = (\<Sum>phdr \<leftarrow> phdrs. if loaded phdr then length (segment_pages phdr) else 0)"

lemma map_elf_segment_eq:
  assumes "p_type phdr = PT_LOAD"
  shows "map_elf_segment cr3 img image_size phdr s =
     (if \<not> loaded phdr then Inr s
      else if segment_ok image_size phdr then map_elf_pages cr3 img phdr (segment_pages phdr) s
      else map_elf_segment cr3 img image_size phdr s)"
    "loaded phdr \<Longrightarrow> \<not> segment_ok image_size phdr \<Longrightarrow> \<exists>e. map_elf_segment cr3 img image_size phdr s = Inl e"
  using assms by (auto simp: map_elf_segment_def segment_ok_def segment_pages_def loaded_def Let_def not_le not_less)

lemma segment_page_user:
  assumes "segment_ok image_size phdr" "p_memsz phdr \<noteq> 0"
  shows "\<forall>p \<in> set (segment_pages phdr). page_aligned p \<and> p < USER_VIRT_MAX"
proof
  fix p assume p: "p \<in> set (segment_pages phdr)"
  note n = segment_nat [OF assms]
  have "unat (align_up (p_vaddr phdr + p_memsz phdr) PAGE_SIZE) = (unat (p_vaddr phdr) + unat (p_memsz phdr) + 4095) div 4096 * 4096"
    using unat_align_up_page [of "p_vaddr phdr + p_memsz phdr"] n(1,3) by simp
  also have "\<dots> \<le> 0x800000000000" using n(1) by simp
  finally have e: "unat (align_up (p_vaddr phdr + p_memsz phdr) PAGE_SIZE) \<le> 0x800000000000" .
  have "unat p < unat (align_up (p_vaddr phdr + p_memsz phdr) PAGE_SIZE)"
    using page_range_bounds [OF p [unfolded segment_pages_def]] by (simp add: word_less_nat_alt)
  then have "unat p < 0x800000000000" using e by linarith
  then show "page_aligned p \<and> p < USER_VIRT_MAX"
    using page_range_aligned [OF _ p [unfolded segment_pages_def]] by (simp add: word_less_nat_alt)
qed

lemma segment_covers:
  assumes "segment_ok image_size phdr" "p_memsz phdr \<noteq> 0" "p_vaddr phdr \<le> v" "v < p_vaddr phdr + p_memsz phdr"
  shows "page_of v \<in> set (segment_pages phdr)"
proof -
  note n = segment_nat [OF assms(1,2)]
  have "unat (align_up (p_vaddr phdr + p_memsz phdr) PAGE_SIZE) = (unat (p_vaddr phdr) + unat (p_memsz phdr) + 4095) div 4096 * 4096"
    using unat_align_up_page [of "p_vaddr phdr + p_memsz phdr"] n(1,3) by simp
  then have "v < align_up (p_vaddr phdr + p_memsz phdr) PAGE_SIZE"
    using assms(4) by (simp add: word_less_nat_alt n(3))
  moreover have "page_of (p_vaddr phdr) \<le> v"
    using assms(3) align_down_page_le [of "p_vaddr phdr"] by (simp add: word_le_nat_alt)
  ultimately show ?thesis unfolding segment_pages_def by (subst page_of_range) (simp_all add: page_aligned_align_up)
qed

lemma map_elf_segment_mapped:
  assumes inv: "upt_inv s lv" "pmm_inv s" "lv (cr3 AND PTE_ADDR_MASK) = Some 4" and len: "unat image_size \<le> length img"
    and ty: "p_type phdr = PT_LOAD" and run: "map_elf_segment cr3 img image_size phdr s = Inr s'"
  shows "\<exists>lv'. user_mapped s lv s' lv' cr3 (segment_map img phdr)" "loaded phdr \<Longrightarrow> segment_ok image_size phdr"
proof -
  show ok: "segment_ok image_size phdr" if "loaded phdr" using map_elf_segment_eq(2) [OF ty that] run by (metis Inl_Inr_False)
  show "\<exists>lv'. user_mapped s lv s' lv' cr3 (segment_map img phdr)"
  proof (cases "loaded phdr")
    case True
    then have nz: "p_memsz phdr \<noteq> 0" by (simp add: loaded_def)
    have run': "map_elf_pages cr3 img phdr (segment_pages phdr) s = Inr s'"
      using run True ok map_elf_segment_eq(1) [OF ty, of cr3 img image_size s] by simp
    from page_loop.loop_mapped [OF elf_loop [OF ok [OF True] nz len] inv segment_page_user [OF ok [OF True] nz] run']
    show ?thesis using True unfolding segment_map_def segment_flags(3) by simp
  next
    case False
    then have "s' = s" using run map_elf_segment_eq(1) [OF ty, of cr3 img image_size s] by simp
    then show ?thesis using False user_mapped_refl [OF inv(1,2)] by (auto simp: segment_map_def)
  qed
qed

lemma map_elf_segment_total:
  assumes inv: "pmm_inv s" and len: "unat image_size \<le> length img" and ty: "p_type phdr = PT_LOAD"
    and ok: "loaded phdr \<Longrightarrow> segment_ok image_size phdr"
    and n: "n + 4 * (if loaded phdr then length (segment_pages phdr) else 0) \<le> card (free_page_set s)"
  shows "\<exists>s'. map_elf_segment cr3 img image_size phdr s = Inr s' \<and> pmm_inv s' \<and> n \<le> card (free_page_set s')"
proof (cases "loaded phdr")
  case True
  then have nz: "p_memsz phdr \<noteq> 0" by (simp add: loaded_def)
  have "\<forall>p \<in> set (segment_pages phdr). page_aligned p" using segment_page_user [OF ok [OF True] nz] by blast
  from page_loop.loop_total [OF elf_loop [OF ok [OF True] nz len] inv _ this, of n]
  show ?thesis using True n ok map_elf_segment_eq(1) [OF ty, of cr3 img image_size s] by simp
next
  case False
  then show ?thesis using inv n map_elf_segment_eq(1) [OF ty, of cr3 img image_size s] by simp
qed

lemma load_segments_mapped:
  assumes "upt_inv s lv" "pmm_inv s" "lv (cr3 AND PTE_ADDR_MASK) = Some 4" "unat image_size \<le> length img"
    and "load_segments cr3 img image_size phdrs e s = Inr (e', s')"
  shows "e' = image_end phdrs e \<and> (\<forall>phdr \<in> set phdrs. loaded phdr \<longrightarrow> segment_ok image_size phdr) \<and>
    (\<exists>lv'. user_mapped s lv s' lv' cr3 (image_map img phdrs))"
  using assms
proof (induction phdrs arbitrary: e s lv)
  case Nil
  then show ?case using user_mapped_refl [of s lv cr3] by (auto simp: image_end_def)
next
  case (Cons phdr phdrs)
  show ?case
  proof (cases "p_type phdr = PT_LOAD")
    case True
    then obtain s1 where s1: "map_elf_segment cr3 img image_size phdr s = Inr s1"
      and rest: "load_segments cr3 img image_size phdrs (max_u64 e (p_vaddr phdr + p_memsz phdr)) s1 = Inr (e', s')"
      using Cons.prems(5) by auto
    obtain lv1 where m: "user_mapped s lv s1 lv1 cr3 (segment_map img phdr)"
      using map_elf_segment_mapped(1) [OF Cons.prems(1-4) True s1] by blast
    have ih: "e' = image_end phdrs (max_u64 e (p_vaddr phdr + p_memsz phdr)) \<and>
        (\<forall>phdr \<in> set phdrs. loaded phdr \<longrightarrow> segment_ok image_size phdr) \<and>
        (\<exists>lv'. user_mapped s1 lv1 s' lv' cr3 (image_map img phdrs))"
      by (rule Cons.IH [OF user_mapped_inv(1,2) [OF m] user_mapped_inv(3) [OF m Cons.prems(3)] Cons.prems(4) rest])
    then obtain lv' where "user_mapped s1 lv1 s' lv' cr3 (image_map img phdrs)" by blast
    from user_mapped_trans [OF m this] show ?thesis
      using ih map_elf_segment_mapped(2) [OF Cons.prems(1-4) True s1] True by (auto simp: image_end_def)
  next
    case False
    then show ?thesis using Cons.IH [OF Cons.prems(1-4)] Cons.prems(5) by (auto simp: image_end_def loaded_def segment_map_def)
  qed
qed

lemma load_segments_total:
  assumes "pmm_inv s" "unat image_size \<le> length img" "4 * image_pages phdrs \<le> card (free_page_set s)"
    and "\<forall>phdr \<in> set phdrs. loaded phdr \<longrightarrow> segment_ok image_size phdr"
  shows "\<exists>r. load_segments cr3 img image_size phdrs e s = Inr r"
  using assms
proof (induction phdrs arbitrary: e s)
  case (Cons phdr phdrs)
  show ?case
  proof (cases "p_type phdr = PT_LOAD")
    case True
    have "\<exists>s'. map_elf_segment cr3 img image_size phdr s = Inr s' \<and> pmm_inv s' \<and> 4 * image_pages phdrs \<le> card (free_page_set s')"
      by (rule map_elf_segment_total [OF Cons.prems(1,2) True]) (use Cons.prems(3,4) in \<open>auto simp: image_pages_def\<close>)
    then show ?thesis using True Cons.IH Cons.prems(2,4) by fastforce
  next
    case False
    then show ?thesis using Cons by (simp add: image_pages_def loaded_def)
  qed
qed simp

lemma image_map_at:
  assumes "\<forall>q \<in> set phdrs. segment_map img q v \<in> {None, Some y}" "p \<in> set phdrs" "segment_map img p v = Some y"
  shows "image_map img phdrs v = Some y"
proof -
  have "image_map img phdrs v = (if \<exists>q \<in> set phdrs. segment_map img q v \<noteq> None then Some y else None)"
    using assms(1)
  proof (induction phdrs)
    case (Cons q phdrs)
    then show ?case by (cases "segment_map img q v"; cases "\<exists>q \<in> set phdrs. segment_map img q v \<noteq> None") (simp_all add: map_add_def)
  qed simp
  then show ?thesis using assms(2,3) by (metis option.distinct(1))
qed

lemma user_mapped_byte:
  assumes "user_mapped s lv s' lv' cr3 new" "lv (cr3 AND PTE_ADDR_MASK) = Some 4" "new v = Some (b, w)"
  shows "user_byte s' cr3 v = Some b" "user_writable s' cr3 v = w"
  using assms by (simp_all add: user_mapped_def)


text \<open>An image with one segment: four bytes of code at \<open>0x400078\<close>, followed by four zero bytes.\<close>

definition elf_example :: "u8 list" where
  "elf_example =
     [0x7f, 0x45, 0x4c, 0x46, 2, 1, 1, 0, 0, 0, 0, 0, 0, 0, 0, 0, 2, 0, 62, 0, 1, 0, 0, 0,
      0x78, 0, 0x40, 0, 0, 0, 0, 0, 64, 0, 0, 0, 0, 0, 0, 0, 0, 0, 0, 0, 0, 0, 0, 0, 0, 0, 0, 0, 64, 0, 56, 0, 1, 0, 0, 0, 0, 0, 0, 0,
      1, 0, 0, 0, 5, 0, 0, 0, 0x78, 0, 0, 0, 0, 0, 0, 0, 0x78, 0, 0x40, 0, 0, 0, 0, 0, 0, 0, 0, 0, 0, 0, 0, 0,
      4, 0, 0, 0, 0, 0, 0, 0, 8, 0, 0, 0, 0, 0, 0, 0, 0, 0x10, 0, 0, 0, 0, 0, 0, 0x90, 0x31, 0xc0, 0xc3]"

definition phdr_example :: elf64_phdr where
  "phdr_example = \<lparr>p_type = 1, p_flags = 5, p_offset = 0x78, p_vaddr = 0x400078, p_paddr = 0, p_filesz = 4, p_memsz = 8, p_align = 0x1000\<rparr>"

lemma elf_example_header:
  "validate_elf_header (ehdr_of elf_example) 124 = Inr ()" "e_entry (ehdr_of elf_example) = 0x400078"
  "phdrs_of elf_example = [phdr_example]" "length elf_example = 124"
  by code_simp+

lemma elf_example_segment:
  "segment_ok 124 phdr_example" "loaded phdr_example" "segment_pages phdr_example = [0x400000]"
  "align_up (image_end [phdr_example] 0) PAGE_SIZE = 0x401000"
  "segment_byte elf_example phdr_example 0x400079 = 0x31" "segment_byte elf_example phdr_example 0x40007C = 0"
  by code_simp+


end
