(* ===== verification/Task_Files_Invariant.thy ===== *)
theory Task_Files_Invariant
  imports Task_Files
begin

text \<open>
  The invariant of the descriptor table of a task: descriptors refer to open files in use and reference counts count descriptors.
  Every file operation of kernel/scheduler.c keeps it and touches no other task.
\<close>

section \<open>The descriptors of a task\<close>

definition fds_of :: "task \<Rightarrow> nat \<Rightarrow> nat set" where
  "fds_of task i = {fd. fd < TASK_MAX_FDS \<and> tf_in_use (t_files task ! fd) \<and> tf_open_file_index (t_files task ! fd) = int i}"

text \<open>
  Every descriptor in use refers to an open file, and the reference count of an open file is the number of its descriptors, which
  is not zero unless the file has only just been allocated (\<open>pend\<close>).
\<close>

definition fds_inv :: "nat set \<Rightarrow> task \<Rightarrow> bool" where
  "fds_inv pend task \<longleftrightarrow>
     length (t_files task) = TASK_MAX_FDS \<and> length (t_open_files task) = TASK_MAX_OPEN_FILES \<and>
     (\<forall>fd < TASK_MAX_FDS. tf_in_use (t_files task ! fd) \<longrightarrow>
        0 \<le> tf_open_file_index (t_files task ! fd) \<and> tf_open_file_index (t_files task ! fd) < int TASK_MAX_OPEN_FILES \<and>
        of_in_use (t_open_files task ! nat (tf_open_file_index (t_files task ! fd)))) \<and>
     (\<forall>i < TASK_MAX_OPEN_FILES. of_in_use (t_open_files task ! i) \<longrightarrow>
        of_ref_count (t_open_files task ! i) = of_nat (card (fds_of task i)) \<and> (fds_of task i = {} \<longrightarrow> i \<in> pend))"

lemma finite_fds_of [simp]: "finite (fds_of task i)"
  by (simp add: fds_of_def)

lemma card_fds_of: "card (fds_of task i) \<le> 11"
proof -
  have "card (fds_of task i) \<le> card {..<11 :: nat}" by (rule card_mono) (auto simp: fds_of_def)
  then show ?thesis by simp
qed

lemma fds_of_upd_file:
  assumes "length (t_files task) = TASK_MAX_FDS" "fd < TASK_MAX_FDS"
  shows "fds_of (upd_file fd f task) i =
    (if tf_in_use (f (t_files task ! fd)) \<and> tf_open_file_index (f (t_files task ! fd)) = int i then insert fd (fds_of task i)
     else fds_of task i - {fd})"
  using assms by (auto simp: fds_of_def upd_file_def nth_list_update)

lemma fds_of_upd_open_file [simp]: "fds_of (upd_open_file i f task) j = fds_of task j"
  by (simp add: fds_of_def upd_open_file_def)

lemma upd_open_file_sel [simp]:
  "t_files (upd_open_file i f task) = t_files task" "length (t_open_files (upd_open_file i f task)) = length (t_open_files task)"
  "t_open_files (upd_file fd g task) = t_open_files task" "length (t_files (upd_file fd g task)) = length (t_files task)"
  by (simp_all add: upd_open_file_def upd_file_def)

lemma upd_open_file_nth:
  "i < length (t_open_files task) \<Longrightarrow> t_open_files (upd_open_file i f task) ! j =
     (if j = i then f (t_open_files task ! i) else t_open_files task ! j)"
  by (simp add: upd_open_file_def nth_list_update)

lemma upd_file_nth:
  "fd < length (t_files task) \<Longrightarrow> t_files (upd_file fd f task) ! j = (if j = fd then f (t_files task ! fd) else t_files task ! j)"
  by (simp add: upd_file_def nth_list_update)

lemma fds_inv_len:
  assumes "fds_inv pend task"
  shows "length (t_files task) = TASK_MAX_FDS" "length (t_open_files task) = TASK_MAX_OPEN_FILES"
  using assms by (simp_all add: fds_inv_def)

lemma fds_inv_fd:
  assumes "fds_inv pend task" "fd < TASK_MAX_FDS" "tf_in_use (t_files task ! fd)"
  obtains i where "tf_open_file_index (t_files task ! fd) = int i" "i < TASK_MAX_OPEN_FILES" "of_in_use (t_open_files task ! i)"
    "fd \<in> fds_of task i"
proof -
  let ?x = "tf_open_file_index (t_files task ! fd)"
  have x: "0 \<le> ?x" "?x < int TASK_MAX_OPEN_FILES" "of_in_use (t_open_files task ! nat ?x)" using assms unfolding fds_inv_def by blast+
  show thesis by (rule that [of "nat ?x"]) (use x assms(2,3) in \<open>simp_all add: fds_of_def\<close>)
qed

lemma fds_inv_slot:
  assumes "fds_inv pend task" "i < TASK_MAX_OPEN_FILES" "of_in_use (t_open_files task ! i)"
  shows "of_ref_count (t_open_files task ! i) = of_nat (card (fds_of task i))" "fds_of task i = {} \<Longrightarrow> i \<in> pend"
  using assms by (simp_all add: fds_inv_def)

lemma fds_invI:
  assumes "length (t_files task) = TASK_MAX_FDS" "length (t_open_files task) = TASK_MAX_OPEN_FILES"
    and "\<And>fd. fd < TASK_MAX_FDS \<Longrightarrow> tf_in_use (t_files task ! fd) \<Longrightarrow>
      \<exists>i < TASK_MAX_OPEN_FILES. tf_open_file_index (t_files task ! fd) = int i \<and> of_in_use (t_open_files task ! i)"
    and "\<And>i. i < TASK_MAX_OPEN_FILES \<Longrightarrow> of_in_use (t_open_files task ! i) \<Longrightarrow>
      of_ref_count (t_open_files task ! i) = of_nat (card (fds_of task i)) \<and> (fds_of task i = {} \<longrightarrow> i \<in> pend)"
  shows "fds_inv pend task"
  using assms(1,2,4) unfolding fds_inv_def by (fastforce dest: assms(3))

lemma find_upt: "find P [m..<n] = Some i \<Longrightarrow> m \<le> i \<and> i < n \<and> P i"
  by (auto simp: find_Some_iff)

lemma fds_inv_index:
  assumes "fds_inv pend task" "fd < TASK_MAX_FDS" "tf_in_use (t_files task ! fd)"
  shows "\<exists>i < TASK_MAX_OPEN_FILES. tf_open_file_index (t_files task ! fd) = int i \<and> of_in_use (t_open_files task ! i) \<and> fd \<in> fds_of task i"
  by (rule fds_inv_fd [OF assms]) blast

text \<open>The four changes the operations are made of.\<close>

lemma fds_inv_keep:
  assumes "fds_inv pend task" "i < TASK_MAX_OPEN_FILES"
    and "of_in_use (f (t_open_files task ! i)) = of_in_use (t_open_files task ! i)"
    and "of_ref_count (f (t_open_files task ! i)) = of_ref_count (t_open_files task ! i)"
  shows "fds_inv pend (upd_open_file i f task)"
  using assms by (auto simp: fds_inv_def upd_open_file_nth)

lemma fds_inv_allocate:
  assumes inv: "fds_inv pend task" and a: "allocate_open_file type path app task = (Some i, task')"
  shows "fds_inv (insert i pend) task'" "i < TASK_MAX_OPEN_FILES" "fds_of task' i = {}" "of_in_use (t_open_files task' ! i)"
    "t_files task' = t_files task"
proof -
  have f: "find (\<lambda>i. \<not> of_in_use (t_open_files task ! i)) [0..<TASK_MAX_OPEN_FILES] = Some i"
    and t: "task' = upd_open_file i (\<lambda>_. \<lparr>of_in_use = True, of_ref_count = 0, of_type = type, of_path = copy_file_path path,
      of_offset = 0, of_append = app\<rparr>) task"
    using a by (auto simp: allocate_open_file_def simp del: upt_rec_numeral split: option.splits)
  have i: "i < TASK_MAX_OPEN_FILES" "\<not> of_in_use (t_open_files task ! i)" using find_upt [OF f] by simp_all
  note len = fds_inv_len [OF inv]
  have e: "fds_of task i = {}"
  proof -
    have "fd \<notin> fds_of task i" for fd
      using fds_inv_index [OF inv, of fd] i(2) by (auto simp: fds_of_def)
    then show ?thesis by blast
  qed
  show "i < TASK_MAX_OPEN_FILES" by (rule i)
  show "fds_of task' i = {}" "t_files task' = t_files task" using e by (simp_all add: t)
  show "of_in_use (t_open_files task' ! i)" using i len by (simp add: t upd_open_file_nth)
  show "fds_inv (insert i pend) task'"
  proof (rule fds_invI)
    show "\<exists>j < TASK_MAX_OPEN_FILES. tf_open_file_index (t_files task' ! fd) = int j \<and> of_in_use (t_open_files task' ! j)"
      if "fd < TASK_MAX_FDS" "tf_in_use (t_files task' ! fd)" for fd
    proof -
      have "tf_in_use (t_files task ! fd)" using that(2) by (simp add: t)
      then obtain j where "j < TASK_MAX_OPEN_FILES" "tf_open_file_index (t_files task ! fd) = int j" "of_in_use (t_open_files task ! j)"
        using fds_inv_index [OF inv \<open>fd < TASK_MAX_FDS\<close>] by blast
      then show ?thesis using len i by (intro exI [of _ j]) (simp add: t upd_open_file_nth)
    qed
    show "of_ref_count (t_open_files task' ! j) = of_nat (card (fds_of task' j)) \<and> (fds_of task' j = {} \<longrightarrow> j \<in> insert i pend)"
      if "j < TASK_MAX_OPEN_FILES" "of_in_use (t_open_files task' ! j)" for j
      using fds_inv_slot [OF inv that(1)] that(2) len i e by (cases "j = i") (simp_all add: t upd_open_file_nth)
  qed (use len in \<open>simp_all add: t\<close>)
qed

lemma fds_inv_reset:
  assumes inv: "fds_inv pend task" and i: "i < TASK_MAX_OPEN_FILES" "fds_of task i = {}"
  shows "fds_inv (pend - {i}) (upd_open_file i reset_task_open_file task)"
proof (rule fds_invI)
  note len = fds_inv_len [OF inv]
  show "\<exists>j < TASK_MAX_OPEN_FILES. tf_open_file_index (t_files (upd_open_file i reset_task_open_file task) ! fd) = int j \<and>
      of_in_use (t_open_files (upd_open_file i reset_task_open_file task) ! j)"
    if "fd < TASK_MAX_FDS" "tf_in_use (t_files (upd_open_file i reset_task_open_file task) ! fd)" for fd
  proof -
    have "tf_in_use (t_files task ! fd)" using that(2) by simp
    then obtain j where j: "j < TASK_MAX_OPEN_FILES" "tf_open_file_index (t_files task ! fd) = int j" "of_in_use (t_open_files task ! j)"
      "fd \<in> fds_of task j" using fds_inv_index [OF inv \<open>fd < TASK_MAX_FDS\<close>] by blast
    then have "j \<noteq> i" using i(2) by auto
    then show ?thesis using j len i(1) by (intro exI [of _ j]) (simp add: upd_open_file_nth)
  qed
  show "of_ref_count (t_open_files (upd_open_file i reset_task_open_file task) ! j) =
      of_nat (card (fds_of (upd_open_file i reset_task_open_file task) j)) \<and>
      (fds_of (upd_open_file i reset_task_open_file task) j = {} \<longrightarrow> j \<in> pend - {i})"
    if "j < TASK_MAX_OPEN_FILES" "of_in_use (t_open_files (upd_open_file i reset_task_open_file task) ! j)" for j
    using that len i(1) fds_inv_slot [OF inv that(1)] by (cases "j = i") (simp_all add: upd_open_file_nth reset_task_open_file_def)
qed (use fds_inv_len [OF inv] in simp_all)

lemma fds_inv_bind:
  assumes inv: "fds_inv pend task" and fd: "fd < TASK_MAX_FDS" "\<not> tf_in_use (t_files task ! fd)"
    and i: "i < TASK_MAX_OPEN_FILES" "of_in_use (t_open_files task ! i)"
  shows "fds_inv (pend - {i}) (bind_fd fd i task)"
proof (rule fds_invI)
  note len = fds_inv_len [OF inv]
  have nfd: "fd \<notin> fds_of task j" for j using fd by (simp add: fds_of_def)
  have fo: "fds_of (bind_fd fd i task) j = (if j = i then insert fd (fds_of task j) else fds_of task j)" for j
    using nfd [of j] len fd(1) by (auto simp: bind_fd_def fds_of_upd_file)
  have files: "t_files (bind_fd fd i task) ! k = (if k = fd then \<lparr>tf_in_use = True, tf_open_file_index = int i\<rparr> else t_files task ! k)" for k
    using len fd(1) by (simp add: bind_fd_def upd_file_nth)
  have opens: "t_open_files (bind_fd fd i task) ! j =
      (if j = i then (t_open_files task ! i)\<lparr>of_ref_count := of_ref_count (t_open_files task ! i) + 1\<rparr> else t_open_files task ! j)" for j
    using len i(1) by (simp add: bind_fd_def upd_open_file_nth)
  show "\<exists>j < TASK_MAX_OPEN_FILES. tf_open_file_index (t_files (bind_fd fd i task) ! k) = int j \<and>
      of_in_use (t_open_files (bind_fd fd i task) ! j)"
    if "k < TASK_MAX_FDS" "tf_in_use (t_files (bind_fd fd i task) ! k)" for k
  proof (cases "k = fd")
    case True
    then show ?thesis using i by (intro exI [of _ i]) (simp add: files opens)
  next
    case False
    then have "tf_in_use (t_files task ! k)" using that(2) by (simp add: files)
    then obtain j where "j < TASK_MAX_OPEN_FILES" "tf_open_file_index (t_files task ! k) = int j" "of_in_use (t_open_files task ! j)"
      using fds_inv_index [OF inv \<open>k < TASK_MAX_FDS\<close>] by blast
    then show ?thesis using False i(2) by (intro exI [of _ j]) (simp add: files opens)
  qed
  show "of_ref_count (t_open_files (bind_fd fd i task) ! j) = of_nat (card (fds_of (bind_fd fd i task) j)) \<and>
      (fds_of (bind_fd fd i task) j = {} \<longrightarrow> j \<in> pend - {i})"
    if "j < TASK_MAX_OPEN_FILES" "of_in_use (t_open_files (bind_fd fd i task) ! j)" for j
    using that fds_inv_slot [OF inv that(1)] nfd [of i] i by (cases "j = i") (simp_all add: fo opens)
qed (use fds_inv_len [OF inv] in \<open>simp_all add: bind_fd_def\<close>)

lemma small_of_nat:
  assumes "n \<le> 11"
  shows "unat (of_nat n :: u64) = n" "(of_nat n :: u64) = 0 \<longleftrightarrow> n = 0"
proof -
  show u: "unat (of_nat n :: u64) = n" using assms by (simp add: unat_of_nat)
  show "(of_nat n :: u64) = 0 \<longleftrightarrow> n = 0" unfolding word_unat_eq_iff u by simp
qed

lemma fds_inv_close:
  assumes inv: "fds_inv pend task" and fd: "fd_is_valid fd"
  shows "fds_inv pend (close_fd_slot fd task)" "\<not> tf_in_use (t_files (close_fd_slot fd task) ! nat fd)"
    "k \<noteq> nat fd \<Longrightarrow> t_files (close_fd_slot fd task) ! k = t_files task ! k"
    "i < TASK_MAX_OPEN_FILES \<Longrightarrow> of_in_use (t_open_files task ! i) \<Longrightarrow> nat fd \<notin> fds_of task i \<or> fds_of task i \<noteq> {nat fd} \<Longrightarrow>
      of_in_use (t_open_files (close_fd_slot fd task) ! i)"
proof -
  let ?fd = "nat fd"
  note len = fds_inv_len [OF inv]
  have n: "?fd < TASK_MAX_FDS" using fd by (auto simp: fd_is_valid_def)
  let ?c = "close_fd_slot fd task"
  have files: "t_files ?c ! k = (if k = ?fd then reset_task_file (t_files task ! ?fd) else t_files task ! k)" for k
    using len n by (simp add: close_fd_slot_def Let_def upd_file_nth split: option.splits)
  have lens: "length (t_files ?c) = TASK_MAX_FDS" "length (t_open_files ?c) = TASK_MAX_OPEN_FILES"
    using len by (simp_all add: close_fd_slot_def Let_def split: option.splits)
  have fo: "fds_of ?c j = fds_of task j - {?fd}" for j
    using lens n by (auto simp: fds_of_def files reset_task_file_def)
  show "\<not> tf_in_use (t_files ?c ! ?fd)" by (simp add: files reset_task_file_def)
  show "k \<noteq> ?fd \<Longrightarrow> t_files ?c ! k = t_files task ! k" by (simp add: files)
  have opens: "t_open_files ?c ! j = (if ?fd \<in> fds_of task j
      then if fds_of task j = {?fd} then reset_task_open_file (t_open_files task ! j)
           else (t_open_files task ! j)\<lparr>of_ref_count := of_nat (card (fds_of task j - {?fd}))\<rparr>
      else t_open_files task ! j)" if j: "j < TASK_MAX_OPEN_FILES" for j
  proof (cases "tf_in_use (t_files task ! ?fd)")
    case True
    obtain i where i: "i < TASK_MAX_OPEN_FILES" "tf_open_file_index (t_files task ! ?fd) = int i" "of_in_use (t_open_files task ! i)"
      "?fd \<in> fds_of task i" using fds_inv_index [OF inv n True] by blast
    have slot: "fd_slot fd task = Some i" using True i by (simp add: fd_slot_def Let_def)
    have mem: "?fd \<in> fds_of task j \<longleftrightarrow> j = i" using True n i(2) by (auto simp: fds_of_def)
    have card: "card (fds_of task i) = Suc (card (fds_of task i - {?fd}))" by (rule card.remove [OF finite_fds_of i(4)])
    have rc: "of_ref_count (t_open_files task ! i) = of_nat (card (fds_of task i - {?fd})) + 1"
      using fds_inv_slot(1) [OF inv i(1,3)] card by simp
    have le: "card (fds_of task i - {?fd}) \<le> 10" using card card_fds_of [of task i] by linarith
    have z: "(of_nat (card (fds_of task i - {?fd})) :: u64) = 0 \<longleftrightarrow> card (fds_of task i - {?fd}) = 0"
      using le by (intro small_of_nat(2)) simp
    have pos: "of_ref_count (t_open_files task ! i) > 0"
      using small_of_nat(1) [of "card (fds_of task i)"] fds_inv_slot(1) [OF inv i(1,3)] card card_fds_of [of task i]
      by (simp add: word_less_nat_alt)
    have one: "card (fds_of task i - {?fd}) = 0 \<longleftrightarrow> fds_of task i = {?fd}"
      unfolding card_0_eq [OF finite_Diff [OF finite_fds_of]] using i(4) by blast
    have dec: "of_ref_count (t_open_files task ! i) - 1 = of_nat (card (fds_of task i - {?fd}))" using rc by simp
    have last: "of_ref_count (t_open_files task ! i) - 1 = 0 \<longleftrightarrow> fds_of task i = {?fd}" unfolding dec z one ..
    have c: "t_open_files ?c = t_open_files (if fds_of task i = {?fd} then upd_open_file i reset_task_open_file task
        else upd_open_file i (\<lambda>f. f\<lparr>of_ref_count := of_ref_count f - 1\<rparr>) task)"
      using i(3) pos last by (simp add: close_fd_slot_def slot Let_def)
    show ?thesis
      unfolding c mem using i(1) len dec by (cases "j = i"; cases "fds_of task i = {?fd}") (simp_all add: upd_open_file_nth)
  next
    case False
    then have "fd_slot fd task = None" "?fd \<notin> fds_of task j" by (simp_all add: fd_slot_def Let_def fds_of_def)
    then show ?thesis by (simp add: close_fd_slot_def)
  qed
  show "fds_inv pend ?c"
  proof (rule fds_invI [OF lens])
    show "\<exists>j < TASK_MAX_OPEN_FILES. tf_open_file_index (t_files ?c ! k) = int j \<and> of_in_use (t_open_files ?c ! j)"
      if "k < TASK_MAX_FDS" "tf_in_use (t_files ?c ! k)" for k
    proof -
      have k: "k \<noteq> ?fd" "tf_in_use (t_files task ! k)" using that(2) by (auto simp: files reset_task_file_def split: if_splits)
      then obtain j where j: "j < TASK_MAX_OPEN_FILES" "tf_open_file_index (t_files task ! k) = int j" "of_in_use (t_open_files task ! j)"
        "k \<in> fds_of task j" using fds_inv_index [OF inv \<open>k < TASK_MAX_FDS\<close>] by blast
      have "fds_of task j \<noteq> {?fd}" using k(1) j(4) by auto
      then show ?thesis using j k(1) by (intro exI [of _ j]) (simp add: files opens)
    qed
    show "of_ref_count (t_open_files ?c ! j) = of_nat (card (fds_of ?c j)) \<and> (fds_of ?c j = {} \<longrightarrow> j \<in> pend)"
      if "j < TASK_MAX_OPEN_FILES" "of_in_use (t_open_files ?c ! j)" for j
    proof (cases "?fd \<in> fds_of task j")
      case True
      then have "fds_of task j \<noteq> {?fd}" using that by (auto simp: opens reset_task_open_file_def)
      then show ?thesis using True that(1) by (auto simp: opens fo)
    next
      case False
      then show ?thesis using that fds_inv_slot [OF inv that(1)] by (simp add: opens fo)
    qed
  qed
  show "of_in_use (t_open_files ?c ! i)"
    if "i < TASK_MAX_OPEN_FILES" "of_in_use (t_open_files task ! i)" "?fd \<notin> fds_of task i \<or> fds_of task i \<noteq> {?fd}"
    using that by (auto simp: opens)
qed

lemma open_file_for_fd_eq:
  assumes "fds_inv pend task" "fd_is_valid fd"
  shows "open_file_for_fd fd task =
    (if tf_in_use (t_files task ! nat fd) then Some (nat (tf_open_file_index (t_files task ! nat fd))) else None)"
proof (cases "tf_in_use (t_files task ! nat fd)")
  case True
  have "nat fd < TASK_MAX_FDS" using assms(2) by (auto simp: fd_is_valid_def)
  from fds_inv_index [OF assms(1) this True] show ?thesis using True by (auto simp: open_file_for_fd_def fd_slot_def Let_def)
next
  case False
  then show ?thesis by (simp add: open_file_for_fd_def fd_slot_def Let_def)
qed

section \<open>The operations\<close>

definition user_current :: "('s, 'a) kernel_state_scheme \<Rightarrow> bool" where
  "user_current s \<longleftrightarrow> (\<exists>i < length (tasks s). current_task s = Some (TaskSlot i))"

text \<open>A change of the current task's descriptors, and of the file systems.\<close>

definition file_step :: "('s, 'a) kernel_state_scheme \<Rightarrow> ('s, 'a) kernel_state_scheme \<Rightarrow> bool" where
  "file_step s s' \<longleftrightarrow> current_task s' = current_task s \<and> length (tasks s') = length (tasks s) \<and> mounts s' = mounts s \<and>
     (\<forall>r. r \<noteq> current_ref s \<longrightarrow> task_at r s' = task_at r s)"

lemma file_step_refl [simp]: "file_step s s"
  by (simp add: file_step_def)

lemma file_step_trans: "file_step s s1 \<Longrightarrow> file_step s1 s2 \<Longrightarrow> file_step s s2"
  by (simp add: file_step_def)

lemma file_step_current: "file_step s s' \<Longrightarrow> user_current s \<Longrightarrow> user_current s'"
  by (auto simp: file_step_def user_current_def)

lemma upd_current_step:
  assumes "user_current s"
  shows "file_step s (upd_current f s)" "task_at (current_ref s) (upd_current f s) = f (current s)" "fs (upd_current f s) = fs s"
  using assms by (auto simp: user_current_def file_step_def task_at_def upd_task_def nth_list_update split: task_ref.splits)

lemma fs_step [simp]: "file_step s (s\<lparr>fs := f\<rparr>)" "task_at r (s\<lparr>fs := f\<rparr>) = task_at r s"
  by (simp_all add: file_step_def task_at_def split: task_ref.splits)

lemma user_current_task: "user_current s \<Longrightarrow> \<not> no_current_task s"
  by (auto simp: user_current_def no_current_task_def)

lemma open_path_fs: "snd (open_path path flags s) = s\<lparr>fs := fs (snd (open_path path flags s))\<rparr>"
  by (simp add: open_path_def Let_def split: prod.split)

lemma start_offset_fs: "snd (start_offset type app path s) = s\<lparr>fs := fs (snd (start_offset type app path s))\<rparr>"
  by (simp add: start_offset_def split: prod.split)

lemma seek_base_fs: "snd (seek_base file whence s) = s\<lparr>fs := fs (snd (seek_base file whence s))\<rparr>"
  by (simp add: seek_base_def split: prod.split)

text \<open>What every operation keeps.\<close>

definition file_op_ok :: "('s, 'a) kernel_state_scheme \<Rightarrow> ('s, 'a) kernel_state_scheme \<Rightarrow> bool" where
  "file_op_ok s s' \<longleftrightarrow> file_step s s' \<and> fds_inv {} (current s')"

lemma file_op_okI: "user_current s \<Longrightarrow> fds_inv {} (f (current s)) \<Longrightarrow> file_op_ok s (upd_current f s)"
  by (simp add: file_op_ok_def upd_current_step)

lemma file_op_ok_fs: "fds_inv {} (current s) \<Longrightarrow> file_op_ok s (s\<lparr>fs := f\<rparr>)"
  by (simp add: file_op_ok_def)

lemma file_op_ok_same: "fds_inv {} (current s) \<Longrightarrow> file_op_ok s s"
  by (simp add: file_op_ok_def)

lemma file_op_ok_trans: "file_step s s1 \<Longrightarrow> file_op_ok s1 s2 \<Longrightarrow> file_op_ok s s2"
  unfolding file_op_ok_def by (blast intro: file_step_trans)

lemma current_open_file_index:
  assumes "fds_inv pend (current s)" "current_open_file_for_fd fd s = Some i"
  shows "i < TASK_MAX_OPEN_FILES" "of_in_use (t_open_files (current s) ! i)"
  using assms by (auto simp: current_open_file_for_fd_def open_file_for_fd_def fd_slot_def Let_def split: if_splits option.splits)

lemma vfs_file_index: "vfs_file_for_fd fd s = Some i \<Longrightarrow> current_open_file_for_fd fd s = Some i"
  by (auto simp: vfs_file_for_fd_def split: if_splits option.splits)

text \<open>The operations one by one.\<close>

lemma read_ok:
  assumes "user_current s" "fds_inv {} (current s)"
  shows "file_op_ok s (snd (snd (scheduler_read_current_file fd buffer len s)))"
proof (cases "buffer = None \<or> vfs_file_for_fd fd s = None")
  case True
  then show ?thesis using assms by (auto simp: scheduler_read_current_file_def file_op_ok_def)
next
  case False
  then obtain i where i: "vfs_file_for_fd fd s = Some i" by auto
  note ix = current_open_file_index [OF assms(2) vfs_file_index [OF i]]
  let ?file = "t_open_files (current s) ! i"
  obtain r b f where v: "vfs_read_file (mounts s) (Some (of_path ?file)) (of_offset ?file) buffer len (fs s) = (r, b, f)"
    by (cases "vfs_read_file (mounts s) (Some (of_path ?file)) (of_offset ?file) buffer len (fs s)")
  let ?g = "upd_open_file i (\<lambda>file. file\<lparr>of_offset := of_offset file + r\<rparr>)"
  have u: "user_current (s\<lparr>fs := f\<rparr>)" using assms(1) by (rule file_step_current [OF fs_step(1)])
  have "file_op_ok (s\<lparr>fs := f\<rparr>) (upd_current ?g (s\<lparr>fs := f\<rparr>))"
    by (rule file_op_okI [OF u]) (use fds_inv_keep [OF assms(2) ix(1)] in simp)
  then have "file_op_ok s (upd_current ?g (s\<lparr>fs := f\<rparr>))" by (rule file_op_ok_trans [OF fs_step(1)])
  then show ?thesis
    using False i v assms(2) by (simp add: scheduler_read_current_file_def Let_def file_op_ok_fs file_op_ok_same)
qed

lemma write_ok:
  assumes "user_current s" "fds_inv {} (current s)"
  shows "file_op_ok s (snd (scheduler_write_current_file fd buffer len s))"
proof (cases "buffer = None \<or> vfs_file_for_fd fd s = None")
  case True
  then show ?thesis using assms by (auto simp: scheduler_write_current_file_def file_op_ok_def)
next
  case False
  then obtain i where i: "vfs_file_for_fd fd s = Some i" by auto
  note ix = current_open_file_index [OF assms(2) vfs_file_index [OF i]]
  let ?file = "t_open_files (current s) ! i"
  obtain off f where o: "(if of_append ?file then vfs_file_size (mounts s) (Some (of_path ?file)) (fs s) else (of_offset ?file, fs s)) = (off, f)"
    by (cases "if of_append ?file then vfs_file_size (mounts s) (Some (of_path ?file)) (fs s) else (of_offset ?file, fs s)")
  obtain w g where v: "vfs_write_existing_file (mounts s) (Some (of_path ?file)) off buffer len f = (w, g)"
    by (cases "vfs_write_existing_file (mounts s) (Some (of_path ?file)) off buffer len f")
  let ?g = "upd_open_file i (\<lambda>file. file\<lparr>of_offset := off + w\<rparr>)"
  have u: "user_current (s\<lparr>fs := g\<rparr>)" using assms(1) by (rule file_step_current [OF fs_step(1)])
  have "file_op_ok (s\<lparr>fs := g\<rparr>) (upd_current ?g (s\<lparr>fs := g\<rparr>))"
    by (rule file_op_okI [OF u]) (use fds_inv_keep [OF assms(2) ix(1)] in simp)
  then have "file_op_ok s (upd_current ?g (s\<lparr>fs := g\<rparr>))" by (rule file_op_ok_trans [OF fs_step(1)])
  then show ?thesis
    using False i o v assms(2) by (simp add: scheduler_write_current_file_def Let_def file_op_ok_fs file_op_ok_same)
qed

lemma seek_ok:
  assumes "user_current s" "fds_inv {} (current s)"
  shows "file_op_ok s (snd (scheduler_seek_current_file fd offset whence s))"
proof (cases "vfs_file_for_fd fd s")
  case None
  then show ?thesis using assms by (simp add: scheduler_seek_current_file_def file_op_ok_def)
next
  case (Some i)
  note ix = current_open_file_index [OF assms(2) vfs_file_index [OF Some]]
  obtain b s1 where b: "seek_base (t_open_files (current s) ! i) whence s = (b, s1)" by (cases "seek_base (t_open_files (current s) ! i) whence s")
  obtain f where f: "s1 = s\<lparr>fs := f\<rparr>" using seek_base_fs [of "t_open_files (current s) ! i" whence s] b by simp
  have u: "user_current (s\<lparr>fs := f\<rparr>)" using assms(1) by (rule file_step_current [OF fs_step(1)])
  have "file_op_ok (s\<lparr>fs := f\<rparr>) (upd_current (upd_open_file i (\<lambda>file. file\<lparr>of_offset := n\<rparr>)) (s\<lparr>fs := f\<rparr>))" for n
    by (rule file_op_okI [OF u]) (use fds_inv_keep [OF assms(2) ix(1)] in simp)
  then have "file_op_ok s (upd_current (upd_open_file i (\<lambda>file. file\<lparr>of_offset := n\<rparr>)) (s\<lparr>fs := f\<rparr>))" for n
    by (rule file_op_ok_trans [OF fs_step(1)])
  then show ?thesis
    using Some b f assms(2) by (simp add: scheduler_seek_current_file_def Let_def file_op_ok_fs file_op_ok_same split: option.split)
qed

lemma close_ok:
  assumes "user_current s" "fds_inv {} (current s)"
  shows "file_op_ok s (snd (scheduler_close_current_file fd s))"
proof (cases "fd_is_valid fd")
  case True
  have "file_op_ok s (upd_current (close_fd_slot fd) s)"
    by (rule file_op_okI [OF assms(1)]) (rule fds_inv_close(1) [OF assms(2) True])
  then show ?thesis using assms by (simp add: scheduler_close_current_file_def close_current_fd_slot_def file_op_ok_def)
next
  case False
  then show ?thesis using assms by (auto simp: scheduler_close_current_file_def file_op_ok_def fd_is_valid_def)
qed

lemma allocate_current:
  assumes "user_current s" "fds_inv {} (current s)" "allocate_current_open_file type path app s = (a, s1)"
  shows "file_step s s1" "user_current s1" "fs s1 = fs s" "a = None \<Longrightarrow> current s1 = current s"
    "a = Some i \<Longrightarrow> fds_inv {i} (current s1) \<and> i < TASK_MAX_OPEN_FILES \<and> fds_of (current s1) i = {} \<and>
      of_in_use (t_open_files (current s1) ! i) \<and> t_files (current s1) = t_files (current s)"
proof -
  obtain task where t: "allocate_open_file type path app (current s) = (a, task)" "s1 = upd_current (\<lambda>_. task) s"
    using assms(3) by (auto simp: allocate_current_open_file_def split: prod.splits)
  note u = upd_current_step [OF assms(1), of "\<lambda>_. task", folded t(2)]
  show "file_step s s1" "fs s1 = fs s" by (rule u)+
  then show "user_current s1" using assms(1) by (rule_tac file_step_current)
  have c: "current s1 = task" using u(1,2) by (simp add: file_step_def)
  show "a = None \<Longrightarrow> current s1 = current s"
    unfolding c using t(1) by (auto simp: allocate_open_file_def simp del: upt_rec_numeral split: option.splits)
  show "fds_inv {i} (current s1) \<and> i < TASK_MAX_OPEN_FILES \<and> fds_of (current s1) i = {} \<and>
      of_in_use (t_open_files (current s1) ! i) \<and> t_files (current s1) = t_files (current s)" if "a = Some i"
    using fds_inv_allocate [OF assms(2), of type path app i task] t(1) that unfolding c by simp
qed

lemma open_rest_ok:
  assumes u: "user_current s" and inv: "fds_inv {i} (current s)" and i: "i < TASK_MAX_OPEN_FILES" "fds_of (current s) i = {}"
    "of_in_use (t_open_files (current s) ! i)"
  shows "file_op_ok s (snd (case start_offset type app path s of
       (None, s) \<Rightarrow> (-1 :: int, upd_current (upd_open_file i reset_task_open_file) s)
     | (Some off, s) \<Rightarrow>
         let s = upd_current (upd_open_file i (\<lambda>f. f\<lparr>of_offset := off\<rparr>)) s in
         case find (\<lambda>fd. \<not> tf_in_use (t_files (current s) ! fd)) [TASK_FIRST_FILE_FD..<TASK_MAX_FDS] of
           None \<Rightarrow> (-1, upd_current (upd_open_file i reset_task_open_file) s)
         | Some fd \<Rightarrow> (int fd, upd_current (bind_fd fd i) s)))"
proof -
  obtain off s1 where so: "start_offset type app path s = (off, s1)" by (cases "start_offset type app path s")
  obtain f where s1: "s1 = s\<lparr>fs := f\<rparr>" using start_offset_fs [of type app path s] so by simp
  have st: "file_step s s1" and u1: "user_current s1" and c1: "current s1 = current s"
    using u file_step_current [OF fs_step(1) u] by (simp_all add: s1)
  have reset: "fds_inv {} (upd_open_file i reset_task_open_file task)" if "fds_inv {i} task" "fds_of task i = {}" for task
    using fds_inv_reset [OF that(1) i(1) that(2)] by simp
  show ?thesis
  proof (cases off)
    case None
    have "file_op_ok s1 (upd_current (upd_open_file i reset_task_open_file) s1)"
      by (rule file_op_okI [OF u1]) (use reset inv i c1 in simp)
    then show ?thesis using file_op_ok_trans [OF st] by (simp add: so None)
  next
    case (Some n)
    let ?s2 = "upd_current (upd_open_file i (\<lambda>f. f\<lparr>of_offset := n\<rparr>)) s1"
    note u2 = upd_current_step [OF u1, of "upd_open_file i (\<lambda>f. f\<lparr>of_offset := n\<rparr>)"]
    have c2: "current ?s2 = upd_open_file i (\<lambda>f. f\<lparr>of_offset := n\<rparr>) (current s)" using u2(1,2) c1 by (simp add: file_step_def)
    have st2: "file_step s ?s2" using file_step_trans [OF st u2(1)] .
    have us2: "user_current ?s2" by (rule file_step_current [OF u2(1) u1])
    have inv2: "fds_inv {i} (current ?s2)" unfolding c2 by (rule fds_inv_keep [OF inv i(1)]) simp_all
    have e2: "fds_of (current ?s2) i = {}" "of_in_use (t_open_files (current ?s2) ! i)"
      unfolding c2 using i fds_inv_len(2) [OF inv] by (simp_all add: upd_open_file_nth)
    show ?thesis
    proof (cases "find (\<lambda>fd. \<not> tf_in_use (t_files (current ?s2) ! fd)) [TASK_FIRST_FILE_FD..<TASK_MAX_FDS]")
      case none: None
      have "file_op_ok ?s2 (upd_current (upd_open_file i reset_task_open_file) ?s2)"
        by (rule file_op_okI [OF us2]) (rule reset [OF inv2 e2(1)])
      from file_op_ok_trans [OF st2 this] show ?thesis
        unfolding so Some prod.case option.case Let_def none snd_conv .
    next
      case some: (Some fd)
      have fd: "fd < TASK_MAX_FDS" "\<not> tf_in_use (t_files (current ?s2) ! fd)" using find_upt [OF some] by simp_all
      have "fds_inv ({i} - {i}) (bind_fd fd i (current ?s2))" by (rule fds_inv_bind [OF inv2 fd i(1) e2(2)])
      then have "file_op_ok ?s2 (upd_current (bind_fd fd i) ?s2)" by (intro file_op_okI [OF us2]) simp
      from file_op_ok_trans [OF st2 this] show ?thesis
        unfolding so Some prod.case option.case Let_def some snd_conv .
    qed
  qed
qed

lemma open_ok:
  assumes "user_current s" "fds_inv {} (current s)"
  shows "file_op_ok s (snd (scheduler_open_current_file path flags s))"
proof (cases path)
  case None
  then show ?thesis using assms by (simp add: scheduler_open_current_file_def file_op_ok_same)
next
  case (Some p)
  define type where "type = (if tty_is_path (Some p) then TASK_FILE_TTY else TASK_FILE_VFS)"
  define app where "app = (type \<noteq> TASK_FILE_TTY \<and> flags AND OPEN_APPEND \<noteq> 0)"
  define fl where "fl = (if type = TASK_FILE_TTY then 0 else flags)"
  obtain ok s1 where op: "open_path p fl s = (ok, s1)" by (cases "open_path p fl s")
  obtain f where s1: "s1 = s\<lparr>fs := f\<rparr>" using open_path_fs [of p fl s] op by simp
  have st: "file_step s s1" and u1: "user_current s1" and c1: "current s1 = current s"
    using assms(1) file_step_current [OF fs_step(1) assms(1)] by (simp_all add: s1)
  obtain a s2 where al: "allocate_current_open_file type (Some p) app s1 = (a, s2)" by (cases "allocate_current_open_file type (Some p) app s1")
  have inv1: "fds_inv {} (current s1)" using assms(2) c1 by simp
  note alc = allocate_current [OF u1 inv1 al]
  have eq: "scheduler_open_current_file path flags s =
     (if \<not> ok then (-1, s1) else case a of None \<Rightarrow> (-1, s2) | Some i \<Rightarrow>
        (case start_offset type app p s2 of
           (None, s) \<Rightarrow> (-1, upd_current (upd_open_file i reset_task_open_file) s)
         | (Some off, s) \<Rightarrow>
             let s = upd_current (upd_open_file i (\<lambda>f. f\<lparr>of_offset := off\<rparr>)) s in
             case find (\<lambda>fd. \<not> tf_in_use (t_files (current s) ! fd)) [TASK_FIRST_FILE_FD..<TASK_MAX_FDS] of
               None \<Rightarrow> (-1, upd_current (upd_open_file i reset_task_open_file) s)
             | Some fd \<Rightarrow> (int fd, upd_current (bind_fd fd i) s)))"
    unfolding scheduler_open_current_file_def Some Let_def option.case type_def [symmetric] app_def [symmetric] fl_def [symmetric] op
      prod.case al using user_current_task [OF assms(1)] by (cases a) simp_all
  show ?thesis
  proof (cases "ok \<and> a \<noteq> None")
    case True
    then obtain i where i: "a = Some i" by auto
    have x: "fds_inv {i} (current s2)" "i < TASK_MAX_OPEN_FILES" "fds_of (current s2) i = {}" "of_in_use (t_open_files (current s2) ! i)"
      using alc(5) [OF i] by blast+
    show ?thesis
      unfolding eq i option.case using file_op_ok_trans [OF file_step_trans [OF st alc(1)] open_rest_ok [OF alc(2) x]] True by simp
  next
    case False
    have "file_op_ok s s1" using st inv1 by (simp add: file_op_ok_def)
    moreover have "file_op_ok s s2" if "a = None" using file_step_trans [OF st alc(1)] alc(4) [OF that] inv1 by (simp add: file_op_ok_def)
    ultimately show ?thesis using False by (auto simp: eq)
  qed
qed

lemma rebind_ok:
  assumes u: "user_current s" and inv: "fds_inv pend (current s)" "pend \<subseteq> {i}" and fd: "fd_is_valid fd"
    and i: "i < TASK_MAX_OPEN_FILES" "of_in_use (t_open_files (current s) ! i)" "fds_of (current s) i \<noteq> {nat fd}"
    and s': "s' = upd_current (bind_fd (nat fd) i) (close_current_fd_slot fd s)"
  shows "file_op_ok s s'" "t_files (current s') ! k = (if k = nat fd then \<lparr>tf_in_use = True, tf_open_file_index = int i\<rparr> else t_files (current s) ! k)"
proof -
  let ?s1 = "close_current_fd_slot fd s"
  have s1: "?s1 = upd_current (close_fd_slot fd) s" using fd user_current_task [OF u] by (simp add: close_current_fd_slot_def)
  note u1 = upd_current_step [OF u, of "close_fd_slot fd", folded s1]
  have c1: "current ?s1 = close_fd_slot fd (current s)" using u1(1,2) by (simp add: file_step_def)
  have us1: "user_current ?s1" by (rule file_step_current [OF u1(1) u])
  note cl = fds_inv_close [OF inv(1) fd]
  have n: "nat fd < TASK_MAX_FDS" using fd by (auto simp: fd_is_valid_def)
  have iu: "of_in_use (t_open_files (current ?s1) ! i)" unfolding c1 using cl(4) [OF i(1,2)] i(3) by blast
  have "fds_inv (pend - {i}) (bind_fd (nat fd) i (current ?s1))"
    by (rule fds_inv_bind [OF _ n _ i(1) iu]) (use cl(1,2) in \<open>simp_all add: c1\<close>)
  moreover have "pend - {i} = {}" using inv(2) by blast
  ultimately have ok: "fds_inv {} (bind_fd (nat fd) i (current ?s1))" by simp
  have "file_op_ok ?s1 s'" unfolding s' by (rule file_op_okI [OF us1]) (rule ok)
  then show "file_op_ok s s'" by (rule file_op_ok_trans [OF u1(1)])
  have c2: "current s' = bind_fd (nat fd) i (close_fd_slot fd (current s))"
    using upd_current_step(1,2) [OF us1, of "bind_fd (nat fd) i"] c1 unfolding s' file_step_def by simp
  show "t_files (current s') ! k = (if k = nat fd then \<lparr>tf_in_use = True, tf_open_file_index = int i\<rparr> else t_files (current s) ! k)"
    unfolding c2 using cl(3) [of k] fds_inv_len(1) [OF cl(1)] n by (simp add: bind_fd_def upd_file_nth)
qed

lemma dup2_cases:
  assumes u: "user_current s" and inv: "fds_inv {} (current s)" and run: "scheduler_dup2_current_file a b s = (r, s')"
  shows "file_op_ok s s' \<and> (r = -1 \<and> t_files (current s') = t_files (current s) \<or> r = b \<and> fd_is_valid a \<and> fd_is_valid b \<and>
    (a = b \<and> s' = s \<or> a \<noteq> b \<and>
      (\<exists>i < TASK_MAX_OPEN_FILES. (\<forall>j. current_open_file_for_fd a s = Some j \<longrightarrow> i = j) \<and>
       (\<forall>k. t_files (current s') ! k = (if k = nat b then \<lparr>tf_in_use = True, tf_open_file_index = int i\<rparr> else t_files (current s) ! k)))))"
proof -
  have nc: "\<not> no_current_task s" by (rule user_current_task [OF u])
  consider "\<not> (fd_is_valid a \<and> fd_is_valid b)" | "fd_is_valid a" "fd_is_valid b" "a = b" | "fd_is_valid a" "fd_is_valid b" "a \<noteq> b" by blast
  then show ?thesis
  proof cases
    case 1
    then show ?thesis using run nc inv by (auto simp: scheduler_dup2_current_file_def file_op_ok_same)
  next
    case 2
    then show ?thesis using run nc inv by (auto simp: scheduler_dup2_current_file_def file_op_ok_same split: if_splits)
  next
    case 3
    have neq: "nat a \<noteq> nat b" using 3 by (auto simp: fd_is_valid_def)
    show ?thesis
    proof (cases "current_open_file_for_fd a s")
      case (Some i)
      note ix = current_open_file_index [OF inv Some]
      have r: "r = b" "s' = upd_current (bind_fd (nat b) i) (close_current_fd_slot b s)"
        using run nc 3 Some by (auto simp: scheduler_dup2_current_file_def)
      have "open_file_for_fd a (current s) = Some i" using Some by (simp add: current_open_file_for_fd_def split: if_splits)
      moreover have na: "nat a < TASK_MAX_FDS" using 3(1) by (auto simp: fd_is_valid_def)
      ultimately have "nat a \<in> fds_of (current s) i" unfolding open_file_for_fd_eq [OF inv 3(1)]
        using fds_inv_index [OF inv na] by (auto simp: fds_of_def split: if_splits)
      then have "fds_of (current s) i \<noteq> {nat b}" using neq by auto
      note rb = rebind_ok [OF u inv _ 3(2) ix this r(2)]
      show ?thesis using rb Some r(1) 3 ix(1) by auto
    next
      case None
      show ?thesis
      proof (cases "a \<le> 2")
        case True
        obtain al s1 where al: "allocate_current_open_file TASK_FILE_TTY (Some ''/dev/tty'') False s = (al, s1)"
          by (cases "allocate_current_open_file TASK_FILE_TTY (Some ''/dev/tty'') False s")
        note alc = allocate_current [OF u inv al]
        have a0: "a \<ge> 0" using 3(1) by (simp add: fd_is_valid_def)
        show ?thesis
        proof (cases al)
          case none: None
          then have "r = -1" "s' = s1" using run nc 3 None al True a0 by (auto simp: scheduler_dup2_current_file_def)
          then show ?thesis using alc(1) alc(4) [OF none] inv by (simp add: file_op_ok_def)
        next
          case some: (Some i)
          have r: "r = b" "s' = upd_current (bind_fd (nat b) i) (close_current_fd_slot b s1)"
            using run nc 3 None al True a0 some by (auto simp: scheduler_dup2_current_file_def)
          have x: "fds_inv {i} (current s1)" "i < TASK_MAX_OPEN_FILES" "of_in_use (t_open_files (current s1) ! i)"
            "fds_of (current s1) i \<noteq> {nat b}" "t_files (current s1) = t_files (current s)"
            using alc(5) [OF some] by auto
          note rb = rebind_ok [OF alc(2) x(1) _ 3(2) x(2-4) r(2)]
          show ?thesis using rb x(2,5) r(1) 3 None file_op_ok_trans [OF alc(1)] by auto
        qed
      next
        case False
        then have "r = -1" "s' = s" using run nc 3 None by (auto simp: scheduler_dup2_current_file_def)
        then show ?thesis using inv by (simp add: file_op_ok_same)
      qed
    qed
  qed
qed

section \<open>Sequences of operations\<close>

datatype file_op =
    OpenFile "string option" u64
  | ReadFile int "u8 list option" u64
  | WriteFile int "u8 list option" u64
  | SeekFile int u64 u64
  | CloseFile int
  | Dup2File int int

primrec run_file_op :: "file_op \<Rightarrow> ('s, 'a) kernel_state_scheme \<Rightarrow> ('s, 'a) kernel_state_scheme" where
  "run_file_op (OpenFile path flags) s = snd (scheduler_open_current_file path flags s)"
| "run_file_op (ReadFile fd buffer len) s = snd (snd (scheduler_read_current_file fd buffer len s))"
| "run_file_op (WriteFile fd buffer len) s = snd (scheduler_write_current_file fd buffer len s)"
| "run_file_op (SeekFile fd offset whence) s = snd (scheduler_seek_current_file fd offset whence s)"
| "run_file_op (CloseFile fd) s = snd (scheduler_close_current_file fd s)"
| "run_file_op (Dup2File a b) s = snd (scheduler_dup2_current_file a b s)"

lemma run_file_op_ok:
  assumes "user_current s" "fds_inv {} (current s)"
  shows "file_op_ok s (run_file_op op s)"
proof (cases op)
  case (Dup2File a b)
  then show ?thesis using dup2_cases [OF assms, of a b] by (cases "scheduler_dup2_current_file a b s") simp
qed (use open_ok read_ok write_ok seek_ok close_ok assms in simp_all)

lemma run_file_ops_ok:
  assumes "user_current s" "fds_inv {} (current s)"
  shows "file_op_ok s (fold run_file_op ops s)"
  using assms
proof (induction ops arbitrary: s)
  case (Cons op ops)
  have st: "file_step s (run_file_op op s)" "fds_inv {} (current (run_file_op op s))"
    using run_file_op_ok [OF Cons.prems] by (simp_all add: file_op_ok_def)
  from file_op_ok_trans [OF st(1) Cons.IH [OF file_step_current [OF st(1) Cons.prems(1)] st(2)]] show ?case by simp
qed (simp add: file_op_ok_same)

lemma current_open_file_eq:
  assumes "user_current s" "fds_inv {} (current s)"
  shows "current_open_file_for_fd fd s = (if fd_is_valid fd \<and> tf_in_use (t_files (current s) ! nat fd)
    then Some (nat (tf_open_file_index (t_files (current s) ! nat fd))) else None)"
  using user_current_task [OF assms(1)] open_file_for_fd_eq [OF assms(2), of fd] by (simp add: current_open_file_for_fd_def)

text \<open>
  C38: The descriptor table of a task. After any sequence of opens, reads, writes, seeks, closes and duplications by the running
  task, successful or not, every descriptor in use refers to an open file in use, the reference count of every open file is the
  number of descriptors that refer to it, and no open file is left without a descriptor; no other task has changed. From there,
  closing a descriptor makes exactly that descriptor unusable, and a successful duplication makes exactly the new descriptor refer
  to the open file of the old one, so that both share the offset.
\<close>

theorem descriptors_consistent:
  assumes "user_current s" "fds_inv {} (current s)" and "s' = fold run_file_op ops s"
  shows "fds_inv {} (current s') \<and> current_task s' = current_task s \<and> (\<forall>r. r \<noteq> current_ref s \<longrightarrow> task_at r s' = task_at r s) \<and>
    (\<forall>fd t. scheduler_close_current_file fd s' = (0, t) \<longrightarrow> current_open_file_for_fd fd t = None \<and>
       (\<forall>k. k \<noteq> fd \<longrightarrow> current_open_file_for_fd k t = current_open_file_for_fd k s')) \<and>
    (\<forall>a b r t. scheduler_dup2_current_file a b s' = (r, t) \<and> r \<noteq> -1 \<and> a \<noteq> b \<longrightarrow> r = b \<and> current_open_file_for_fd b t \<noteq> None \<and>
       (current_open_file_for_fd a s' \<noteq> None \<longrightarrow> current_open_file_for_fd b t = current_open_file_for_fd a s') \<and>
       (\<forall>k. k \<noteq> b \<longrightarrow> current_open_file_for_fd k t = current_open_file_for_fd k s'))"
proof -
  have ok: "file_op_ok s s'" unfolding assms(3) by (rule run_file_ops_ok [OF assms(1,2)])
  then have st: "file_step s s'" and inv: "fds_inv {} (current s')" by (simp_all add: file_op_ok_def)
  have u: "user_current s'" by (rule file_step_current [OF st assms(1)])
  have close: "current_open_file_for_fd fd t = None \<and> (\<forall>k. k \<noteq> fd \<longrightarrow> current_open_file_for_fd k t = current_open_file_for_fd k s')"
    if run: "scheduler_close_current_file fd s' = (0, t)" for fd t
  proof -
    have v: "fd_is_valid fd" and t: "t = upd_current (close_fd_slot fd) s'"
      using run by (auto simp: scheduler_close_current_file_def close_current_fd_slot_def fd_is_valid_def split: if_splits)
    note cl = fds_inv_close [OF inv v]
    have c: "current t = close_fd_slot fd (current s')"
      using upd_current_step(1,2) [OF u, of "close_fd_slot fd"] by (simp add: t file_step_def)
    have tu: "user_current t" unfolding t by (rule file_step_current [OF upd_current_step(1) [OF u] u])
    have ti: "fds_inv {} (current t)" unfolding c by (rule cl(1))
    have "nat k \<noteq> nat fd" if "k \<noteq> fd" "fd_is_valid k" for k using that v by (auto simp: fd_is_valid_def)
    then have "current_open_file_for_fd k t = current_open_file_for_fd k s'" if "k \<noteq> fd" for k
      unfolding current_open_file_eq [OF tu ti] current_open_file_eq [OF u inv] c
      using cl(3) that by (cases "fd_is_valid k") simp_all
    moreover have "current_open_file_for_fd fd t = None" unfolding current_open_file_eq [OF tu ti] c using cl(2) by simp
    ultimately show ?thesis by blast
  qed
  have dup: "r = b \<and> current_open_file_for_fd b t \<noteq> None \<and>
       (current_open_file_for_fd a s' \<noteq> None \<longrightarrow> current_open_file_for_fd b t = current_open_file_for_fd a s') \<and>
       (\<forall>k. k \<noteq> b \<longrightarrow> current_open_file_for_fd k t = current_open_file_for_fd k s')"
    if run: "scheduler_dup2_current_file a b s' = (r, t)" "r \<noteq> -1" "a \<noteq> b" for a b r t
  proof -
    note d = dup2_cases [OF u inv run(1)]
    have dok: "file_op_ok s' t" "r = b" "fd_is_valid b" using d run(2,3) by blast+
    obtain i where i: "i < TASK_MAX_OPEN_FILES" "\<forall>j. current_open_file_for_fd a s' = Some j \<longrightarrow> i = j"
      "\<forall>k. t_files (current t) ! k = (if k = nat b then \<lparr>tf_in_use = True, tf_open_file_index = int i\<rparr> else t_files (current s') ! k)"
      using d run(2,3) by blast
    have tu: "user_current t" and ti: "fds_inv {} (current t)" using dok(1) file_step_current u by (auto simp: file_op_ok_def)
    have "nat k \<noteq> nat b" if "k \<noteq> b" "fd_is_valid k" for k using that dok(3) by (auto simp: fd_is_valid_def)
    then have others: "current_open_file_for_fd k t = current_open_file_for_fd k s'" if "k \<noteq> b" for k
      unfolding current_open_file_eq [OF tu ti] current_open_file_eq [OF u inv]
      using i(3) that by (cases "fd_is_valid k") simp_all
    have "current_open_file_for_fd b t = Some i" unfolding current_open_file_eq [OF tu ti] using i(3) dok(3) by simp
    then show ?thesis using others dok(2) i(2) by auto
  qed
  show ?thesis using inv st close dup unfolding file_step_def by blast
qed

definition fds_example :: "unit kernel_state" where
  "fds_example = sched_state.extend (sched_example\<lparr>task_count := 1, current_task := Some (TaskSlot 0),
     tasks := replicate 8 zero_task\<rparr>) \<lparr>mounts = [], fs = ()\<rparr>"

theorem descriptors_consistent_witness:
  "fds_inv {} (current (fold run_file_op [Dup2File 1 5, CloseFile 5, OpenFile None 0, Dup2File 2 5] fds_example))"
proof -
  have c: "current fds_example = zero_task" and u: "user_current fds_example"
    by (simp_all add: fds_example_def sched_state.defs sched_example_def task_at_def user_current_def)
  have "fds_inv {} zero_task"
    by (simp add: fds_inv_def zero_task_def zero_task_file_def zero_open_file_def )
  then have "fds_inv {} (current fds_example)" unfolding c .
  from descriptors_consistent [OF u this refl, THEN conjunct1] show ?thesis .
qed

end
