(* ===== verification/File_Streams.thy ===== *)
theory File_Streams
  imports Task_Files_Invariant Boot_Files
begin

text \<open>
  Descriptors over the booted file systems: what reading, writing and seeking through a descriptor do to the file behind it and to
  the offsets of the descriptors that share it.
\<close>

section \<open>Existing files of the booted table\<close>

lemma boot_mount_fields:
  "fs_write ramfs_mount = Some ramfs_write" "fs_read ramfs_mount = ramfs_read" "fs_size ramfs_mount = Some ramfs_size"
  "fs_write initrd_mount = None" "fs_size devfs_mount = None" "fs_write devfs_mount = None"
  by (simp_all add: ramfs_mount_def initrd_mount_def devfs_mount_def)

lemma boot_write_existing:
  assumes "ramfs_inv s" "nul_free p" "unat len \<le> length buf"
  shows "vfs_write_existing_file boot_table (Some p) off (Some buf) len s =
    (if deref p = CHR ''/'' \<and> ramfs_abs s p \<noteq> None then ramfs_write p off buf len s else (U64_FAIL, s))"
proof -
  have l: "mount_local_path ramfs_mount p = p" "mount_path_matches ramfs_mount p \<longleftrightarrow> deref p = CHR ''/''"
    by (simp_all add: mount_path_matches_def mount_local_path_def ramfs_mount_def chars_equal_iff)
  obtain c b t where rd: "ramfs_read p 0 [0] 0 s = (c, b, t)" by (cases "ramfs_read p 0 [0] 0 s")
  have t: "t = s" "c = U64_FAIL \<longleftrightarrow> ramfs_abs s p = None"
    using ramfs.rd_state [OF assms(1,2), of 0 "[0]" 0] ramfs.rd_fails_iff [OF assms(1,2), of 0 "[0]" 0] by (simp_all add: rd)
  obtain r s' where wr: "ramfs_write p off buf len s = (r, s')" by (cases "ramfs_write p off buf len s")
  have w: "r = U64_FAIL \<Longrightarrow> s' = s" using ramfs.wr_spec [OF assms wr] by auto
  have "vfs_write_existing_file boot_table (Some p) off (Some buf) len s = vfs_try_write_existing [ramfs_mount, initrd_mount] p off buf len s"
    by (simp add: vfs_write_existing_file_def boot_table_def boot_mount_fields)
  also have "\<dots> = (if deref p = CHR ''/'' \<and> ramfs_abs s p \<noteq> None then ramfs_write p off buf len s else (U64_FAIL, s))"
    using t w by (auto simp: l wr rd boot_mount_fields Let_def)
  finally show ?thesis .
qed

lemma boot_size:
  assumes "ramfs_inv s" "nul_free p" "deref p = CHR ''/''" "ramfs_abs s p = Some d"
  shows "vfs_file_size boot_table (Some p) s = (of_nat (length d), s)"
proof -
  have "ramfs_size p s = (of_nat (length d), s)" using ramfs.sz_spec [OF assms(1,2)] assms(4) by simp
  moreover have "(of_nat (length d) :: u64) \<noteq> U64_FAIL" using ramfs.file_small [OF assms(1,4)] by (rule of_nat_not_fail)
  ultimately show ?thesis
    using assms(3) by (simp add: vfs_file_size_def boot_table_def boot_mount_fields ramfs_mount_root)
qed

lemma vfs_try_size_state:
  "(\<And>fs sz. fs \<in> set fss \<Longrightarrow> fs_size fs = Some sz \<Longrightarrow> snd (sz (mount_local_path fs p) s) = s) \<Longrightarrow> snd (vfs_try_size fss p s) = s"
proof (induction fss)
  case (Cons fs fss)
  have IH: "snd (vfs_try_size fss p s) = s" using Cons by auto
  show ?case
  proof (cases "fs_size fs")
    case (Some sz)
    obtain r s' where "sz (mount_local_path fs p) s = (r, s')" by (cases "sz (mount_local_path fs p) s")
    moreover from this have "s' = s" using Cons.prems [of fs sz] Some by simp
    ultimately show ?thesis using Some IH by simp
  qed (simp add: IH)
qed simp

lemma boot_size_state:
  assumes "ramfs_inv s" "nul_free p"
  shows "snd (vfs_file_size boot_table (Some p) s) = s"
  unfolding vfs_file_size_def option.case
proof (rule vfs_try_size_state, goal_cases)
  case (1 fs sz)
  then consider "sz = ramfs_size" "mount_local_path fs p = p" | "sz = initrd_file_size"
    by (auto simp: boot_table_def ramfs_mount_root(2) devfs_mount_def initrd_mount_def) (auto simp: ramfs_mount_def)
  then show ?case using ramfs.sz_spec [OF assms] by cases (simp_all add: initrd_file_size_def split: option.split)
qed

lemma boot_overwrite:
  assumes "boot_inv s" "nul_free p" "unat len \<le> length buf" "ramfs_write p off buf len s = (r, s')" "r \<noteq> U64_FAIL" "ramfs_abs s p = Some d"
  shows "r = len" "boot_inv s'" "unat off + unat len \<le> 1024"
    "resolve_file boot_readers s p = Some d"
    "resolve_file boot_readers s' = (resolve_file boot_readers s)(p \<mapsto> overwrite d (unat off) (take (unat len) buf))"
proof -
  have ri: "ramfs_inv s" using assms(1) by (simp add: boot_inv_def)
  note sp = ramfs.wr_spec [OF ri assms(2-4)]
  obtain files where f: "s' = s\<lparr>ramfs_files := files\<rparr>" using ramfs_write_state [of p off buf len s] by (auto simp: assms(4))
  show len: "r = len" using sp assms(5) by blast
  show "boot_inv s'" using sp assms(1,5) by (auto simp: boot_inv_def f initrd_inv_def)
  have nm: "ramfs_name p \<and> unat off + unat len \<le> 1024"
    using ramfs_write_fails_iff [OF ri assms(2), of len off buf] assms(4,5) len by auto
  then show "unat off + unat len \<le> 1024" by blast
  show "resolve_file boot_readers s p = Some d" using nm by (intro ramfs_name_shadows [OF _ assms(6)]) blast
  have abs: "ramfs_abs s' = (ramfs_abs s)(p \<mapsto> overwrite d (unat off) (take (unat len) buf))"
    using sp assms(5,6) by (auto simp: contents_def)
  have same: "devfs_file s' q = devfs_file s q" "initrd_file_of s' q = initrd_file_of s q" for q
    by (simp_all add: f devfs_file_def initrd_file_of_def)
  have "resolve_file boot_readers s' q = resolve_file boot_readers s q" if "q \<noteq> p" for q
    using that by (simp add: boot_readers_def abs ramfs_mount_root(2) same split: option.split)
  moreover have "resolve_file boot_readers s' p = Some (overwrite d (unat off) (take (unat len) buf))"
    using nm abs by (intro ramfs_name_shadows) auto
  ultimately show "resolve_file boot_readers s' = (resolve_file boot_readers s)(p \<mapsto> overwrite d (unat off) (take (unat len) buf))"
    by (intro ext) simp
qed

section \<open>Descriptors as streams\<close>

text \<open>What a descriptor stands for: the path, the offset and the append mode of its open file.\<close>

definition fd_view :: "int \<Rightarrow> ('s, 'a) kernel_state_scheme \<Rightarrow> (string \<times> u64 \<times> bool) option" where
  "fd_view fd s = map_option (\<lambda>i. let file = t_open_files (current s) ! i in (of_path file, of_offset file, of_append file))
     (vfs_file_for_fd fd s)"

text \<open>The descriptor has been moved: so have all that share its open file, and no other.\<close>

definition moved :: "int \<Rightarrow> u64 \<Rightarrow> 's \<Rightarrow> ('s, 'a) kernel_state_scheme \<Rightarrow> ('s, 'a) kernel_state_scheme \<Rightarrow> bool" where
  "moved fd n f s s' \<longleftrightarrow> file_op_ok s s' \<and> fs s' = f \<and> (\<forall>k. current_open_file_for_fd k s' = current_open_file_for_fd k s) \<and>
     (\<forall>k. fd_view k s' = (if current_open_file_for_fd k s = current_open_file_for_fd fd s
        then map_option (\<lambda>(p, off, app). (p, n, app)) (fd_view k s) else fd_view k s))"

lemma moved_fs:
  "moved fd n f s s' \<Longrightarrow> fs s' = f" "moved fd n f s s' \<Longrightarrow> mounts s' = mounts s"
  "moved fd n f s s' \<Longrightarrow> fd_view fd s' = map_option (\<lambda>(p, off, app). (p, n, app)) (fd_view fd s)"
  by (simp_all add: moved_def file_op_ok_def file_step_def)

lemma movedI:
  assumes u: "user_current s" and inv: "fds_inv {} (current s)" and i: "vfs_file_for_fd fd s = Some i"
  shows "moved fd n f s (upd_current (upd_open_file i (\<lambda>file. file\<lparr>of_offset := n\<rparr>)) (s\<lparr>fs := f\<rparr>))"
proof -
  let ?g = "upd_open_file i (\<lambda>file. file\<lparr>of_offset := n\<rparr>)"
  let ?s = "s\<lparr>fs := f\<rparr>"
  define t where "t = upd_current ?g ?s"
  note ix = current_open_file_index [OF inv vfs_file_index [OF i]]
  have us: "user_current ?s" using u by (rule file_step_current [OF fs_step(1)])
  have ok: "file_op_ok ?s t" unfolding t_def by (rule file_op_okI [OF us]) (use fds_inv_keep [OF inv ix(1)] in simp)
  have c: "current t = ?g (current s)" using upd_current_step(1,2) [OF us, of ?g, folded t_def] by (simp add: file_step_def)
  have ut: "user_current t" unfolding t_def by (rule file_step_current [OF upd_current_step(1) [OF us] us])
  have nth: "t_open_files (current t) ! j = (if j = i then (t_open_files (current s) ! i)\<lparr>of_offset := n\<rparr> else t_open_files (current s) ! j)" for j
    unfolding c using fds_inv_len(2) [OF inv] ix(1) by (simp add: upd_open_file_nth)
  have files: "t_files (current t) = t_files (current s)" unfolding c by (simp add: upd_open_file_def)
  have of: "current_open_file_for_fd k t = current_open_file_for_fd k s" for k
    using user_current_task [OF u] user_current_task [OF ut]
    by (simp add: current_open_file_for_fd_def open_file_for_fd_def fd_slot_def files nth split: option.split)
  have vf: "vfs_file_for_fd k t = vfs_file_for_fd k s" for k
    using user_current_task [OF u] user_current_task [OF ut]
    by (simp add: vfs_file_for_fd_def of nth split: option.split)
  have "fd_view k t = (if current_open_file_for_fd k s = current_open_file_for_fd fd s
        then map_option (\<lambda>(p, off, app). (p, n, app)) (fd_view k s) else fd_view k s)" for k
  proof (cases "vfs_file_for_fd k s")
    case (Some j)
    then show ?thesis using vfs_file_index [OF i] vfs_file_index [OF Some] by (auto simp: fd_view_def vf nth Let_def)
  qed (simp add: fd_view_def vf)
  then show ?thesis using file_op_ok_trans [OF fs_step(1) ok] of upd_current_step(3) [OF us, of ?g] unfolding t_def [symmetric] moved_def by simp
qed

lemma upd_task_cong: "f (task_at r s) = g (task_at r s) \<Longrightarrow> upd_task r f s = upd_task r g s"
  by (auto simp: upd_task_def task_at_def list_update_beyond split: task_ref.splits)

lemma fd_viewE:
  assumes "fd_view fd s = Some (p, off, app)"
  obtains i where "vfs_file_for_fd fd s = Some i" "of_path (t_open_files (current s) ! i) = p"
    "of_offset (t_open_files (current s) ! i) = off" "of_append (t_open_files (current s) ! i) = app"
  using assms by (auto simp: fd_view_def Let_def)

lemma fd_read:
  assumes u: "user_current s" "fds_inv {} (current s)" and m: "mounts s = boot_table" "boot_inv (fs s)"
    and v: "fd_view fd s = Some (p, off, app)" and p: "nul_free p" "resolve_file boot_readers (fs s) p = Some d"
  shows "\<exists>t. scheduler_read_current_file fd (Some buf) len s = (of_nat (read_count d off len),
      Some (copy_bytes buf 0 (drop (unat off) d) (read_count d off len)), t) \<and> moved fd (off + of_nat (read_count d off len)) (fs s) s t"
proof -
  let ?n = "of_nat (read_count d off len) :: u64"
  obtain i where i: "vfs_file_for_fd fd s = Some i" "of_path (t_open_files (current s) ! i) = p"
    "of_offset (t_open_files (current s) ! i) = off" by (rule fd_viewE [OF v])
  have "?n \<noteq> U64_FAIL" using boot.file_small [OF m(2) p(2)] by (intro of_nat_not_fail read_count_lt)
  moreover have "vfs_read_file boot_table (Some p) off (Some buf) len (fs s) =
      (?n, Some (copy_bytes buf 0 (drop (unat off) d) (read_count d off len)), fs s)"
    using boot.rd_spec [OF m(2) p(1), of off buf len] by (simp add: vfs_read_file_def read_result_def p(2))
  moreover have "upd_current (upd_open_file i (\<lambda>file. file\<lparr>of_offset := of_offset file + ?n\<rparr>)) (s\<lparr>fs := fs s\<rparr>) =
      upd_current (upd_open_file i (\<lambda>file. file\<lparr>of_offset := off + ?n\<rparr>)) (s\<lparr>fs := fs s\<rparr>)"
    by (rule upd_task_cong) (simp add: upd_open_file_def i(3))
  ultimately show ?thesis
    using movedI [OF u i(1), of "off + ?n" "fs s"] by (simp add: scheduler_read_current_file_def i m(1) Let_def)
qed

lemma fd_write:
  assumes u: "user_current s" "fds_inv {} (current s)" and m: "mounts s = boot_table" "boot_inv (fs s)"
    and v: "fd_view fd s = Some (p, off, app)" and p: "nul_free p" "resolve_file boot_readers (fs s) p = Some d"
    and len: "unat len \<le> length buf" and run: "scheduler_write_current_file fd (Some buf) len s = (r, t)" "r \<noteq> U64_FAIL"
    and at: "at = (if app then length d else unat off)"
  shows "r = len" "boot_inv (fs t)" "at + unat len \<le> 1024"
    "resolve_file boot_readers (fs t) = (resolve_file boot_readers (fs s))(p \<mapsto> overwrite d at (take (unat len) buf))"
    "moved fd (of_nat (at + unat len)) (fs t) s t"
proof -
  obtain i where i: "vfs_file_for_fd fd s = Some i" "of_path (t_open_files (current s) ! i) = p"
    "of_offset (t_open_files (current s) ! i) = off" "of_append (t_open_files (current s) ! i) = app" by (rule fd_viewE [OF v])
  have ri: "ramfs_inv (fs s)" using m(2) by (simp add: boot_inv_def)
  obtain w f where sz: "(if app then vfs_file_size boot_table (Some p) (fs s) else (off, fs s)) = (w, f)"
    by (cases "if app then vfs_file_size boot_table (Some p) (fs s) else (off, fs s)")
  have f: "f = fs s" using sz boot_size_state [OF ri p(1)] by (auto split: if_splits)
  obtain g where w: "vfs_write_existing_file boot_table (Some p) w (Some buf) len (fs s) = (r, g)"
    "t = upd_current (upd_open_file i (\<lambda>file. file\<lparr>of_offset := w + r\<rparr>)) (s\<lparr>fs := g\<rparr>)"
    using run sz f by (cases app) (auto simp: scheduler_write_current_file_def i m(1) Let_def split: prod.splits if_splits)
  have sl: "deref p = CHR ''/''" and ab: "ramfs_abs (fs s) p \<noteq> None" and wr: "ramfs_write p w buf len (fs s) = (r, g)"
    using w(1) run(2) by (simp_all add: boot_write_existing [OF ri p(1) len] split: if_splits)
  obtain d' where d': "ramfs_abs (fs s) p = Some d'" using ab by blast
  note ow = boot_overwrite [OF m(2) p(1) len wr run(2) d']
  have dd: "d' = d" using ow(4) p(2) by simp
  have "length d \<le> 1024" using ramfs_file_small [OF ri d'] by (simp add: dd)
  then have at': "unat w = at" using sz boot_size [OF ri p(1) sl d'] by (auto simp: at dd unat_of_nat split: if_splits)
  have mv: "moved fd (w + r) g s t" unfolding w(2) by (rule movedI [OF u i(1)])
  show "r = len" by (rule ow(1))
  show "boot_inv (fs t)" using ow(2) moved_fs(1) [OF mv] by simp
  show "at + unat len \<le> 1024" using ow(3) by (simp add: at')
  show "resolve_file boot_readers (fs t) = (resolve_file boot_readers (fs s))(p \<mapsto> overwrite d at (take (unat len) buf))"
    using ow(5) moved_fs(1) [OF mv] by (simp add: at' dd)
  have "w + r = of_nat (at + unat len)" by (simp add: ow(1) at' [symmetric])
  then show "moved fd (of_nat (at + unat len)) (fs t) s t" using mv moved_fs(1) [OF mv] by simp
qed

lemma seek_offset_small: "n \<le> 1024 \<Longrightarrow> seek_offset 0 (of_nat n) = Some (of_nat n)"
proof -
  assume n: "n \<le> 1024"
  have "sint (of_nat n :: u64) = int n" using n by (simp add: signed_of_nat signed_take_bit_int_eq_self)
  then show ?thesis using word_n1_ge [of "of_nat n :: u64"] by (simp add: seek_offset_def not_less)
qed

lemma fd_seek:
  assumes u: "user_current s" "fds_inv {} (current s)" and v: "fd_view fd s = Some (p, off, app)" and n: "n \<le> 1024"
  shows "\<exists>t. scheduler_seek_current_file fd (of_nat n) SEEK_SET s = (of_nat n, t) \<and> moved fd (of_nat n) (fs s) s t"
proof -
  obtain i where i: "vfs_file_for_fd fd s = Some i" by (rule fd_viewE [OF v])
  show ?thesis
    using movedI [OF u i, of "of_nat n" "fs s"] by (simp add: scheduler_seek_current_file_def i seek_base_def seek_offset_small [OF n])
qed

section \<open>Properties\<close>

text \<open>
  C39: A descriptor is a stream over the files of the booted system. Reading delivers the bytes of the file from the offset of the
  descriptor on and advances the offset by their number. A write that is accepted replaces the bytes at the offset, or adds to the end
  of a file opened for appending, changes no other file, and leaves the offset behind the bytes written, for this descriptor and every
  duplicate of it; the other descriptors keep their offsets. After seeking back, reading delivers what was written.
\<close>

theorem descriptor_stream:
  assumes "user_current s" "fds_inv {} (current s)" and "mounts s = boot_table" "boot_inv (fs s)"
    and "fd_view fd s = Some (p, off, app)" and "nul_free p" "resolve_file boot_readers (fs s) p = Some d"
    and "unat len \<le> length buf" "unat len \<le> length buf2" and "at = (if app then length d else unat off)"
  shows "(\<exists>t. scheduler_read_current_file fd (Some buf) len s = (of_nat (read_count d off len),
        Some (copy_bytes buf 0 (drop (unat off) d) (read_count d off len)), t) \<and> moved fd (off + of_nat (read_count d off len)) (fs s) s t) \<and>
    (\<forall>r t. scheduler_write_current_file fd (Some buf) len s = (r, t) \<and> r \<noteq> U64_FAIL \<longrightarrow>
      r = len \<and> boot_inv (fs t) \<and>
      resolve_file boot_readers (fs t) = (resolve_file boot_readers (fs s))(p \<mapsto> overwrite d at (take (unat len) buf)) \<and>
      moved fd (of_nat (at + unat len)) (fs t) s t \<and>
      (\<exists>t1 t2. scheduler_seek_current_file fd (of_nat at) SEEK_SET t = (of_nat at, t1) \<and>
         scheduler_read_current_file fd (Some buf2) len t1 = (len, Some (take (unat len) buf @ drop (unat len) buf2), t2)))"
proof (intro conjI allI impI, goal_cases)
  case 1
  show ?case by (rule fd_read [OF assms(1-7)])
next
  case (2 r t)
  then show ?case using fd_write(1) [OF assms(1-8)] assms(10) by blast
next
  case (3 r t)
  then show ?case using fd_write(2) [OF assms(1-8)] assms(10) by blast
next
  case (4 r t)
  then show ?case using fd_write(4) [OF assms(1-8)] assms(10) by blast
next
  case (5 r t)
  then show ?case using fd_write(5) [OF assms(1-8)] assms(10) by blast
next
  case (6 r t)
  then have run: "scheduler_write_current_file fd (Some buf) len s = (r, t)" "r \<noteq> U64_FAIL" by auto
  note w = fd_write [OF assms(1-8) run assms(10)]
  let ?d = "overwrite d at (take (unat len) buf)"
  have ok: "file_op_ok s t" using w(5) by (simp add: moved_def)
  then have ut: "user_current t" "fds_inv {} (current t)" using file_step_current assms(1) by (auto simp: file_op_ok_def)
  have vt: "fd_view fd t = Some (p, of_nat (at + unat len), app)" using moved_fs(3) [OF w(5)] assms(5) by simp
  have at: "at \<le> 1024" using w(3) by simp
  obtain t1 where sk: "scheduler_seek_current_file fd (of_nat at) SEEK_SET t = (of_nat at, t1)" and mv: "moved fd (of_nat at) (fs t) t t1"
    using fd_seek [OF ut vt at] by blast
  have ok1: "file_op_ok t t1" using mv by (simp add: moved_def)
  then have ut1: "user_current t1" "fds_inv {} (current t1)" using file_step_current ut(1) by (auto simp: file_op_ok_def)
  have m1: "mounts t1 = boot_table" "boot_inv (fs t1)" using moved_fs(1,2) [OF mv] moved_fs(2) [OF w(5)] assms(3) w(2) by simp_all
  have v1: "fd_view fd t1 = Some (p, of_nat at, app)" using moved_fs(3) [OF mv] vt by simp
  have d1: "resolve_file boot_readers (fs t1) p = Some ?d" using moved_fs(1) [OF mv] w(4) by simp
  have l: "length (take (unat len) buf) = unat len" using assms(8) by simp
  have ua: "unat (of_nat at :: u64) = at" using at by (simp add: unat_of_nat)
  have c: "read_count ?d (of_nat at) len = unat len" unfolding read_count_def length_overwrite l ua by simp
  have "take (unat len) (drop at ?d) = take (unat len) buf" using drop_overwrite [of "take (unat len) buf" at d] unfolding l .
  moreover have "unat len \<le> length (drop at ?d)" using length_overwrite [of d at "take (unat len) buf"] l by simp
  ultimately have "copy_bytes buf2 0 (drop at ?d) (unat len) = take (unat len) buf @ drop (unat len) buf2"
    using copy_bytes_eq [of 0 "unat len" buf2 "drop at ?d"] assms(9) by simp
  then show ?case using sk fd_read [OF ut1 m1 v1 assms(6) d1, of buf2 len] unfolding c ua by auto
qed

definition stream_task :: task where
  "stream_task = bind_fd 3 0 (snd (allocate_open_file TASK_FILE_VFS (Some ''/a'') False zero_task))"

definition stream_example :: "initrd_state kernel_state" where
  "stream_example = sched_state.extend (sched_example\<lparr>task_count := 1, current_task := Some (TaskSlot 0),
     tasks := stream_task # replicate 7 zero_task\<rparr>) \<lparr>mounts = boot_table, fs = snd (ramfs_write ''/a'' 0 [7, 8] 2 boot_example)\<rparr>"

lemma stream_task_fds: "fds_inv {} stream_task"
proof -
  have z: "fds_inv {} zero_task" by (simp add: fds_inv_def zero_task_def zero_task_file_def zero_open_file_def)
  obtain task where a: "allocate_open_file TASK_FILE_VFS (Some ''/a'') False zero_task = (Some 0, task)"
    by (simp add: allocate_open_file_def zero_task_def zero_open_file_def upt_rec)
  note al = fds_inv_allocate [OF z a]
  have t: "t_files task = t_files zero_task" using al by blast
  have "fds_inv ({0} - {0}) (bind_fd 3 0 task)"
    by (rule fds_inv_bind) (use al in \<open>simp_all add: t zero_task_def zero_task_file_def\<close>)
  then show ?thesis by (simp add: stream_task_def a)
qed

lemma stream_example_task:
  "user_current stream_example" "current stream_example = stream_task" "mounts stream_example = boot_table"
  "fd_view 3 stream_example = Some (''/a'', 0, False)" "vfs_file_for_fd 3 stream_example = Some 0"
  "of_path (t_open_files stream_task ! 0) = ''/a''" "of_offset (t_open_files stream_task ! 0) = 0" "\<not> of_append (t_open_files stream_task ! 0)"
proof -
  show u: "user_current stream_example" and c: "current stream_example = stream_task" and "mounts stream_example = boot_table"
    by (simp_all add: stream_example_def sched_state.defs user_current_def task_at_def)
  have f: "t_files stream_task ! 3 = \<lparr>tf_in_use = True, tf_open_file_index = 0\<rparr>"
    "t_open_files stream_task ! 0 = \<lparr>of_in_use = True, of_ref_count = 1, of_type = TASK_FILE_VFS, of_path = ''/a'', of_offset = 0, of_append = False\<rparr>"
    by (simp_all add: stream_task_def bind_fd_def upd_file_def upd_open_file_def allocate_open_file_def zero_task_def zero_open_file_def
        copy_file_path_def copy_limited_id upt_rec)
  show v: "vfs_file_for_fd 3 stream_example = Some 0"
    using user_current_task [OF u]
    by (simp add: vfs_file_for_fd_def current_open_file_for_fd_def open_file_for_fd_def fd_slot_def c f fd_is_valid_def)
  show "fd_view 3 stream_example = Some (''/a'', 0, False)" by (simp add: fd_view_def v c f)
  show "of_path (t_open_files stream_task ! 0) = ''/a''" "of_offset (t_open_files stream_task ! 0) = 0" "\<not> of_append (t_open_files stream_task ! 0)"
    by (simp_all add: f)
qed

lemma stream_example_fs:
  "boot_inv (fs stream_example)" "ramfs_abs (fs stream_example) = [''/a'' \<mapsto> [7, 8]]"
proof -
  have ri: "ramfs_inv boot_example" using boot_example_inv by (simp add: boot_inv_def)
  obtain r t where w: "ramfs_write ''/a'' 0 [7, 8] 2 boot_example = (r, t)" by (cases "ramfs_write ''/a'' 0 [7, 8] 2 boot_example")
  have t: "fs stream_example = t" by (simp add: stream_example_def sched_state.defs w)
  have r: "r \<noteq> U64_FAIL"
    using ramfs_write_fails_iff [OF ri, of "''/a''" 2 0 "[7, 8]"] by (simp add: w boot_example_abs ramfs_name_def)
  have sp: "ramfs_inv t" "ramfs_abs t = [''/a'' \<mapsto> [7, 8]]"
    using ramfs.wr_spec [OF ri _ _ w] r by (auto simp: boot_example_abs contents_def overwrite_def)
  show "ramfs_abs (fs stream_example) = [''/a'' \<mapsto> [7, 8]]" by (simp add: t sp)
  obtain files where "t = boot_example\<lparr>ramfs_files := files\<rparr>" using ramfs_write_state [of "''/a''" 0 "[7, 8]" 2 boot_example] by (auto simp: w)
  then show "boot_inv (fs stream_example)" using sp(1) boot_example_inv by (simp add: t boot_inv_def initrd_inv_def)
qed

theorem descriptor_stream_witness:
  "\<exists>t t1 t2. scheduler_write_current_file 3 (Some [9]) 1 stream_example = (1, t) \<and>
     scheduler_seek_current_file 3 0 SEEK_SET t = (0, t1) \<and> scheduler_read_current_file 3 (Some [0]) 1 t1 = (1, Some [9], t2)"
proof -
  let ?f = "fs stream_example"
  have ri: "ramfs_inv ?f" using stream_example_fs(1) by (simp add: boot_inv_def)
  have d: "resolve_file boot_readers ?f ''/a'' = Some [7, 8]"
    by (rule ramfs_name_shadows) (simp_all add: ramfs_name_def stream_example_fs)
  have "vfs_write_existing_file boot_table (Some ''/a'') 0 (Some [9]) 1 ?f = ramfs_write ''/a'' 0 [9] 1 ?f"
    using boot_write_existing [OF ri, of "''/a''" 1 "[9]" 0] by (simp add: stream_example_fs(2))
  moreover have "fst (ramfs_write ''/a'' 0 [9] 1 ?f) \<noteq> U64_FAIL"
    using ramfs_write_fails_iff [OF ri, of "''/a''" 1 0 "[9]"] by (simp add: stream_example_fs(2) ramfs_name_def)
  ultimately have "fst (scheduler_write_current_file 3 (Some [9]) 1 stream_example) \<noteq> U64_FAIL"
    by (auto simp: scheduler_write_current_file_def stream_example_task Let_def split: prod.split)
  moreover obtain r t where w: "scheduler_write_current_file 3 (Some [9]) 1 stream_example = (r, t)"
    by (cases "scheduler_write_current_file 3 (Some [9]) 1 stream_example")
  ultimately have "scheduler_write_current_file 3 (Some [9]) 1 stream_example = (r, t) \<and> r \<noteq> U64_FAIL" by simp
  with descriptor_stream [of stream_example 3 "''/a''" 0 False "[7, 8]" 1 "[9]" "[0]" 0, THEN conjunct2, THEN spec, THEN spec, of r t] d
  show ?thesis using stream_task_fds by (auto simp: stream_example_task stream_example_fs(1))
qed

end
