(* ===== verification/Blockfs.thy ===== *)
theory Blockfs
  imports Block_Device Vfs Console "HOL-Library.Monad_Syntax"
begin

text \<open>
  The file system over block devices (kernel/blockfs.c): FAT32 and exFAT volumes, read-only in the kernel's standard build. Mounting
  parses the boot sector and two levels of directories into a table of at most 32 entries, and, for exFAT, scans the allocation
  bitmap and plans the creation of a file without writing it; the table serves reads, listings and sizes. The code behind
  \<^verbatim>\<open>TANGPINGOS_TEST_EXFAT_COMMIT\<close>, which writes, is not part of that build. \<open>None\<close> is a read of a block device that does not
  end. Log messages are left out.
\<close>

section \<open>Data\<close>

abbreviation BLOCKFS_MAX_MOUNTS :: nat where "BLOCKFS_MAX_MOUNTS \<equiv> 4"
abbreviation BLOCKFS_INFO_MAX :: nat where "BLOCKFS_INFO_MAX \<equiv> 8192"
abbreviation BLOCKFS_MAX_ROOT_ENTRIES :: nat where "BLOCKFS_MAX_ROOT_ENTRIES \<equiv> 32"
abbreviation EXFAT_ENTRY_SIZE :: nat where "EXFAT_ENTRY_SIZE \<equiv> 32"
abbreviation EXFAT_ALLOC_PLAN_CLUSTER_COUNT :: nat where "EXFAT_ALLOC_PLAN_CLUSTER_COUNT \<equiv> 3"
abbreviation EXFAT_CREATE_PLAN_NAME :: string where "EXFAT_CREATE_PLAN_NAME \<equiv> ''NEW.TXT''"
abbreviation EXFAT_CREATE_PLAN_NAME_CHARS :: nat where "EXFAT_CREATE_PLAN_NAME_CHARS \<equiv> 7"
abbreviation EXFAT_CREATE_PLAN_REQUIRED_ENTRIES :: nat where "EXFAT_CREATE_PLAN_REQUIRED_ENTRIES \<equiv> 3"
abbreviation EXFAT_CREATE_PLAN_ENTRY_BYTES :: nat where "EXFAT_CREATE_PLAN_ENTRY_BYTES \<equiv> 96"

text \<open>The fields of \<^verbatim>\<open>struct exfat_boot_info\<close>, in groups by the step that sets them.\<close>

record exfat_allocation_bitmap =
  ab_present :: bool
  ab_flags :: u8
  ab_cluster :: u32
  ab_size :: u64
  ab_scanned_clusters :: u64
  ab_used_clusters :: u64
  ab_free_clusters :: u64
  ab_first_free_cluster :: u32
  ab_complete :: bool

record exfat_allocation_plan =
  ap_requested_clusters :: u64
  ap_found_clusters :: u64
  ap_clusters :: "u32 list"
  ap_ready :: bool

record exfat_create_plan =
  cp_required_entries :: u64
  cp_found_entries :: u64
  cp_directory_cluster :: u32
  cp_directory_cluster_index :: u64
  cp_sector_index :: u64
  cp_first_slot :: u64
  cp_entry_lba :: u64
  cp_ready :: bool
  cp_file_size :: u64
  cp_first_cluster :: u32
  cp_name_hash :: u16
  cp_entry_set_checksum :: u16
  cp_entries :: "u8 list"
  cp_entries_ready :: bool

record exfat_transaction_plan =
  tx_ready :: bool
  tx_write_count :: u64
  tx_bitmap_lba :: u64
  tx_bitmap_byte_offset :: u64
  tx_bitmap_old_value :: u8
  tx_bitmap_new_value :: u8
  tx_bitmap_mask :: u8
  tx_fat_lba :: u64
  tx_fat_offsets :: "u64 list"
  tx_fat_old_values :: "u32 list"
  tx_fat_new_values :: "u32 list"
  tx_directory_lba :: u64
  tx_directory_byte_offset :: u64
  tx_directory_byte_count :: u64

record exfat_patched =
  pt_ready :: bool
  pt_bitmap_value :: u8
  pt_fat_values :: "u32 list"
  pt_directory_checksum :: u16
  pt_directory_first_cluster :: u32
  pt_directory_file_size :: u64
  pt_directory_name_length :: u8
  pt_directory_name_matches :: bool

record exfat_commit =
  cm_supported :: bool
  cm_attempted :: bool
  cm_ready :: bool
  cm_write_count :: u64
  cm_verified :: bool

record exfat_upcase_table =
  uc_present :: bool
  uc_checksum :: u32
  uc_cluster :: u32
  uc_size :: u64

record exfat_boot_info =
  ex_present :: bool
  ex_partition_offset :: u64
  ex_volume_length :: u64
  ex_fat_offset :: u32
  ex_fat_length :: u32
  ex_cluster_heap_offset :: u32
  ex_cluster_count :: u32
  ex_root_dir_cluster :: u32
  ex_volume_serial :: u32
  ex_revision :: u16
  ex_flags :: u16
  ex_bytes_per_sector_shift :: u8
  ex_sectors_per_cluster_shift :: u8
  ex_number_of_fats :: u8
  ex_drive_select :: u8
  ex_percent_in_use :: u8
  ex_bitmap :: exfat_allocation_bitmap
  ex_allocation_plan :: exfat_allocation_plan
  ex_create_plan :: exfat_create_plan
  ex_transaction :: exfat_transaction_plan
  ex_patched :: exfat_patched
  ex_commit :: exfat_commit
  ex_upcase :: exfat_upcase_table

record exfat_root_entry =
  re_parent :: string
  re_name :: string
  re_size :: u64
  re_capacity :: u64
  re_directory_lba :: u64
  re_directory_byte_offset :: u64
  re_first_cluster :: u32
  re_attributes :: u16
  re_stream_flags :: u8
  re_is_dir :: bool
  re_writable :: bool

record fat32_boot_info =
  fa_present :: bool
  fa_bytes_per_sector :: u16
  fa_sectors_per_cluster :: u8
  fa_reserved_sectors :: u16
  fa_number_of_fats :: u8
  fa_total_sectors :: u32
  fa_fat_size_sectors :: u32
  fa_root_dir_cluster :: u32
  fa_fsinfo_sector :: u16
  fa_backup_boot_sector :: u16
  fa_hidden_sectors :: u32
  fa_volume_id :: u32
  fa_volume_label :: string

text \<open>\<open>lf_name\<close> is the whole array of 64 characters, whatever it holds behind the terminator.\<close>

record fat32_lfn_state =
  lf_name :: "char list"
  lf_checksum :: u8
  lf_total_entries :: u8
  lf_seen_entries :: u8
  lf_present :: bool
  lf_valid :: bool

text \<open>The first \<^verbatim>\<open>root_entry_count\<close> elements of the array of entries are a list.\<close>

record mounted_volume =
  bm_in_use :: bool
  bm_block_index :: u64
  bm_block :: block_device_info
  bm_source :: string
  bm_exfat :: exfat_boot_info
  bm_fat32 :: fat32_boot_info
  bm_root_entries :: "exfat_root_entry list"

abbreviation upd_exfat :: "(exfat_boot_info \<Rightarrow> exfat_boot_info) \<Rightarrow> mounted_volume \<Rightarrow> mounted_volume" where
  "upd_exfat f m \<equiv> m\<lparr>bm_exfat := f (bm_exfat m)\<rparr>"

definition zero_create_plan :: exfat_create_plan where
  "zero_create_plan = \<lparr>cp_required_entries = 0, cp_found_entries = 0, cp_directory_cluster = 0, cp_directory_cluster_index = 0,
     cp_sector_index = 0, cp_first_slot = 0, cp_entry_lba = 0, cp_ready = False, cp_file_size = 0, cp_first_cluster = 0,
     cp_name_hash = 0, cp_entry_set_checksum = 0, cp_entries = replicate EXFAT_CREATE_PLAN_ENTRY_BYTES 0, cp_entries_ready = False\<rparr>"

definition zero_transaction_plan :: exfat_transaction_plan where
  "zero_transaction_plan = \<lparr>tx_ready = False, tx_write_count = 0, tx_bitmap_lba = 0, tx_bitmap_byte_offset = 0,
     tx_bitmap_old_value = 0, tx_bitmap_new_value = 0, tx_bitmap_mask = 0, tx_fat_lba = 0, tx_fat_offsets = [0, 0, 0],
     tx_fat_old_values = [0, 0, 0], tx_fat_new_values = [0, 0, 0], tx_directory_lba = 0, tx_directory_byte_offset = 0,
     tx_directory_byte_count = 0\<rparr>"

definition zero_patched :: exfat_patched where
  "zero_patched = \<lparr>pt_ready = False, pt_bitmap_value = 0, pt_fat_values = [0, 0, 0], pt_directory_checksum = 0,
     pt_directory_first_cluster = 0, pt_directory_file_size = 0, pt_directory_name_length = 0, pt_directory_name_matches = False\<rparr>"

definition zero_commit :: exfat_commit where
  "zero_commit = \<lparr>cm_supported = False, cm_attempted = False, cm_ready = False, cm_write_count = 0, cm_verified = False\<rparr>"

definition zero_exfat :: exfat_boot_info where
  "zero_exfat = \<lparr>ex_present = False, ex_partition_offset = 0, ex_volume_length = 0, ex_fat_offset = 0, ex_fat_length = 0,
     ex_cluster_heap_offset = 0, ex_cluster_count = 0, ex_root_dir_cluster = 0, ex_volume_serial = 0, ex_revision = 0,
     ex_flags = 0, ex_bytes_per_sector_shift = 0, ex_sectors_per_cluster_shift = 0, ex_number_of_fats = 0, ex_drive_select = 0,
     ex_percent_in_use = 0,
     ex_bitmap = \<lparr>ab_present = False, ab_flags = 0, ab_cluster = 0, ab_size = 0, ab_scanned_clusters = 0, ab_used_clusters = 0,
       ab_free_clusters = 0, ab_first_free_cluster = 0, ab_complete = False\<rparr>,
     ex_allocation_plan = \<lparr>ap_requested_clusters = 0, ap_found_clusters = 0, ap_clusters = [0, 0, 0], ap_ready = False\<rparr>,
     ex_create_plan = zero_create_plan, ex_transaction = zero_transaction_plan, ex_patched = zero_patched, ex_commit = zero_commit,
     ex_upcase = \<lparr>uc_present = False, uc_checksum = 0, uc_cluster = 0, uc_size = 0\<rparr>\<rparr>"

definition zero_fat32 :: fat32_boot_info where
  "zero_fat32 = \<lparr>fa_present = False, fa_bytes_per_sector = 0, fa_sectors_per_cluster = 0, fa_reserved_sectors = 0,
     fa_number_of_fats = 0, fa_total_sectors = 0, fa_fat_size_sectors = 0, fa_root_dir_cluster = 0, fa_fsinfo_sector = 0,
     fa_backup_boot_sector = 0, fa_hidden_sectors = 0, fa_volume_id = 0, fa_volume_label = []\<rparr>"

section \<open>Bytes and text\<close>

definition read_le16 :: "u8 list \<Rightarrow> nat \<Rightarrow> u16" where
  "read_le16 p off = or (ucast (p ! off)) (push_bit 8 (ucast (p ! (off + 1))))"

definition read_le64 :: "u8 list \<Rightarrow> nat \<Rightarrow> u64" where
  "read_le64 p off = or (ucast (read_le32 p off)) (push_bit 32 (ucast (read_le32 p (off + 4))))"

definition write_le16 :: "u8 list \<Rightarrow> nat \<Rightarrow> u16 \<Rightarrow> u8 list" where
  "write_le16 p off v = p[off := ucast v, off + 1 := ucast (drop_bit 8 v)]"

definition write_le32 :: "u8 list \<Rightarrow> nat \<Rightarrow> u32 \<Rightarrow> u8 list" where
  "write_le32 p off v =
     p[off := ucast v, off + 1 := ucast (drop_bit 8 v), off + 2 := ucast (drop_bit 16 v), off + 3 := ucast (drop_bit 24 v)]"

definition write_le64 :: "u8 list \<Rightarrow> nat \<Rightarrow> u64 \<Rightarrow> u8 list" where
  "write_le64 p off v = write_le32 (write_le32 p off (ucast v)) (off + 4) (ucast (drop_bit 32 v))"

abbreviation char_byte :: "char \<Rightarrow> u8" where "char_byte c \<equiv> of_nat (of_char c)"
abbreviation byte_char :: "u8 \<Rightarrow> char" where "byte_char b \<equiv> char_of (unat b)"

definition bytes_equal :: "u8 list \<Rightarrow> nat \<Rightarrow> string \<Rightarrow> nat \<Rightarrow> bool" where
  "bytes_equal data off text len \<longleftrightarrow> list_all (\<lambda>i. data ! (off + i) = char_byte (text ! i)) [0..<len]"

fun padded_length :: "u8 list \<Rightarrow> nat \<Rightarrow> nat \<Rightarrow> nat" where
  "padded_length src off 0 = 0"
| "padded_length src off (Suc n) = (if src ! (off + n) = char_byte CHR '' '' then padded_length src off n else Suc n)"

definition copy_padded_text :: "nat \<Rightarrow> u8 list \<Rightarrow> nat \<Rightarrow> nat \<Rightarrow> string" where
  "copy_padded_text dst_len src off src_len =
     map (\<lambda>i. byte_char (src ! (off + i))) [0..<min (dst_len - 1) (padded_length src off src_len)]"

section \<open>The boot sectors\<close>

definition parse_exfat_boot_sector :: "u8 list \<Rightarrow> mounted_volume \<Rightarrow> mounted_volume" where
  "parse_exfat_boot_sector sector m =
     (let m = m\<lparr>bm_exfat := zero_exfat\<rparr> in
      if \<not> bytes_equal sector 3 ''EXFAT   '' 8 \<or> sector ! 510 \<noteq> 0x55 \<or> sector ! 511 \<noteq> 0xaa then m
      else upd_exfat (\<lambda>e. e\<lparr>ex_present := True,
          ex_partition_offset := read_le64 sector 64,
          ex_volume_length := read_le64 sector 72,
          ex_fat_offset := read_le32 sector 80,
          ex_fat_length := read_le32 sector 84,
          ex_cluster_heap_offset := read_le32 sector 88,
          ex_cluster_count := read_le32 sector 92,
          ex_root_dir_cluster := read_le32 sector 96,
          ex_volume_serial := read_le32 sector 100,
          ex_revision := read_le16 sector 104,
          ex_flags := read_le16 sector 106,
          ex_bytes_per_sector_shift := sector ! 108,
          ex_sectors_per_cluster_shift := sector ! 109,
          ex_number_of_fats := sector ! 110,
          ex_drive_select := sector ! 111,
          ex_percent_in_use := sector ! 112\<rparr>) m)"

definition parse_fat32_boot_sector :: "u8 list \<Rightarrow> mounted_volume \<Rightarrow> mounted_volume" where
  "parse_fat32_boot_sector sector m =
     (let m = m\<lparr>bm_fat32 := zero_fat32\<rparr> in
      if \<not> bytes_equal sector 82 ''FAT32   '' 8 \<or> sector ! 510 \<noteq> 0x55 \<or> sector ! 511 \<noteq> 0xaa then m
      else
        let bytes_per_sector = read_le16 sector 11;
            sectors_per_cluster = sector ! 13;
            reserved_sectors = read_le16 sector 14;
            number_of_fats = sector ! 16;
            root_entry_count = read_le16 sector 17;
            total_sectors_16 = read_le16 sector 19;
            fat_size_16 = read_le16 sector 22;
            total_sectors_32 = read_le32 sector 32;
            fat_size_32 = read_le32 sector 36;
            root_dir_cluster = read_le32 sector 44
        in if ucast bytes_per_sector \<noteq> bi_block_size (bm_block m) \<or> sectors_per_cluster = 0 \<or> reserved_sectors = 0 \<or>
              number_of_fats = 0 \<or> root_entry_count \<noteq> 0 \<or> total_sectors_16 \<noteq> 0 \<or> total_sectors_32 = 0 \<or> fat_size_16 \<noteq> 0 \<or>
              fat_size_32 = 0 \<or> root_dir_cluster < 2 then m
           else m\<lparr>bm_fat32 := \<lparr>fa_present = True,
                    fa_bytes_per_sector = bytes_per_sector,
                    fa_sectors_per_cluster = sectors_per_cluster,
                    fa_reserved_sectors = reserved_sectors,
                    fa_number_of_fats = number_of_fats,
                    fa_total_sectors = total_sectors_32,
                    fa_fat_size_sectors = fat_size_32,
                    fa_root_dir_cluster = root_dir_cluster,
                    fa_fsinfo_sector = read_le16 sector 48,
                    fa_backup_boot_sector = read_le16 sector 50,
                    fa_hidden_sectors = read_le32 sector 28,
                    fa_volume_id = read_le32 sector 67,
                    fa_volume_label = copy_padded_text 12 sector 71 11\<rparr>\<rparr>)"

section \<open>Clusters\<close>

definition one_shifted_by :: "u8 \<Rightarrow> u64" where
  "one_shifted_by shift = (if shift \<ge> 63 then 0 else push_bit (unat shift) 1)"

definition exfat_geometry_valid :: "mounted_volume \<Rightarrow> bool" where
  "exfat_geometry_valid m \<longleftrightarrow>
     (let e = bm_exfat m;
          bytes_per_sector = one_shifted_by (ex_bytes_per_sector_shift e);
          sectors_per_cluster = one_shifted_by (ex_sectors_per_cluster_shift e)
      in ex_present e \<and> bytes_per_sector = bi_block_size (bm_block m) \<and> sectors_per_cluster > 0 \<and> ex_cluster_heap_offset e > 0 \<and>
         ex_root_dir_cluster e \<ge> 2 \<and> ex_root_dir_cluster e < ex_cluster_count e + 2)"

definition exfat_cluster_lba :: "mounted_volume \<Rightarrow> u32 \<Rightarrow> u64" where
  "exfat_cluster_lba m cluster =
     (let sectors_per_cluster = one_shifted_by (ex_sectors_per_cluster_shift (bm_exfat m)) in
      if \<not> exfat_geometry_valid m \<or> cluster < 2 \<or> cluster \<ge> ex_cluster_count (bm_exfat m) + 2 then U64_FAIL
      else ucast (ex_cluster_heap_offset (bm_exfat m)) + (ucast cluster - 2) * sectors_per_cluster)"

definition exfat_cluster_valid :: "mounted_volume \<Rightarrow> u32 \<Rightarrow> bool" where
  "exfat_cluster_valid m cluster \<longleftrightarrow> exfat_geometry_valid m \<and> cluster \<ge> 2 \<and> cluster < ex_cluster_count (bm_exfat m) + 2"

text \<open>
  Reading one block of the mounted device into a sector buffer; the flag says whether \<^verbatim>\<open>block_read\<close> returned 0. A local buffer
  of the source holds unknown bytes before the first read: those are the argument \<open>sector\<close> of the definitions below.
\<close>

definition read_block ::
  "'a block_state_scheme other_drivers \<Rightarrow> mounted_volume \<Rightarrow> u64 \<Rightarrow> u8 list \<Rightarrow> 'a block_state_scheme \<Rightarrow>
   (bool \<times> u8 list \<times> 'a block_state_scheme) option" where
  "read_block drv m lba sector s =
     do {
       (r, sector', s) \<leftarrow> block_read drv (bm_block_index m) lba 1 (Some sector) s;
       Some (r = 0, the sector', s)
     }"

definition exfat_read_fat_entry ::
  "'a block_state_scheme other_drivers \<Rightarrow> mounted_volume \<Rightarrow> u32 \<Rightarrow> u8 list \<Rightarrow> 'a block_state_scheme \<Rightarrow>
   (u32 option \<times> 'a block_state_scheme) option" where
  "exfat_read_fat_entry drv m cluster sector s =
     (if \<not> exfat_cluster_valid m cluster then Some (None, s)
      else
        let fat_byte_offset = ucast cluster * 4 :: u64;
            fat_sector = ucast (ex_fat_offset (bm_exfat m)) + fat_byte_offset div 512;
            sector_offset = fat_byte_offset mod 512
        in if fat_sector \<ge> ucast (ex_fat_offset (bm_exfat m)) + ucast (ex_fat_length (bm_exfat m)) \<or> sector_offset + 4 > 512
           then Some (None, s)
           else do {
             (ok, sector, s) \<leftarrow> read_block drv m fat_sector sector s;
             Some (if ok then Some (read_le32 sector (unat sector_offset)) else None, s)
           })"

fun exfat_follow ::
  "'a block_state_scheme other_drivers \<Rightarrow> mounted_volume \<Rightarrow> nat \<Rightarrow> u32 \<Rightarrow> u8 list \<Rightarrow> 'a block_state_scheme \<Rightarrow>
   (u32 option \<times> 'a block_state_scheme) option" where
  "exfat_follow drv m 0 cluster sector s = Some (Some cluster, s)"
| "exfat_follow drv m (Suc n) cluster sector s =
     do {
       (entry, s) \<leftarrow> exfat_read_fat_entry drv m cluster sector s;
       case entry of
         None \<Rightarrow> Some (None, s)
       | Some nxt \<Rightarrow> if nxt \<ge> 0xfffffff8 \<or> \<not> exfat_cluster_valid m nxt then Some (None, s) else exfat_follow drv m n nxt sector s
     }"

definition exfat_resolve_cluster ::
  "'a block_state_scheme other_drivers \<Rightarrow> mounted_volume \<Rightarrow> u32 \<Rightarrow> u8 \<Rightarrow> u64 \<Rightarrow> u8 list \<Rightarrow> 'a block_state_scheme \<Rightarrow>
   (u32 option \<times> 'a block_state_scheme) option" where
  "exfat_resolve_cluster drv m first_cluster stream_flags cluster_index sector s =
     (if \<not> exfat_cluster_valid m first_cluster then Some (None, s)
      else if stream_flags AND 0x02 \<noteq> 0 then
        let cluster = first_cluster + ucast cluster_index in
        Some (if exfat_cluster_valid m cluster then Some cluster else None, s)
      else exfat_follow drv m (unat cluster_index) first_cluster sector s)"

definition fat32_data_start_lba :: "mounted_volume \<Rightarrow> u64" where
  "fat32_data_start_lba m =
     ucast (fa_reserved_sectors (bm_fat32 m)) + ucast (fa_number_of_fats (bm_fat32 m)) * ucast (fa_fat_size_sectors (bm_fat32 m))"

definition fat32_geometry_valid :: "mounted_volume \<Rightarrow> bool" where
  "fat32_geometry_valid m \<longleftrightarrow>
     (let f = bm_fat32 m in
      if \<not> fa_present f \<or> ucast (fa_bytes_per_sector f) \<noteq> bi_block_size (bm_block m) \<or> fa_sectors_per_cluster f = 0 \<or>
         fa_reserved_sectors f = 0 \<or> fa_number_of_fats f = 0 \<or> fa_fat_size_sectors f = 0 \<or> fa_root_dir_cluster f < 2 then False
      else
        let data_start = ucast (fa_reserved_sectors f) + ucast (fa_number_of_fats f) * ucast (fa_fat_size_sectors f) :: u64
        in data_start < ucast (fa_total_sectors f))"

definition fat32_cluster_count :: "mounted_volume \<Rightarrow> u64" where
  "fat32_cluster_count m =
     (if \<not> fat32_geometry_valid m then 0
      else (ucast (fa_total_sectors (bm_fat32 m)) - fat32_data_start_lba m) div ucast (fa_sectors_per_cluster (bm_fat32 m)))"

definition fat32_cluster_valid :: "mounted_volume \<Rightarrow> u32 \<Rightarrow> bool" where
  "fat32_cluster_valid m cluster \<longleftrightarrow> cluster \<ge> 2 \<and> ucast cluster < fat32_cluster_count m + 2"

definition fat32_cluster_lba :: "mounted_volume \<Rightarrow> u32 \<Rightarrow> u64" where
  "fat32_cluster_lba m cluster =
     (if \<not> fat32_cluster_valid m cluster then U64_FAIL
      else fat32_data_start_lba m + (ucast cluster - 2) * ucast (fa_sectors_per_cluster (bm_fat32 m)))"

definition fat32_read_fat_entry ::
  "'a block_state_scheme other_drivers \<Rightarrow> mounted_volume \<Rightarrow> u32 \<Rightarrow> u8 list \<Rightarrow> 'a block_state_scheme \<Rightarrow>
   (u32 option \<times> 'a block_state_scheme) option" where
  "fat32_read_fat_entry drv m cluster sector s =
     (if \<not> fat32_cluster_valid m cluster then Some (None, s)
      else
        let fat_byte_offset = ucast cluster * 4 :: u64;
            fat_sector = ucast (fa_reserved_sectors (bm_fat32 m)) + fat_byte_offset div 512;
            sector_offset = fat_byte_offset mod 512
        in if fat_sector \<ge> ucast (fa_reserved_sectors (bm_fat32 m)) + ucast (fa_fat_size_sectors (bm_fat32 m)) \<or> sector_offset + 4 > 512
           then Some (None, s)
           else do {
             (ok, sector, s) \<leftarrow> read_block drv m fat_sector sector s;
             Some (if ok then Some (read_le32 sector (unat sector_offset) AND 0x0fffffff) else None, s)
           })"

fun fat32_follow ::
  "'a block_state_scheme other_drivers \<Rightarrow> mounted_volume \<Rightarrow> nat \<Rightarrow> u32 \<Rightarrow> u8 list \<Rightarrow> 'a block_state_scheme \<Rightarrow>
   (u32 option \<times> 'a block_state_scheme) option" where
  "fat32_follow drv m 0 cluster sector s = Some (Some cluster, s)"
| "fat32_follow drv m (Suc n) cluster sector s =
     do {
       (entry, s) \<leftarrow> fat32_read_fat_entry drv m cluster sector s;
       case entry of
         None \<Rightarrow> Some (None, s)
       | Some nxt \<Rightarrow> if nxt \<ge> 0x0ffffff8 \<or> \<not> fat32_cluster_valid m nxt then Some (None, s) else fat32_follow drv m n nxt sector s
     }"

definition fat32_resolve_cluster ::
  "'a block_state_scheme other_drivers \<Rightarrow> mounted_volume \<Rightarrow> u32 \<Rightarrow> u64 \<Rightarrow> u8 list \<Rightarrow> 'a block_state_scheme \<Rightarrow>
   (u32 option \<times> 'a block_state_scheme) option" where
  "fat32_resolve_cluster drv m first_cluster cluster_index sector s =
     (if \<not> fat32_cluster_valid m first_cluster then Some (None, s)
      else fat32_follow drv m (unat cluster_index) first_cluster sector s)"

section \<open>The table of entries\<close>

definition reset_exfat_root_entries :: "mounted_volume \<Rightarrow> mounted_volume" where
  "reset_exfat_root_entries m = m\<lparr>bm_root_entries := []\<rparr>"

text \<open>The path fits in the buffer with its terminator, or there is no path.\<close>

definition join_child_path :: "nat \<Rightarrow> string \<Rightarrow> string \<Rightarrow> string option" where
  "join_child_path out_len parent name =
     (if out_len = 0 \<or> deref name = NUL then None
      else if chars_equal parent ''/'' then
        if out_len < 2 then None
        else if length name + 2 \<le> out_len then Some (CHR ''/'' # name) else None
      else if length parent + 2 \<ge> out_len then None
      else if length parent + 1 + length name + 1 \<le> out_len then Some (parent @ [CHR ''/''] @ name) else None)"

definition add_exfat_root_entry ::
  "string \<Rightarrow> string \<Rightarrow> u64 \<Rightarrow> u32 \<Rightarrow> u16 \<Rightarrow> u8 \<Rightarrow> mounted_volume \<Rightarrow> mounted_volume" where
  "add_exfat_root_entry parent name sz first_cluster attributes stream_flags m =
     (if length (bm_root_entries m) \<ge> BLOCKFS_MAX_ROOT_ENTRIES \<or> deref name = NUL then m
      else m\<lparr>bm_root_entries := bm_root_entries m @
             [\<lparr>re_parent = copy_limited 64 parent, re_name = copy_limited 64 name, re_size = sz, re_capacity = sz,
               re_directory_lba = 0, re_directory_byte_offset = 0, re_first_cluster = first_cluster, re_attributes = attributes,
               re_stream_flags = stream_flags, re_is_dir = (attributes AND 0x10 \<noteq> 0), re_writable = False\<rparr>]\<rparr>)"

section \<open>exFAT directories\<close>

definition parse_exfat_allocation_bitmap_entry :: "u8 list \<Rightarrow> nat \<Rightarrow> string \<Rightarrow> mounted_volume \<Rightarrow> mounted_volume" where
  "parse_exfat_allocation_bitmap_entry sector off parent m =
     (if \<not> chars_equal parent ''/'' then m
      else upd_exfat (\<lambda>e. e\<lparr>ex_bitmap := (ex_bitmap e)\<lparr>ab_present := True, ab_flags := sector ! (off + 1),
             ab_cluster := read_le32 sector (off + 20), ab_size := read_le64 sector (off + 24)\<rparr>\<rparr>) m)"

definition parse_exfat_upcase_table_entry :: "u8 list \<Rightarrow> nat \<Rightarrow> string \<Rightarrow> mounted_volume \<Rightarrow> mounted_volume" where
  "parse_exfat_upcase_table_entry sector off parent m =
     (if \<not> chars_equal parent ''/'' then m
      else upd_exfat (\<lambda>e. e\<lparr>ex_upcase := \<lparr>uc_present = True, uc_checksum = read_le32 sector (off + 4),
             uc_cluster = read_le32 sector (off + 20), uc_size = read_le64 sector (off + 24)\<rparr>\<rparr>) m)"

text \<open>\<^verbatim>\<open>name_pos\<close> is the length of the name so far.\<close>

fun append_name_chars :: "nat \<Rightarrow> u8 list \<Rightarrow> nat \<Rightarrow> nat \<Rightarrow> nat list \<Rightarrow> string \<Rightarrow> string" where
  "append_name_chars name_len sector off expected [] name = name"
| "append_name_chars name_len sector off expected (i # is) name =
     (if \<not> length name < expected then name
      else
        let low = sector ! (off + 2 + i * 2);
            high = sector ! (off + 3 + i * 2)
        in if low = 0 \<and> high = 0 then name
           else
             let c = (if high = 0 \<and> low \<ge> 32 \<and> low < 127 then byte_char low else CHR ''?'')
             in append_name_chars name_len sector off expected is (if length name + 1 < name_len then name @ [c] else name))"

definition append_exfat_name_chars :: "nat \<Rightarrow> u8 list \<Rightarrow> nat \<Rightarrow> nat \<Rightarrow> string \<Rightarrow> string" where
  "append_exfat_name_chars name_len sector off expected name = append_name_chars name_len sector off expected [0..<15] name"

text \<open>What the secondary entries of a file say.\<close>

record exfat_entry_set =
  es_stream_flags :: u8
  es_name_len :: nat
  es_first_cluster :: u32
  es_size :: u64
  es_name :: string

definition parse_secondary :: "u8 list \<Rightarrow> nat \<Rightarrow> exfat_entry_set \<Rightarrow> exfat_entry_set" where
  "parse_secondary sector off e =
     (if sector ! off = 0xc0 then
        e\<lparr>es_stream_flags := sector ! (off + 1), es_name_len := unat (sector ! (off + 3)),
          es_first_cluster := read_le32 sector (off + 20), es_size := read_le64 sector (off + 24)\<rparr>
      else if sector ! off = 0xc1 \<and> es_name_len e > 0 then
        e\<lparr>es_name := append_exfat_name_chars 64 sector off (es_name_len e) (es_name e)\<rparr>
      else e)"

text \<open>The entries of a sector from \<open>slot\<close> on; the flag is \<^verbatim>\<open>stop\<close>.\<close>

function parse_exfat_slots :: "u8 list \<Rightarrow> string \<Rightarrow> nat \<Rightarrow> mounted_volume \<Rightarrow> bool \<times> mounted_volume" where
  "parse_exfat_slots sector parent slot m =
     (if slot \<ge> 16 then (False, m)
      else
        let off = slot * EXFAT_ENTRY_SIZE;
            type = sector ! off
        in if type = 0 then (True, m)
           else if type = 0x81 then parse_exfat_slots sector parent (slot + 1) (parse_exfat_allocation_bitmap_entry sector off parent m)
           else if type = 0x82 then parse_exfat_slots sector parent (slot + 1) (parse_exfat_upcase_table_entry sector off parent m)
           else if type \<noteq> 0x85 \<or> type AND 0x80 = 0 then parse_exfat_slots sector parent (slot + 1) m
           else
             let secondary_count = unat (sector ! (off + 1));
                 attributes = read_le16 sector (off + 4);
                 e = fold (\<lambda>j. parse_secondary sector ((slot + j) * EXFAT_ENTRY_SIZE)) [1..<min (secondary_count + 1) (16 - slot)]
                       \<lparr>es_stream_flags = 0, es_name_len = 0, es_first_cluster = 0, es_size = 0, es_name = []\<rparr>
             in parse_exfat_slots sector parent (slot + (secondary_count + 1))
                  (add_exfat_root_entry parent (es_name e) (es_size e) (es_first_cluster e) attributes (es_stream_flags e) m))"
  by pat_completeness auto
termination by (relation "measure (\<lambda>(sector, parent, slot, m). 16 - slot)") auto

declare parse_exfat_slots.simps [simp del]

definition parse_exfat_directory_sector :: "u8 list \<Rightarrow> string \<Rightarrow> mounted_volume \<Rightarrow> bool \<times> mounted_volume" where
  "parse_exfat_directory_sector sector parent m = parse_exfat_slots sector parent 0 m"

text \<open>
  The sectors of one cluster from \<open>index\<close> on, \<open>n\<close> of them. The result is \<open>None\<close> in front of the state when a read failed, else
  \<^verbatim>\<open>stop\<close>.
\<close>

fun parse_exfat_cluster_sectors ::
  "'a block_state_scheme other_drivers \<Rightarrow> string \<Rightarrow> u64 \<Rightarrow> nat \<Rightarrow> u64 \<Rightarrow> u8 list \<Rightarrow> mounted_volume \<Rightarrow> 'a block_state_scheme \<Rightarrow>
   (bool option \<times> u8 list \<times> mounted_volume \<times> 'a block_state_scheme) option" where
  "parse_exfat_cluster_sectors drv parent lba 0 index sector m s = Some (Some False, sector, m, s)"
| "parse_exfat_cluster_sectors drv parent lba (Suc n) index sector m s =
     do {
       (ok, sector, s) \<leftarrow> read_block drv m (lba + index) sector s;
       if \<not> ok then Some (None, sector, m, s)
       else case parse_exfat_directory_sector sector parent m of (stop, m) \<Rightarrow>
         if stop then Some (Some True, sector, m, s)
         else parse_exfat_cluster_sectors drv parent lba n (index + 1) sector m s
     }"

fun parse_exfat_clusters ::
  "'a block_state_scheme other_drivers \<Rightarrow> string \<Rightarrow> u32 \<Rightarrow> u8 \<Rightarrow> nat \<Rightarrow> u64 \<Rightarrow> u8 list \<Rightarrow> mounted_volume \<Rightarrow> 'a block_state_scheme \<Rightarrow>
   (mounted_volume \<times> 'a block_state_scheme) option" where
  "parse_exfat_clusters drv parent first_cluster stream_flags 0 cluster_index sector m s = Some (m, s)"
| "parse_exfat_clusters drv parent first_cluster stream_flags (Suc n) cluster_index sector m s =
     do {
       (cluster, s) \<leftarrow> exfat_resolve_cluster drv m first_cluster stream_flags cluster_index sector s;
       case cluster of
         None \<Rightarrow> Some (m, s)
       | Some cluster \<Rightarrow>
           let lba = exfat_cluster_lba m cluster in
           if lba = U64_FAIL then Some (m, s)
           else do {
             (stop, sector, m, s) \<leftarrow> parse_exfat_cluster_sectors drv parent lba
               (unat (one_shifted_by (ex_sectors_per_cluster_shift (bm_exfat m)))) 0 sector m s;
             if stop \<noteq> Some False then Some (m, s)
             else parse_exfat_clusters drv parent first_cluster stream_flags n (cluster_index + 1) sector m s
           }
     }"

definition parse_exfat_directory_chain ::
  "'a block_state_scheme other_drivers \<Rightarrow> string \<Rightarrow> u32 \<Rightarrow> u8 \<Rightarrow> u8 list \<Rightarrow> mounted_volume \<Rightarrow> 'a block_state_scheme \<Rightarrow>
   (mounted_volume \<times> 'a block_state_scheme) option" where
  "parse_exfat_directory_chain drv parent first_cluster stream_flags sector m s =
     (if \<not> exfat_cluster_valid m first_cluster \<or> bi_block_size (bm_block m) \<noteq> 512 then Some (m, s)
      else parse_exfat_clusters drv parent first_cluster stream_flags (unat (ex_cluster_count (bm_exfat m))) 0 sector m s)"

section \<open>The exFAT allocation bitmap\<close>

text \<open>The counters of a scan; \<open>bs_plan\<close> are the first \<^verbatim>\<open>plan_count\<close> elements of \<^verbatim>\<open>allocation_plan_clusters\<close>.\<close>

record bitmap_scan =
  bs_used :: u64
  bs_bit_index :: u64
  bs_first_free :: u32
  bs_plan :: "u32 list"

definition scan_bitmap_bit :: "u32 \<Rightarrow> u8 \<Rightarrow> nat \<Rightarrow> bitmap_scan \<Rightarrow> bitmap_scan" where
  "scan_bitmap_bit clusters v i b =
     (if \<not> bs_bit_index b < ucast clusters then b
      else
        let cluster = ucast (bs_bit_index b + 2);
            b = (if v AND push_bit i 1 \<noteq> 0 then b\<lparr>bs_used := bs_used b + 1\<rparr>
                 else if bs_first_free b = 0 then b\<lparr>bs_first_free := cluster\<rparr> else b);
            b = (if v AND push_bit i 1 = 0 \<and> length (bs_plan b) < EXFAT_ALLOC_PLAN_CLUSTER_COUNT
                 then b\<lparr>bs_plan := bs_plan b @ [cluster]\<rparr> else b)
        in b\<lparr>bs_bit_index := bs_bit_index b + 1\<rparr>)"

definition count_exfat_bitmap_sector_used :: "u32 \<Rightarrow> u8 list \<Rightarrow> nat \<Rightarrow> bitmap_scan \<Rightarrow> bitmap_scan" where
  "count_exfat_bitmap_sector_used clusters sector bytes_to_scan b =
     fold (\<lambda>byte. fold (scan_bitmap_bit clusters (sector ! byte)) [0..<8]) [0..<bytes_to_scan] b"

abbreviation scan_left :: "mounted_volume \<Rightarrow> u64 \<Rightarrow> bitmap_scan \<Rightarrow> bool" where
  "scan_left m remaining b \<equiv> remaining > 0 \<and> bs_bit_index b < ucast (ex_cluster_count (bm_exfat m))"

fun scan_bitmap_sectors ::
  "'a block_state_scheme other_drivers \<Rightarrow> mounted_volume \<Rightarrow> u64 \<Rightarrow> nat \<Rightarrow> u64 \<Rightarrow> u8 list \<Rightarrow> u64 \<Rightarrow> bitmap_scan \<Rightarrow> 'a block_state_scheme \<Rightarrow>
   (bool \<times> u8 list \<times> u64 \<times> bitmap_scan \<times> 'a block_state_scheme) option" where
  "scan_bitmap_sectors drv m lba 0 index sector remaining b s = Some (True, sector, remaining, b, s)"
| "scan_bitmap_sectors drv m lba (Suc n) index sector remaining b s =
     (if \<not> scan_left m remaining b then Some (True, sector, remaining, b, s)
      else
        let bytes_to_scan = (if 512 > remaining then remaining else 512) in
        do {
          (ok, sector, s) \<leftarrow> read_block drv m (lba + index) sector s;
          if \<not> ok then Some (False, sector, remaining, b, s)
          else scan_bitmap_sectors drv m lba n (index + 1) sector (remaining - bytes_to_scan)
                 (count_exfat_bitmap_sector_used (ex_cluster_count (bm_exfat m)) sector (unat bytes_to_scan) b) s
        })"

text \<open>
  The loop over the clusters of the bitmap. Every round scans at least one bit, so that as many rounds as there are clusters are
  enough. The flag is false when the function returned early.
\<close>

fun scan_bitmap_clusters ::
  "'a block_state_scheme other_drivers \<Rightarrow> mounted_volume \<Rightarrow> nat \<Rightarrow> u64 \<Rightarrow> u8 list \<Rightarrow> u64 \<Rightarrow> bitmap_scan \<Rightarrow> 'a block_state_scheme \<Rightarrow>
   (bool \<times> u64 \<times> bitmap_scan \<times> 'a block_state_scheme) option" where
  "scan_bitmap_clusters drv m 0 cluster_index sector remaining b s = Some (True, remaining, b, s)"
| "scan_bitmap_clusters drv m (Suc n) cluster_index sector remaining b s =
     (if \<not> scan_left m remaining b then Some (True, remaining, b, s)
      else do {
        (cluster, s) \<leftarrow> exfat_resolve_cluster drv m (ab_cluster (ex_bitmap (bm_exfat m))) 0 cluster_index sector s;
        case cluster of
          None \<Rightarrow> Some (False, remaining, b, s)
        | Some cluster \<Rightarrow>
            let lba = exfat_cluster_lba m cluster in
            if lba = U64_FAIL then Some (False, remaining, b, s)
            else do {
              (ok, sector, remaining, b, s) \<leftarrow> scan_bitmap_sectors drv m lba
                (unat (one_shifted_by (ex_sectors_per_cluster_shift (bm_exfat m)))) 0 sector remaining b s;
              if \<not> ok then Some (False, remaining, b, s)
              else scan_bitmap_clusters drv m n (cluster_index + 1) sector remaining b s
            }
      })"

text \<open>The array of planned clusters is filled while the bitmap is scanned, also when the scan is given up.\<close>

definition plan_array :: "u32 list \<Rightarrow> u32 list" where
  "plan_array plan = plan @ replicate (EXFAT_ALLOC_PLAN_CLUSTER_COUNT - length plan) 0"

definition parse_exfat_allocation_bitmap ::
  "'a block_state_scheme other_drivers \<Rightarrow> u8 list \<Rightarrow> mounted_volume \<Rightarrow> 'a block_state_scheme \<Rightarrow> (mounted_volume \<times> 'a block_state_scheme) option" where
  "parse_exfat_allocation_bitmap drv sector m s =
     (let m = upd_exfat (\<lambda>e. e\<lparr>
                ex_bitmap := (ex_bitmap e)\<lparr>ab_scanned_clusters := 0, ab_used_clusters := 0, ab_free_clusters := 0,
                  ab_first_free_cluster := 0, ab_complete := False\<rparr>,
                ex_allocation_plan := \<lparr>ap_requested_clusters = of_nat EXFAT_ALLOC_PLAN_CLUSTER_COUNT, ap_found_clusters = 0,
                  ap_clusters = [0, 0, 0], ap_ready = False\<rparr>\<rparr>) m
      in if \<not> ab_present (ex_bitmap (bm_exfat m)) \<or> \<not> exfat_cluster_valid m (ab_cluster (ex_bitmap (bm_exfat m))) \<or>
            bi_block_size (bm_block m) \<noteq> 512 \<or> one_shifted_by (ex_sectors_per_cluster_shift (bm_exfat m)) = 0 then Some (m, s)
         else do {
           (ok, remaining, b, s) \<leftarrow> scan_bitmap_clusters drv m (unat (ex_cluster_count (bm_exfat m))) 0 sector
             (ab_size (ex_bitmap (bm_exfat m))) \<lparr>bs_used = 0, bs_bit_index = 0, bs_first_free = 0, bs_plan = []\<rparr> s;
           let m = upd_exfat (\<lambda>e. e\<lparr>ex_allocation_plan := (ex_allocation_plan e)\<lparr>ap_clusters := plan_array (bs_plan b)\<rparr>\<rparr>) m in
           if \<not> ok then Some (m, s)
           else
             let count = ucast (ex_cluster_count (bm_exfat m));
                 m = upd_exfat (\<lambda>e. e\<lparr>ex_bitmap := (ex_bitmap e)\<lparr>ab_scanned_clusters := bs_bit_index b, ab_used_clusters := bs_used b\<rparr>\<rparr>) m;
                 m = (if bs_bit_index b \<ge> count
                      then upd_exfat (\<lambda>e. e\<lparr>ex_bitmap := (ex_bitmap e)\<lparr>ab_complete := True, ab_free_clusters := count - bs_used b\<rparr>\<rparr>) m
                      else if bs_bit_index b \<ge> bs_used b
                      then upd_exfat (\<lambda>e. e\<lparr>ex_bitmap := (ex_bitmap e)\<lparr>ab_free_clusters := bs_bit_index b - bs_used b\<rparr>\<rparr>) m
                      else m)
             in Some (upd_exfat (\<lambda>e. e\<lparr>ex_bitmap := (ex_bitmap e)\<lparr>ab_first_free_cluster := bs_first_free b\<rparr>,
                        ex_allocation_plan := (ex_allocation_plan e)\<lparr>ap_found_clusters := of_nat (length (bs_plan b)),
                          ap_ready := (length (bs_plan b) \<ge> EXFAT_ALLOC_PLAN_CLUSTER_COUNT)\<rparr>\<rparr>) m, s)
         })"

section \<open>The plan of a new exFAT file\<close>

definition exfat_directory_slot_free :: "u8 list \<Rightarrow> nat \<Rightarrow> bool" where
  "exfat_directory_slot_free sector off \<longleftrightarrow> sector ! off = 0 \<or> sector ! off AND 0x80 = 0"

definition exfat_checksum_step :: "u16 \<Rightarrow> u8 \<Rightarrow> u16" where
  "exfat_checksum_step checksum v = (if checksum AND 1 \<noteq> 0 then 0x8000 else 0) + drop_bit 1 checksum + ucast v"

definition exfat_ascii_utf16_name_hash :: "string \<Rightarrow> u16" where
  "exfat_ascii_utf16_name_hash name =
     fold (\<lambda>c hash. exfat_checksum_step (exfat_checksum_step hash (char_byte c)) 0) (cstr name) 0"

definition exfat_entry_set_checksum :: "u8 list \<Rightarrow> nat \<Rightarrow> u16" where
  "exfat_entry_set_checksum entries entry_count =
     fold (\<lambda>i checksum. if i = 2 \<or> i = 3 then checksum else exfat_checksum_step checksum (entries ! i))
       [0..<entry_count * EXFAT_ENTRY_SIZE] 0"

text \<open>The name entry: two bytes for every character.\<close>

definition encode_name_chars :: "nat \<Rightarrow> string \<Rightarrow> u8 list \<Rightarrow> u8 list" where
  "encode_name_chars off name p =
     fold (\<lambda>i p. p[off + 2 + i * 2 := char_byte (name ! i), off + 3 + i * 2 := 0]) [0..<length name] p"

definition encode_exfat_create_plan_entries :: "mounted_volume \<Rightarrow> mounted_volume" where
  "encode_exfat_create_plan_entries m =
     (let cluster_size = one_shifted_by (ex_sectors_per_cluster_shift (bm_exfat m)) * bi_block_size (bm_block m);
          m = upd_exfat (\<lambda>e. e\<lparr>ex_create_plan := (ex_create_plan e)\<lparr>cp_file_size := 0, cp_first_cluster := 0, cp_name_hash := 0,
                cp_entry_set_checksum := 0, cp_entries_ready := False, cp_entries := replicate EXFAT_CREATE_PLAN_ENTRY_BYTES 0\<rparr>\<rparr>) m
      in if \<not> cp_ready (ex_create_plan (bm_exfat m)) \<or> \<not> ap_ready (ex_allocation_plan (bm_exfat m)) \<or> cluster_size = 0 then m
         else
           let first_cluster = ap_clusters (ex_allocation_plan (bm_exfat m)) ! 0;
               file_size = cluster_size * of_nat EXFAT_ALLOC_PLAN_CLUSTER_COUNT;
               name_hash = exfat_ascii_utf16_name_hash EXFAT_CREATE_PLAN_NAME;
               p = cp_entries (ex_create_plan (bm_exfat m));
               p = write_le16 (p[0 := 0x85, 1 := 2]) 4 0x20;
               p = p[32 := 0xc0, 33 := 0, 35 := of_nat EXFAT_CREATE_PLAN_NAME_CHARS];
               p = write_le64 (write_le16 p 36 name_hash) 40 file_size;
               p = write_le64 (write_le32 p 52 first_cluster) 56 file_size;
               p = encode_name_chars 64 EXFAT_CREATE_PLAN_NAME (p[64 := 0xc1]);
               checksum = exfat_entry_set_checksum p EXFAT_CREATE_PLAN_REQUIRED_ENTRIES
           in upd_exfat (\<lambda>e. e\<lparr>ex_create_plan := (ex_create_plan e)\<lparr>cp_first_cluster := first_cluster, cp_file_size := file_size,
                cp_name_hash := name_hash, cp_entry_set_checksum := checksum, cp_entries := write_le16 p 2 checksum,
                cp_entries_ready := True\<rparr>\<rparr>) m)"

definition reset_exfat_transaction_plan :: "mounted_volume \<Rightarrow> mounted_volume" where
  "reset_exfat_transaction_plan m =
     upd_exfat (\<lambda>e. e\<lparr>ex_transaction := zero_transaction_plan, ex_patched := zero_patched, ex_commit := zero_commit\<rparr>) m"

definition exfat_patched_directory_name_matches :: "u8 list \<Rightarrow> nat \<Rightarrow> bool" where
  "exfat_patched_directory_name_matches sector off \<longleftrightarrow>
     list_all (\<lambda>i. sector ! (off + 2 + i * 2) = char_byte (EXFAT_CREATE_PLAN_NAME ! i) \<and> sector ! (off + 3 + i * 2) = 0)
       [0..<EXFAT_CREATE_PLAN_NAME_CHARS]"

fun patch_fat_sector :: "(u64 \<times> u32) list \<Rightarrow> u8 list \<Rightarrow> u8 list option" where
  "patch_fat_sector [] sector = Some sector"
| "patch_fat_sector ((offset, v) # es) sector =
     (if offset + 4 > 512 then None else patch_fat_sector es (write_le32 sector (unat offset) v))"

definition apply_exfat_create_transaction_to_sectors ::
  "mounted_volume \<Rightarrow> u8 list \<Rightarrow> u8 list \<Rightarrow> u8 list \<Rightarrow> (u8 list \<times> u8 list \<times> u8 list) option" where
  "apply_exfat_create_transaction_to_sectors m bitmap_sector fat_sector directory_sector =
     (let t = ex_transaction (bm_exfat m) in
      if \<not> tx_ready t \<or> tx_directory_byte_offset t + of_nat EXFAT_CREATE_PLAN_ENTRY_BYTES > 512 then None
      else do {
        fat_sector \<leftarrow> patch_fat_sector (zip (tx_fat_offsets t) (tx_fat_new_values t)) fat_sector;
        Some (bitmap_sector[unat (tx_bitmap_byte_offset t) := tx_bitmap_new_value t], fat_sector,
              copy_bytes directory_sector (unat (tx_directory_byte_offset t)) (cp_entries (ex_create_plan (bm_exfat m)))
                EXFAT_CREATE_PLAN_ENTRY_BYTES)
      })"

fun read_fat_values :: "u64 list \<Rightarrow> u8 list \<Rightarrow> nat \<Rightarrow> u32 list \<Rightarrow> bool \<times> u32 list" where
  "read_fat_values [] sector i vs = (True, vs)"
| "read_fat_values (offset # os) sector i vs =
     (if offset + 4 > 512 then (False, vs) else read_fat_values os sector (i + 1) (vs[i := read_le32 sector (unat offset)]))"

text \<open>The flag is whether \<^verbatim>\<open>verify_patched_exfat_create_transaction\<close> returned 0.\<close>

definition verify_patched_exfat_create_transaction ::
  "mounted_volume \<Rightarrow> u8 list \<Rightarrow> u8 list \<Rightarrow> u8 list \<Rightarrow> bool \<times> mounted_volume" where
  "verify_patched_exfat_create_transaction m bitmap_sector fat_sector directory_sector =
     (let e = bm_exfat m; t = ex_transaction e; c = ex_create_plan e; plan = ap_clusters (ex_allocation_plan e) in
      if tx_directory_byte_offset t + of_nat EXFAT_CREATE_PLAN_ENTRY_BYTES > 512 then (False, m)
      else
        let file_entry = unat (tx_directory_byte_offset t);
            stream_entry = file_entry + EXFAT_ENTRY_SIZE;
            name_entry = stream_entry + EXFAT_ENTRY_SIZE;
            (ok, vs) = read_fat_values (tx_fat_offsets t) fat_sector 0 (pt_fat_values (ex_patched e));
            p = (ex_patched e)\<lparr>pt_bitmap_value := bitmap_sector ! unat (tx_bitmap_byte_offset t), pt_fat_values := vs\<rparr>
        in if \<not> ok \<or> directory_sector ! file_entry \<noteq> 0x85 \<or> directory_sector ! stream_entry \<noteq> 0xc0 \<or> directory_sector ! name_entry \<noteq> 0xc1
           then (False, upd_exfat (\<lambda>e. e\<lparr>ex_patched := p\<rparr>) m)
           else
             let p = p\<lparr>pt_directory_checksum := read_le16 directory_sector (file_entry + 2),
                       pt_directory_first_cluster := read_le32 directory_sector (stream_entry + 20),
                       pt_directory_file_size := read_le64 directory_sector (stream_entry + 24),
                       pt_directory_name_length := directory_sector ! (stream_entry + 3),
                       pt_directory_name_matches := exfat_patched_directory_name_matches directory_sector name_entry\<rparr>
             in (\<not> (pt_bitmap_value p \<noteq> tx_bitmap_new_value t \<or> pt_fat_values p ! 0 \<noteq> plan ! 1 \<or> pt_fat_values p ! 1 \<noteq> plan ! 2 \<or>
                     pt_fat_values p ! 2 \<noteq> 0xffffffff \<or> pt_directory_checksum p \<noteq> cp_entry_set_checksum c \<or>
                     pt_directory_first_cluster p \<noteq> cp_first_cluster c \<or> pt_directory_file_size p \<noteq> cp_file_size c \<or>
                     pt_directory_name_length p \<noteq> of_nat EXFAT_CREATE_PLAN_NAME_CHARS \<or> \<not> pt_directory_name_matches p),
                 upd_exfat (\<lambda>e. e\<lparr>ex_patched := p\<rparr>) m))"

text \<open>The three sector buffers hold unknown bytes, here those of \<open>sector\<close>, before they are read.\<close>

definition dry_run_exfat_create_transaction ::
  "'a block_state_scheme other_drivers \<Rightarrow> u8 list \<Rightarrow> mounted_volume \<Rightarrow> 'a block_state_scheme \<Rightarrow> (mounted_volume \<times> 'a block_state_scheme) option" where
  "dry_run_exfat_create_transaction drv sector m s =
     (let t = ex_transaction (bm_exfat m);
          m = upd_exfat (\<lambda>e. e\<lparr>ex_patched := (ex_patched e)\<lparr>pt_ready := False\<rparr>\<rparr>) m
      in if \<not> tx_ready t \<or> tx_directory_byte_offset t + of_nat EXFAT_CREATE_PLAN_ENTRY_BYTES > 512 then Some (m, s)
         else do {
           (ok, bitmap_sector, s) \<leftarrow> read_block drv m (tx_bitmap_lba t) sector s;
           if \<not> ok then Some (m, s)
           else do {
             (ok, fat_sector, s) \<leftarrow> read_block drv m (tx_fat_lba t) sector s;
             if \<not> ok then Some (m, s)
             else do {
               (ok, directory_sector, s) \<leftarrow> read_block drv m (tx_directory_lba t) sector s;
               if \<not> ok then Some (m, s)
               else case apply_exfat_create_transaction_to_sectors m bitmap_sector fat_sector directory_sector of
                 None \<Rightarrow> Some (m, s)
               | Some (bitmap_sector, fat_sector, directory_sector) \<Rightarrow>
                   case verify_patched_exfat_create_transaction m bitmap_sector fat_sector directory_sector of (ok, m) \<Rightarrow>
                     Some (if ok then upd_exfat (\<lambda>e. e\<lparr>ex_patched := (ex_patched e)\<lparr>pt_ready := True\<rparr>\<rparr>) m else m, s)
             }
           }
         })"

text \<open>The loop over the planned clusters; the flag is false when the function returned in the middle.\<close>

fun plan_fat_entries :: "u8 list \<Rightarrow> nat list \<Rightarrow> mounted_volume \<Rightarrow> bool \<times> mounted_volume" where
  "plan_fat_entries sector [] m = (True, m)"
| "plan_fat_entries sector (i # is) m =
     (let plan = ap_clusters (ex_allocation_plan (bm_exfat m));
          entry_byte_offset = ucast (plan ! i) * 4 :: u64;
          entry_lba = ucast (ex_fat_offset (bm_exfat m)) + entry_byte_offset div 512;
          sector_offset = entry_byte_offset mod 512
      in if entry_lba \<noteq> tx_fat_lba (ex_transaction (bm_exfat m)) \<or> sector_offset + 4 > 512 then (False, m)
         else plan_fat_entries sector is (upd_exfat (\<lambda>e. e\<lparr>ex_transaction := (ex_transaction e)\<lparr>
                tx_fat_offsets := (tx_fat_offsets (ex_transaction e))[i := sector_offset],
                tx_fat_old_values := (tx_fat_old_values (ex_transaction e))[i := read_le32 sector (unat sector_offset)],
                tx_fat_new_values := (tx_fat_new_values (ex_transaction e))[i :=
                  (if i + 1 < EXFAT_ALLOC_PLAN_CLUSTER_COUNT then plan ! (i + 1) else 0xffffffff)]\<rparr>\<rparr>) m))"

definition plan_exfat_create_transaction ::
  "'a block_state_scheme other_drivers \<Rightarrow> u8 list \<Rightarrow> mounted_volume \<Rightarrow> 'a block_state_scheme \<Rightarrow> (mounted_volume \<times> 'a block_state_scheme) option" where
  "plan_exfat_create_transaction drv sector m s =
     (let m = reset_exfat_transaction_plan m;
          e = bm_exfat m;
          sectors_per_cluster = one_shifted_by (ex_sectors_per_cluster_shift e);
          cluster_size = sectors_per_cluster * 512;
          plan = ap_clusters (ex_allocation_plan e)
      in if \<not> cp_entries_ready (ex_create_plan e) \<or> \<not> ap_ready (ex_allocation_plan e) \<or> \<not> ab_present (ex_bitmap e) \<or>
            bi_block_size (bm_block m) \<noteq> 512 \<or> sectors_per_cluster = 0 \<or> cluster_size = 0 then Some (m, s)
         else
           let first_bit = ucast (plan ! 0) - 2 :: u64;
               first_bitmap_byte = first_bit div 8;
               bitmap_file_cluster_index = first_bitmap_byte div cluster_size;
               bitmap_offset_in_cluster = first_bitmap_byte mod cluster_size;
               bitmap_sector_index = bitmap_offset_in_cluster div 512
           in do {
             (bitmap_cluster, s) \<leftarrow> exfat_resolve_cluster drv m (ab_cluster (ex_bitmap e)) 0 bitmap_file_cluster_index sector s;
             case bitmap_cluster of
               None \<Rightarrow> Some (m, s)
             | Some bitmap_cluster \<Rightarrow>
                 let bitmap_cluster_lba = exfat_cluster_lba m bitmap_cluster in
                 if bitmap_cluster_lba = U64_FAIL then Some (m, s)
                 else do {
                   (ok, sector, s) \<leftarrow> read_block drv m (bitmap_cluster_lba + bitmap_sector_index) sector s;
                   if \<not> ok then Some (m, s)
                   else
                     let byte_offset = bitmap_offset_in_cluster mod 512;
                         old_value = sector ! unat byte_offset;
                         mask = fold (\<lambda>i mask.
                                  let bit = ucast (plan ! i) - 2 :: u64 in
                                  if bit div 8 = first_bitmap_byte then mask OR push_bit (unat (bit mod 8)) 1 else mask)
                                  [0..<EXFAT_ALLOC_PLAN_CLUSTER_COUNT] 0;
                         fat_lba = ucast (ex_fat_offset e) + ucast (plan ! 0) * 4 div 512;
                         m = upd_exfat (\<lambda>e. e\<lparr>ex_transaction := (ex_transaction e)\<lparr>
                               tx_bitmap_lba := bitmap_cluster_lba + bitmap_sector_index, tx_bitmap_byte_offset := byte_offset,
                               tx_bitmap_old_value := old_value, tx_bitmap_mask := mask, tx_bitmap_new_value := old_value OR mask,
                               tx_fat_lba := fat_lba\<rparr>\<rparr>) m
                     in do {
                       (ok, sector, s) \<leftarrow> read_block drv m fat_lba sector s;
                       if \<not> ok then Some (m, s)
                       else case plan_fat_entries sector [0..<EXFAT_ALLOC_PLAN_CLUSTER_COUNT] m of (ok, m) \<Rightarrow>
                         if \<not> ok then Some (m, s)
                         else
                           let c = ex_create_plan (bm_exfat m);
                               m = upd_exfat (\<lambda>e. e\<lparr>ex_transaction := (ex_transaction e)\<lparr>
                                     tx_directory_lba := cp_entry_lba c,
                                     tx_directory_byte_offset := cp_first_slot c * of_nat EXFAT_ENTRY_SIZE,
                                     tx_directory_byte_count := of_nat EXFAT_CREATE_PLAN_ENTRY_BYTES,
                                     tx_write_count := 3, tx_ready := True\<rparr>\<rparr>) m
                           in dry_run_exfat_create_transaction drv sector m s
                     }
                 }
           })"

definition reset_exfat_create_plan :: "mounted_volume \<Rightarrow> mounted_volume" where
  "reset_exfat_create_plan m =
     reset_exfat_transaction_plan (upd_exfat (\<lambda>e. e\<lparr>ex_create_plan :=
       zero_create_plan\<lparr>cp_required_entries := of_nat EXFAT_CREATE_PLAN_REQUIRED_ENTRIES\<rparr>\<rparr>) m)"

abbreviation upd_create_plan :: "(exfat_create_plan \<Rightarrow> exfat_create_plan) \<Rightarrow> mounted_volume \<Rightarrow> mounted_volume" where
  "upd_create_plan f m \<equiv> upd_exfat (\<lambda>e. e\<lparr>ex_create_plan := f (ex_create_plan e)\<rparr>) m"

text \<open>The search for free slots; the flag says that the plan is complete, \<open>run\<close> counts the free slots in a row.\<close>

fun plan_free_slots :: "u8 list \<Rightarrow> u32 \<Rightarrow> u64 \<Rightarrow> u64 \<Rightarrow> u64 \<Rightarrow> nat list \<Rightarrow> u64 \<Rightarrow> mounted_volume \<Rightarrow> bool \<times> u64 \<times> mounted_volume" where
  "plan_free_slots sector cluster cluster_index sector_index lba [] run m = (False, run, m)"
| "plan_free_slots sector cluster cluster_index sector_index lba (slot # slots) run m =
     (if exfat_directory_slot_free sector (slot * EXFAT_ENTRY_SIZE) then
        let m = (if run = 0 then upd_create_plan (\<lambda>c. c\<lparr>cp_directory_cluster := cluster, cp_directory_cluster_index := cluster_index,
                   cp_sector_index := sector_index, cp_first_slot := of_nat slot, cp_entry_lba := lba + sector_index\<rparr>) m else m);
            run = run + 1;
            m = upd_create_plan (\<lambda>c. c\<lparr>cp_found_entries := run\<rparr>) m
        in if run \<ge> of_nat EXFAT_CREATE_PLAN_REQUIRED_ENTRIES then (True, run, upd_create_plan (\<lambda>c. c\<lparr>cp_ready := True\<rparr>) m)
           else plan_free_slots sector cluster cluster_index sector_index lba slots run m
      else plan_free_slots sector cluster cluster_index sector_index lba slots 0 (upd_create_plan (\<lambda>c. c\<lparr>cp_found_entries := 0\<rparr>) m))"

text \<open>The flag says that the function returned, with a complete plan or after a failed read.\<close>

fun plan_create_sectors ::
  "'a block_state_scheme other_drivers \<Rightarrow> u32 \<Rightarrow> u64 \<Rightarrow> u64 \<Rightarrow> nat \<Rightarrow> u64 \<Rightarrow> u8 list \<Rightarrow> u64 \<Rightarrow> mounted_volume \<Rightarrow> 'a block_state_scheme \<Rightarrow>
   (bool \<times> u8 list \<times> u64 \<times> mounted_volume \<times> 'a block_state_scheme) option" where
  "plan_create_sectors drv cluster cluster_index lba 0 sector_index sector run m s = Some (False, sector, run, m, s)"
| "plan_create_sectors drv cluster cluster_index lba (Suc n) sector_index sector run m s =
     do {
       (ok, sector, s) \<leftarrow> read_block drv m (lba + sector_index) sector s;
       if \<not> ok then Some (True, sector, run, m, s)
       else case plan_free_slots sector cluster cluster_index sector_index lba [0..<16] run m of (done', run, m) \<Rightarrow>
         if done' then Some (True, sector, run, m, s)
         else plan_create_sectors drv cluster cluster_index lba n (sector_index + 1) sector run m s
     }"

fun plan_create_clusters ::
  "'a block_state_scheme other_drivers \<Rightarrow> nat \<Rightarrow> u64 \<Rightarrow> u8 list \<Rightarrow> u64 \<Rightarrow> mounted_volume \<Rightarrow> 'a block_state_scheme \<Rightarrow>
   (mounted_volume \<times> 'a block_state_scheme) option" where
  "plan_create_clusters drv 0 cluster_index sector run m s = Some (m, s)"
| "plan_create_clusters drv (Suc n) cluster_index sector run m s =
     do {
       (cluster, s) \<leftarrow> exfat_resolve_cluster drv m (ex_root_dir_cluster (bm_exfat m)) 0 cluster_index sector s;
       case cluster of
         None \<Rightarrow> Some (m, s)
       | Some cluster \<Rightarrow>
           let lba = exfat_cluster_lba m cluster in
           if lba = U64_FAIL then Some (m, s)
           else do {
             (done', sector, run, m, s) \<leftarrow> plan_create_sectors drv cluster cluster_index lba
               (unat (one_shifted_by (ex_sectors_per_cluster_shift (bm_exfat m)))) 0 sector run m s;
             if done' then Some (m, s) else plan_create_clusters drv n (cluster_index + 1) sector run m s
           }
     }"

definition plan_exfat_root_directory_create ::
  "'a block_state_scheme other_drivers \<Rightarrow> u8 list \<Rightarrow> mounted_volume \<Rightarrow> 'a block_state_scheme \<Rightarrow> (mounted_volume \<times> 'a block_state_scheme) option" where
  "plan_exfat_root_directory_create drv sector m s =
     (let m = reset_exfat_create_plan m in
      if \<not> exfat_cluster_valid m (ex_root_dir_cluster (bm_exfat m)) \<or> bi_block_size (bm_block m) \<noteq> 512 \<or>
         one_shifted_by (ex_sectors_per_cluster_shift (bm_exfat m)) = 0 then Some (m, s)
      else plan_create_clusters drv (unat (ex_cluster_count (bm_exfat m))) 0 sector 0 m s)"

text \<open>
  The directories below the root; the table has at most 32 entries, so that the loop ends with the last of the indices. Entries
  that are added meanwhile are visited too.
\<close>

fun parse_exfat_subdirectories ::
  "'a block_state_scheme other_drivers \<Rightarrow> u8 list \<Rightarrow> nat list \<Rightarrow> mounted_volume \<Rightarrow> 'a block_state_scheme \<Rightarrow> (mounted_volume \<times> 'a block_state_scheme) option" where
  "parse_exfat_subdirectories drv sector [] m s = Some (m, s)"
| "parse_exfat_subdirectories drv sector (i # is) m s =
     (if \<not> i < length (bm_root_entries m) then Some (m, s)
      else
        let entry = bm_root_entries m ! i in
        if \<not> re_is_dir entry \<or> \<not> exfat_cluster_valid m (re_first_cluster entry) then parse_exfat_subdirectories drv sector is m s
        else case join_child_path 64 (re_parent entry) (re_name entry) of
          None \<Rightarrow> parse_exfat_subdirectories drv sector is m s
        | Some child_path \<Rightarrow> do {
            (m, s) \<leftarrow> parse_exfat_directory_chain drv child_path (re_first_cluster entry) (re_stream_flags entry) sector m s;
            parse_exfat_subdirectories drv sector is m s
          })"

definition parse_exfat_root_directory ::
  "'a block_state_scheme other_drivers \<Rightarrow> u8 list \<Rightarrow> mounted_volume \<Rightarrow> 'a block_state_scheme \<Rightarrow> (mounted_volume \<times> 'a block_state_scheme) option" where
  "parse_exfat_root_directory drv sector m s =
     do {
       (m, s) \<leftarrow> parse_exfat_directory_chain drv ''/'' (ex_root_dir_cluster (bm_exfat m)) 0 sector (reset_exfat_root_entries m) s;
       (m, s) \<leftarrow> parse_exfat_subdirectories drv sector [0..<BLOCKFS_MAX_ROOT_ENTRIES] m s;
       (m, s) \<leftarrow> parse_exfat_allocation_bitmap drv sector m s;
       (m, s) \<leftarrow> plan_exfat_root_directory_create drv sector m s;
       plan_exfat_create_transaction drv sector (encode_exfat_create_plan_entries m) s
     }"

section \<open>FAT32 directories\<close>

fun short_part :: "u8 list \<Rightarrow> nat \<Rightarrow> nat \<Rightarrow> string \<Rightarrow> nat list \<Rightarrow> string" where
  "short_part sector off out_len out [] = out"
| "short_part sector off out_len out (i # is) =
     (if length out + 1 < out_len then short_part sector off out_len (out @ [byte_char (sector ! (off + i))]) is else out)"

definition fat32_short_name_to_text :: "u8 list \<Rightarrow> nat \<Rightarrow> nat \<Rightarrow> string" where
  "fat32_short_name_to_text sector off out_len =
     (let name_len = padded_length sector off 8;
          ext_len = padded_length sector (off + 8) 3;
          out = short_part sector off out_len [] [0..<name_len];
          out = (if ext_len > 0 \<and> length out + 1 < out_len then out @ ''.'' else out)
      in short_part sector (off + 8) out_len out [0..<ext_len])"

definition fat32_short_name_checksum :: "u8 list \<Rightarrow> nat \<Rightarrow> u8" where
  "fat32_short_name_checksum sector off =
     fold (\<lambda>i sum. (if sum AND 1 \<noteq> 0 then 0x80 else 0) + drop_bit 1 sum + sector ! (off + i)) [0..<11] 0"

definition fat32_lfn_reset :: "fat32_lfn_state \<Rightarrow> fat32_lfn_state" where
  "fat32_lfn_reset l = \<lparr>lf_name = (lf_name l)[0 := NUL], lf_checksum = 0, lf_total_entries = 0, lf_seen_entries = 0,
     lf_present = False, lf_valid = False\<rparr>"

definition lfn_offsets :: "nat list" where
  "lfn_offsets = [1, 3, 5, 7, 9, 14, 16, 18, 20, 22, 24, 28, 30]"

fun lfn_chars :: "u8 list \<Rightarrow> nat \<Rightarrow> nat \<Rightarrow> nat list \<Rightarrow> char list \<Rightarrow> char list" where
  "lfn_chars sector off base [] name = name"
| "lfn_chars sector off base (i # is) name =
     (let ch = read_le16 sector (off + lfn_offsets ! i);
          out_index = base + i
      in if ch = 0 then (if out_index < 64 then name[out_index := NUL] else name)
         else if ch = 0xffff then name
         else if out_index + 1 \<ge> 64 then lfn_chars sector off base is name
         else lfn_chars sector off base is (name[out_index := (if ch < 0x80 then char_of (unat ch) else CHR ''?'')]))"

definition fat32_lfn_decode_entry :: "u8 list \<Rightarrow> nat \<Rightarrow> fat32_lfn_state \<Rightarrow> fat32_lfn_state" where
  "fat32_lfn_decode_entry sector off l =
     (let order = sector ! off AND 0x1f;
          sequence = sector ! off
      in if order = 0 \<or> order > 5 then fat32_lfn_reset l
         else if sequence AND 0x40 = 0 \<and> (\<not> lf_valid l \<or> order > lf_total_entries l \<or> sector ! (off + 13) \<noteq> lf_checksum l)
         then fat32_lfn_reset l
         else
           let l = (if sequence AND 0x40 \<noteq> 0
                    then (fat32_lfn_reset l)\<lparr>lf_total_entries := order, lf_checksum := sector ! (off + 13), lf_valid := True\<rparr> else l);
               base = (unat order - 1) * 13
           in l\<lparr>lf_name := lfn_chars sector off base [0..<13] (lf_name l), lf_seen_entries := lf_seen_entries l + 1, lf_present := True\<rparr>)"

definition fat32_entry_valid :: "u8 list \<Rightarrow> nat \<Rightarrow> bool" where
  "fat32_entry_valid sector off \<longleftrightarrow>
     (let first = sector ! off; attr = sector ! (off + 11) in
      first \<noteq> 0x00 \<and> first \<noteq> 0xe5 \<and> first \<noteq> 0x05 \<and> first \<noteq> char_byte CHR ''.'' \<and> attr \<noteq> 0x0f \<and> attr AND 0x08 = 0)"

text \<open>The entries of one sector, at the given offsets; the flag says that the end mark was met.\<close>

fun parse_fat32_entries ::
  "u8 list \<Rightarrow> string \<Rightarrow> nat list \<Rightarrow> fat32_lfn_state \<Rightarrow> mounted_volume \<Rightarrow> bool \<times> fat32_lfn_state \<times> mounted_volume" where
  "parse_fat32_entries sector parent [] l m = (False, l, m)"
| "parse_fat32_entries sector parent (off # offs) l m =
     (let attr = sector ! (off + 11) in
      if sector ! off = 0x00 then (True, l, m)
      else if sector ! off = 0xe5 then parse_fat32_entries sector parent offs (fat32_lfn_reset l) m
      else if attr = 0x0f then parse_fat32_entries sector parent offs (fat32_lfn_decode_entry sector off l) m
      else if \<not> fat32_entry_valid sector off then parse_fat32_entries sector parent offs (fat32_lfn_reset l) m
      else
        let first_cluster = push_bit 16 (ucast (read_le16 sector (off + 20))) OR ucast (read_le16 sector (off + 26)) :: u32;
            sz = ucast (read_le32 sector (off + 28)) :: u64;
            name = (if lf_valid l \<and> lf_present l \<and> lf_name l ! 0 \<noteq> NUL \<and> lf_seen_entries l = lf_total_entries l \<and>
                       lf_checksum l = fat32_short_name_checksum sector off
                    then copy_limited 64 (lf_name l) else fat32_short_name_to_text sector off 64)
        in parse_fat32_entries sector parent offs (fat32_lfn_reset l)
             (add_exfat_root_entry parent name sz first_cluster (ucast attr) 0 m))"

fun parse_fat32_sectors ::
  "'a block_state_scheme other_drivers \<Rightarrow> string \<Rightarrow> u64 \<Rightarrow> nat \<Rightarrow> u64 \<Rightarrow> u8 list \<Rightarrow> fat32_lfn_state \<Rightarrow> mounted_volume \<Rightarrow> 'a block_state_scheme \<Rightarrow>
   (mounted_volume \<times> 'a block_state_scheme) option" where
  "parse_fat32_sectors drv parent lba 0 sector_index sector l m s = Some (m, s)"
| "parse_fat32_sectors drv parent lba (Suc n) sector_index sector l m s =
     do {
       (ok, sector, s) \<leftarrow> read_block drv m (lba + sector_index) sector s;
       if \<not> ok then Some (m, s)
       else case parse_fat32_entries sector parent (map (\<lambda>i. i * 32) [0..<16]) l m of (stop, l, m) \<Rightarrow>
         if stop then Some (m, s) else parse_fat32_sectors drv parent lba n (sector_index + 1) sector l m s
     }"

text \<open>The state of the long name is a local variable; \<open>junk\<close> is what its array holds before it is reset.\<close>

definition parse_fat32_directory_cluster ::
  "'a block_state_scheme other_drivers \<Rightarrow> char list \<Rightarrow> string \<Rightarrow> u32 \<Rightarrow> u8 list \<Rightarrow> mounted_volume \<Rightarrow> 'a block_state_scheme \<Rightarrow>
   (mounted_volume \<times> 'a block_state_scheme) option" where
  "parse_fat32_directory_cluster drv junk parent cluster sector m s =
     (let lba = fat32_cluster_lba m cluster;
          l = fat32_lfn_reset \<lparr>lf_name = junk, lf_checksum = 0, lf_total_entries = 0, lf_seen_entries = 0, lf_present = False, lf_valid = False\<rparr>
      in if lba = U64_FAIL then Some (m, s)
         else parse_fat32_sectors drv parent lba (unat (fa_sectors_per_cluster (bm_fat32 m))) 0 sector l m s)"

fun parse_fat32_clusters ::
  "'a block_state_scheme other_drivers \<Rightarrow> char list \<Rightarrow> string \<Rightarrow> nat \<Rightarrow> u32 \<Rightarrow> u8 list \<Rightarrow> mounted_volume \<Rightarrow> 'a block_state_scheme \<Rightarrow>
   (mounted_volume \<times> 'a block_state_scheme) option" where
  "parse_fat32_clusters drv junk parent 0 cluster sector m s = Some (m, s)"
| "parse_fat32_clusters drv junk parent (Suc n) cluster sector m s =
     do {
       (m, s) \<leftarrow> parse_fat32_directory_cluster drv junk parent cluster sector m s;
       (entry, s) \<leftarrow> fat32_read_fat_entry drv m cluster sector s;
       case entry of
         None \<Rightarrow> Some (m, s)
       | Some nxt \<Rightarrow> if nxt \<ge> 0x0ffffff8 \<or> \<not> fat32_cluster_valid m nxt then Some (m, s)
                     else parse_fat32_clusters drv junk parent n nxt sector m s
     }"

definition parse_fat32_directory_chain ::
  "'a block_state_scheme other_drivers \<Rightarrow> char list \<Rightarrow> string \<Rightarrow> u32 \<Rightarrow> u8 list \<Rightarrow> mounted_volume \<Rightarrow> 'a block_state_scheme \<Rightarrow>
   (mounted_volume \<times> 'a block_state_scheme) option" where
  "parse_fat32_directory_chain drv junk parent first_cluster sector m s =
     parse_fat32_clusters drv junk parent (unat (fat32_cluster_count m)) first_cluster sector m s"

fun parse_fat32_subdirectories ::
  "'a block_state_scheme other_drivers \<Rightarrow> char list \<Rightarrow> u8 list \<Rightarrow> nat list \<Rightarrow> mounted_volume \<Rightarrow> 'a block_state_scheme \<Rightarrow>
   (mounted_volume \<times> 'a block_state_scheme) option" where
  "parse_fat32_subdirectories drv junk sector [] m s = Some (m, s)"
| "parse_fat32_subdirectories drv junk sector (i # is) m s =
     (if \<not> i < length (bm_root_entries m) then Some (m, s)
      else
        let entry = bm_root_entries m ! i in
        if \<not> re_is_dir entry \<or> \<not> fat32_cluster_valid m (re_first_cluster entry) then parse_fat32_subdirectories drv junk sector is m s
        else case join_child_path 64 (re_parent entry) (re_name entry) of
          None \<Rightarrow> parse_fat32_subdirectories drv junk sector is m s
        | Some child_path \<Rightarrow> do {
            (m, s) \<leftarrow> parse_fat32_directory_chain drv junk child_path (re_first_cluster entry) sector m s;
            parse_fat32_subdirectories drv junk sector is m s
          })"

definition parse_fat32_root_directory ::
  "'a block_state_scheme other_drivers \<Rightarrow> char list \<Rightarrow> u8 list \<Rightarrow> mounted_volume \<Rightarrow> 'a block_state_scheme \<Rightarrow>
   (mounted_volume \<times> 'a block_state_scheme) option" where
  "parse_fat32_root_directory drv junk sector m s =
     do {
       (m, s) \<leftarrow> parse_fat32_directory_chain drv junk ''/'' (fa_root_dir_cluster (bm_fat32 m)) sector (reset_exfat_root_entries m) s;
       parse_fat32_subdirectories drv junk sector [0..<BLOCKFS_MAX_ROOT_ENTRIES] m s
     }"

section \<open>The report\<close>

definition append_char :: "nat \<Rightarrow> char \<Rightarrow> string \<Rightarrow> string" where
  "append_char buffer_len c buffer = (if length buffer + 1 \<ge> buffer_len then buffer else buffer @ [c])"

definition append_string :: "nat \<Rightarrow> string \<Rightarrow> string \<Rightarrow> string" where
  "append_string buffer_len v buffer = fold (append_char buffer_len) (cstr v) buffer"

definition append_u64 :: "nat \<Rightarrow> u64 \<Rightarrow> string \<Rightarrow> string" where
  "append_u64 buffer_len v buffer = fold (append_char buffer_len) (if v = 0 then ''0'' else u64_digits 20 v []) buffer"

definition append_hex_nibble :: "nat \<Rightarrow> u8 \<Rightarrow> string \<Rightarrow> string" where
  "append_hex_nibble buffer_len v buffer =
     (let v = v AND 0xf in append_char buffer_len (char_of (if v < 10 then 48 + unat v else 97 + unat v - 10)) buffer)"

definition append_hex_byte :: "nat \<Rightarrow> u8 \<Rightarrow> string \<Rightarrow> string" where
  "append_hex_byte buffer_len v buffer = append_hex_nibble buffer_len v (append_hex_nibble buffer_len (drop_bit 4 v) buffer)"

definition append_hex_bytes :: "nat \<Rightarrow> u8 list \<Rightarrow> string \<Rightarrow> string" where
  "append_hex_bytes buffer_len data buffer = fold (append_hex_byte buffer_len) data buffer"

text \<open>The report is a sequence of labels and values; a line break starts the labels the source begins with one.\<close>

datatype report_item = Label string | Line string | Number u64 | Hex u8 | HexBytes "u8 list"

primrec append_item :: "nat \<Rightarrow> report_item \<Rightarrow> string \<Rightarrow> string" where
  "append_item n (Label v) = append_string n v"
| "append_item n (Line v) = append_string n (CHR 0x0A # v)"
| "append_item n (Number v) = append_u64 n v"
| "append_item n (Hex v) = append_hex_byte n v"
| "append_item n (HexBytes vs) = append_hex_bytes n vs"

abbreviation flag :: "bool \<Rightarrow> u64" where "flag b \<equiv> of_bool b"

fun separated :: "string \<Rightarrow> u32 list \<Rightarrow> report_item list" where
  "separated sep [] = []"
| "separated sep [v] = [Number (ucast v)]"
| "separated sep (v # vs) = Number (ucast v) # Label sep # separated sep vs"

definition append_exfat_allocation_plan :: "exfat_boot_info \<Rightarrow> report_item list" where
  "append_exfat_allocation_plan e =
     (let p = ex_allocation_plan e in
      [Line ''allocation_plan_requested_clusters: '', Number (ap_requested_clusters p),
       Line ''allocation_plan_found_clusters: '', Number (ap_found_clusters p),
       Line ''allocation_plan_ready: '', Number (flag (ap_ready p)),
       Line ''allocation_plan_clusters: ''] @
      separated '' '' (take (unat (ap_found_clusters p)) (take EXFAT_ALLOC_PLAN_CLUSTER_COUNT (ap_clusters p))) @
      [Line ''allocation_plan_fat_chain: ''] @
      (if \<not> ap_ready p then [Label ''unavailable'']
       else separated ''->'' (take EXFAT_ALLOC_PLAN_CLUSTER_COUNT (ap_clusters p)) @ [Label ''->EOF'']))"

definition append_exfat_create_plan :: "exfat_boot_info \<Rightarrow> report_item list" where
  "append_exfat_create_plan e =
     (let c = ex_create_plan e in
      [Line ''directory_plan_path: /'', Label EXFAT_CREATE_PLAN_NAME,
       Line ''directory_plan_name_chars: '', Number (of_nat EXFAT_CREATE_PLAN_NAME_CHARS),
       Line ''directory_plan_required_entries: '', Number (cp_required_entries c),
       Line ''directory_plan_found_entries: '', Number (cp_found_entries c),
       Line ''directory_plan_ready: '', Number (flag (cp_ready c)),
       Line ''directory_plan_cluster: '', Number (ucast (cp_directory_cluster c)),
       Line ''directory_plan_cluster_index: '', Number (cp_directory_cluster_index c),
       Line ''directory_plan_sector_index: '', Number (cp_sector_index c),
       Line ''directory_plan_first_slot: '', Number (cp_first_slot c),
       Line ''directory_plan_entry_lba: '', Number (cp_entry_lba c),
       Line ''directory_entry_plan_ready: '', Number (flag (cp_entries_ready c)),
       Line ''directory_entry_plan_first_cluster: '', Number (ucast (cp_first_cluster c)),
       Line ''directory_entry_plan_file_size: '', Number (cp_file_size c),
       Line ''directory_entry_plan_name_hash: '', Number (ucast (cp_name_hash c)),
       Line ''directory_entry_plan_checksum: '', Number (ucast (cp_entry_set_checksum c)),
       Line ''directory_entry0_hex: '', HexBytes (take 32 (cp_entries c)),
       Line ''directory_entry1_hex: '', HexBytes (take 32 (drop 32 (cp_entries c))),
       Line ''directory_entry2_hex: '', HexBytes (take 32 (drop 64 (cp_entries c)))])"

definition fat_plan_item :: "exfat_boot_info \<Rightarrow> nat \<Rightarrow> report_item list" where
  "fat_plan_item e i =
     (let t = ex_transaction e in
      (if i > 0 then [Label '' ''] else []) @
      [Number (ucast (ap_clusters (ex_allocation_plan e) ! i)), Label ''@'', Number (tx_fat_offsets t ! i), Label '':'',
       Number (ucast (tx_fat_old_values t ! i)), Label ''->'',
       if tx_fat_new_values t ! i = 0xffffffff then Label ''EOF'' else Number (ucast (tx_fat_new_values t ! i))])"

definition append_exfat_transaction_plan :: "exfat_boot_info \<Rightarrow> report_item list" where
  "append_exfat_transaction_plan e =
     (let t = ex_transaction e; p = ex_patched e; c = ex_commit e in
      [Line ''transaction_plan_ready: '', Number (flag (tx_ready t)),
       Line ''transaction_plan_write_count: '', Number (tx_write_count t),
       Line ''transaction_bitmap_lba: '', Number (tx_bitmap_lba t),
       Line ''transaction_bitmap_byte_offset: '', Number (tx_bitmap_byte_offset t),
       Line ''transaction_bitmap_old_hex: '', Hex (tx_bitmap_old_value t),
       Line ''transaction_bitmap_new_hex: '', Hex (tx_bitmap_new_value t),
       Line ''transaction_bitmap_mask_hex: '', Hex (tx_bitmap_mask t),
       Line ''transaction_fat_lba: '', Number (tx_fat_lba t),
       Line ''transaction_fat_plan: ''] @
      concat (map (fat_plan_item e) [0..<EXFAT_ALLOC_PLAN_CLUSTER_COUNT]) @
      [Line ''transaction_directory_lba: '', Number (tx_directory_lba t),
       Line ''transaction_directory_byte_offset: '', Number (tx_directory_byte_offset t),
       Line ''transaction_directory_byte_count: '', Number (tx_directory_byte_count t),
       Line ''patched_transaction_ready: '', Number (flag (pt_ready p)),
       Line ''patched_bitmap_value_hex: '', Hex (pt_bitmap_value p),
       Line ''patched_fat_chain: ''] @
      separated ''->'' (take EXFAT_ALLOC_PLAN_CLUSTER_COUNT (ap_clusters (ex_allocation_plan e))) @
      [Label ''->EOF'',
       Line ''patched_directory_checksum: '', Number (ucast (pt_directory_checksum p)),
       Line ''patched_directory_first_cluster: '', Number (ucast (pt_directory_first_cluster p)),
       Line ''patched_directory_file_size: '', Number (pt_directory_file_size p),
       Line ''patched_directory_name_length: '', Number (ucast (pt_directory_name_length p)),
       Line ''patched_directory_name_matches: '', Number (flag (pt_directory_name_matches p)),
       Line ''commit_supported: '', Number (flag (cm_supported c)),
       Line ''commit_attempted: '', Number (flag (cm_attempted c)),
       Line ''commit_ready: '', Number (flag (cm_ready c)),
       Line ''commit_write_count: '', Number (cm_write_count c),
       Line ''commit_verified: '', Number (flag (cm_verified c))])"

definition exfat_report :: "mounted_volume \<Rightarrow> report_item list" where
  "exfat_report m =
     (let e = bm_exfat m; b = ex_bitmap e; u = ex_upcase e; present = (\<lambda>b. Label (if b then ''present'' else ''missing'')) in
      [Label ''detected_fs: exfat'', Line ''bytes_per_sector: '', Number (one_shifted_by (ex_bytes_per_sector_shift e)),
       Line ''sectors_per_cluster: '', Number (one_shifted_by (ex_sectors_per_cluster_shift e)),
       Line ''partition_offset: '', Number (ex_partition_offset e),
       Line ''volume_length: '', Number (ex_volume_length e),
       Line ''fat_offset: '', Number (ucast (ex_fat_offset e)),
       Line ''fat_length: '', Number (ucast (ex_fat_length e)),
       Line ''cluster_heap_offset: '', Number (ucast (ex_cluster_heap_offset e)),
       Line ''cluster_count: '', Number (ucast (ex_cluster_count e)),
       Line ''root_dir_cluster: '', Number (ucast (ex_root_dir_cluster e)),
       Line ''number_of_fats: '', Number (ucast (ex_number_of_fats e)),
       Line ''percent_in_use: '', Number (ucast (ex_percent_in_use e)),
       Line ''allocation_bitmap: '', present (ab_present b),
       Line ''bitmap_cluster: '', Number (ucast (ab_cluster b)),
       Line ''bitmap_size: '', Number (ab_size b),
       Line ''bitmap_scanned_clusters: '', Number (ab_scanned_clusters b),
       Line ''bitmap_used_clusters: '', Number (ab_used_clusters b),
       Line ''bitmap_free_clusters: '', Number (ab_free_clusters b),
       Line ''bitmap_first_free_cluster: '', Number (ucast (ab_first_free_cluster b)),
       Line ''bitmap_complete: '', Number (flag (ab_complete b))] @
      append_exfat_allocation_plan e @ append_exfat_create_plan e @ append_exfat_transaction_plan e @
      [Line ''upcase_table: '', present (uc_present u),
       Line ''upcase_cluster: '', Number (ucast (uc_cluster u)),
       Line ''upcase_size: '', Number (uc_size u),
       Line ''root_entries: '', Number (of_nat (length (bm_root_entries m))), Line []])"

definition fat32_report :: "mounted_volume \<Rightarrow> report_item list" where
  "fat32_report m =
     (let f = bm_fat32 m in
      [Label ''detected_fs: fat32'', Line ''bytes_per_sector: '', Number (ucast (fa_bytes_per_sector f)),
       Line ''sectors_per_cluster: '', Number (ucast (fa_sectors_per_cluster f)),
       Line ''reserved_sectors: '', Number (ucast (fa_reserved_sectors f)),
       Line ''number_of_fats: '', Number (ucast (fa_number_of_fats f)),
       Line ''total_sectors: '', Number (ucast (fa_total_sectors f)),
       Line ''fat_size_sectors: '', Number (ucast (fa_fat_size_sectors f)),
       Line ''root_dir_cluster: '', Number (ucast (fa_root_dir_cluster f)),
       Line ''fsinfo_sector: '', Number (ucast (fa_fsinfo_sector f)),
       Line ''backup_boot_sector: '', Number (ucast (fa_backup_boot_sector f)),
       Line ''hidden_sectors: '', Number (ucast (fa_hidden_sectors f)),
       Line ''volume_id: '', Number (ucast (fa_volume_id f)),
       Line ''volume_label: '', Label (fa_volume_label f),
       Line ''root_entries: '', Number (of_nat (length (bm_root_entries m))), Line []])"

definition build_info :: "nat \<Rightarrow> mounted_volume \<Rightarrow> string" where
  "build_info buffer_len m =
     (let b = bm_block m in
      fold (append_item buffer_len)
        ([Label ''TangPingOS block-backed mount'', Line ''device: '', Label (bi_name b),
          Line ''block_size: '', Number (bi_block_size b), Line ''blocks: '', Number (bi_block_count b),
          Line ''writable: '', Number (bi_writable b), Line []] @
         (if ex_present (bm_exfat m) then exfat_report m
          else if fa_present (bm_fat32 m) then fat32_report m
          else [Label ''detected_fs: unknown'', Line []])) [])"

section \<open>Files\<close>

definition read_from_buffer :: "u64 \<Rightarrow> u8 list \<Rightarrow> u64 \<Rightarrow> u8 list \<Rightarrow> u64 \<Rightarrow> u64 \<times> u8 list" where
  "read_from_buffer offset buffer buffer_len data data_len =
     (if offset \<ge> data_len then (0, buffer)
      else
        let available = data_len - offset;
            to_copy = (if buffer_len < available then buffer_len else available)
        in (to_copy, copy_bytes buffer 0 (drop (unat offset) data) (unat to_copy)))"

text \<open>The position of the last slash behind the first character, or 0.\<close>

definition path_slash :: "string \<Rightarrow> nat" where
  "path_slash path = fold (\<lambda>i slash. if path ! i = CHR ''/'' then i else slash) [1..<length path] 0"

definition find_exfat_root_entry :: "mounted_volume \<Rightarrow> string \<Rightarrow> exfat_root_entry option" where
  "find_exfat_root_entry m path =
     (if deref path \<noteq> CHR ''/'' then None
      else
        let slash = path_slash path in
        if slash \<noteq> 0 \<and> slash + 1 \<ge> 64 then None
        else
          let parent = (if slash = 0 then copy_limited 64 ''/'' else take slash path);
              name = (if slash = 0 then copy_limited 64 (drop 1 path) else copy_limited 64 (drop (slash + 1) path))
          in if deref name = NUL then None
             else find (\<lambda>e. chars_equal parent (re_parent e) \<and> chars_equal name (re_name e)) (bm_root_entries m))"

text \<open>The bytes one round of the loops copies at most: what is left of the sector.\<close>

definition sector_rest :: "u64 \<Rightarrow> u64 \<Rightarrow> u64" where
  "sector_rest cluster_size file_pos = 512 - file_pos mod cluster_size mod 512"

lemma min_word_less:
  fixes a n c :: u64
  assumes "c < n" "0 < a"
  shows "unat n - unat (c + (if n - c > a then a else n - c)) < unat n - unat c"
proof -
  define k where "k = (if n - c > a then a else n - c)"
  have nc: "unat (n - c) = unat n - unat c" using assms(1) by (simp add: unat_sub)
  have k: "0 < unat k" "unat k \<le> unat n - unat c" using assms nc by (auto simp: k_def word_less_nat_alt)
  then have "unat c + unat k \<le> unat n" using assms(1) by (simp add: word_less_nat_alt)
  then have "unat c + unat k < 18446744073709551616" by (rule le_less_trans) simp
  then have "unat (c + k) = unat c + unat k" by (simp add: unat_word_ariths)
  then show ?thesis using k assms(1) unfolding k_def [symmetric] by (simp add: word_less_nat_alt)
qed

lemma sector_rest_pos: "0 < sector_rest cluster_size file_pos"
proof -
  have "file_pos mod cluster_size mod 512 < 512" by (rule word_mod_less_divisor) simp
  then show ?thesis by (simp add: sector_rest_def word_less_nat_alt unat_sub word_le_nat_alt)
qed

text \<open>A file of a FAT32 volume. A failure ends the loop with what has been copied.\<close>

function read_fat32_loop ::
  "'a block_state_scheme other_drivers \<Rightarrow> mounted_volume \<Rightarrow> exfat_root_entry \<Rightarrow> u64 \<Rightarrow> u64 \<Rightarrow> u64 \<Rightarrow> u64 \<Rightarrow> u8 list \<Rightarrow> u8 list \<Rightarrow> 'a block_state_scheme \<Rightarrow>
   (u64 \<times> u8 list \<times> 'a block_state_scheme) option" where
  "read_fat32_loop drv m entry cluster_size offset buffer_len copied sector buffer s =
     (if \<not> copied < buffer_len then Some (copied, buffer, s)
      else
        let file_pos = offset + copied;
            file_cluster_index = file_pos div cluster_size;
            offset_in_cluster = file_pos mod cluster_size;
            sector_index = offset_in_cluster div 512;
            sector_offset = offset_in_cluster mod 512;
            available = sector_rest cluster_size file_pos;
            to_copy = (if buffer_len - copied > available then available else buffer_len - copied)
        in do {
          (cluster, s) \<leftarrow> fat32_resolve_cluster drv m (re_first_cluster entry) file_cluster_index sector s;
          case cluster of
            None \<Rightarrow> Some (copied, buffer, s)
          | Some cluster \<Rightarrow>
              let lba = fat32_cluster_lba m cluster in
              if lba = U64_FAIL \<or> sector_index \<ge> ucast (fa_sectors_per_cluster (bm_fat32 m)) then Some (copied, buffer, s)
              else do {
                (ok, sector, s) \<leftarrow> read_block drv m (lba + sector_index) sector s;
                if \<not> ok then Some (copied, buffer, s)
                else read_fat32_loop drv m entry cluster_size offset buffer_len (copied + to_copy) sector
                       (copy_bytes buffer (unat copied) (drop (unat sector_offset) sector) (unat to_copy)) s
              }
        })"
  by pat_completeness auto
termination
  by (relation "measure (\<lambda>(drv, m, entry, cluster_size, offset, buffer_len, copied, sector, buffer, s). unat buffer_len - unat copied)")
    (simp_all only: in_measure wf_measure min_word_less sector_rest_pos split_conv not_not)

declare read_fat32_loop.simps [simp del]

definition read_fat32_file ::
  "'a block_state_scheme other_drivers \<Rightarrow> u8 list \<Rightarrow> mounted_volume \<Rightarrow> exfat_root_entry \<Rightarrow> u64 \<Rightarrow> u8 list \<Rightarrow> u64 \<Rightarrow> 'a block_state_scheme \<Rightarrow>
   (u64 \<times> u8 list \<times> 'a block_state_scheme) option" where
  "read_fat32_file drv sector m entry offset buffer buffer_len s =
     (let cluster_size = ucast (fa_sectors_per_cluster (bm_fat32 m)) * 512 in
      if re_is_dir entry \<or> \<not> fat32_cluster_valid m (re_first_cluster entry) \<or> cluster_size = 0 \<or> offset \<ge> re_size entry
      then Some (0, buffer, s)
      else
        let buffer_len = (if buffer_len > re_size entry - offset then re_size entry - offset else buffer_len)
        in read_fat32_loop drv m entry cluster_size offset buffer_len 0 sector buffer s)"

text \<open>A file of an exFAT volume. A failure is the result of the whole read.\<close>

definition exfat_chunk :: "exfat_root_entry \<Rightarrow> u64 \<Rightarrow> u64 \<Rightarrow> u64 \<Rightarrow> u64 \<Rightarrow> u64" where
  "exfat_chunk entry cluster_size offset buffer_len copied =
     (let file_pos = offset + copied;
          available = sector_rest cluster_size file_pos;
          remaining = re_size entry - file_pos;
          to_copy = (if buffer_len - copied > available then available else buffer_len - copied)
      in if to_copy > remaining then remaining else to_copy)"

lemma exfat_chunk_less:
  assumes "copied < buffer_len" "offset + copied < re_size entry"
  shows "unat buffer_len - unat (copied + exfat_chunk entry cluster_size offset buffer_len copied) < unat buffer_len - unat copied"
proof -
  let ?a = "sector_rest cluster_size (offset + copied)" and ?r = "re_size entry - (offset + copied)"
  have r: "0 < ?r" using assms(2) unat_sub [OF less_imp_le [OF assms(2)]] by (simp add: word_less_nat_alt)
  have "exfat_chunk entry cluster_size offset buffer_len copied =
      (if buffer_len - copied > (if ?r < ?a then ?r else ?a) then (if ?r < ?a then ?r else ?a) else buffer_len - copied)"
    by (auto simp: exfat_chunk_def Let_def)
  then show ?thesis using min_word_less [OF assms(1), of "if ?r < ?a then ?r else ?a"] r sector_rest_pos by auto
qed

function read_exfat_loop ::
  "'a block_state_scheme other_drivers \<Rightarrow> mounted_volume \<Rightarrow> exfat_root_entry \<Rightarrow> u64 \<Rightarrow> u64 \<Rightarrow> u64 \<Rightarrow> u64 \<Rightarrow> u8 list \<Rightarrow> u8 list \<Rightarrow> 'a block_state_scheme \<Rightarrow>
   (u64 \<times> u8 list \<times> 'a block_state_scheme) option" where
  "read_exfat_loop drv m entry cluster_size offset buffer_len copied sector buffer s =
     (if \<not> (copied < buffer_len \<and> offset + copied < re_size entry) then Some (copied, buffer, s)
      else
        let file_pos = offset + copied;
            file_cluster_index = file_pos div cluster_size;
            offset_in_cluster = file_pos mod cluster_size;
            sector_index = offset_in_cluster div 512;
            sector_offset = offset_in_cluster mod 512;
            to_copy = exfat_chunk entry cluster_size offset buffer_len copied
        in do {
          (cluster, s) \<leftarrow> exfat_resolve_cluster drv m (re_first_cluster entry) (re_stream_flags entry) file_cluster_index sector s;
          case cluster of
            None \<Rightarrow> Some (U64_FAIL, buffer, s)
          | Some cluster \<Rightarrow>
              let lba = exfat_cluster_lba m cluster in
              if lba = U64_FAIL \<or> sector_index \<ge> one_shifted_by (ex_sectors_per_cluster_shift (bm_exfat m)) then Some (U64_FAIL, buffer, s)
              else do {
                (ok, sector, s) \<leftarrow> read_block drv m (lba + sector_index) sector s;
                if \<not> ok then Some (U64_FAIL, buffer, s)
                else read_exfat_loop drv m entry cluster_size offset buffer_len (copied + to_copy) sector
                       (copy_bytes buffer (unat copied) (drop (unat sector_offset) sector) (unat to_copy)) s
              }
        })"
  by pat_completeness auto
termination
  by (relation "measure (\<lambda>(drv, m, entry, cluster_size, offset, buffer_len, copied, sector, buffer, s). unat buffer_len - unat copied)")
    (simp_all only: in_measure wf_measure exfat_chunk_less split_conv not_not)

declare read_exfat_loop.simps [simp del]

definition read_exfat_root_file ::
  "'a block_state_scheme other_drivers \<Rightarrow> u8 list \<Rightarrow> mounted_volume \<Rightarrow> exfat_root_entry \<Rightarrow> u64 \<Rightarrow> u8 list \<Rightarrow> u64 \<Rightarrow> 'a block_state_scheme \<Rightarrow>
   (u64 \<times> u8 list \<times> 'a block_state_scheme) option" where
  "read_exfat_root_file drv sector m entry offset buffer buffer_len s =
     (let cluster_size = one_shifted_by (ex_sectors_per_cluster_shift (bm_exfat m)) * 512 in
      if re_is_dir entry \<or> \<not> exfat_cluster_valid m (re_first_cluster entry) \<or> cluster_size = 0 then Some (U64_FAIL, buffer, s)
      else if offset \<ge> re_size entry \<or> buffer_len = 0 then Some (0, buffer, s)
      else read_exfat_loop drv m entry cluster_size offset buffer_len 0 sector buffer s)"

section \<open>The file system\<close>

definition blockfs_read ::
  "'a block_state_scheme other_drivers \<Rightarrow> u8 list \<Rightarrow> mounted_volume \<Rightarrow> string \<Rightarrow> u64 \<Rightarrow> u8 list \<Rightarrow> u64 \<Rightarrow> 'a block_state_scheme \<Rightarrow>
   (u64 \<times> u8 list \<times> 'a block_state_scheme) option" where
  "blockfs_read drv sector m path offset buffer buffer_len s =
     (if chars_equal path ''/info.txt'' then
        let info = build_info BLOCKFS_INFO_MAX m in
        case read_from_buffer offset buffer buffer_len (map char_byte info) (of_nat (length info)) of (n, buffer) \<Rightarrow> Some (n, buffer, s)
      else if chars_equal path ''/sector0.bin'' then
        if bi_block_size (bm_block m) \<noteq> 512 then Some (U64_FAIL, buffer, s)
        else do {
          (ok, sector, s) \<leftarrow> read_block drv m 0 sector s;
          if \<not> ok then Some (U64_FAIL, buffer, s)
          else case read_from_buffer offset buffer buffer_len sector 512 of (n, buffer) \<Rightarrow> Some (n, buffer, s)
        }
      else case find_exfat_root_entry m path of
        None \<Rightarrow> Some (U64_FAIL, buffer, s)
      | Some entry \<Rightarrow>
          if fa_present (bm_fat32 m) then read_fat32_file drv sector m entry offset buffer buffer_len s
          else read_exfat_root_file drv sector m entry offset buffer buffer_len s)"

definition blockfs_list :: "mounted_volume \<Rightarrow> 's vfs_list_fn" where
  "blockfs_list m path index s =
     (if chars_equal path ''/'' \<and> index = 0 then
        (1, Some \<lparr>de_name = copy_limited 64 ''info.txt'', de_type = VFS_DIRENT_TYPE_FILE, de_size = 0\<rparr>, s)
      else if chars_equal path ''/'' \<and> index = 1 then
        (1, Some \<lparr>de_name = copy_limited 64 ''sector0.bin'', de_type = VFS_DIRENT_TYPE_FILE, de_size = 512\<rparr>, s)
      else
        let index = (if chars_equal path ''/'' then index - 2 else index);
            children = filter (\<lambda>e. chars_equal (re_parent e) path) (bm_root_entries m)
        in if index < length children then
             let entry = children ! index in
             (1, Some \<lparr>de_name = copy_limited 64 (re_name entry),
                       de_type = (if re_is_dir entry then VFS_DIRENT_TYPE_DIR else VFS_DIRENT_TYPE_FILE), de_size = re_size entry\<rparr>, s)
           else (0, None, s))"

definition blockfs_size :: "mounted_volume \<Rightarrow> 's vfs_size_fn" where
  "blockfs_size m path s =
     (if chars_equal path ''/info.txt'' then of_nat (length (build_info BLOCKFS_INFO_MAX m))
      else if chars_equal path ''/sector0.bin'' then 512
      else case find_exfat_root_entry m path of None \<Rightarrow> U64_FAIL | Some entry \<Rightarrow> re_size entry, s)"

text \<open>
  Mounting takes the first slot that is not in use. In the mount table of the VFS the operations are functions of the mounted
  volume; a read of a device that does not end has no value there.
\<close>

definition mount_volume ::
  "'a block_state_scheme other_drivers \<Rightarrow> char list \<Rightarrow> u8 list \<Rightarrow> mounted_volume \<Rightarrow> 'a block_state_scheme \<Rightarrow>
   (mounted_volume \<times> 'a block_state_scheme) option" where
  "mount_volume drv junk sector m s =
     do {
       (ok, sector, s) \<leftarrow> read_block drv m 0 sector s;
       if \<not> ok then Some (m, s)
       else
         let m = parse_exfat_boot_sector sector m in
         do {
           (m, s) \<leftarrow> (if ex_present (bm_exfat m) then parse_exfat_root_directory drv sector m s else Some (m, s));
           if ex_present (bm_exfat m) then Some (m, s)
           else
             let m = parse_fat32_boot_sector sector m in
             if fa_present (bm_fat32 m) then parse_fat32_root_directory drv junk sector m s else Some (m, s)
         }
     }"

definition blockfs_mount ::
  "'a block_state_scheme other_drivers \<Rightarrow> char list \<Rightarrow> u8 list \<Rightarrow> u64 \<Rightarrow> string option \<Rightarrow> mounted_volume list \<Rightarrow>
   'a block_state_scheme mount_table \<Rightarrow> 'a block_state_scheme \<Rightarrow>
   (int \<times> mounted_volume list \<times> 'a block_state_scheme mount_table \<times> 'a block_state_scheme) option" where
  "blockfs_mount drv junk sector block_index mount_path ms fss s =
     (case find (\<lambda>i. \<not> bm_in_use (ms ! i)) [0..<BLOCKFS_MAX_MOUNTS] of
        None \<Rightarrow> Some (-1, ms, fss, s)
      | Some i \<Rightarrow>
          case block_get_info block_index s of
            None \<Rightarrow> Some (-1, ms, fss, s)
          | Some info \<Rightarrow>
              let m = (ms ! i)\<lparr>bm_block := info\<rparr> in
              if bi_block_size info \<noteq> 512 then Some (-1, ms[i := m], fss, s)
              else
                let m = reset_exfat_root_entries (m\<lparr>bm_in_use := True, bm_block_index := block_index,
                          bm_source := copy_limited 64 (bi_name info), bm_exfat := zero_exfat, bm_fat32 := zero_fat32\<rparr>)
                in do {
                  (m, s) \<leftarrow> mount_volume drv junk sector m s;
                  case vfs_register_fs_mount fss ''blkfs'' mount_path (Some (bm_source m))
                         (Some (\<lambda>path offset buffer buffer_len s. the (blockfs_read drv sector m path offset buffer buffer_len s)))
                         (Some (blockfs_list m)) None (Some (blockfs_size m)) None None of (r, fss) \<Rightarrow>
                    if r \<noteq> 0 then Some (-1, ms[i := m\<lparr>bm_in_use := False\<rparr>], fss, s)
                    else Some (0, ms[i := m], fss, s)
                })"

end
