(* ===== verification/Spec2Isabelle.thy ===== *)
theory Spec2Isabelle
  imports C_Strings Physical_Memory Paging Page_Tables Kernel_Heap Usercopy Boot_Files Input Console Terminal_Input Elf_Loading File_Streams Blockfs
begin

text \<open>
  A verification development for TangPingOS, a small x86-64 kernel in C.
\<close>

end
